(* ===== verification/Gas_Prelude.thy ===== *)
theory Gas_Prelude
  imports Complex_Main "HOL-Library.Word" "HOL-Library.Signed_Division"
begin

text \<open>
  What the components of the development share: the Go integer types the sources use and
  the operations of the language on them, the contract of saturating unsigned arithmetic
  (two files of the program implement it), and generic lemmas on lists, options and words.

  A Go \<open>uint64\<close> is a \<open>64 word\<close>, whose arithmetic wraps. A Go \<open>int64\<close> (and \<open>int\<close>, which is
  64 bits wide on the platforms the program is built for) is an \<open>int\<close> whose every addition
  that can leave the range is written with \<open>i64_wrap\<close>. A \<open>big.Int\<close> is an \<open>int\<close>, a pointer
  or an SQL NULL an \<open>option\<close>.
\<close>

named_theorems nat_of_word \<open>the value of a machine operation as a natural number\<close>
named_theorems gas_invariants \<open>invariants the operations of a component keep\<close>

section \<open>Go integers\<close>

type_synonym u64 = "64 word"
type_synonym byte = "8 word"
type_synonym i64 = int
type_synonym bigint = int

definition MaxUint64 :: u64 where
  "MaxUint64 = 0xFFFFFFFFFFFFFFFF"

definition MaxInt64 :: i64 where
  "MaxInt64 = 9223372036854775807"

definition MinInt64 :: i64 where
  "MinInt64 = - 9223372036854775808"

definition is_i64 :: "int \<Rightarrow> bool" where
  "is_i64 v \<longleftrightarrow> MinInt64 \<le> v \<and> v \<le> MaxInt64"

text \<open>Two's complement wrap-around of an \<open>int64\<close> result.\<close>

definition i64_wrap :: "int \<Rightarrow> i64" where
  "i64_wrap v = (v + 9223372036854775808) mod 18446744073709551616 - 9223372036854775808"

text \<open>\<open>big.Int.Div\<close> is Euclidean: the remainder is never negative.\<close>

definition big_Div :: "bigint \<Rightarrow> bigint \<Rightarrow> bigint" where
  "big_Div x y = (if 0 < y then x div y else - (x div (- y)))"

text \<open>The conversion \<open>uint64(v)\<close> of an \<open>int64\<close>, and back.\<close>

definition u64_of_i64 :: "i64 \<Rightarrow> u64" where
  "u64_of_i64 v = word_of_int v"

definition i64_of_u64 :: "u64 \<Rightarrow> i64" where
  "i64_of_u64 v = i64_wrap (uint v)"

lemma unat_MaxUint64 [simp, nat_of_word]: "unat MaxUint64 = 18446744073709551615"
  by (simp add: MaxUint64_def)

lemma u64_bound: "unat (a :: u64) \<le> 18446744073709551615"
proof -
  have "unat a < 2 ^ LENGTH(64)" by (rule unsigned_less)
  then show ?thesis by simp
qed

lemma u64_le_MaxUint64 [simp]: "a \<le> MaxUint64"
  by (simp add: word_le_nat_alt u64_bound)

lemma unat_next: "b < (c :: u64) \<Longrightarrow> unat (b + 1) = Suc (unat b)"
  using u64_bound [of c] by (simp add: word_less_nat_alt unat_word_ariths)

lemma i64_wrap_id: "is_i64 v \<Longrightarrow> i64_wrap v = v"
  by (simp add: is_i64_def i64_wrap_def MinInt64_def MaxInt64_def)

lemma is_i64_wrap [simp]: "is_i64 (i64_wrap v)"
proof -
  have "0 \<le> (v + 9223372036854775808) mod 18446744073709551616"
    and "(v + 9223372036854775808) mod 18446744073709551616 < 18446744073709551616"
    by simp_all
  then show ?thesis
    by (simp add: is_i64_def i64_wrap_def MinInt64_def MaxInt64_def)
qed

lemma i64_wrap_add_left [simp]: "i64_wrap (i64_wrap a + b) = i64_wrap (a + b)"
  by (simp add: i64_wrap_def mod_simps algebra_simps)

lemma i64_wrap_add_right [simp]: "i64_wrap (a + i64_wrap b) = i64_wrap (a + b)"
  using i64_wrap_add_left [of b a] by (simp add: add.commute)

lemma i64_wrap_high:
  assumes "MaxInt64 < v" and "v \<le> 2 * MaxInt64"
  shows "i64_wrap v = v - 18446744073709551616"
proof -
  have "(v + 9223372036854775808) mod 18446744073709551616
      = (v + 9223372036854775808 - 18446744073709551616) mod 18446744073709551616"
    by (simp only: minus_mod_self2)
  also have "\<dots> = v + 9223372036854775808 - 18446744073709551616"
    using assms by (intro mod_pos_pos_trivial) (simp_all add: MaxInt64_def)
  finally show ?thesis by (simp add: i64_wrap_def)
qed

lemma i64_wrap_low:
  assumes "v < MinInt64" and "2 * MinInt64 \<le> v"
  shows "i64_wrap v = v + 18446744073709551616"
proof -
  have "(v + 9223372036854775808) mod 18446744073709551616
      = (v + 9223372036854775808 + 18446744073709551616) mod 18446744073709551616"
    by (simp only: mod_add_self2)
  also have "\<dots> = v + 9223372036854775808 + 18446744073709551616"
    using assms by (intro mod_pos_pos_trivial) (simp_all add: MinInt64_def)
  finally show ?thesis by (simp add: i64_wrap_def)
qed

lemma is_i64_0 [simp]: "is_i64 0"
  by (simp add: is_i64_def MinInt64_def MaxInt64_def)

lemma i64_wrap_0 [simp]: "i64_wrap 0 = 0"
  by (simp add: i64_wrap_id)

lemma uint_u64_of_i64: "0 \<le> v \<Longrightarrow> is_i64 v \<Longrightarrow> uint (u64_of_i64 v) = v"
  by (simp add: u64_of_i64_def is_i64_def MaxInt64_def uint_word_of_int)

lemma unat_u64_of_i64: "0 \<le> v \<Longrightarrow> is_i64 v \<Longrightarrow> unat (u64_of_i64 v) = nat v"
  by (metis uint_u64_of_i64 unat_eq_nat_uint)

lemma sdiv_nonneg: "0 \<le> a \<Longrightarrow> 0 \<le> (b :: int) \<Longrightarrow> a sdiv b = a div b"
  by (cases "a = 0"; cases "b = 0") (auto simp: signed_divide_int_def)

lemma int_div_le:
  assumes "0 \<le> n" and "0 \<le> (d :: int)"
  shows "n div d \<le> n"
proof (cases "d = 0")
  case False
  then show ?thesis using zdiv_mono2 [of n 1 d] assms by simp
qed (use assms in simp)

lemma int_div_mono:
  assumes "m \<le> n" and "0 \<le> (d :: int)"
  shows "m div d \<le> n div d"
  using assms by (cases "d = 0") (auto intro: zdiv_mono1)

section \<open>Saturating unsigned arithmetic as an interface\<close>

definition sat64 :: "nat \<Rightarrow> nat" where
  "sat64 n = min n 18446744073709551615"

lemma sat64_mono: "m \<le> n \<Longrightarrow> sat64 m \<le> sat64 n"
  by (auto simp: sat64_def)

lemma sat64_id: "n \<le> 18446744073709551615 \<Longrightarrow> sat64 n = n"
  by (simp add: sat64_def)

lemma sat64_le: "sat64 n \<le> n"
  by (simp add: sat64_def)

lemma sat64_le_max: "sat64 n \<le> 18446744073709551615"
  by (simp add: sat64_def)

lemma sat64_add_left: "sat64 (sat64 m + n) = sat64 (m + n)"
  by (auto simp: sat64_def)

lemma sat64_add_right: "sat64 (m + sat64 n) = sat64 (m + n)"
  by (auto simp: sat64_def)

lemma sat64_unat [simp]: "sat64 (unat (a :: u64)) = unat a"
  by (simp add: sat64_id u64_bound)

text \<open>
  Both \<open>internal/pricer\<close> and \<open>internal/nitro\<close> carry their own saturating addition and
  multiplication, written differently. The contract they share is that the result is the
  exact one clamped to the largest \<open>uint64\<close>; the lemmas below follow from it alone.
\<close>

locale saturating_u64 =
  fixes uadd :: "u64 \<Rightarrow> u64 \<Rightarrow> u64"
    and umul :: "u64 \<Rightarrow> u64 \<Rightarrow> u64"
  assumes unat_uadd: "unat (uadd a b) = sat64 (unat a + unat b)"
    and unat_umul: "unat (umul a b) = sat64 (unat a * unat b)"
begin

lemma uadd_commute: "uadd a b = uadd b a"
  by (rule word_unat_eq_iff [THEN iffD2]) (simp add: unat_uadd add.commute)

lemma uadd_assoc: "uadd (uadd a b) c = uadd a (uadd b c)"
  by (rule word_unat_eq_iff [THEN iffD2])
    (simp add: unat_uadd sat64_add_left sat64_add_right add.assoc)

lemma uadd_0 [simp]: "uadd a 0 = a" "uadd 0 a = a"
  by (rule word_unat_eq_iff [THEN iffD2], simp add: unat_uadd)+

lemma uadd_mono: "a \<le> a' \<Longrightarrow> b \<le> b' \<Longrightarrow> uadd a b \<le> uadd a' b'"
  by (simp add: word_le_nat_alt unat_uadd sat64_mono add_mono)

lemma umul_mono: "a \<le> a' \<Longrightarrow> b \<le> b' \<Longrightarrow> umul a b \<le> umul a' b'"
  by (simp add: word_le_nat_alt unat_umul sat64_mono mult_le_mono)

lemma le_uadd: "a \<le> uadd a b"
  using u64_bound [of a] by (simp add: word_le_nat_alt unat_uadd sat64_def)

lemma umul_0 [simp]: "umul a 0 = 0" "umul 0 a = 0"
  by (rule word_unat_eq_iff [THEN iffD2], simp add: unat_umul sat64_def)+

lemma uadd_exact: "unat a + unat b \<le> 18446744073709551615 \<Longrightarrow> unat (uadd a b) = unat a + unat b"
  by (simp add: unat_uadd sat64_id)

lemma umul_exact: "unat a * unat b \<le> 18446744073709551615 \<Longrightarrow> unat (umul a b) = unat a * unat b"
  by (simp add: unat_umul sat64_id)

end

section \<open>Folds that can be split\<close>

text \<open>
  An aggregate that is folded over a list and whose partial results can be combined: the
  fold of a whole list is the combination of the folds of its two parts.
\<close>

locale mergeable_fold =
  fixes f :: "'a \<Rightarrow> 'a \<Rightarrow> 'a"
    and z :: 'a
  assumes f_assoc: "f (f a b) c = f a (f b c)"
    and f_unit: "f a z = a"
    and f_left_unit: "f z a = a"
begin

lemma foldl_start: "foldl f a xs = f a (foldl f z xs)"
proof (induction xs arbitrary: a)
  case (Cons x xs)
  have "foldl f a (x # xs) = f (f a x) (foldl f z xs)" using Cons.IH [of "f a x"] by simp
  also have "\<dots> = f a (f x (foldl f z xs))" by (rule f_assoc)
  also have "f x (foldl f z xs) = foldl f z (x # xs)" using Cons.IH [of x] by (simp add: f_left_unit)
  finally show ?case .
qed (simp add: f_unit)

lemma foldl_split: "foldl f z (xs @ ys) = f (foldl f z xs) (foldl f z ys)"
  by (simp add: foldl_start [of "foldl f z xs"])

end

section \<open>Time\<close>

text \<open>
  A Go \<open>time.Time\<close> is the number of nanoseconds since its zero time, a \<open>time.Duration\<close> a
  number of nanoseconds. \<open>Truncate\<close> rounds down to a multiple of the duration since the
  zero time and leaves the time alone for a duration that is not positive.
\<close>

type_synonym gotime = int
type_synonym duration = int

definition Second :: duration where
  "Second = 1000000000"

definition Truncate :: "gotime \<Rightarrow> duration \<Rightarrow> gotime" where
  "Truncate t d = (if d \<le> 0 then t else t - t mod d)"

lemma Truncate_bounds:
  assumes "0 < d"
  shows "Truncate t d \<le> t" "t < Truncate t d + d" "d dvd Truncate t d"
proof -
  show "Truncate t d \<le> t" using assms by (simp add: Truncate_def)
  show "t < Truncate t d + d" using assms pos_mod_bound [of d t] by (simp add: Truncate_def)
  show "d dvd Truncate t d" using assms by (simp add: Truncate_def dvd_minus_mod)
qed

section \<open>Lists\<close>

lemma foldl_max_ge: "(a :: 'a :: linorder) \<le> foldl max a xs"
proof (induction xs arbitrary: a)
  case (Cons x xs)
  have "a \<le> max a x" by simp
  also have "\<dots> \<le> foldl max (max a x) xs" by (rule Cons.IH)
  finally show ?case by simp
qed simp

lemma filter_last_append:
  "P y \<Longrightarrow> filter P (xs @ [y]) = filter P xs @ [y]"
  by simp

end
