(* ===== verification/Pricer.thy ===== *)
theory Pricer
  imports Gas_Prelude
begin

text \<open>
  The gas pricer, \<open>internal/pricer\<close>: the saturating arithmetic of \<open>pricer.go\<close>, the
  multi-constraint and the legacy step, the replay of \<open>replay.go\<close> and the model registry
  of \<open>model.go\<close>. A basis point value (\<open>Bips\<close>, an \<open>int64\<close>) is an \<open>int\<close>.
\<close>

section \<open>Saturating arithmetic\<close>

type_synonym Bips = i64

definition OneInBips :: Bips where
  "OneInBips = 10000"

definition InitialMinimumBaseFeeWei :: bigint where
  "InitialMinimumBaseFeeWei = 100000000"

definition SaturatingUAdd :: "u64 \<Rightarrow> u64 \<Rightarrow> u64" where
  "SaturatingUAdd a b = (let sum = a + b in if sum < a then MaxUint64 else sum)"

definition SaturatingUSub :: "u64 \<Rightarrow> u64 \<Rightarrow> u64" where
  "SaturatingUSub a b = (if a \<le> b then 0 else a - b)"

definition SaturatingUMul :: "u64 \<Rightarrow> u64 \<Rightarrow> u64" where
  "SaturatingUMul a b =
     (if a = 0 \<or> b = 0 then 0
      else if MaxUint64 div b < a then MaxUint64 else a * b)"

definition SaturatingAddBips :: "Bips \<Rightarrow> Bips \<Rightarrow> Bips" where
  "SaturatingAddBips a b =
     (let sum = i64_wrap (a + b) in
      if 0 < b \<and> sum < a then MaxInt64
      else if b < 0 \<and> a < sum then MinInt64
      else sum)"

definition saturatingCastToBips :: "u64 \<Rightarrow> Bips" where
  "saturatingCastToBips v = (if MaxInt64 < uint v then MaxInt64 else uint v)"

definition NaturalToBips :: "u64 \<Rightarrow> Bips" where
  "NaturalToBips v = saturatingCastToBips (SaturatingUMul v (u64_of_i64 OneInBips))"

text \<open>
  The loop of \<open>ApproxExpBips\<close>: \<open>i\<close> runs from \<open>accuracy - 1\<close> down to 1. A divisor \<open>i * b\<close>
  that wraps to zero panics in Go, which is the value \<open>None\<close>.
\<close>

fun approx_exp_loop :: "nat \<Rightarrow> u64 \<Rightarrow> u64 \<Rightarrow> u64 option" where
  "approx_exp_loop 0 input res = Some res"
| "approx_exp_loop (Suc k) input res =
     (let b = u64_of_i64 OneInBips; d = of_nat (Suc k) * b in
      if d = 0 then None
      else approx_exp_loop k input (SaturatingUAdd b (SaturatingUMul res input div d)))"

definition ApproxExpBips :: "Bips \<Rightarrow> u64 \<Rightarrow> Bips option" where
  "ApproxExpBips x accuracy =
     (if accuracy = 0 then Some OneInBips
      else
        let negative = x < 0;
            x' = (if negative then i64_wrap (- x) else x);
            input = u64_of_i64 x';
            b = u64_of_i64 OneInBips;
            res0 = b + input div accuracy
        in case approx_exp_loop (unat (accuracy - 1)) input res0 of
             None \<Rightarrow> None
           | Some res \<Rightarrow>
               if negative then
                 (if res = 0 then None else Some (saturatingCastToBips (b * b div res)))
               else Some (saturatingCastToBips res))"

text \<open>
  \<open>BaseFeeFromExponent\<close> calls \<open>ApproxExpBips\<close> with accuracy 4, which never panics
  (\<open>ApproxExpBips_4\<close> below); the \<open>None\<close> branch is unreachable.
\<close>

definition BaseFeeFromExponent :: "bigint \<Rightarrow> Bips \<Rightarrow> bigint" where
  "BaseFeeFromExponent minBaseFee exponent =
     (if exponent \<le> 0 then minBaseFee
      else case ApproxExpBips exponent 4 of
             None \<Rightarrow> 0
           | Some mult \<Rightarrow> big_Div (minBaseFee * mult) OneInBips)"

section \<open>The pricer state\<close>

record Constraint =
  Target :: u64
  Window :: u64
  Backlog :: u64

record Legacy =
  SpeedLimit :: u64
  Inertia :: u64
  Tolerance :: u64
  LegacyBacklog :: u64

record State =
  Constraints :: "Constraint list"
  LegacyParams :: "Legacy option"
  MinBaseFee :: "bigint option"

definition IsLegacy :: "State \<Rightarrow> bool" where
  "IsLegacy s \<longleftrightarrow> Constraints s = []"

definition Clone :: "State \<Rightarrow> State" where
  "Clone s = \<lparr>Constraints = Constraints s, LegacyParams = LegacyParams s,
     MinBaseFee = Some (case MinBaseFee s of None \<Rightarrow> 0 | Some v \<Rightarrow> v)\<rparr>"

definition Backlogs :: "State \<Rightarrow> u64 list" where
  "Backlogs s =
     (if IsLegacy s then
        (case LegacyParams s of None \<Rightarrow> [] | Some l \<Rightarrow> [LegacyBacklog l])
      else map Backlog (Constraints s))"

fun set_constraint_backlogs :: "Constraint list \<Rightarrow> u64 list \<Rightarrow> Constraint list" where
  "set_constraint_backlogs (c # cs) (b # bs) = c\<lparr>Backlog := b\<rparr> # set_constraint_backlogs cs bs"
| "set_constraint_backlogs cs bs = cs"

definition SetBacklogs :: "State \<Rightarrow> u64 list \<Rightarrow> State" where
  "SetBacklogs s backlogs =
     (if IsLegacy s then
        (case (LegacyParams s, backlogs) of
           (Some l, b # _) \<Rightarrow> s\<lparr>LegacyParams := Some (l\<lparr>LegacyBacklog := b\<rparr>)\<rparr>
         | _ \<Rightarrow> s)
      else s\<lparr>Constraints := set_constraint_backlogs (Constraints s) backlogs\<rparr>)"

definition AddGas :: "State \<Rightarrow> u64 \<Rightarrow> State" where
  "AddGas s gas =
     (if IsLegacy s then
        (case LegacyParams s of
           None \<Rightarrow> s
         | Some l \<Rightarrow>
             s\<lparr>LegacyParams := Some (l\<lparr>LegacyBacklog := SaturatingUAdd (LegacyBacklog l) gas\<rparr>)\<rparr>)
      else s\<lparr>Constraints :=
             map (\<lambda>c. c\<lparr>Backlog := SaturatingUAdd (Backlog c) gas\<rparr>) (Constraints s)\<rparr>)"

section \<open>One step\<close>

text \<open>The loop of \<open>Step\<close> over the constraints; \<open>continue\<close> leaves the exponent entry at 0.\<close>

fun step_constraints :: "u64 \<Rightarrow> Bips \<Rightarrow> Constraint list \<Rightarrow> Constraint list \<times> Bips \<times> Bips list" where
  "step_constraints dt exponent [] = ([], exponent, [])"
| "step_constraints dt exponent (c # cs) =
     (let backlog = SaturatingUSub (Backlog c) (SaturatingUMul dt (Target c));
          c' = c\<lparr>Backlog := backlog\<rparr>;
          divisor = SaturatingUMul (Window c) (Target c)
      in if backlog = 0 \<or> divisor = 0 then
           (case step_constraints dt exponent cs of (cs', e, per) \<Rightarrow> (c' # cs', e, 0 # per))
         else
           (let p = NaturalToBips backlog sdiv saturatingCastToBips divisor in
            case step_constraints dt (SaturatingAddBips exponent p) cs of
              (cs', e, per) \<Rightarrow> (c' # cs', e, p # per)))"

definition stepLegacy :: "State \<Rightarrow> u64 \<Rightarrow> bigint \<Rightarrow> State \<times> bigint \<times> Bips \<times> Bips list" where
  "stepLegacy s dt minBaseFee =
     (case LegacyParams s of
        None \<Rightarrow> (s, minBaseFee, 0, [])
      | Some l \<Rightarrow>
          let backlog = SaturatingUSub (LegacyBacklog l) (SaturatingUMul dt (SpeedLimit l));
              threshold = Tolerance l * SpeedLimit l;
              inertia = saturatingCastToBips (SaturatingUMul (Inertia l) (SpeedLimit l));
              exponent = (if threshold < backlog \<and> 0 < inertia
                          then NaturalToBips (backlog - threshold) sdiv inertia else 0)
          in (s\<lparr>LegacyParams := Some (l\<lparr>LegacyBacklog := backlog\<rparr>)\<rparr>,
              BaseFeeFromExponent minBaseFee exponent, exponent, [exponent]))"

definition Step :: "State \<Rightarrow> u64 \<Rightarrow> State \<times> bigint \<times> Bips \<times> Bips list" where
  "Step s dt =
     (let minBaseFee = (case MinBaseFee s of None \<Rightarrow> 0 | Some v \<Rightarrow> v) in
      if IsLegacy s then stepLegacy s dt minBaseFee
      else case step_constraints dt 0 (Constraints s) of
             (cs, exponent, per) \<Rightarrow>
               (s\<lparr>Constraints := cs\<rparr>, BaseFeeFromExponent minBaseFee exponent, exponent, per))"

section \<open>Replay\<close>

record pricer_block =
  pbNumber :: u64
  pbTimestamp :: u64
  pbGasUsed :: u64

record Result =
  rNumber :: u64
  rBacklogs :: "u64 list"
  rExponent :: Bips
  rPerConstraint :: "Bips list"
  rPredicted :: bigint
  rAnchored :: bool

type_synonym Anchor = "(u64 \<Rightarrow> u64 list option) option"

definition replay_dt :: "u64 \<Rightarrow> u64 \<Rightarrow> u64" where
  "replay_dt prev ts = (if prev \<noteq> 0 \<and> prev < ts then ts - prev else 0)"

definition replay_block :: "State \<Rightarrow> u64 \<Rightarrow> pricer_block \<Rightarrow> Anchor \<Rightarrow> State \<times> Result" where
  "replay_block s prev b anchor =
     (case Step s (replay_dt prev (pbTimestamp b)) of
        (s1, predicted, exponent, per) \<Rightarrow>
          let s2 = AddGas s1 (pbGasUsed b);
              a = (case anchor of None \<Rightarrow> None | Some f \<Rightarrow> f (pbNumber b));
              s3 = (case a of None \<Rightarrow> s2 | Some backlogs \<Rightarrow> SetBacklogs s2 backlogs)
          in (s3, \<lparr>rNumber = pbNumber b, rBacklogs = Backlogs s3, rExponent = exponent,
                   rPerConstraint = per, rPredicted = predicted, rAnchored = (a \<noteq> None)\<rparr>))"

fun Replay :: "State \<Rightarrow> u64 \<Rightarrow> pricer_block list \<Rightarrow> Anchor \<Rightarrow> State \<times> Result list" where
  "Replay s prev [] anchor = (s, [])"
| "Replay s prev (b # bs) anchor =
     (case replay_block s prev b anchor of
        (s', r) \<Rightarrow> case Replay s' (pbTimestamp b) bs anchor of
                     (s'', rs) \<Rightarrow> (s'', r # rs))"

definition IsInt64 :: "bigint \<Rightarrow> bool" where
  "IsInt64 v = is_i64 v"

definition ErrorBips :: "bigint option \<Rightarrow> bigint option \<Rightarrow> i64" where
  "ErrorBips predicted actual =
     (case (predicted, actual) of
        (Some p, Some a) \<Rightarrow>
          if a = 0 then 0
          else let d = big_Div (\<bar>p - a\<bar> * OneInBips) a in
               if \<not> IsInt64 d then MaxInt64 else d
      | _ \<Rightarrow> 0)"

section \<open>The model registry\<close>

datatype Model = ModelUnknown | ModelLegacy | ModelConstraints

text \<open>\<open>Model\<close> is a Go \<open>int\<close> enumeration: its constants are ordered by \<open>iota\<close>.\<close>

fun model_int :: "Model \<Rightarrow> nat" where
  "model_int ModelUnknown = 0"
| "model_int ModelLegacy = 1"
| "model_int ModelConstraints = 2"

lemma model_int_inject: "model_int a = model_int b \<Longrightarrow> a = b"
  by (cases a; cases b) auto

instantiation Model :: linorder
begin

definition less_eq_Model :: "Model \<Rightarrow> Model \<Rightarrow> bool" where
  "less_eq_Model a b \<longleftrightarrow> model_int a \<le> model_int b"

definition less_Model :: "Model \<Rightarrow> Model \<Rightarrow> bool" where
  "less_Model a b \<longleftrightarrow> model_int a < model_int b"

instance
  by standard (auto simp: less_eq_Model_def less_Model_def model_int_inject)

end

fun Model_String :: "Model \<Rightarrow> string" where
  "Model_String ModelLegacy = ''legacy''"
| "Model_String ModelConstraints = ''constraints''"
| "Model_String ModelUnknown = ''unknown''"

definition FirstConstraintVersion :: u64 where
  "FirstConstraintVersion = 50"

fun verifiedVersions :: "Model \<Rightarrow> u64 list" where
  "verifiedVersions ModelConstraints = [51, 61]"
| "verifiedVersions _ = []"

fun verifiedCrossings :: "Model \<Rightarrow> (u64 \<times> u64) list" where
  "verifiedCrossings ModelConstraints = [(51, 61)]"
| "verifiedCrossings _ = []"

definition Available :: "u64 \<Rightarrow> Model" where
  "Available v = (if FirstConstraintVersion \<le> v then ModelConstraints else ModelLegacy)"

definition Verified :: "Model \<Rightarrow> u64 \<Rightarrow> bool" where
  "Verified m v \<longleftrightarrow> v \<in> set (verifiedVersions m)"

definition VerifiedRange :: "Model \<Rightarrow> u64 \<Rightarrow> u64 \<Rightarrow> bool" where
  "VerifiedRange m low high \<longleftrightarrow>
     (if low \<notin> set (verifiedVersions m) \<or> high \<notin> set (verifiedVersions m) then False
      else low = high \<or> (low, high) \<in> set (verifiedCrossings m))"

definition VerifiedVersions :: "Model \<Rightarrow> u64 list" where
  "VerifiedVersions m = sort (verifiedVersions m)"

definition SupportsConstraints :: "u64 \<Rightarrow> bool" where
  "SupportsConstraints v \<longleftrightarrow> FirstConstraintVersion \<le> v"

section \<open>The arithmetic is exact up to clamping\<close>

lemma OneInBips_u64 [simp]: "u64_of_i64 OneInBips = 10000"
  by (simp add: u64_of_i64_def OneInBips_def)

lemma unat_SaturatingUAdd [nat_of_word]:
  "unat (SaturatingUAdd a b) = sat64 (unat a + unat b)"
proof (cases "unat a + unat b < 2 ^ 64")
  case True
  then have s: "unat (a + b) = unat a + unat b" by (simp add: unat_word_ariths)
  then have "\<not> a + b < a" by (simp add: word_less_nat_alt)
  with s True show ?thesis by (simp add: SaturatingUAdd_def sat64_def)
next
  case False
  have "unat (a + b) = unat a + unat b - 2 ^ 64"
    using False u64_bound [of a] u64_bound [of b]
    by (simp add: unat_word_ariths mod_if)
  then have "a + b < a"
    using False u64_bound [of b] by (simp add: word_less_nat_alt)
  with False show ?thesis by (simp add: SaturatingUAdd_def sat64_def)
qed

lemma unat_SaturatingUSub [nat_of_word]:
  "unat (SaturatingUSub a b) = unat a - unat b"
  by (auto simp: SaturatingUSub_def word_le_nat_alt unat_sub_if')

lemma unat_SaturatingUMul [nat_of_word]:
  "unat (SaturatingUMul a b) = sat64 (unat a * unat b)"
proof (cases "a = 0 \<or> b = 0")
  case True
  then show ?thesis by (auto simp: SaturatingUMul_def sat64_def)
next
  case False
  then have b: "0 < unat b" by (simp add: unat_gt_0)
  have q: "unat (MaxUint64 div b) = 18446744073709551615 div unat b"
    by (simp add: unat_div)
  show ?thesis
  proof (cases "MaxUint64 div b < a")
    case True
    with q have "18446744073709551615 div unat b < unat a"
      by (simp add: word_less_nat_alt)
    then have "18446744073709551615 < unat a * unat b"
      by (simp add: div_less_iff_less_mult b)
    with True False show ?thesis by (simp add: SaturatingUMul_def sat64_def)
  next
    case nlt: False
    with q have "unat a \<le> 18446744073709551615 div unat b"
      by (simp add: word_less_nat_alt)
    then have le: "unat a * unat b \<le> 18446744073709551615"
      by (simp add: less_eq_div_iff_mult_less_eq b)
    then have "unat (a * b) = unat a * unat b"
      by (simp add: unat_word_ariths)
    with nlt False le show ?thesis by (simp add: SaturatingUMul_def sat64_def)
  qed
qed

interpretation psat: saturating_u64 SaturatingUAdd SaturatingUMul
  by unfold_locales (simp_all add: nat_of_word)

lemma saturatingCastToBips_eq: "saturatingCastToBips v = min (int (unat v)) MaxInt64"
  by (simp add: saturatingCastToBips_def)

lemma NaturalToBips_eq: "NaturalToBips v = min (int (unat v) * 10000) MaxInt64"
proof -
  have "int (unat (SaturatingUMul v 10000)) = min (uint v * 10000) 18446744073709551615"
    unfolding unat_SaturatingUMul sat64_def of_nat_min by simp
  then show ?thesis
    unfolding NaturalToBips_def saturatingCastToBips_eq OneInBips_u64 by (simp add: MaxInt64_def)
qed

lemma SaturatingAddBips_eq:
  assumes "is_i64 a" and "is_i64 b"
  shows "SaturatingAddBips a b = max MinInt64 (min MaxInt64 (a + b))"
proof -
  consider "MaxInt64 < a + b" | "a + b < MinInt64" | "is_i64 (a + b)"
    unfolding is_i64_def by fastforce
  then show ?thesis
  proof cases
    case 1
    then have "i64_wrap (a + b) = a + b - 18446744073709551616"
      using assms by (intro i64_wrap_high) (simp_all add: is_i64_def)
    with 1 assms show ?thesis
      by (auto simp: SaturatingAddBips_def is_i64_def MaxInt64_def MinInt64_def Let_def)
  next
    case 2
    then have "i64_wrap (a + b) = a + b + 18446744073709551616"
      using assms by (intro i64_wrap_low) (simp_all add: is_i64_def)
    with 2 assms show ?thesis
      by (auto simp: SaturatingAddBips_def is_i64_def MaxInt64_def MinInt64_def Let_def)
  next
    case 3
    then show ?thesis
      by (auto simp: SaturatingAddBips_def i64_wrap_id is_i64_def Let_def)
  qed
qed

section \<open>The exponential: reference definitions and equivalence\<close>

text \<open>
  The Taylor polynomial of degree 4 evaluated by Horner's rule on natural numbers, once
  exact (\<open>exp_poly\<close>) and once with every intermediate result clamped (\<open>exp_sat\<close>).
\<close>

definition sat_step :: "nat \<Rightarrow> nat \<Rightarrow> nat \<Rightarrow> nat" where
  "sat_step i x r = sat64 (10000 + sat64 (r * x) div (i * 10000))"

definition exp_sat :: "nat \<Rightarrow> nat" where
  "exp_sat x = sat_step 1 x (sat_step 2 x (sat_step 3 x (10000 + x div 4)))"

definition exp_step :: "nat \<Rightarrow> nat \<Rightarrow> nat \<Rightarrow> nat" where
  "exp_step i x r = 10000 + r * x div (i * 10000)"

definition exp_poly :: "nat \<Rightarrow> nat" where
  "exp_poly x = exp_step 1 x (exp_step 2 x (exp_step 3 x (10000 + x div 4)))"

lemma approx_exp_loop_Suc:
  assumes "Suc k \<le> 1844674407370955"
  shows "\<exists>res'. unat res' = sat_step (Suc k) (unat input) (unat res)
     \<and> approx_exp_loop (Suc k) input res = approx_exp_loop k input res'"
proof -
  define w :: u64 where "w = of_nat (Suc k)"
  define d :: u64 where "d = w * 10000"
  have "unat w = Suc k"
    using assms by (simp add: w_def unat_of_nat del: of_nat_Suc)
  then have d: "unat d = Suc k * 10000"
    using assms by (simp add: d_def unat_word_ariths)
  then have "d \<noteq> 0" by auto
  then have "approx_exp_loop (Suc k) input res
      = approx_exp_loop k input (SaturatingUAdd 10000 (SaturatingUMul res input div d))"
    by (simp add: d_def w_def Let_def del: of_nat_Suc)
  moreover have "unat (SaturatingUAdd 10000 (SaturatingUMul res input div d))
      = sat_step (Suc k) (unat input) (unat res)"
    by (simp add: nat_of_word sat_step_def unat_div d)
  ultimately show ?thesis by blast
qed

lemma approx_exp_loop_3:
  "\<exists>res'. approx_exp_loop 3 input res = Some res'
     \<and> unat res' = sat_step 1 (unat input) (sat_step 2 (unat input) (sat_step 3 (unat input) (unat res)))"
proof -
  obtain r3 where 3: "unat r3 = sat_step 3 (unat input) (unat res)"
    "approx_exp_loop 3 input res = approx_exp_loop 2 input r3"
    using approx_exp_loop_Suc [of 2 input res] by (auto simp: numeral_3_eq_3 numeral_2_eq_2)
  obtain r2 where 2: "unat r2 = sat_step 2 (unat input) (unat r3)"
    "approx_exp_loop 2 input r3 = approx_exp_loop 1 input r2"
    using approx_exp_loop_Suc [of 1 input r3] by (auto simp: numeral_2_eq_2)
  obtain r1 where 1: "unat r1 = sat_step 1 (unat input) (unat r2)"
    "approx_exp_loop 1 input r2 = Some r1"
    using approx_exp_loop_Suc [of 0 input r2] by auto
  show ?thesis using 1 2 3 by simp
qed

lemma approx_exp_loop_total:
  "k \<le> 1844674407370955 \<Longrightarrow> \<exists>r. approx_exp_loop k input res = Some r"
proof (induction k arbitrary: res)
  case (Suc k)
  then show ?case using approx_exp_loop_Suc [of k input res] by fastforce
qed simp

lemma exp_sat_le: "exp_sat x \<le> 1844674407380955"
proof -
  have "sat_step 1 x r \<le> 1844674407380955" for r
  proof -
    have "sat64 (r * x) div 10000 \<le> 18446744073709551615 div 10000"
      by (rule div_le_mono) (rule sat64_le_max)
    also have "\<dots> = 1844674407370955" by simp
    finally have "10000 + sat64 (r * x) div 10000 \<le> 1844674407380955" by linarith
    moreover have "sat_step 1 x r \<le> 10000 + sat64 (r * x) div 10000"
      unfolding sat_step_def using sat64_le [of "10000 + sat64 (r * x) div (1 * 10000)"] by simp
    ultimately show ?thesis by (rule order_trans [rotated])
  qed
  then show ?thesis by (simp add: exp_sat_def)
qed

lemma sat_step_mono: "x \<le> y \<Longrightarrow> r \<le> s \<Longrightarrow> sat_step i x r \<le> sat_step i y s"
  unfolding sat_step_def
  by (intro sat64_mono add_mono div_le_mono mult_le_mono) auto

lemma exp_sat_mono: "x \<le> y \<Longrightarrow> exp_sat x \<le> exp_sat y"
  unfolding exp_sat_def by (intro sat_step_mono add_mono div_le_mono) auto

lemma sat_step_ge: "10000 \<le> sat_step i x r"
  by (simp add: sat_step_def sat64_def)

lemma ApproxExpBips_4:
  assumes "0 \<le> x" and "is_i64 x"
  shows "ApproxExpBips x 4 = Some (int (exp_sat (nat x)))"
proof -
  define n where "n = u64_of_i64 x"
  have n: "unat n = nat x" using assms by (simp add: n_def unat_u64_of_i64)
  have "unat (10000 + n div 4) = 10000 + unat n div 4"
    using u64_bound [of n] by (simp add: unat_word_ariths unat_div)
  then obtain r where r: "approx_exp_loop 3 n (10000 + n div 4) = Some r"
    "unat r = exp_sat (nat x)"
    using approx_exp_loop_3 [of n "10000 + n div 4"] by (auto simp: exp_sat_def n)
  have "int (unat r) \<le> MaxInt64"
    using exp_sat_le [of "nat x"] r(2) by (simp add: MaxInt64_def)
  then have "saturatingCastToBips r = int (exp_sat (nat x))"
    using r(2) unfolding saturatingCastToBips_eq by simp
  then show ?thesis
    using assms(1) r(1) by (simp add: ApproxExpBips_def n_def Let_def)
qed

lemma exp_sat_poly:
  assumes "x \<le> 10000000"
  shows "exp_sat x = exp_poly x"
proof -
  define r4 where "r4 = 10000 + x div 4"
  have st: "sat_step i x r = exp_step i x r"
    if "r * x \<le> 18446744073709551615" "10000 + r * x div (i * 10000) \<le> 18446744073709551615" for i r
    using that by (simp add: sat_step_def exp_step_def sat64_id)
  have r4: "r4 \<le> 2510000" using assms by (simp add: r4_def)
  have p4: "r4 * x \<le> 2510000 * 10000000" using r4 assms by (rule mult_le_mono)
  have r3: "exp_step 3 x r4 \<le> 836676666"
    unfolding exp_step_def using div_le_mono [OF p4, of 30000] by simp
  have p3: "exp_step 3 x r4 * x \<le> 836676666 * 10000000" using r3 assms by (rule mult_le_mono)
  have r2: "exp_step 2 x (exp_step 3 x r4) \<le> 418338343000"
    unfolding exp_step_def [of 2] using div_le_mono [OF p3, of 20000] by simp
  have p2: "exp_step 2 x (exp_step 3 x r4) * x \<le> 418338343000 * 10000000" using r2 assms by (rule mult_le_mono)
  have r1: "exp_step 1 x (exp_step 2 x (exp_step 3 x r4)) \<le> 418338343010000"
    unfolding exp_step_def [of 1] using div_le_mono [OF p2, of 10000] by simp
  have "sat_step 3 x r4 = exp_step 3 x r4"
    using p4 r3 by (intro st) (simp_all add: exp_step_def)
  moreover have "sat_step 2 x (exp_step 3 x r4) = exp_step 2 x (exp_step 3 x r4)"
    using p3 r2 by (intro st) (simp_all add: exp_step_def)
  moreover have "sat_step 1 x (exp_step 2 x (exp_step 3 x r4)) = exp_step 1 x (exp_step 2 x (exp_step 3 x r4))"
    using p2 r1 by (intro st) (simp_all add: exp_step_def)
  ultimately show ?thesis by (simp add: exp_sat_def exp_poly_def r4_def)
qed

lemma exp_Taylor_lower:
  assumes "0 \<le> (y :: real)"
  shows "1 + y * (1 + y / 2 * (1 + y / 3 * (1 + y / 4))) \<le> exp y"
proof -
  have "(\<Sum>n<5. y ^ n /\<^sub>R fact n) \<le> exp y"
    unfolding exp_def using summable_exp_generic [of y] assms
    by (intro sum_le_suminf) (auto intro: divide_nonneg_nonneg)
  also have "(\<Sum>n<5. y ^ n /\<^sub>R fact n) = 1 + y + y^2 / 2 + y^3 / 6 + y^4 / 24"
    by (simp add: eval_nat_numeral field_simps)
  also have "\<dots> = 1 + y * (1 + y / 2 * (1 + y / 3 * (1 + y / 4)))"
    by (simp add: field_simps power2_eq_square power3_eq_cube power4_eq_xxxx)
  finally show ?thesis by simp
qed

lemma sat_step_real:
  assumes "real r \<le> 10000 * u" and "0 < i"
  shows "real (sat_step i x r) \<le> 10000 * (1 + real x / 10000 / real i * u)"
proof -
  have "real (sat64 (r * x) div (i * 10000)) \<le> real (r * x) / real (i * 10000)"
  proof -
    have "real (sat64 (r * x) div (i * 10000)) \<le> real (sat64 (r * x)) / real (i * 10000)"
      by (rule of_nat_div_le_of_nat)
    also have "\<dots> \<le> real (r * x) / real (i * 10000)"
      by (intro divide_right_mono of_nat_mono sat64_le) simp
    finally show ?thesis .
  qed
  also have "\<dots> \<le> (10000 * u) * real x / real (i * 10000)"
  proof (rule divide_right_mono)
    show "real (r * x) \<le> 10000 * u * real x"
      using assms(1) by (simp add: mult_right_mono)
  qed simp
  also have "\<dots> = 10000 * (real x / 10000 / real i * u)"
    by (simp add: field_simps)
  finally have "real (10000 + sat64 (r * x) div (i * 10000)) \<le> 10000 * (1 + real x / 10000 / real i * u)"
    by simp
  moreover have "real (sat_step i x r) \<le> real (10000 + sat64 (r * x) div (i * 10000))"
    unfolding sat_step_def by (intro of_nat_mono sat64_le)
  ultimately show ?thesis by linarith
qed

lemma exp_sat_le_exp: "real (exp_sat x) \<le> 10000 * exp (real x / 10000)"
proof -
  define y where "y = real x / 10000"
  have "real (10000 + x div 4) \<le> 10000 * (1 + y / 4)"
    using of_nat_div_le_of_nat [of x 4] by (simp add: y_def field_simps)
  from sat_step_real [OF this, of 3 x]
  have "real (sat_step 3 x (10000 + x div 4)) \<le> 10000 * (1 + y / 3 * (1 + y / 4))"
    by (simp add: y_def)
  from sat_step_real [OF this, of 2 x]
  have "real (sat_step 2 x (sat_step 3 x (10000 + x div 4)))
      \<le> 10000 * (1 + y / 2 * (1 + y / 3 * (1 + y / 4)))"
    by (simp add: y_def)
  from sat_step_real [OF this, of 1 x]
  have "real (exp_sat x) \<le> 10000 * (1 + y * (1 + y / 2 * (1 + y / 3 * (1 + y / 4))))"
    by (simp add: y_def exp_sat_def)
  also have "\<dots> \<le> 10000 * exp y"
    using exp_Taylor_lower [of y] by (intro mult_left_mono) (simp_all add: y_def)
  finally show ?thesis by (simp add: y_def)
qed

section \<open>The base fee\<close>

lemma BaseFee_nonpos [simp]: "e \<le> 0 \<Longrightarrow> BaseFeeFromExponent m e = m"
  by (simp add: BaseFeeFromExponent_def)

lemma exp_sat_0: "exp_sat 0 = 10000"
  by (simp add: exp_sat_def sat_step_def sat64_def)

lemma exp_sat_ge: "10000 \<le> exp_sat x"
  unfolding exp_sat_def by (rule sat_step_ge)

lemma BaseFee_eq:
  assumes "is_i64 e"
  shows "BaseFeeFromExponent m e = m * int (exp_sat (nat e)) div 10000"
proof (cases "e \<le> 0")
  case True
  then show ?thesis by (simp add: exp_sat_0)
next
  case False
  then show ?thesis
    using assms by (simp add: BaseFeeFromExponent_def ApproxExpBips_4 big_Div_def OneInBips_def)
qed

lemma BaseFee_mono:
  assumes "0 \<le> m" and "is_i64 e" and "is_i64 e'" and "e \<le> e'"
  shows "BaseFeeFromExponent m e \<le> BaseFeeFromExponent m e'"
  using assms by (simp add: BaseFee_eq zdiv_mono1 mult_left_mono exp_sat_mono)

lemma BaseFee_ge_min:
  assumes "0 \<le> m" and "is_i64 e"
  shows "m \<le> BaseFeeFromExponent m e"
proof -
  have "m * 10000 \<le> m * int (exp_sat (nat e))"
    using assms(1) exp_sat_ge [of "nat e"] by (intro mult_left_mono) simp_all
  then have "m * 10000 div 10000 \<le> m * int (exp_sat (nat e)) div 10000"
    by (rule zdiv_mono1) simp
  then show ?thesis using assms(2) by (simp add: BaseFee_eq)
qed

section \<open>Closed forms of the step\<close>

definition payDown :: "u64 \<Rightarrow> Constraint \<Rightarrow> Constraint" where
  "payDown dt c = c\<lparr>Backlog := SaturatingUSub (Backlog c) (SaturatingUMul dt (Target c))\<rparr>"

definition constraintBips :: "Constraint \<Rightarrow> Bips" where
  "constraintBips c =
     min (int (unat (Backlog c)) * 10000) MaxInt64
       div min (int (sat64 (unat (Window c) * unat (Target c)))) MaxInt64"

lemma constraintBips_0: "Backlog c = 0 \<or> SaturatingUMul (Window c) (Target c) = 0 \<Longrightarrow> constraintBips c = 0"
proof -
  assume "Backlog c = 0 \<or> SaturatingUMul (Window c) (Target c) = 0"
  moreover have "sat64 (unat (Window c) * unat (Target c)) = 0" if "SaturatingUMul (Window c) (Target c) = 0"
    using that unat_SaturatingUMul [of "Window c" "Target c"] by simp
  ultimately show ?thesis by (auto simp: constraintBips_def MaxInt64_def)
qed

lemma constraintBips_sdiv:
  "NaturalToBips (Backlog c) sdiv saturatingCastToBips (SaturatingUMul (Window c) (Target c)) = constraintBips c"
  by (subst sdiv_nonneg)
    (simp_all add: NaturalToBips_eq saturatingCastToBips_eq constraintBips_def nat_of_word MaxInt64_def del: of_nat_unat)

lemma constraintBips_bounds [simp]: "0 \<le> constraintBips c" "constraintBips c \<le> MaxInt64" "is_i64 (constraintBips c)"
proof -
  define d where "d = min (int (sat64 (unat (Window c) * unat (Target c)))) MaxInt64"
  have d: "0 \<le> d" by (simp add: d_def MaxInt64_def)
  have n: "0 \<le> min (int (unat (Backlog c)) * 10000) MaxInt64" by (simp add: MaxInt64_def)
  have e: "constraintBips c = min (int (unat (Backlog c)) * 10000) MaxInt64 div d"
    by (simp add: constraintBips_def d_def)
  show lo: "0 \<le> constraintBips c" using d n e by (simp add: div_int_pos_iff)
  have "constraintBips c \<le> min (int (unat (Backlog c)) * 10000) MaxInt64"
    unfolding e using n d by (rule int_div_le)
  then show hi: "constraintBips c \<le> MaxInt64" by simp
  show "is_i64 (constraintBips c)" using lo hi by (simp add: is_i64_def MinInt64_def)
qed

lemma SaturatingAddBips_nonneg:
  assumes "is_i64 a" and "is_i64 b" and "0 \<le> a" and "0 \<le> b"
  shows "SaturatingAddBips a b = min MaxInt64 (a + b)"
  using assms by (simp add: SaturatingAddBips_eq MaxInt64_def MinInt64_def)

lemma SaturatingAddBips_keeps:
  assumes "is_i64 a" and "is_i64 b" and "0 \<le> a" and "0 \<le> b"
  shows "is_i64 (SaturatingAddBips a b)" "0 \<le> SaturatingAddBips a b"
proof -
  have "SaturatingAddBips a b = min MaxInt64 (a + b)" using assms by (rule SaturatingAddBips_nonneg)
  then show "is_i64 (SaturatingAddBips a b)" "0 \<le> SaturatingAddBips a b"
    using assms by (simp_all add: is_i64_def MaxInt64_def MinInt64_def)
qed

lemma step_constraints_eq:
  "is_i64 e \<Longrightarrow> 0 \<le> e \<Longrightarrow> step_constraints dt e cs =
     (map (payDown dt) cs, foldl SaturatingAddBips e (map (\<lambda>c. constraintBips (payDown dt c)) cs),
      map (\<lambda>c. constraintBips (payDown dt c)) cs)"
proof (induction cs arbitrary: e)
  case (Cons c cs)
  have add0: "SaturatingAddBips e 0 = e"
    using Cons.prems by (simp add: SaturatingAddBips_def i64_wrap_id Let_def)
  have pd: "c\<lparr>Backlog := SaturatingUSub (Backlog c) (SaturatingUMul dt (Target c))\<rparr> = payDown dt c"
    by (simp add: payDown_def)
  have sel: "Backlog (payDown dt c) = SaturatingUSub (Backlog c) (SaturatingUMul dt (Target c))"
    "Window (payDown dt c) = Window c" "Target (payDown dt c) = Target c"
    by (simp_all add: payDown_def)
  have e': "is_i64 (SaturatingAddBips e (constraintBips (payDown dt c)))"
    "0 \<le> SaturatingAddBips e (constraintBips (payDown dt c))"
    using Cons.prems by (simp_all add: SaturatingAddBips_keeps)
  show ?case
  proof (cases "Backlog (payDown dt c) = 0 \<or> SaturatingUMul (Window c) (Target c) = 0")
    case True
    then have "constraintBips (payDown dt c) = 0" by (intro constraintBips_0) (simp add: sel)
    with True show ?thesis
      using Cons.IH [OF Cons.prems] by (auto simp: Let_def sel pd add0)
  next
    case False
    have "NaturalToBips (Backlog (payDown dt c)) sdiv saturatingCastToBips (SaturatingUMul (Window c) (Target c))
        = constraintBips (payDown dt c)"
      using constraintBips_sdiv [of "payDown dt c"] by (simp add: sel)
    with False show ?thesis
      using Cons.IH [OF e'] by (auto simp: Let_def sel pd)
  qed
qed simp

lemma foldl_SaturatingAddBips:
  assumes "is_i64 e" and "0 \<le> e" and "\<And>p. p \<in> set ps \<Longrightarrow> is_i64 p \<and> 0 \<le> p"
  shows "foldl SaturatingAddBips e ps = min MaxInt64 (e + sum_list ps)"
  using assms
proof (induction ps arbitrary: e)
  case Nil
  then show ?case by (simp add: is_i64_def)
next
  case (Cons p ps)
  then have p: "is_i64 p" "0 \<le> p" by simp_all
  have rest: "\<And>q. q \<in> set ps \<Longrightarrow> is_i64 q \<and> 0 \<le> q" using Cons.prems(3) by simp
  have nn: "0 \<le> sum_list ps" using rest by (intro sum_list_nonneg) blast
  have "foldl SaturatingAddBips e (p # ps) = min MaxInt64 (SaturatingAddBips e p + sum_list ps)"
    using Cons.IH [OF _ _ rest] SaturatingAddBips_keeps [OF Cons.prems(1) p(1) Cons.prems(2) p(2)] by simp
  then show ?case
    using SaturatingAddBips_nonneg [OF Cons.prems(1) p(1) Cons.prems(2) p(2)] nn by (simp add: min_def)
qed

definition stepBips :: "u64 \<Rightarrow> Constraint list \<Rightarrow> Bips list" where
  "stepBips dt cs = map (\<lambda>c. constraintBips (payDown dt c)) cs"

definition stepExponent :: "u64 \<Rightarrow> Constraint list \<Rightarrow> Bips" where
  "stepExponent dt cs = min MaxInt64 (sum_list (stepBips dt cs))"

lemma stepExponent_bounds [simp]: "0 \<le> stepExponent dt cs" "is_i64 (stepExponent dt cs)"
proof -
  have "0 \<le> sum_list (stepBips dt cs)"
    by (rule sum_list_nonneg) (auto simp: stepBips_def)
  then show "0 \<le> stepExponent dt cs" "is_i64 (stepExponent dt cs)"
    by (simp_all add: stepExponent_def is_i64_def MaxInt64_def MinInt64_def)
qed

definition floorOf :: "State \<Rightarrow> bigint" where
  "floorOf s = (case MinBaseFee s of None \<Rightarrow> 0 | Some v \<Rightarrow> v)"

lemma Step_constraints:
  assumes "Constraints s \<noteq> []"
  shows "Step s dt = (s\<lparr>Constraints := map (payDown dt) (Constraints s)\<rparr>,
     BaseFeeFromExponent (floorOf s) (stepExponent dt (Constraints s)),
     stepExponent dt (Constraints s), stepBips dt (Constraints s))"
proof -
  have "foldl SaturatingAddBips 0 (stepBips dt (Constraints s)) = stepExponent dt (Constraints s)"
    by (subst foldl_SaturatingAddBips) (auto simp: stepBips_def stepExponent_def)
  then show ?thesis
    using assms by (simp add: Step_def IsLegacy_def step_constraints_eq stepBips_def floorOf_def)
qed

lemma unat_payDown: "unat (Backlog (payDown dt c)) = unat (Backlog c) - unat dt * unat (Target c)"
  using u64_bound [of "Backlog c"] by (simp add: payDown_def nat_of_word sat64_def)

lemma payDown_sel [simp]: "Target (payDown dt c) = Target c" "Window (payDown dt c) = Window c"
  by (simp_all add: payDown_def)

lemma stepLegacy_bounds:
  assumes "stepLegacy s dt m = (s', fee, e, per)"
  shows "0 \<le> e \<and> is_i64 e \<and> fee = BaseFeeFromExponent m e"
proof (cases "LegacyParams s")
  case None
  with assms show ?thesis by (auto simp: stepLegacy_def)
next
  case (Some l)
  define i where "i = saturatingCastToBips (SaturatingUMul (Inertia l) (SpeedLimit l))"
  define n where "n = NaturalToBips (SaturatingUSub (LegacyBacklog l) (SaturatingUMul dt (SpeedLimit l)) - Tolerance l * SpeedLimit l)"
  have n: "0 \<le> n" "n \<le> MaxInt64" by (simp_all add: n_def NaturalToBips_eq MaxInt64_def)
  have "0 \<le> n sdiv i \<and> n sdiv i \<le> MaxInt64" if "0 < i"
  proof -
    have q: "n sdiv i = n div i" using n that by (intro sdiv_nonneg) auto
    have "n div i \<le> n" using n that by (intro int_div_le) auto
    moreover have "0 \<le> n div i" using n that by (simp add: pos_imp_zdiv_nonneg_iff)
    ultimately show ?thesis using q n by linarith
  qed
  with assms Some show ?thesis
    by (auto simp: stepLegacy_def Let_def n_def [symmetric] i_def [symmetric] is_i64_def MinInt64_def MaxInt64_def)
qed

lemma Step_bounds:
  assumes "Step s dt = (s', fee, e, per)"
  shows "0 \<le> e \<and> is_i64 e \<and> fee = BaseFeeFromExponent (floorOf s) e"
proof (cases "IsLegacy s")
  case True
  then show ?thesis using assms stepLegacy_bounds [of s dt "floorOf s"] by (simp add: Step_def floorOf_def)
next
  case False
  then show ?thesis using assms by (auto simp: Step_constraints IsLegacy_def)
qed

section \<open>What the operations leave alone\<close>

text \<open>The shape of a state: everything but the backlogs.\<close>

definition shape :: "State \<Rightarrow> (u64 \<times> u64) list \<times> (u64 \<times> u64 \<times> u64) option \<times> bigint option" where
  "shape s = (map (\<lambda>c. (Target c, Window c)) (Constraints s),
     map_option (\<lambda>l. (SpeedLimit l, Inertia l, Tolerance l)) (LegacyParams s), MinBaseFee s)"

lemma shape_AddGas [simp, gas_invariants]: "shape (AddGas s g) = shape s"
  by (auto simp: shape_def AddGas_def split: option.splits)

lemma map_set_constraint_backlogs:
  "map (\<lambda>c. (Target c, Window c)) (set_constraint_backlogs cs bs) = map (\<lambda>c. (Target c, Window c)) cs"
  by (induction cs bs rule: set_constraint_backlogs.induct) auto

lemma shape_SetBacklogs [simp, gas_invariants]: "shape (SetBacklogs s bs) = shape s"
  by (auto simp: shape_def SetBacklogs_def map_set_constraint_backlogs split: option.splits list.splits)

lemma shape_Step [simp, gas_invariants]: "shape (fst (Step s dt)) = shape s"
proof (cases "IsLegacy s")
  case True
  then show ?thesis by (auto simp: Step_def stepLegacy_def shape_def Let_def split: option.splits)
next
  case False
  then show ?thesis by (simp add: Step_constraints IsLegacy_def shape_def comp_def)
qed

lemma shape_replay_block [simp, gas_invariants]: "shape (fst (replay_block s p b a)) = shape s"
proof -
  obtain s1 f e per where "Step s (replay_dt p (pbTimestamp b)) = (s1, f, e, per)"
    using prod_cases4 by blast
  moreover from this have "shape s1 = shape s" using shape_Step [of s "replay_dt p (pbTimestamp b)"] by simp
  ultimately show ?thesis by (simp add: replay_block_def Let_def split: option.split)
qed

lemma shape_Replay: "shape (fst (Replay s p bs a)) = shape s"
proof (induction bs arbitrary: s p)
  case (Cons b bs)
  obtain s' r where r: "replay_block s p b a = (s', r)" by fastforce
  then have "shape s' = shape s" using shape_replay_block [of s p b a] by simp
  then show ?case using Cons.IH [of s' "pbTimestamp b"] r by (simp add: split: prod.split) (metis fst_conv)
qed simp

lemma shape_eqD:
  assumes "shape s = shape t"
  shows "length (Constraints s) = length (Constraints t)" "floorOf s = floorOf t" "IsLegacy s = IsLegacy t"
    "LegacyParams s = None \<longleftrightarrow> LegacyParams t = None"
proof -
  have "length (map (\<lambda>c. (Target c, Window c)) (Constraints s)) = length (map (\<lambda>c. (Target c, Window c)) (Constraints t))"
    using assms by (simp only: shape_def prod.inject)
  then show l: "length (Constraints s) = length (Constraints t)" by simp
  show "floorOf s = floorOf t" "LegacyParams s = None \<longleftrightarrow> LegacyParams t = None"
    using assms by (auto simp: shape_def floorOf_def)
  show "IsLegacy s = IsLegacy t" using l by (metis IsLegacy_def length_0_conv)
qed

section \<open>The abstract pricer\<close>

text \<open>
  What the constraint pricer promises, on unbounded numbers: a constraint is a triple
  (target, window, backlog) of naturals; a block pays the backlog down by \<open>dt * target\<close>,
  stopping at zero, prices it, then adds the block's gas, stopping at the largest
  \<open>uint64\<close>. \<open>abs_constraint\<close> reads a constraint of the code as such a triple.
\<close>

type_synonym abs_c = "nat \<times> nat \<times> nat"

definition abs_constraint :: "Constraint \<Rightarrow> abs_c" where
  "abs_constraint c = (unat (Target c), unat (Window c), unat (Backlog c))"

fun spec_pay :: "nat \<Rightarrow> abs_c \<Rightarrow> abs_c" where
  "spec_pay dt (t, w, b) = (t, w, b - dt * t)"

fun spec_add :: "nat \<Rightarrow> abs_c \<Rightarrow> abs_c" where
  "spec_add gas (t, w, b) = (t, w, sat64 (b + gas))"

fun spec_bips :: "abs_c \<Rightarrow> int" where
  "spec_bips (t, w, b) = min (int b * 10000) MaxInt64 div min (int (sat64 (w * t))) MaxInt64"

definition spec_exponent :: "abs_c list \<Rightarrow> int" where
  "spec_exponent cs = min MaxInt64 (\<Sum>c\<leftarrow>cs. spec_bips c)"

definition spec_fee :: "bigint \<Rightarrow> abs_c list \<Rightarrow> bigint" where
  "spec_fee m cs = m * int (exp_sat (nat (spec_exponent cs))) div 10000"

fun spec_replay :: "bigint \<Rightarrow> abs_c list \<Rightarrow> nat \<Rightarrow> (nat \<times> nat) list \<Rightarrow> (abs_c list \<times> bigint) list" where
  "spec_replay m cs prev [] = []"
| "spec_replay m cs prev ((ts, gas) # bs) =
     (let paid = map (spec_pay (if prev = 0 then 0 else ts - prev)) cs;
          cs' = map (spec_add gas) paid
      in (cs', spec_fee m paid) # spec_replay m cs' ts bs)"

lemma abs_payDown: "abs_constraint (payDown dt c) = spec_pay (unat dt) (abs_constraint c)"
  by (simp add: abs_constraint_def unat_payDown)

lemma abs_addGas:
  "abs_constraint (c\<lparr>Backlog := SaturatingUAdd (Backlog c) g\<rparr>) = spec_add (unat g) (abs_constraint c)"
  by (simp add: abs_constraint_def nat_of_word)

lemma spec_bips_abs: "spec_bips (abs_constraint c) = constraintBips c"
  by (simp add: abs_constraint_def constraintBips_def)

lemma stepExponent_abs:
  "stepExponent dt cs = spec_exponent (map (\<lambda>c. spec_pay (unat dt) (abs_constraint c)) cs)"
  by (simp add: stepExponent_def stepBips_def spec_exponent_def comp_def spec_bips_abs
      flip: abs_payDown)

lemma unat_replay_dt:
  "unat (replay_dt prev ts) = (if unat prev = 0 then 0 else unat ts - unat prev)"
proof -
  have "unat prev = 0 \<longleftrightarrow> prev = 0" by (simp add: unat_eq_zero)
  then show ?thesis
    by (auto simp: replay_dt_def word_less_nat_alt unat_sub_if' word_le_nat_alt)
qed

lemma replay_block_abs:
  assumes "Constraints s \<noteq> []" and "replay_block s prev b None = (s', r)"
  defines "paid \<equiv> map (\<lambda>c. spec_pay (unat (replay_dt prev (pbTimestamp b))) (abs_constraint c)) (Constraints s)"
  shows "map abs_constraint (Constraints s') = map (spec_add (unat (pbGasUsed b))) paid"
    and "rPredicted r = spec_fee (floorOf s) paid"
    and "Constraints s' \<noteq> []"
    and "floorOf s' = floorOf s"
    and "rBacklogs r = map Backlog (Constraints s')"
proof -
  define dt where "dt = replay_dt prev (pbTimestamp b)"
  have ne: "\<not> IsLegacy (s\<lparr>Constraints := map (payDown dt) (Constraints s)\<rparr>)"
    using assms(1) by (simp add: IsLegacy_def)
  have s': "s' = AddGas (s\<lparr>Constraints := map (payDown dt) (Constraints s)\<rparr>) (pbGasUsed b)"
    and r: "rPredicted r = BaseFeeFromExponent (floorOf s) (stepExponent dt (Constraints s))"
    and rb: "rBacklogs r = Backlogs s'"
    using assms(2) by (auto simp: replay_block_def Step_constraints [OF assms(1)] dt_def Let_def)
  have cs: "Constraints s' = map (\<lambda>c. (payDown dt c)\<lparr>Backlog := SaturatingUAdd (Backlog (payDown dt c)) (pbGasUsed b)\<rparr>) (Constraints s)"
    unfolding s' AddGas_def using ne by simp
  show "map abs_constraint (Constraints s') = map (spec_add (unat (pbGasUsed b))) paid"
    by (simp add: cs paid_def abs_addGas abs_payDown dt_def)
  show "rPredicted r = spec_fee (floorOf s) paid"
    by (simp add: r BaseFee_eq spec_fee_def stepExponent_abs paid_def dt_def [symmetric])
      (simp add: BaseFee_eq stepExponent_abs [symmetric])
  show ne': "Constraints s' \<noteq> []" using assms(1) by (simp add: cs)
  show "floorOf s' = floorOf s" by (simp add: s' AddGas_def floorOf_def ne split: option.split)
  show "rBacklogs r = map Backlog (Constraints s')"
    using ne' by (simp add: rb Backlogs_def IsLegacy_def)
qed

text \<open>
  C1. The replay of the constraint model refines the abstract pricer: for every state with
  constraints and every block list, the predicted base fee and the end-of-block backlogs of
  each result of \<open>Replay\<close> without an anchor are those the abstract pricer computes on
  unbounded naturals from the same timestamps and gas.
\<close>

theorem Replay_refines_spec:
  assumes "Constraints s \<noteq> []"
  shows "map (\<lambda>r. (map unat (rBacklogs r), rPredicted r)) (snd (Replay s prev bs None))
    = map (\<lambda>(cs, fee). (map (snd \<circ> snd) cs, fee))
        (spec_replay (floorOf s) (map abs_constraint (Constraints s)) (unat prev)
          (map (\<lambda>b. (unat (pbTimestamp b), unat (pbGasUsed b))) bs))"
  using assms
proof (induction bs arbitrary: s prev)
  case (Cons b bs)
  obtain s' r where blk: "replay_block s prev b None = (s', r)" by fastforce
  note abs = replay_block_abs [OF Cons.prems blk]
  obtain s'' rs where rest: "Replay s' (pbTimestamp b) bs None = (s'', rs)" by fastforce
  have "map unat (rBacklogs r) = map (snd \<circ> snd) (map abs_constraint (Constraints s'))"
    by (simp add: abs(5) abs_constraint_def comp_def)
  then show ?case
    using Cons.IH [OF abs(3), of "pbTimestamp b"] abs(1,2,4) blk rest
    by (simp add: Let_def unat_replay_dt comp_def)
qed simp


theorem Replay_refines_spec_witness:
  "let s = \<lparr>Constraints = [\<lparr>Target = 7, Window = 60, Backlog = 100\<rparr>], LegacyParams = None, MinBaseFee = Some 1000\<rparr>;
       bs = [\<lparr>pbNumber = 1, pbTimestamp = 12, pbGasUsed = 900\<rparr>, \<lparr>pbNumber = 2, pbTimestamp = 13, pbGasUsed = 5\<rparr>]
   in map (\<lambda>r. (map unat (rBacklogs r), rPredicted r)) (snd (Replay s 10 bs None)) = [([986], 1227), ([984], 9387)]"
proof -
  have f1: "spec_fee 1000 [(7, 60, 86)] = 1227" and f2: "spec_fee 1000 [(7, 60, 979)] = 9387"
    by (simp_all add: spec_fee_def spec_exponent_def sat64_def MaxInt64_def exp_sat_def sat_step_def)
  have "spec_replay 1000 [(7, 60, 100)] 10 [(12, 900), (13, 5)] = [([(7, 60, 986)], 1227), ([(7, 60, 984)], 9387)]"
    using f1 f2 by (simp add: Let_def sat64_def)
  then show ?thesis
    by (subst Let_def, subst Let_def, subst Replay_refines_spec) (simp_all add: floorOf_def abs_constraint_def)
qed

section \<open>Properties of the exponential\<close>

text \<open>
  C10. Up to an exponent of ten million basis points (a multiplier of about \<open>4 * 10^10\<close>)
  no step of \<open>ApproxExpBips\<close> saturates: it equals the degree 4 Taylor polynomial of the
  exponential evaluated by Horner's rule with one rounding per step.
\<close>

theorem ApproxExpBips_polynomial:
  assumes "0 \<le> x" and "x \<le> 10000000"
  shows "ApproxExpBips x 4 = Some (int (exp_poly (nat x)))"
proof -
  have "is_i64 x" using assms by (simp add: is_i64_def MinInt64_def MaxInt64_def)
  then show ?thesis using assms by (simp add: ApproxExpBips_4 exp_sat_poly)
qed

theorem ApproxExpBips_polynomial_witness: "ApproxExpBips 20000 4 = Some 70000"
proof -
  have "exp_poly 20000 = 70000" by (simp add: exp_poly_def exp_step_def)
  then show ?thesis using ApproxExpBips_polynomial [of 20000] by simp
qed

text \<open>
  C11. For every non-negative exponent the multiplier \<open>ApproxExpBips\<close> returns is at least
  one, at most a fixed cap (saturation never makes it wrap), never above the true
  exponential, and it does not fall when the exponent rises.
\<close>

theorem ApproxExpBips_bounds:
  assumes "0 \<le> x" and "x \<le> y" and "y \<le> MaxInt64"
  shows "\<exists>v w. ApproxExpBips x 4 = Some v \<and> ApproxExpBips y 4 = Some w
     \<and> OneInBips \<le> v \<and> v \<le> w \<and> w \<le> 1844674407380955
     \<and> real_of_int v \<le> 10000 * exp (real_of_int x / 10000)"
proof -
  have ix: "is_i64 x" "is_i64 y" using assms by (simp_all add: is_i64_def MinInt64_def)
  have "ApproxExpBips x 4 = Some (int (exp_sat (nat x)))" "ApproxExpBips y 4 = Some (int (exp_sat (nat y)))"
    using assms ix by (simp_all add: ApproxExpBips_4)
  moreover have "OneInBips \<le> int (exp_sat (nat x))" using exp_sat_ge [of "nat x"] by (simp add: OneInBips_def)
  moreover have "int (exp_sat (nat x)) \<le> int (exp_sat (nat y))" using assms(2) by (simp add: exp_sat_mono nat_mono)
  moreover have "int (exp_sat (nat y)) \<le> 1844674407380955" using exp_sat_le [of "nat y"] by simp
  moreover have "real_of_int (int (exp_sat (nat x))) \<le> 10000 * exp (real_of_int x / 10000)"
    using exp_sat_le_exp [of "nat x"] assms(1) by simp
  ultimately show ?thesis by blast
qed

theorem ApproxExpBips_bounds_witness:
  "\<exists>v. ApproxExpBips MaxInt64 4 = Some v \<and> OneInBips \<le> v \<and> v \<le> 1844674407380955"
proof -
  have "\<exists>v w. ApproxExpBips 0 4 = Some v \<and> ApproxExpBips MaxInt64 4 = Some w
     \<and> OneInBips \<le> v \<and> v \<le> w \<and> w \<le> 1844674407380955
     \<and> real_of_int v \<le> 10000 * exp (real_of_int 0 / 10000)"
    by (rule ApproxExpBips_bounds) (simp_all add: MaxInt64_def)
  then show ?thesis by force
qed

lemma unat_abs_i64:
  assumes "is_i64 x"
  shows "unat (u64_of_i64 (if x < 0 then i64_wrap (- x) else x)) \<le> 9223372036854775808"
proof (cases "x = MinInt64")
  case True
  then show ?thesis by (simp add: MinInt64_def i64_wrap_def u64_of_i64_def)
next
  case False
  define v where "v = (if x < 0 then - x else x)"
  have v: "0 \<le> v" "is_i64 v" "(if x < 0 then i64_wrap (- x) else x) = v"
    using assms False by (auto simp: v_def is_i64_def MinInt64_def MaxInt64_def intro!: i64_wrap_id)
  then have "unat (u64_of_i64 v) = nat v" by (simp add: unat_u64_of_i64)
  also have "\<dots> \<le> 9223372036854775808" using v(2) by (auto simp: is_i64_def MaxInt64_def)
  finally show ?thesis using v(3) by simp
qed

lemma approx_exp_loop_nonzero:
  "approx_exp_loop k input res = Some r \<Longrightarrow> res \<noteq> 0 \<Longrightarrow> r \<noteq> 0"
proof (induction k arbitrary: res)
  case (Suc k)
  have "SaturatingUAdd 10000 q \<noteq> 0" for q
    using psat.le_uadd [of 10000 q] by auto
  then show ?case using Suc by (auto simp: Let_def split: if_splits)
qed simp

text \<open>
  \<open>ApproxExpBips\<close> returns for every \<open>int64\<close> exponent, negative ones included, and
  every accuracy up to \<open>1844674407370955\<close>: neither the wrapping loop divisor nor the
  reciprocal of a negative exponent divides by zero.
\<close>

theorem ApproxExpBips_returns:
  assumes "is_i64 x" and "unat accuracy \<le> 1844674407370955"
  shows "\<exists>v. ApproxExpBips x accuracy = Some v"
proof (cases "accuracy = 0")
  case False
  define n where "n = u64_of_i64 (if x < 0 then i64_wrap (- x) else x)"
  have "unat (accuracy - 1) \<le> 1844674407370955"
    using assms(2) False by (simp add: unat_minus_one)
  then obtain r where r: "approx_exp_loop (unat (accuracy - 1)) n (10000 + n div accuracy) = Some r"
    using approx_exp_loop_total by blast
  have "unat n div unat accuracy \<le> 9223372036854775808"
    unfolding n_def by (rule order_trans [OF div_le_dividend unat_abs_i64 [OF assms(1)]])
  then have "unat (10000 + n div accuracy) = 10000 + unat n div unat accuracy"
    by (simp add: unat_word_ariths unat_div)
  then have "10000 + n div accuracy \<noteq> 0" by (metis add_is_0 unat_0 zero_neq_numeral)
  then have "r \<noteq> 0" by (rule approx_exp_loop_nonzero [OF r])
  with r False show ?thesis by (auto simp: ApproxExpBips_def Let_def n_def split: if_splits)
qed (simp add: ApproxExpBips_def)

theorem ApproxExpBips_returns_witness: "\<exists>v. ApproxExpBips MinInt64 4 = Some v"
  by (rule ApproxExpBips_returns) (simp_all add: is_i64_def MinInt64_def MaxInt64_def)

section \<open>Properties of the step\<close>

lemma constraintBips_mono:
  assumes "Target c = Target d" and "Window c = Window d" and "Backlog c \<le> Backlog d"
  shows "constraintBips c \<le> constraintBips d"
proof -
  have "min (int (unat (Backlog c)) * 10000) MaxInt64 \<le> min (int (unat (Backlog d)) * 10000) MaxInt64"
    using assms(3) by (intro min.mono mult_right_mono) (simp_all add: word_le_nat_alt del: of_nat_unat)
  moreover have "0 \<le> min (int (sat64 (unat (Window d) * unat (Target d)))) MaxInt64"
    by (simp add: MaxInt64_def)
  ultimately show ?thesis
    unfolding constraintBips_def assms(1,2) by (rule int_div_mono)
qed

lemma payDown_mono:
  "Target c = Target d \<Longrightarrow> Backlog c \<le> Backlog d \<Longrightarrow> Backlog (payDown dt c) \<le> Backlog (payDown dt d)"
  by (simp add: word_le_nat_alt unat_payDown diff_le_mono)

text \<open>Two constraint lists that differ in their backlogs only, the second ones at least as high.\<close>

definition backlogs_le :: "Constraint list \<Rightarrow> Constraint list \<Rightarrow> bool" where
  "backlogs_le = list_all2 (\<lambda>c d. Target c = Target d \<and> Window c = Window d \<and> Backlog c \<le> Backlog d)"

lemma stepExponent_mono:
  assumes "backlogs_le cs ds"
  shows "stepExponent dt cs \<le> stepExponent dt ds"
proof -
  have "sum_list (stepBips dt cs) \<le> sum_list (stepBips dt ds)"
    using assms unfolding backlogs_le_def
    by (induction rule: list_all2_induct)
      (auto simp: stepBips_def intro!: add_mono constraintBips_mono payDown_mono)
  then show ?thesis by (simp add: stepExponent_def)
qed

text \<open>
  C12. A step of the constraint model prices monotonically: with the same targets, windows
  and floor, higher backlogs never give a lower exponent or a lower base fee, and no fee is
  below the floor.
\<close>

theorem Step_monotone:
  assumes "Constraints s \<noteq> []" and "backlogs_le (Constraints s) (Constraints t)"
    and "MinBaseFee s = Some m" and "MinBaseFee t = Some m" and "0 \<le> m"
    and "Step s dt = (s', fee, e, per)" and "Step t dt = (t', fee', e', per')"
  shows "e \<le> e' \<and> fee \<le> fee' \<and> m \<le> fee"
proof -
  have "Constraints t \<noteq> []" using assms(1,2) by (auto simp: backlogs_le_def)
  then have t: "e' = stepExponent dt (Constraints t)" "fee' = BaseFeeFromExponent m e'"
    using assms(4,7) by (auto simp: Step_constraints floorOf_def)
  have s: "e = stepExponent dt (Constraints s)" "fee = BaseFeeFromExponent m e"
    using assms(1,3,6) by (auto simp: Step_constraints floorOf_def)
  have "e \<le> e'" unfolding s t using assms(2) by (rule stepExponent_mono)
  then show ?thesis
    using s t assms(5) by (simp add: BaseFee_mono BaseFee_ge_min)
qed

theorem Step_monotone_witness:
  "let s = (\<lambda>b. \<lparr>Constraints = [\<lparr>Target = 7, Window = 60, Backlog = b\<rparr>], LegacyParams = None, MinBaseFee = Some 1000\<rparr>)
   in fst (snd (Step (s 100) 2)) \<le> fst (snd (Step (s 986) 2))"
proof -
  define s where "s = (\<lambda>b. \<lparr>Constraints = [\<lparr>Target = 7, Window = 60, Backlog = b\<rparr>], LegacyParams = None, MinBaseFee = Some 1000\<rparr>)"
  obtain a1 a2 a3 a4 where a: "Step (s 100) 2 = (a1, a2, a3, a4)" using prod_cases4 by blast
  obtain b1 b2 b3 b4 where b: "Step (s 986) 2 = (b1, b2, b3, b4)" using prod_cases4 by blast
  have "a3 \<le> b3 \<and> a2 \<le> b2 \<and> 1000 \<le> a2"
    by (rule Step_monotone [OF _ _ _ _ _ a b]) (simp_all add: s_def backlogs_le_def)
  then show ?thesis using a b unfolding s_def [symmetric] Let_def by simp
qed

text \<open>
  A chain that stays idle long enough returns to the floor: when the elapsed seconds
  times each target cover that constraint's backlog, the step empties every backlog and the
  base fee is the minimum base fee, with exponent zero for every constraint.
\<close>

theorem Step_drains_to_floor:
  assumes "Constraints s \<noteq> []"
    and "\<And>c. c \<in> set (Constraints s) \<Longrightarrow> unat (Backlog c) \<le> unat dt * unat (Target c)"
  shows "Backlogs (fst (Step s dt)) = replicate (length (Constraints s)) 0
    \<and> snd (Step s dt) = (floorOf s, 0, replicate (length (Constraints s)) 0)"
proof -
  have z: "Backlog (payDown dt c) = 0" if "c \<in> set (Constraints s)" for c
    using assms(2) [OF that] by (simp add: unat_payDown flip: unat_eq_zero)
  then have per: "stepBips dt (Constraints s) = replicate (length (Constraints s)) 0"
    unfolding stepBips_def by (intro nth_equalityI) (auto simp: constraintBips_0)
  then have "stepExponent dt (Constraints s) = 0"
    by (simp add: stepExponent_def sum_list_replicate MaxInt64_def)
  with per have "snd (Step s dt) = (floorOf s, 0, replicate (length (Constraints s)) 0)"
    using assms(1) by (simp add: Step_constraints)
  moreover have "Backlogs (fst (Step s dt)) = replicate (length (Constraints s)) 0"
    using assms(1) z by (simp add: Step_constraints Backlogs_def IsLegacy_def) (auto intro!: nth_equalityI)
  ultimately show ?thesis by simp
qed

theorem Step_drains_to_floor_witness:
  "snd (Step \<lparr>Constraints = [\<lparr>Target = 7, Window = 60, Backlog = 100\<rparr>], LegacyParams = None, MinBaseFee = Some 1000\<rparr> 15) = (1000, 0, [0])"
  using Step_drains_to_floor [of "\<lparr>Constraints = [\<lparr>Target = 7, Window = 60, Backlog = 100\<rparr>], LegacyParams = None, MinBaseFee = Some 1000\<rparr>" 15]
  by (simp add: floorOf_def)

section \<open>Properties of the replay\<close>

definition last_ts :: "u64 \<Rightarrow> pricer_block list \<Rightarrow> u64" where
  "last_ts prev bs = (if bs = [] then prev else pbTimestamp (last bs))"

text \<open>
  The state \<open>Replay\<close> leaves lets a caller continue: replaying a run of blocks in two
  parts, the second from the state and timestamp the first ended at, gives the same final
  state and the same results as replaying it at once, anchors included.
\<close>

theorem Replay_continues:
  "Replay s prev (xs @ ys) anchor =
     (case Replay s prev xs anchor of
        (s1, rs1) \<Rightarrow> case Replay s1 (last_ts prev xs) ys anchor of
          (s2, rs2) \<Rightarrow> (s2, rs1 @ rs2))"
proof (induction xs arbitrary: s prev)
  case (Cons x xs)
  obtain s' r where b: "replay_block s prev x anchor = (s', r)" by fastforce
  have "last_ts prev (x # xs) = last_ts (pbTimestamp x) xs" by (simp add: last_ts_def)
  then show ?case by (simp add: b Cons.IH split: prod.split)
qed (simp add: last_ts_def split: prod.split)

lemma length_set_constraint_backlogs: "length (set_constraint_backlogs cs bs) = length cs"
  by (induction cs bs rule: set_constraint_backlogs.induct) auto

lemma map_Backlog_set_constraint_backlogs:
  "length bs = length cs \<Longrightarrow> map Backlog (set_constraint_backlogs cs bs) = bs"
  by (induction cs bs rule: set_constraint_backlogs.induct) auto

lemma SetBacklogs_Backlogs:
  assumes "length bs = length (Backlogs s)"
  shows "Backlogs (SetBacklogs s bs) = bs"
proof (cases "IsLegacy s")
  case True
  with assms show ?thesis
    by (cases bs) (auto simp: Backlogs_def SetBacklogs_def IsLegacy_def split: option.splits)
next
  case False
  then have "length bs = length (Constraints s)" using assms by (simp add: Backlogs_def)
  moreover from this have "set_constraint_backlogs (Constraints s) bs \<noteq> []"
    using False by (metis IsLegacy_def length_0_conv length_set_constraint_backlogs)
  ultimately show ?thesis
    using False by (simp add: Backlogs_def SetBacklogs_def IsLegacy_def map_Backlog_set_constraint_backlogs)
qed

lemma length_Backlogs_shape: "shape s = shape t \<Longrightarrow> length (Backlogs s) = length (Backlogs t)"
  using shape_eqD [of s t] by (auto simp: Backlogs_def split: option.splits)

definition result_ok :: "State \<Rightarrow> Anchor \<Rightarrow> pricer_block \<Rightarrow> Result \<Rightarrow> bool" where
  "result_ok s anchor b r \<longleftrightarrow>
     rNumber r = pbNumber b \<and> floorOf s \<le> rPredicted r \<and> 0 \<le> rExponent r \<and> rExponent r \<le> MaxInt64
     \<and> length (rBacklogs r) = length (Backlogs s)
     \<and> (case anchor of None \<Rightarrow> \<not> rAnchored r
        | Some f \<Rightarrow> (case f (pbNumber b) of None \<Rightarrow> \<not> rAnchored r
           | Some bl \<Rightarrow> rAnchored r \<and> (length bl = length (Backlogs s) \<longrightarrow> rBacklogs r = bl)))"

lemma replay_block_ok:
  assumes "0 \<le> floorOf s" and "replay_block s prev b anchor = (s', r)"
  shows "result_ok s anchor b r \<and> shape s' = shape s"
proof -
  obtain s1 f e per where st: "Step s (replay_dt prev (pbTimestamp b)) = (s1, f, e, per)"
    using prod_cases4 by blast
  define s2 where "s2 = AddGas s1 (pbGasUsed b)"
  have e: "0 \<le> e" "is_i64 e" "f = BaseFeeFromExponent (floorOf s) e" using Step_bounds [OF st] by auto
  have sh: "shape s2 = shape s" using shape_Step [of s "replay_dt prev (pbTimestamp b)"] st by (simp add: s2_def)
  have len: "length (Backlogs (SetBacklogs s2 bl)) = length (Backlogs s)"
    "length (Backlogs s2) = length (Backlogs s)" for bl
    by (rule length_Backlogs_shape, simp add: sh)+
  have "floorOf s \<le> f" "e \<le> MaxInt64" using assms(1) e by (simp_all add: BaseFee_ge_min is_i64_def)
  then show ?thesis
    using assms(2) st e(1) len sh
    by (auto simp: replay_block_def Let_def s2_def [symmetric] result_ok_def SetBacklogs_Backlogs split: option.splits)
qed

lemma result_ok_shape: "shape s = shape t \<Longrightarrow> result_ok s = result_ok t"
proof -
  assume sh: "shape s = shape t"
  show "result_ok s = result_ok t"
    unfolding result_ok_def [abs_def] shape_eqD(2) [OF sh] length_Backlogs_shape [OF sh] ..
qed

text \<open>
  Every replay yields exactly one result per block, in block order; each carries the
  block's number, an exponent between zero and the largest \<open>int64\<close>, a prediction that is
  never below the floor, and one backlog per constraint; it is marked anchored exactly when
  the anchor answered for its block, and then carries the anchor's backlogs.
\<close>

theorem Replay_results:
  assumes "0 \<le> floorOf s"
  shows "list_all2 (result_ok s anchor) bs (snd (Replay s prev bs anchor))
     \<and> shape (fst (Replay s prev bs anchor)) = shape s"
  using assms
proof (induction bs arbitrary: s prev)
  case (Cons b bs)
  obtain s' r where b: "replay_block s prev b anchor = (s', r)" by fastforce
  obtain s2 rs where rest: "Replay s' (pbTimestamp b) bs anchor = (s2, rs)" by fastforce
  have ok: "result_ok s anchor b r" and sh: "shape s' = shape s"
    using replay_block_ok [OF Cons.prems b] by auto
  then have "0 \<le> floorOf s'" using Cons.prems by (simp add: shape_eqD(2) [OF sh])
  then show ?case
    using Cons.IH [of s' "pbTimestamp b"] ok sh b rest result_ok_shape [OF sh] by simp
qed simp

theorem Replay_results_witness:
  "let s = \<lparr>Constraints = [\<lparr>Target = 7, Window = 60, Backlog = 100\<rparr>], LegacyParams = None, MinBaseFee = Some 1000\<rparr>;
       b = \<lparr>pbNumber = 1, pbTimestamp = 12, pbGasUsed = 900\<rparr>
   in rBacklogs (hd (snd (Replay s 10 [b] (Some (\<lambda>n. Some [42]))))) = [42]"
proof -
  define s where "s = \<lparr>Constraints = [\<lparr>Target = 7, Window = 60, Backlog = 100\<rparr>], LegacyParams = None, MinBaseFee = Some (1000 :: int)\<rparr>"
  define b where "b = \<lparr>pbNumber = 1, pbTimestamp = 12, pbGasUsed = 900\<rparr>"
  define an where "an = Some (\<lambda>n :: u64. Some [42 :: u64])"
  have "list_all2 (result_ok s an) [b] (snd (Replay s 10 [b] an)) \<and> shape (fst (Replay s 10 [b] an)) = shape s"
    by (rule Replay_results) (simp add: s_def floorOf_def)
  then obtain r where "snd (Replay s 10 [b] an) = [r]" "result_ok s an b r"
    by (auto simp: list_all2_Cons1)
  then show ?thesis
    unfolding s_def [symmetric] b_def [symmetric] an_def [symmetric] Let_def
    by (simp add: result_ok_def an_def s_def Backlogs_def IsLegacy_def)
qed

text \<open>
  \<open>ErrorBips\<close> scores a prediction exactly: for a positive actual fee it is
  \<open>|predicted - actual| * 10000 / actual\<close> rounded down and clamped to the largest \<open>int64\<close>,
  so it is never negative, and it is zero for an exact prediction, a missing prediction, a
  missing fee and a zero fee.
\<close>

theorem ErrorBips_spec:
  "(0 < a \<longrightarrow> ErrorBips (Some p) (Some a) = min MaxInt64 (\<bar>p - a\<bar> * 10000 div a)
       \<and> 0 \<le> ErrorBips (Some p) (Some a))
   \<and> ErrorBips (Some a) (Some a) = 0 \<and> ErrorBips None y = 0 \<and> ErrorBips x None = 0
   \<and> ErrorBips x (Some 0) = 0"
proof -
  have "0 \<le> \<bar>p - a\<bar> * 10000 div a" if "0 < a"
    using that by (simp add: pos_imp_zdiv_nonneg_iff)
  then show ?thesis
    by (auto simp: ErrorBips_def Let_def big_Div_def OneInBips_def IsInt64_def is_i64_def
        MinInt64_def MaxInt64_def split: option.split)
qed

theorem ErrorBips_spec_witness: "ErrorBips (Some 1100) (Some 1000) = 1000"
  using ErrorBips_spec [of 1000 1100 None None] by (simp add: MaxInt64_def)

end
