(* ===== verification/Bucket.thy ===== *)
theory Bucket
  imports Pricer
begin

text \<open>
  Block rows and their aggregation into buckets: the row types of \<open>internal/db/store.go\<close>
  and the bucket arithmetic of \<open>internal/db/bucket.go\<close>, the single definition shared by
  the collector's folds and the SQL rebuild. An \<open>sql.NullInt64\<close> or \<open>NullWei\<close> is an option,
  \<open>None\<close> when it is not valid; a \<open>Wei\<close> is an \<open>int\<close>.
\<close>

section \<open>Rows\<close>

definition PricingUnknown :: int where
  "PricingUnknown = 0"

definition PricingFull :: int where
  "PricingFull = 1"

record db_block =
  bChainID :: u64
  bNumber :: u64
  bHash :: string
  bParentHash :: string
  bTS :: gotime
  bGasUsed :: u64
  bPosterGas :: "i64 option"
  bBaseFee :: bigint
  bL1Block :: u64
  bTxCount :: int
  bBacklogs :: "u64 list"
  bConstraintBips :: "i64 list"
  bExponentBips :: i64
  bPredictedBaseFee :: "bigint option"
  bMinBaseFee :: "bigint option"
  bAnchored :: bool
  bPricingVersion :: int
  bArbOSVersion :: "i64 option"

definition Known :: "db_block \<Rightarrow> bool" where
  "Known b \<longleftrightarrow> PricingFull \<le> bPricingVersion b \<and> bMinBaseFee b \<noteq> None"

text \<open>The test on the receipt poster gas that several functions of the program repeat.\<close>

definition posterKnown :: "db_block \<Rightarrow> bool" where
  "posterKnown b \<longleftrightarrow> (case bPosterGas b of None \<Rightarrow> False
     | Some p \<Rightarrow> 0 \<le> p \<and> u64_of_i64 p \<le> bGasUsed b)"

definition DestinationsKnown :: "db_block \<Rightarrow> bool" where
  "DestinationsKnown b \<longleftrightarrow> Known b \<and> posterKnown b"

definition Resolution1m :: string where "Resolution1m = ''1m''"
definition Resolution15m :: string where "Resolution15m = ''15m''"
definition Resolution1h :: string where "Resolution1h = ''1h''"

text \<open>A Go map lookup gives the zero duration for a name that is not a key.\<close>

definition Resolutions :: "string \<Rightarrow> duration" where
  "Resolutions name =
     (if name = Resolution1m then 60 * Second
      else if name = Resolution15m then 15 * 60 * Second
      else if name = Resolution1h then 3600 * Second
      else 0)"

definition ResolutionOrder :: "string list" where
  "ResolutionOrder = [Resolution1m, Resolution15m, Resolution1h]"

definition ResolutionOf :: "duration \<Rightarrow> string option" where
  "ResolutionOf width = List.find (\<lambda>name. Resolutions name = width) ResolutionOrder"

record Bucket =
  kChainID :: u64
  kResolution :: string
  kBucketStart :: gotime
  kBlocks :: i64
  kGasUsed :: u64
  kPosterGas :: "i64 option"
  kFeesWei :: bigint
  kPosterFeesWei :: "bigint option"
  kBaseFeeMin :: bigint
  kBaseFeeAvg :: bigint
  kBaseFeeMax :: bigint
  kBaseFeeSum :: "bigint option"
  kExponentEndBips :: i64
  kBacklogsEnd :: "u64 list"
  kBacklogsMax :: "u64 list"
  kConstraintBipsEnd :: "i64 list option"
  kMinBaseFee :: "bigint option"
  kFloorFeesWei :: "bigint option"
  kSurplusFeesWei :: "bigint option"
  kConstraintSetID :: "i64 option"
  kReplayErrorBips :: i64
  kLastBlock :: u64
  kPricingVersion :: int
  kArbOSVersionMin :: "i64 option"
  kArbOSVersionMax :: "i64 option"

definition SpansArbOSUpgrade :: "Bucket \<Rightarrow> bool" where
  "SpansArbOSUpgrade b \<longleftrightarrow>
     kArbOSVersionMin b \<noteq> None \<and> kArbOSVersionMax b \<noteq> None \<and> kArbOSVersionMin b \<noteq> kArbOSVersionMax b"

section \<open>The bucket builder\<close>

definition NewBucketBuilder :: "u64 \<Rightarrow> string \<Rightarrow> gotime \<Rightarrow> Bucket" where
  "NewBucketBuilder chainID resolution start =
     \<lparr>kChainID = chainID, kResolution = resolution, kBucketStart = start,
      kBlocks = 0, kGasUsed = 0, kPosterGas = Some 0, kFeesWei = 0, kPosterFeesWei = Some 0,
      kBaseFeeMin = 0, kBaseFeeAvg = 0, kBaseFeeMax = 0, kBaseFeeSum = Some 0,
      kExponentEndBips = 0, kBacklogsEnd = [], kBacklogsMax = [], kConstraintBipsEnd = Some [],
      kMinBaseFee = Some 0, kFloorFeesWei = Some 0, kSurplusFeesWei = Some 0,
      kConstraintSetID = None, kReplayErrorBips = 0, kLastBlock = 0,
      kPricingVersion = PricingFull, kArbOSVersionMin = None, kArbOSVersionMax = None\<rparr>"

text \<open>\<open>BigInt\<close> of a \<open>NullWei\<close> that is not valid is zero.\<close>

definition wei_of :: "bigint option \<Rightarrow> bigint" where
  "wei_of v = (case v of None \<Rightarrow> 0 | Some w \<Rightarrow> w)"

definition ReplayErrorBips :: "db_block \<Rightarrow> i64" where
  "ReplayErrorBips b =
     (case bPredictedBaseFee b of None \<Rightarrow> 0 | Some p \<Rightarrow> ErrorBips (Some p) (Some (bBaseFee b)))"

definition extendArbOSRange :: "Bucket \<Rightarrow> i64 option \<Rightarrow> bool \<Rightarrow> i64 option \<times> i64 option" where
  "extendArbOSRange b v first =
     (case v of
        None \<Rightarrow> (None, None)
      | Some x \<Rightarrow>
          if \<not> first \<and> kArbOSVersionMin b = None then (None, None)
          else if first then (Some x, Some x)
          else (map_option (\<lambda>l. min l x) (kArbOSVersionMin b),
                map_option (\<lambda>h. max h x) (kArbOSVersionMax b)))"

text \<open>The element-wise maximum \<open>Add\<close> keeps of the backlogs, growing with the longest row.\<close>

fun max_backlogs :: "u64 list \<Rightarrow> u64 list \<Rightarrow> u64 list" where
  "max_backlogs mx [] = mx"
| "max_backlogs [] (v # vs) = v # max_backlogs [] vs"
| "max_backlogs (m # ms) (v # vs) = (if m < v then v else m) # max_backlogs ms vs"

definition posterGasOf :: "db_block \<Rightarrow> u64" where
  "posterGasOf b = u64_of_i64 (case bPosterGas b of None \<Rightarrow> 0 | Some p \<Rightarrow> p)"

text \<open>The floor share of a block's compute fees: compute gas times the lower of the floor and the fee.\<close>

definition floorFees :: "db_block \<Rightarrow> bigint" where
  "floorFees b =
     (let compute = uint (bGasUsed b - posterGasOf b);
          rate = wei_of (bMinBaseFee b);
          rate' = (if bBaseFee b < rate then bBaseFee b else rate)
      in rate' * compute)"

definition computeFees :: "db_block \<Rightarrow> bigint" where
  "computeFees b = bBaseFee b * uint (bGasUsed b - posterGasOf b)"

text \<open>The statements of \<open>Add\<close>, in their order.\<close>

definition add_pricing :: "db_block \<Rightarrow> Bucket \<Rightarrow> Bucket" where
  "add_pricing blk a = (if \<not> Known blk then a\<lparr>kPricingVersion := PricingUnknown\<rparr> else a)"

definition add_min :: "db_block \<Rightarrow> Bucket \<Rightarrow> Bucket" where
  "add_min blk a =
     (if kBlocks a = 0 \<or> bBaseFee blk < kBaseFeeMin a then a\<lparr>kBaseFeeMin := bBaseFee blk\<rparr> else a)"

definition add_max :: "db_block \<Rightarrow> Bucket \<Rightarrow> Bucket" where
  "add_max blk a = (if kBaseFeeMax a < bBaseFee blk then a\<lparr>kBaseFeeMax := bBaseFee blk\<rparr> else a)"

definition add_totals :: "db_block \<Rightarrow> Bucket \<Rightarrow> Bucket" where
  "add_totals blk a =
     a\<lparr>kBlocks := i64_wrap (kBlocks a + 1), kGasUsed := kGasUsed a + bGasUsed blk,
       kBaseFeeSum := Some (wei_of (kBaseFeeSum a) + bBaseFee blk),
       kFeesWei := bBaseFee blk * uint (bGasUsed blk) + kFeesWei a\<rparr>"

definition add_poster :: "db_block \<Rightarrow> Bucket \<Rightarrow> Bucket" where
  "add_poster blk a =
     (if posterKnown blk \<and> kPosterGas a \<noteq> None then
        a\<lparr>kPosterGas := map_option (\<lambda>g. i64_wrap (g + the (bPosterGas blk))) (kPosterGas a),
          kPosterFeesWei := Some (bBaseFee blk * uint (posterGasOf blk) + wei_of (kPosterFeesWei a))\<rparr>
      else a\<lparr>kPosterGas := None, kPosterFeesWei := None\<rparr>)"

definition add_destinations :: "db_block \<Rightarrow> Bucket \<Rightarrow> Bucket" where
  "add_destinations blk a =
     (if DestinationsKnown blk \<and> kFloorFeesWei a \<noteq> None \<and> kSurplusFeesWei a \<noteq> None then
        a\<lparr>kFloorFeesWei := Some (floorFees blk + wei_of (kFloorFeesWei a)),
          kSurplusFeesWei := Some (computeFees blk - floorFees blk + wei_of (kSurplusFeesWei a))\<rparr>
      else a\<lparr>kFloorFeesWei := None, kSurplusFeesWei := None\<rparr>)"

definition add_ends :: "db_block \<Rightarrow> i64 option \<Rightarrow> Bucket \<Rightarrow> Bucket" where
  "add_ends blk setID a =
     (if kLastBlock a \<le> bNumber blk then
        a\<lparr>kLastBlock := bNumber blk, kExponentEndBips := bExponentBips blk,
          kBacklogsEnd := bBacklogs blk, kConstraintBipsEnd := Some (bConstraintBips blk),
          kMinBaseFee := bMinBaseFee blk,
          kConstraintSetID := (if setID \<noteq> None then setID else kConstraintSetID a)\<rparr>
      else a)"

definition add_backlogs :: "db_block \<Rightarrow> Bucket \<Rightarrow> Bucket" where
  "add_backlogs blk a = a\<lparr>kBacklogsMax := max_backlogs (kBacklogsMax a) (bBacklogs blk)\<rparr>"

definition add_error :: "db_block \<Rightarrow> Bucket \<Rightarrow> Bucket" where
  "add_error blk a =
     (if kReplayErrorBips a < ReplayErrorBips blk then a\<lparr>kReplayErrorBips := ReplayErrorBips blk\<rparr> else a)"

definition add_arbos :: "db_block \<Rightarrow> Bucket \<Rightarrow> Bucket" where
  "add_arbos blk a =
     (case extendArbOSRange a (bArbOSVersion blk) (kBlocks a = 1) of
        (lo, hi) \<Rightarrow> a\<lparr>kArbOSVersionMin := lo, kArbOSVersionMax := hi\<rparr>)"

definition Add :: "Bucket \<Rightarrow> db_block \<Rightarrow> i64 option \<Rightarrow> Bucket" where
  "Add a blk setID =
     add_arbos blk (add_error blk (add_backlogs blk (add_ends blk setID
       (add_destinations blk (add_poster blk (add_totals blk (add_max blk (add_min blk
         (add_pricing blk a)))))))))"

text \<open>The method \<open>Bucket\<close> of the builder: the aggregate it hands out.\<close>

definition builder_Bucket :: "Bucket \<Rightarrow> Bucket" where
  "builder_Bucket a0 =
     (let a1 = (if 0 < kBlocks a0
                then a0\<lparr>kBaseFeeAvg := big_Div (wei_of (kBaseFeeSum a0)) (kBlocks a0)\<rparr> else a0)
      in if kPricingVersion a1 = PricingUnknown
         then a1\<lparr>kMinBaseFee := None, kFloorFeesWei := None, kSurplusFeesWei := None,
                 kConstraintBipsEnd := None\<rparr>
         else a1)"

definition baseFeeSumOf :: "Bucket \<Rightarrow> bigint" where
  "baseFeeSumOf b =
     (case kBaseFeeSum b of Some s \<Rightarrow> s | None \<Rightarrow> kBaseFeeAvg b * kBlocks b)"

definition addNullWei :: "bigint option \<Rightarrow> bigint option \<Rightarrow> bigint option" where
  "addNullWei a b = (case (a, b) of (Some x, Some y) \<Rightarrow> Some (x + y) | _ \<Rightarrow> None)"

section \<open>Folding rows and merging buckets\<close>

text \<open>\<open>Time.Unix\<close>: whole seconds since 1970, which is 62135596800 seconds after the zero time.\<close>

definition Unix :: "gotime \<Rightarrow> i64" where
  "Unix t = t div Second - 62135596800"

fun bucket_starts :: "duration \<Rightarrow> i64 list \<Rightarrow> db_block list \<Rightarrow> gotime list" where
  "bucket_starts width seen [] = []"
| "bucket_starts width seen (b # rows) =
     (let start = Truncate (bTS b) width in
      if Unix start \<in> set seen then bucket_starts width seen rows
      else start # bucket_starts width (Unix start # seen) rows)"

definition BucketStarts :: "db_block list \<Rightarrow> string \<Rightarrow> gotime list" where
  "BucketStarts rows resolution = bucket_starts (Resolutions resolution) [] rows"

text \<open>The inner loop of \<open>FoldBlocks\<close>: \<open>cur\<close> is the builder in hand, if any.\<close>

fun fold_rows :: "string \<Rightarrow> duration \<Rightarrow> (u64 \<Rightarrow> i64 option) \<Rightarrow> Bucket option \<Rightarrow> db_block list \<Rightarrow> Bucket list" where
  "fold_rows res width setID cur [] = (case cur of None \<Rightarrow> [] | Some a \<Rightarrow> [builder_Bucket a])"
| "fold_rows res width setID cur (blk # rows) =
     (let start = Truncate (bTS blk) width;
          fresh = Add (NewBucketBuilder (bChainID blk) res start) blk (setID (bNumber blk))
      in case cur of
           None \<Rightarrow> fold_rows res width setID (Some fresh) rows
         | Some a \<Rightarrow>
             if kBucketStart a \<noteq> start
             then builder_Bucket a # fold_rows res width setID (Some fresh) rows
             else fold_rows res width setID (Some (Add a blk (setID (bNumber blk)))) rows)"

definition FoldBlocks :: "db_block list \<Rightarrow> (u64 \<Rightarrow> i64 option) \<Rightarrow> Bucket list" where
  "FoldBlocks rows setID =
     concat (map (\<lambda>res. fold_rows res (Resolutions res) setID None rows) ResolutionOrder)"

definition mergeArbOSRange :: "Bucket \<Rightarrow> Bucket \<Rightarrow> i64 option \<times> i64 option" where
  "mergeArbOSRange old b =
     (if kBlocks old = 0 then (kArbOSVersionMin b, kArbOSVersionMax b)
      else if kBlocks b = 0 then (kArbOSVersionMin old, kArbOSVersionMax old)
      else case (kArbOSVersionMin old, kArbOSVersionMin b) of
             (Some lo, Some lb) \<Rightarrow>
               (Some (min lo lb),
                Some (max (case kArbOSVersionMax old of None \<Rightarrow> 0 | Some h \<Rightarrow> h)
                          (case kArbOSVersionMax b of None \<Rightarrow> 0 | Some h \<Rightarrow> h)))
           | _ \<Rightarrow> (None, None))"

text \<open>The element-wise maximum of \<open>MergeBuckets\<close>, index by index as its loop computes it.\<close>

definition merge_max :: "u64 list \<Rightarrow> u64 list \<Rightarrow> u64 list" where
  "merge_max old b =
     map (\<lambda>i. let x = (if i < length old then old ! i else 0)
              in if i < length b \<and> x < b ! i then b ! i else x)
       [0..<max (length old) (length b)]"

text \<open>The statements of \<open>MergeBuckets\<close>, in their order.\<close>

definition merge_sums :: "Bucket \<Rightarrow> Bucket \<Rightarrow> Bucket \<Rightarrow> Bucket" where
  "merge_sums old b m =
     m\<lparr>kBlocks := i64_wrap (kBlocks old + kBlocks b), kGasUsed := kGasUsed m + kGasUsed b,
       kPosterGas := (case (kPosterGas old, kPosterGas b) of
                        (Some x, Some y) \<Rightarrow> Some (i64_wrap (x + y)) | _ \<Rightarrow> None),
       kFeesWei := kFeesWei old + kFeesWei b,
       kPosterFeesWei := addNullWei (kPosterFeesWei old) (kPosterFeesWei b),
       kBaseFeeSum := addNullWei (kBaseFeeSum old) (kBaseFeeSum b),
       kFloorFeesWei := addNullWei (kFloorFeesWei old) (kFloorFeesWei b),
       kSurplusFeesWei := addNullWei (kSurplusFeesWei old) (kSurplusFeesWei b)\<rparr>"

definition merge_fees :: "Bucket \<Rightarrow> Bucket \<Rightarrow> Bucket \<Rightarrow> Bucket" where
  "merge_fees old b m =
     m\<lparr>kBaseFeeMin := (if kBlocks old = 0 \<or> kBaseFeeMin b < kBaseFeeMin old
                       then kBaseFeeMin b else kBaseFeeMin m),
       kBaseFeeMax := (if kBaseFeeMax old < kBaseFeeMax b then kBaseFeeMax b else kBaseFeeMax m),
       kBaseFeeAvg := (if 0 < kBlocks m
                       then big_Div (baseFeeSumOf old + baseFeeSumOf b) (kBlocks m) else 0),
       kPricingVersion := min (kPricingVersion old) (kPricingVersion b)\<rparr>"

definition merge_ends :: "Bucket \<Rightarrow> Bucket \<Rightarrow> Bucket \<Rightarrow> Bucket" where
  "merge_ends old b m =
     (if kLastBlock old \<le> kLastBlock b then
        m\<lparr>kExponentEndBips := kExponentEndBips b, kBacklogsEnd := kBacklogsEnd b,
          kConstraintBipsEnd := kConstraintBipsEnd b, kMinBaseFee := kMinBaseFee b,
          kConstraintSetID := (if kConstraintSetID b \<noteq> None then kConstraintSetID b
                               else kConstraintSetID m),
          kLastBlock := kLastBlock b\<rparr>
      else m)"

definition merge_unknown :: "Bucket \<Rightarrow> Bucket" where
  "merge_unknown m =
     (if kPricingVersion m = PricingUnknown then
        m\<lparr>kMinBaseFee := None, kFloorFeesWei := None, kSurplusFeesWei := None,
          kConstraintBipsEnd := None\<rparr>
      else m)"

definition MergeBuckets :: "Bucket \<Rightarrow> Bucket \<Rightarrow> Bucket" where
  "MergeBuckets old b =
     (case mergeArbOSRange old b of
        (lo, hi) \<Rightarrow>
          (merge_unknown (merge_ends old b (merge_fees old b (merge_sums old b old))))
            \<lparr>kBacklogsMax := merge_max (kBacklogsMax old) (kBacklogsMax b),
             kReplayErrorBips := max (kReplayErrorBips old) (kReplayErrorBips b),
             kArbOSVersionMin := lo, kArbOSVersionMax := hi\<rparr>)"

section \<open>Which fields a statement changes\<close>

lemma frame_add_pricing [simp]:
  "kChainID (add_pricing b a) = kChainID a" "kResolution (add_pricing b a) = kResolution a"
  "kBucketStart (add_pricing b a) = kBucketStart a" "kBlocks (add_pricing b a) = kBlocks a"
  "kGasUsed (add_pricing b a) = kGasUsed a" "kPosterGas (add_pricing b a) = kPosterGas a"
  "kFeesWei (add_pricing b a) = kFeesWei a" "kPosterFeesWei (add_pricing b a) = kPosterFeesWei a"
  "kBaseFeeMin (add_pricing b a) = kBaseFeeMin a" "kBaseFeeAvg (add_pricing b a) = kBaseFeeAvg a"
  "kBaseFeeMax (add_pricing b a) = kBaseFeeMax a" "kBaseFeeSum (add_pricing b a) = kBaseFeeSum a"
  "kExponentEndBips (add_pricing b a) = kExponentEndBips a" "kBacklogsEnd (add_pricing b a) = kBacklogsEnd a"
  "kBacklogsMax (add_pricing b a) = kBacklogsMax a"
  "kConstraintBipsEnd (add_pricing b a) = kConstraintBipsEnd a" "kMinBaseFee (add_pricing b a) = kMinBaseFee a"
  "kFloorFeesWei (add_pricing b a) = kFloorFeesWei a" "kSurplusFeesWei (add_pricing b a) = kSurplusFeesWei a"
  "kConstraintSetID (add_pricing b a) = kConstraintSetID a"
  "kReplayErrorBips (add_pricing b a) = kReplayErrorBips a" "kLastBlock (add_pricing b a) = kLastBlock a"
  "kArbOSVersionMin (add_pricing b a) = kArbOSVersionMin a"
  "kArbOSVersionMax (add_pricing b a) = kArbOSVersionMax a"
  by (simp_all add: add_pricing_def split: prod.split)

lemma frame_add_min [simp]:
  "kChainID (add_min b a) = kChainID a" "kResolution (add_min b a) = kResolution a"
  "kBucketStart (add_min b a) = kBucketStart a" "kBlocks (add_min b a) = kBlocks a"
  "kGasUsed (add_min b a) = kGasUsed a" "kPosterGas (add_min b a) = kPosterGas a"
  "kFeesWei (add_min b a) = kFeesWei a" "kPosterFeesWei (add_min b a) = kPosterFeesWei a"
  "kBaseFeeAvg (add_min b a) = kBaseFeeAvg a" "kBaseFeeMax (add_min b a) = kBaseFeeMax a"
  "kBaseFeeSum (add_min b a) = kBaseFeeSum a" "kExponentEndBips (add_min b a) = kExponentEndBips a"
  "kBacklogsEnd (add_min b a) = kBacklogsEnd a" "kBacklogsMax (add_min b a) = kBacklogsMax a"
  "kConstraintBipsEnd (add_min b a) = kConstraintBipsEnd a" "kMinBaseFee (add_min b a) = kMinBaseFee a"
  "kFloorFeesWei (add_min b a) = kFloorFeesWei a" "kSurplusFeesWei (add_min b a) = kSurplusFeesWei a"
  "kConstraintSetID (add_min b a) = kConstraintSetID a" "kReplayErrorBips (add_min b a) = kReplayErrorBips a"
  "kLastBlock (add_min b a) = kLastBlock a" "kPricingVersion (add_min b a) = kPricingVersion a"
  "kArbOSVersionMin (add_min b a) = kArbOSVersionMin a" "kArbOSVersionMax (add_min b a) = kArbOSVersionMax a"
  by (simp_all add: add_min_def split: prod.split)

lemma frame_add_max [simp]:
  "kChainID (add_max b a) = kChainID a" "kResolution (add_max b a) = kResolution a"
  "kBucketStart (add_max b a) = kBucketStart a" "kBlocks (add_max b a) = kBlocks a"
  "kGasUsed (add_max b a) = kGasUsed a" "kPosterGas (add_max b a) = kPosterGas a"
  "kFeesWei (add_max b a) = kFeesWei a" "kPosterFeesWei (add_max b a) = kPosterFeesWei a"
  "kBaseFeeMin (add_max b a) = kBaseFeeMin a" "kBaseFeeAvg (add_max b a) = kBaseFeeAvg a"
  "kBaseFeeSum (add_max b a) = kBaseFeeSum a" "kExponentEndBips (add_max b a) = kExponentEndBips a"
  "kBacklogsEnd (add_max b a) = kBacklogsEnd a" "kBacklogsMax (add_max b a) = kBacklogsMax a"
  "kConstraintBipsEnd (add_max b a) = kConstraintBipsEnd a" "kMinBaseFee (add_max b a) = kMinBaseFee a"
  "kFloorFeesWei (add_max b a) = kFloorFeesWei a" "kSurplusFeesWei (add_max b a) = kSurplusFeesWei a"
  "kConstraintSetID (add_max b a) = kConstraintSetID a" "kReplayErrorBips (add_max b a) = kReplayErrorBips a"
  "kLastBlock (add_max b a) = kLastBlock a" "kPricingVersion (add_max b a) = kPricingVersion a"
  "kArbOSVersionMin (add_max b a) = kArbOSVersionMin a" "kArbOSVersionMax (add_max b a) = kArbOSVersionMax a"
  by (simp_all add: add_max_def split: prod.split)

lemma frame_add_totals [simp]:
  "kChainID (add_totals b a) = kChainID a" "kResolution (add_totals b a) = kResolution a"
  "kBucketStart (add_totals b a) = kBucketStart a" "kPosterGas (add_totals b a) = kPosterGas a"
  "kPosterFeesWei (add_totals b a) = kPosterFeesWei a" "kBaseFeeMin (add_totals b a) = kBaseFeeMin a"
  "kBaseFeeAvg (add_totals b a) = kBaseFeeAvg a" "kBaseFeeMax (add_totals b a) = kBaseFeeMax a"
  "kExponentEndBips (add_totals b a) = kExponentEndBips a" "kBacklogsEnd (add_totals b a) = kBacklogsEnd a"
  "kBacklogsMax (add_totals b a) = kBacklogsMax a" "kConstraintBipsEnd (add_totals b a) = kConstraintBipsEnd a"
  "kMinBaseFee (add_totals b a) = kMinBaseFee a" "kFloorFeesWei (add_totals b a) = kFloorFeesWei a"
  "kSurplusFeesWei (add_totals b a) = kSurplusFeesWei a"
  "kConstraintSetID (add_totals b a) = kConstraintSetID a"
  "kReplayErrorBips (add_totals b a) = kReplayErrorBips a" "kLastBlock (add_totals b a) = kLastBlock a"
  "kPricingVersion (add_totals b a) = kPricingVersion a"
  "kArbOSVersionMin (add_totals b a) = kArbOSVersionMin a"
  "kArbOSVersionMax (add_totals b a) = kArbOSVersionMax a"
  by (simp_all add: add_totals_def split: prod.split)

lemma frame_add_poster [simp]:
  "kChainID (add_poster b a) = kChainID a" "kResolution (add_poster b a) = kResolution a"
  "kBucketStart (add_poster b a) = kBucketStart a" "kBlocks (add_poster b a) = kBlocks a"
  "kGasUsed (add_poster b a) = kGasUsed a" "kFeesWei (add_poster b a) = kFeesWei a"
  "kBaseFeeMin (add_poster b a) = kBaseFeeMin a" "kBaseFeeAvg (add_poster b a) = kBaseFeeAvg a"
  "kBaseFeeMax (add_poster b a) = kBaseFeeMax a" "kBaseFeeSum (add_poster b a) = kBaseFeeSum a"
  "kExponentEndBips (add_poster b a) = kExponentEndBips a" "kBacklogsEnd (add_poster b a) = kBacklogsEnd a"
  "kBacklogsMax (add_poster b a) = kBacklogsMax a" "kConstraintBipsEnd (add_poster b a) = kConstraintBipsEnd a"
  "kMinBaseFee (add_poster b a) = kMinBaseFee a" "kFloorFeesWei (add_poster b a) = kFloorFeesWei a"
  "kSurplusFeesWei (add_poster b a) = kSurplusFeesWei a"
  "kConstraintSetID (add_poster b a) = kConstraintSetID a"
  "kReplayErrorBips (add_poster b a) = kReplayErrorBips a" "kLastBlock (add_poster b a) = kLastBlock a"
  "kPricingVersion (add_poster b a) = kPricingVersion a"
  "kArbOSVersionMin (add_poster b a) = kArbOSVersionMin a"
  "kArbOSVersionMax (add_poster b a) = kArbOSVersionMax a"
  by (simp_all add: add_poster_def split: prod.split)

lemma frame_add_destinations [simp]:
  "kChainID (add_destinations b a) = kChainID a" "kResolution (add_destinations b a) = kResolution a"
  "kBucketStart (add_destinations b a) = kBucketStart a" "kBlocks (add_destinations b a) = kBlocks a"
  "kGasUsed (add_destinations b a) = kGasUsed a" "kPosterGas (add_destinations b a) = kPosterGas a"
  "kFeesWei (add_destinations b a) = kFeesWei a" "kPosterFeesWei (add_destinations b a) = kPosterFeesWei a"
  "kBaseFeeMin (add_destinations b a) = kBaseFeeMin a" "kBaseFeeAvg (add_destinations b a) = kBaseFeeAvg a"
  "kBaseFeeMax (add_destinations b a) = kBaseFeeMax a" "kBaseFeeSum (add_destinations b a) = kBaseFeeSum a"
  "kExponentEndBips (add_destinations b a) = kExponentEndBips a"
  "kBacklogsEnd (add_destinations b a) = kBacklogsEnd a" "kBacklogsMax (add_destinations b a) = kBacklogsMax a"
  "kConstraintBipsEnd (add_destinations b a) = kConstraintBipsEnd a"
  "kMinBaseFee (add_destinations b a) = kMinBaseFee a"
  "kConstraintSetID (add_destinations b a) = kConstraintSetID a"
  "kReplayErrorBips (add_destinations b a) = kReplayErrorBips a"
  "kLastBlock (add_destinations b a) = kLastBlock a"
  "kPricingVersion (add_destinations b a) = kPricingVersion a"
  "kArbOSVersionMin (add_destinations b a) = kArbOSVersionMin a"
  "kArbOSVersionMax (add_destinations b a) = kArbOSVersionMax a"
  by (simp_all add: add_destinations_def split: prod.split)

lemma frame_add_ends [simp]:
  "kChainID (add_ends b s a) = kChainID a" "kResolution (add_ends b s a) = kResolution a"
  "kBucketStart (add_ends b s a) = kBucketStart a" "kBlocks (add_ends b s a) = kBlocks a"
  "kGasUsed (add_ends b s a) = kGasUsed a" "kPosterGas (add_ends b s a) = kPosterGas a"
  "kFeesWei (add_ends b s a) = kFeesWei a" "kPosterFeesWei (add_ends b s a) = kPosterFeesWei a"
  "kBaseFeeMin (add_ends b s a) = kBaseFeeMin a" "kBaseFeeAvg (add_ends b s a) = kBaseFeeAvg a"
  "kBaseFeeMax (add_ends b s a) = kBaseFeeMax a" "kBaseFeeSum (add_ends b s a) = kBaseFeeSum a"
  "kBacklogsMax (add_ends b s a) = kBacklogsMax a" "kFloorFeesWei (add_ends b s a) = kFloorFeesWei a"
  "kSurplusFeesWei (add_ends b s a) = kSurplusFeesWei a"
  "kReplayErrorBips (add_ends b s a) = kReplayErrorBips a"
  "kPricingVersion (add_ends b s a) = kPricingVersion a"
  "kArbOSVersionMin (add_ends b s a) = kArbOSVersionMin a"
  "kArbOSVersionMax (add_ends b s a) = kArbOSVersionMax a"
  by (simp_all add: add_ends_def split: prod.split)

lemma frame_add_backlogs [simp]:
  "kChainID (add_backlogs b a) = kChainID a" "kResolution (add_backlogs b a) = kResolution a"
  "kBucketStart (add_backlogs b a) = kBucketStart a" "kBlocks (add_backlogs b a) = kBlocks a"
  "kGasUsed (add_backlogs b a) = kGasUsed a" "kPosterGas (add_backlogs b a) = kPosterGas a"
  "kFeesWei (add_backlogs b a) = kFeesWei a" "kPosterFeesWei (add_backlogs b a) = kPosterFeesWei a"
  "kBaseFeeMin (add_backlogs b a) = kBaseFeeMin a" "kBaseFeeAvg (add_backlogs b a) = kBaseFeeAvg a"
  "kBaseFeeMax (add_backlogs b a) = kBaseFeeMax a" "kBaseFeeSum (add_backlogs b a) = kBaseFeeSum a"
  "kExponentEndBips (add_backlogs b a) = kExponentEndBips a" "kBacklogsEnd (add_backlogs b a) = kBacklogsEnd a"
  "kConstraintBipsEnd (add_backlogs b a) = kConstraintBipsEnd a"
  "kMinBaseFee (add_backlogs b a) = kMinBaseFee a" "kFloorFeesWei (add_backlogs b a) = kFloorFeesWei a"
  "kSurplusFeesWei (add_backlogs b a) = kSurplusFeesWei a"
  "kConstraintSetID (add_backlogs b a) = kConstraintSetID a"
  "kReplayErrorBips (add_backlogs b a) = kReplayErrorBips a" "kLastBlock (add_backlogs b a) = kLastBlock a"
  "kPricingVersion (add_backlogs b a) = kPricingVersion a"
  "kArbOSVersionMin (add_backlogs b a) = kArbOSVersionMin a"
  "kArbOSVersionMax (add_backlogs b a) = kArbOSVersionMax a"
  by (simp_all add: add_backlogs_def split: prod.split)

lemma frame_add_error [simp]:
  "kChainID (add_error b a) = kChainID a" "kResolution (add_error b a) = kResolution a"
  "kBucketStart (add_error b a) = kBucketStart a" "kBlocks (add_error b a) = kBlocks a"
  "kGasUsed (add_error b a) = kGasUsed a" "kPosterGas (add_error b a) = kPosterGas a"
  "kFeesWei (add_error b a) = kFeesWei a" "kPosterFeesWei (add_error b a) = kPosterFeesWei a"
  "kBaseFeeMin (add_error b a) = kBaseFeeMin a" "kBaseFeeAvg (add_error b a) = kBaseFeeAvg a"
  "kBaseFeeMax (add_error b a) = kBaseFeeMax a" "kBaseFeeSum (add_error b a) = kBaseFeeSum a"
  "kExponentEndBips (add_error b a) = kExponentEndBips a" "kBacklogsEnd (add_error b a) = kBacklogsEnd a"
  "kBacklogsMax (add_error b a) = kBacklogsMax a" "kConstraintBipsEnd (add_error b a) = kConstraintBipsEnd a"
  "kMinBaseFee (add_error b a) = kMinBaseFee a" "kFloorFeesWei (add_error b a) = kFloorFeesWei a"
  "kSurplusFeesWei (add_error b a) = kSurplusFeesWei a" "kConstraintSetID (add_error b a) = kConstraintSetID a"
  "kLastBlock (add_error b a) = kLastBlock a" "kPricingVersion (add_error b a) = kPricingVersion a"
  "kArbOSVersionMin (add_error b a) = kArbOSVersionMin a"
  "kArbOSVersionMax (add_error b a) = kArbOSVersionMax a"
  by (simp_all add: add_error_def split: prod.split)

lemma frame_add_arbos [simp]:
  "kChainID (add_arbos b a) = kChainID a" "kResolution (add_arbos b a) = kResolution a"
  "kBucketStart (add_arbos b a) = kBucketStart a" "kBlocks (add_arbos b a) = kBlocks a"
  "kGasUsed (add_arbos b a) = kGasUsed a" "kPosterGas (add_arbos b a) = kPosterGas a"
  "kFeesWei (add_arbos b a) = kFeesWei a" "kPosterFeesWei (add_arbos b a) = kPosterFeesWei a"
  "kBaseFeeMin (add_arbos b a) = kBaseFeeMin a" "kBaseFeeAvg (add_arbos b a) = kBaseFeeAvg a"
  "kBaseFeeMax (add_arbos b a) = kBaseFeeMax a" "kBaseFeeSum (add_arbos b a) = kBaseFeeSum a"
  "kExponentEndBips (add_arbos b a) = kExponentEndBips a" "kBacklogsEnd (add_arbos b a) = kBacklogsEnd a"
  "kBacklogsMax (add_arbos b a) = kBacklogsMax a" "kConstraintBipsEnd (add_arbos b a) = kConstraintBipsEnd a"
  "kMinBaseFee (add_arbos b a) = kMinBaseFee a" "kFloorFeesWei (add_arbos b a) = kFloorFeesWei a"
  "kSurplusFeesWei (add_arbos b a) = kSurplusFeesWei a" "kConstraintSetID (add_arbos b a) = kConstraintSetID a"
  "kReplayErrorBips (add_arbos b a) = kReplayErrorBips a" "kLastBlock (add_arbos b a) = kLastBlock a"
  "kPricingVersion (add_arbos b a) = kPricingVersion a"
  by (simp_all add: add_arbos_def split: prod.split)

lemma frame_merge_sums [simp]:
  "kChainID (merge_sums old b a) = kChainID a" "kResolution (merge_sums old b a) = kResolution a"
  "kBucketStart (merge_sums old b a) = kBucketStart a" "kBaseFeeMin (merge_sums old b a) = kBaseFeeMin a"
  "kBaseFeeAvg (merge_sums old b a) = kBaseFeeAvg a" "kBaseFeeMax (merge_sums old b a) = kBaseFeeMax a"
  "kExponentEndBips (merge_sums old b a) = kExponentEndBips a"
  "kBacklogsEnd (merge_sums old b a) = kBacklogsEnd a" "kBacklogsMax (merge_sums old b a) = kBacklogsMax a"
  "kConstraintBipsEnd (merge_sums old b a) = kConstraintBipsEnd a"
  "kMinBaseFee (merge_sums old b a) = kMinBaseFee a"
  "kConstraintSetID (merge_sums old b a) = kConstraintSetID a"
  "kReplayErrorBips (merge_sums old b a) = kReplayErrorBips a" "kLastBlock (merge_sums old b a) = kLastBlock a"
  "kPricingVersion (merge_sums old b a) = kPricingVersion a"
  "kArbOSVersionMin (merge_sums old b a) = kArbOSVersionMin a"
  "kArbOSVersionMax (merge_sums old b a) = kArbOSVersionMax a"
  by (simp_all add: merge_sums_def split: prod.split)

lemma frame_merge_fees [simp]:
  "kChainID (merge_fees old b a) = kChainID a" "kResolution (merge_fees old b a) = kResolution a"
  "kBucketStart (merge_fees old b a) = kBucketStart a" "kBlocks (merge_fees old b a) = kBlocks a"
  "kGasUsed (merge_fees old b a) = kGasUsed a" "kPosterGas (merge_fees old b a) = kPosterGas a"
  "kFeesWei (merge_fees old b a) = kFeesWei a" "kPosterFeesWei (merge_fees old b a) = kPosterFeesWei a"
  "kBaseFeeSum (merge_fees old b a) = kBaseFeeSum a"
  "kExponentEndBips (merge_fees old b a) = kExponentEndBips a"
  "kBacklogsEnd (merge_fees old b a) = kBacklogsEnd a" "kBacklogsMax (merge_fees old b a) = kBacklogsMax a"
  "kConstraintBipsEnd (merge_fees old b a) = kConstraintBipsEnd a"
  "kMinBaseFee (merge_fees old b a) = kMinBaseFee a" "kFloorFeesWei (merge_fees old b a) = kFloorFeesWei a"
  "kSurplusFeesWei (merge_fees old b a) = kSurplusFeesWei a"
  "kConstraintSetID (merge_fees old b a) = kConstraintSetID a"
  "kReplayErrorBips (merge_fees old b a) = kReplayErrorBips a" "kLastBlock (merge_fees old b a) = kLastBlock a"
  "kArbOSVersionMin (merge_fees old b a) = kArbOSVersionMin a"
  "kArbOSVersionMax (merge_fees old b a) = kArbOSVersionMax a"
  by (simp_all add: merge_fees_def split: prod.split)

lemma frame_merge_ends [simp]:
  "kChainID (merge_ends old b a) = kChainID a" "kResolution (merge_ends old b a) = kResolution a"
  "kBucketStart (merge_ends old b a) = kBucketStart a" "kBlocks (merge_ends old b a) = kBlocks a"
  "kGasUsed (merge_ends old b a) = kGasUsed a" "kPosterGas (merge_ends old b a) = kPosterGas a"
  "kFeesWei (merge_ends old b a) = kFeesWei a" "kPosterFeesWei (merge_ends old b a) = kPosterFeesWei a"
  "kBaseFeeMin (merge_ends old b a) = kBaseFeeMin a" "kBaseFeeAvg (merge_ends old b a) = kBaseFeeAvg a"
  "kBaseFeeMax (merge_ends old b a) = kBaseFeeMax a" "kBaseFeeSum (merge_ends old b a) = kBaseFeeSum a"
  "kBacklogsMax (merge_ends old b a) = kBacklogsMax a" "kFloorFeesWei (merge_ends old b a) = kFloorFeesWei a"
  "kSurplusFeesWei (merge_ends old b a) = kSurplusFeesWei a"
  "kReplayErrorBips (merge_ends old b a) = kReplayErrorBips a"
  "kPricingVersion (merge_ends old b a) = kPricingVersion a"
  "kArbOSVersionMin (merge_ends old b a) = kArbOSVersionMin a"
  "kArbOSVersionMax (merge_ends old b a) = kArbOSVersionMax a"
  by (simp_all add: merge_ends_def split: prod.split)

lemma frame_merge_unknown [simp]:
  "kChainID (merge_unknown a) = kChainID a" "kResolution (merge_unknown a) = kResolution a"
  "kBucketStart (merge_unknown a) = kBucketStart a" "kBlocks (merge_unknown a) = kBlocks a"
  "kGasUsed (merge_unknown a) = kGasUsed a" "kPosterGas (merge_unknown a) = kPosterGas a"
  "kFeesWei (merge_unknown a) = kFeesWei a" "kPosterFeesWei (merge_unknown a) = kPosterFeesWei a"
  "kBaseFeeMin (merge_unknown a) = kBaseFeeMin a" "kBaseFeeAvg (merge_unknown a) = kBaseFeeAvg a"
  "kBaseFeeMax (merge_unknown a) = kBaseFeeMax a" "kBaseFeeSum (merge_unknown a) = kBaseFeeSum a"
  "kExponentEndBips (merge_unknown a) = kExponentEndBips a" "kBacklogsEnd (merge_unknown a) = kBacklogsEnd a"
  "kBacklogsMax (merge_unknown a) = kBacklogsMax a" "kConstraintSetID (merge_unknown a) = kConstraintSetID a"
  "kReplayErrorBips (merge_unknown a) = kReplayErrorBips a" "kLastBlock (merge_unknown a) = kLastBlock a"
  "kPricingVersion (merge_unknown a) = kPricingVersion a"
  "kArbOSVersionMin (merge_unknown a) = kArbOSVersionMin a"
  "kArbOSVersionMax (merge_unknown a) = kArbOSVersionMax a"
  by (simp_all add: merge_unknown_def split: prod.split)

lemma add_arbos_range:
  "(kArbOSVersionMin (add_arbos b a), kArbOSVersionMax (add_arbos b a)) = extendArbOSRange a (bArbOSVersion b) (kBlocks a = 1)"
  by (simp add: add_arbos_def split: prod.split)

lemma Add_key [simp]:
  "kChainID (Add a b s) = kChainID a" "kResolution (Add a b s) = kResolution a" "kBucketStart (Add a b s) = kBucketStart a"
  by (simp_all add: Add_def)

lemma Add_counts [simp]:
  "kBlocks (Add a b s) = i64_wrap (kBlocks a + 1)"
  "kGasUsed (Add a b s) = kGasUsed a + bGasUsed b"
  "kFeesWei (Add a b s) = bBaseFee b * uint (bGasUsed b) + kFeesWei a"
  "kBaseFeeSum (Add a b s) = Some (wei_of (kBaseFeeSum a) + bBaseFee b)"
  "kBaseFeeAvg (Add a b s) = kBaseFeeAvg a"
  by (simp_all add: Add_def add_totals_def)

lemma Add_extremes [simp]:
  "kBaseFeeMin (Add a b s) = (if kBlocks a = 0 \<or> bBaseFee b < kBaseFeeMin a then bBaseFee b else kBaseFeeMin a)"
  "kBaseFeeMax (Add a b s) = max (kBaseFeeMax a) (bBaseFee b)"
  "kPricingVersion (Add a b s) = (if Known b then kPricingVersion a else PricingUnknown)"
  "kBacklogsMax (Add a b s) = max_backlogs (kBacklogsMax a) (bBacklogs b)"
  "kReplayErrorBips (Add a b s) = max (kReplayErrorBips a) (ReplayErrorBips b)"
  by (simp_all add: Add_def add_min_def add_max_def add_pricing_def add_backlogs_def add_error_def)

lemma Add_poster [simp]:
  "kPosterGas (Add a b s) = (if posterKnown b then map_option (\<lambda>g. i64_wrap (g + the (bPosterGas b))) (kPosterGas a) else None)"
  "kPosterFeesWei (Add a b s) = (if posterKnown b \<and> kPosterGas a \<noteq> None
     then Some (bBaseFee b * uint (posterGasOf b) + wei_of (kPosterFeesWei a)) else None)"
  by (simp_all add: Add_def add_poster_def)

lemma Add_split [simp]:
  "kFloorFeesWei (Add a b s) = (if DestinationsKnown b \<and> kFloorFeesWei a \<noteq> None \<and> kSurplusFeesWei a \<noteq> None
     then Some (floorFees b + wei_of (kFloorFeesWei a)) else None)"
  "kSurplusFeesWei (Add a b s) = (if DestinationsKnown b \<and> kFloorFeesWei a \<noteq> None \<and> kSurplusFeesWei a \<noteq> None
     then Some (computeFees b - floorFees b + wei_of (kSurplusFeesWei a)) else None)"
  by (simp_all add: Add_def add_destinations_def)

lemma Add_ends [simp]:
  assumes "kLastBlock a \<le> bNumber b"
  shows "kLastBlock (Add a b s) = bNumber b"
    "kExponentEndBips (Add a b s) = bExponentBips b"
    "kBacklogsEnd (Add a b s) = bBacklogs b"
    "kConstraintBipsEnd (Add a b s) = Some (bConstraintBips b)"
    "kMinBaseFee (Add a b s) = bMinBaseFee b"
    "kConstraintSetID (Add a b s) = (if s \<noteq> None then s else kConstraintSetID a)"
  using assms by (simp_all add: Add_def add_ends_def)

lemma extendArbOSRange_cong:
  "kArbOSVersionMin a = kArbOSVersionMin a' \<Longrightarrow> kArbOSVersionMax a = kArbOSVersionMax a' \<Longrightarrow>
   extendArbOSRange a v f = extendArbOSRange a' v f"
  by (cases v) (simp_all add: extendArbOSRange_def)

lemma Add_arbos:
  "(kArbOSVersionMin (Add a b s), kArbOSVersionMax (Add a b s))
     = extendArbOSRange a (bArbOSVersion b) (i64_wrap (kBlocks a + 1) = 1)"
  unfolding Add_def add_arbos_range
  by (subst extendArbOSRange_cong [where a' = a]) (simp_all add: add_totals_def)

section \<open>What a builder holds after a list of blocks\<close>

definition build :: "u64 \<Rightarrow> string \<Rightarrow> gotime \<Rightarrow> (u64 \<Rightarrow> i64 option) \<Rightarrow> db_block list \<Rightarrow> Bucket" where
  "build cid res st f xs = foldl (\<lambda>a b. Add a b (f (bNumber b))) (NewBucketBuilder cid res st) xs"

lemma build_Nil [simp]: "build cid res st f [] = NewBucketBuilder cid res st"
  by (simp add: build_def)

lemma build_snoc [simp]:
  "build cid res st f (xs @ [b]) = Add (build cid res st f xs) b (f (bNumber b))"
  by (simp add: build_def)

lemma build_single [simp]:
  "build cid res st f [b] = Add (NewBucketBuilder cid res st) b (f (bNumber b))"
  by (simp add: build_def)

lemma Max_insert_swap:
  assumes "finite A"
  shows "Max (insert z (insert x A)) = max (Max (insert z A)) x"
proof -
  have "insert z (insert x A) = insert x (insert z A)" by blast
  then have "Max (insert z (insert x A)) = max x (Max (insert z A))"
    using assms by (metis Max_insert finite_insert insert_not_empty)
  then show ?thesis by (simp add: max.commute)
qed

lemma builder_fields [simp]:
  "kChainID (NewBucketBuilder c r t) = c" "kResolution (NewBucketBuilder c r t) = r"
  "kBucketStart (NewBucketBuilder c r t) = t" "kBlocks (NewBucketBuilder c r t) = 0"
  "kGasUsed (NewBucketBuilder c r t) = 0" "kPosterGas (NewBucketBuilder c r t) = Some 0"
  "kFeesWei (NewBucketBuilder c r t) = 0" "kPosterFeesWei (NewBucketBuilder c r t) = Some 0"
  "kBaseFeeMin (NewBucketBuilder c r t) = 0" "kBaseFeeAvg (NewBucketBuilder c r t) = 0"
  "kBaseFeeMax (NewBucketBuilder c r t) = 0" "kBaseFeeSum (NewBucketBuilder c r t) = Some 0"
  "kBacklogsMax (NewBucketBuilder c r t) = []" "kFloorFeesWei (NewBucketBuilder c r t) = Some 0"
  "kSurplusFeesWei (NewBucketBuilder c r t) = Some 0" "kReplayErrorBips (NewBucketBuilder c r t) = 0"
  "kLastBlock (NewBucketBuilder c r t) = 0" "kPricingVersion (NewBucketBuilder c r t) = PricingFull"
  "kConstraintSetID (NewBucketBuilder c r t) = None"
  by (simp_all add: NewBucketBuilder_def)

lemma build_key [simp]:
  "kChainID (build cid res st f xs) = cid" "kResolution (build cid res st f xs) = res"
  "kBucketStart (build cid res st f xs) = st" "kBaseFeeAvg (build cid res st f xs) = 0"
  by (induction xs rule: rev_induct) simp_all

lemma build_counts [simp]:
  "kBlocks (build cid res st f xs) = i64_wrap (int (length xs))"
  "kGasUsed (build cid res st f xs) = (\<Sum>b\<leftarrow>xs. bGasUsed b)"
  "kFeesWei (build cid res st f xs) = (\<Sum>b\<leftarrow>xs. bBaseFee b * uint (bGasUsed b))"
  "kBaseFeeSum (build cid res st f xs) = Some (\<Sum>b\<leftarrow>xs. bBaseFee b)"
  by (induction xs rule: rev_induct) (simp_all add: wei_of_def add.commute)

lemma build_poster_gas [simp]:
  "kPosterGas (build cid res st f xs) =
     (if list_all posterKnown xs then Some (i64_wrap (\<Sum>b\<leftarrow>xs. the (bPosterGas b))) else None)"
  by (induction xs rule: rev_induct) (simp_all add: add.commute)

lemma build_poster_fees [simp]:
  "kPosterFeesWei (build cid res st f xs) =
     (if list_all posterKnown xs then Some (\<Sum>b\<leftarrow>xs. bBaseFee b * uint (posterGasOf b)) else None)"
  by (induction xs rule: rev_induct) (auto simp: wei_of_def add.commute)

lemma build_split [simp]:
  "kFloorFeesWei (build cid res st f xs) =
     (if list_all DestinationsKnown xs then Some (\<Sum>b\<leftarrow>xs. floorFees b) else None)"
  "kSurplusFeesWei (build cid res st f xs) =
     (if list_all DestinationsKnown xs then Some (\<Sum>b\<leftarrow>xs. computeFees b - floorFees b) else None)"
  by (induction xs rule: rev_induct) (simp_all add: wei_of_def add.commute)

lemma build_version [simp]:
  "kPricingVersion (build cid res st f xs) = (if list_all Known xs then PricingFull else PricingUnknown)"
  by (induction xs rule: rev_induct) simp_all

lemma build_max [simp]:
  "kBaseFeeMax (build cid res st f xs) = Max (insert 0 (bBaseFee ` set xs))"
  "kReplayErrorBips (build cid res st f xs) = Max (insert 0 (ReplayErrorBips ` set xs))"
  "kBacklogsMax (build cid res st f xs) = foldl max_backlogs [] (map bBacklogs xs)"
  by (induction xs rule: rev_induct; simp add: Max_insert_swap del: Max_insert)+

lemma build_blocks_0:
  "length xs < 2 ^ 63 \<Longrightarrow> kBlocks (build cid res st f xs) = int (length xs)"
  by (simp add: i64_wrap_id is_i64_def MinInt64_def MaxInt64_def)

lemma build_min:
  assumes "xs \<noteq> []" and "length xs < 2 ^ 63"
  shows "kBaseFeeMin (build cid res st f xs) = Min (bBaseFee ` set xs)"
  using assms
proof (induction xs rule: rev_induct)
  case (snoc b xs)
  have n: "kBlocks (build cid res st f xs) = int (length xs)"
    using snoc.prems(2) by (intro build_blocks_0) simp
  show ?case
  proof (cases "xs = []")
    case False
    then have "kBaseFeeMin (build cid res st f xs) = Min (bBaseFee ` set xs)"
      using snoc by simp
    moreover have "Min (bBaseFee ` set (xs @ [b])) = min (bBaseFee b) (Min (bBaseFee ` set xs))"
      using False by simp
    ultimately show ?thesis using False n by (simp del: Min_insert Min_less_iff Min_gr_iff Min_ge_iff Min_le_iff add: min_def)
  qed (use n in simp)
qed simp

text \<open>The constraint set of a builder is the last one a block of it named.\<close>

definition lastSet :: "(u64 \<Rightarrow> i64 option) \<Rightarrow> db_block list \<Rightarrow> i64 option" where
  "lastSet f xs = foldl (\<lambda>a b. if f (bNumber b) \<noteq> None then f (bNumber b) else a) None xs"

lemma lastSet_snoc [simp]:
  "lastSet f (xs @ [b]) = (if f (bNumber b) \<noteq> None then f (bNumber b) else lastSet f xs)"
  by (simp add: lastSet_def)

lemma lastSet_append:
  "lastSet f (xs @ ys) = (if lastSet f ys \<noteq> None then lastSet f ys else lastSet f xs)"
proof (induction ys rule: rev_induct)
  case Nil
  then show ?case by (simp add: lastSet_def)
next
  case (snoc b ys)
  have "lastSet f (xs @ ys @ [b]) = lastSet f ((xs @ ys) @ [b])" by simp
  then show ?case using snoc by (auto simp only: lastSet_snoc split: if_splits)
qed

lemma build_last:
  assumes "xs \<noteq> []" and "sorted (map bNumber xs)"
  shows "kLastBlock (build cid res st f xs) = bNumber (last xs)"
  using assms
proof (induction xs rule: rev_induct)
  case (snoc b xs)
  show ?case
  proof (cases "xs = []")
    case False
    then have "kLastBlock (build cid res st f xs) = bNumber (last xs)" using snoc by (simp add: sorted_append)
    moreover have "bNumber (last xs) \<le> bNumber b" using snoc.prems(2) False by (simp add: sorted_append)
    ultimately show ?thesis by simp
  qed simp
qed simp

lemma build_last_le:
  "sorted (map bNumber (xs @ [b])) \<Longrightarrow> kLastBlock (build cid res st f xs) \<le> bNumber b"
  by (cases "xs = []") (auto simp: build_last sorted_append)

lemma build_ends:
  assumes "sorted (map bNumber (xs @ [b]))"
  shows "kExponentEndBips (build cid res st f (xs @ [b])) = bExponentBips b"
    "kBacklogsEnd (build cid res st f (xs @ [b])) = bBacklogs b"
    "kConstraintBipsEnd (build cid res st f (xs @ [b])) = Some (bConstraintBips b)"
    "kMinBaseFee (build cid res st f (xs @ [b])) = bMinBaseFee b"
    "kLastBlock (build cid res st f (xs @ [b])) = bNumber b"
  using build_last_le [OF assms] by simp_all

lemma build_set:
  "sorted (map bNumber xs) \<Longrightarrow> kConstraintSetID (build cid res st f xs) = lastSet f xs"
proof (induction xs rule: rev_induct)
  case (snoc b xs)
  then show ?case using build_last_le [OF snoc.prems] by (simp add: sorted_append)
qed (simp add: lastSet_def)

definition arbosRange :: "db_block list \<Rightarrow> i64 option \<times> i64 option" where
  "arbosRange xs =
     (if list_all (\<lambda>b. bArbOSVersion b \<noteq> None) xs
      then (Some (Min ((\<lambda>b. the (bArbOSVersion b)) ` set xs)), Some (Max ((\<lambda>b. the (bArbOSVersion b)) ` set xs)))
      else (None, None))"

lemma build_arbos:
  assumes "xs \<noteq> []" and "length xs < 2 ^ 63"
  shows "(kArbOSVersionMin (build cid res st f xs), kArbOSVersionMax (build cid res st f xs)) = arbosRange xs"
  using assms
proof (induction xs rule: rev_induct)
  case (snoc b xs)
  have n: "kBlocks (build cid res st f xs) = int (length xs)"
    using snoc.prems(2) by (intro build_blocks_0) simp
  have w: "i64_wrap (int (length xs) + 1) = int (length xs) + 1"
    using snoc.prems(2) by (simp add: i64_wrap_id is_i64_def MinInt64_def MaxInt64_def)
  show ?case
  proof (cases "xs = []")
    case True
    then show ?thesis unfolding build_snoc Add_arbos n w
      by (auto simp: extendArbOSRange_def arbosRange_def split: option.split)
  next
    case False
    then have IH: "kArbOSVersionMin (build cid res st f xs) = fst (arbosRange xs)"
      "kArbOSVersionMax (build cid res st f xs) = snd (arbosRange xs)"
      using snoc by (simp_all add: prod_eq_iff)
    show ?thesis unfolding build_snoc Add_arbos n w
      using False by (auto simp: extendArbOSRange_def arbosRange_def IH min.commute max.commute split: option.split)
  qed
qed simp


section \<open>Merging\<close>

lemma max_backlogs_Nil [simp]: "max_backlogs [] vs = vs"
  by (induction vs) simp_all

lemma max_backlogs_assoc: "max_backlogs (max_backlogs a b) c = max_backlogs a (max_backlogs b c)"
proof (induction a b arbitrary: c rule: max_backlogs.induct)
  case (3 m ms v vs)
  then show ?case by (cases c) auto
qed simp_all

interpretation backlogs: mergeable_fold max_backlogs "[]"
  by unfold_locales (simp_all add: max_backlogs_assoc)

lemma merge_max_Cons:
  "merge_max (x # xs) (y # ys) = (if x < y then y else x) # merge_max xs ys"
proof -
  have "max (length (x # xs)) (length (y # ys)) = Suc (max (length xs) (length ys))" by simp
  then have "[0..<max (length (x # xs)) (length (y # ys))] = 0 # map Suc [0..<max (length xs) (length ys)]"
    by (simp only: upt_conv_Cons map_Suc_upt zero_less_Suc)
  then show ?thesis by (simp add: merge_max_def Let_def o_def del: upt_Suc)
qed

lemma merge_max_Nil_left: "merge_max [] ys = ys"
proof (rule nth_equalityI)
  fix i assume "i < length (merge_max [] ys)"
  then show "merge_max [] ys ! i = ys ! i"
    using word_gt_0 [of "ys ! i"] by (auto simp: merge_max_def Let_def)
qed (simp add: merge_max_def)

lemma merge_max_Nil_right: "merge_max xs [] = xs"
  by (rule nth_equalityI) (auto simp: merge_max_def Let_def)

lemma merge_max_eq: "merge_max xs ys = max_backlogs xs ys"
  by (induction xs ys rule: max_backlogs.induct)
    (simp_all add: merge_max_Nil_left merge_max_Nil_right merge_max_Cons)

lemma Merge_frame [simp]:
  "kChainID (MergeBuckets old b) = kChainID old" "kResolution (MergeBuckets old b) = kResolution old"
  "kBucketStart (MergeBuckets old b) = kBucketStart old"
  by (simp_all add: MergeBuckets_def split: prod.split)

lemma Merge_sums [simp]:
  "kBlocks (MergeBuckets old b) = i64_wrap (kBlocks old + kBlocks b)"
  "kGasUsed (MergeBuckets old b) = kGasUsed old + kGasUsed b"
  "kPosterGas (MergeBuckets old b) = (case (kPosterGas old, kPosterGas b) of
                        (Some x, Some y) \<Rightarrow> Some (i64_wrap (x + y)) | _ \<Rightarrow> None)"
  "kFeesWei (MergeBuckets old b) = kFeesWei old + kFeesWei b"
  "kPosterFeesWei (MergeBuckets old b) = addNullWei (kPosterFeesWei old) (kPosterFeesWei b)"
  "kBaseFeeSum (MergeBuckets old b) = addNullWei (kBaseFeeSum old) (kBaseFeeSum b)"
  by (simp_all add: MergeBuckets_def merge_sums_def split: prod.split)

lemma Merge_fees [simp]:
  "kBaseFeeMin (MergeBuckets old b) = (if kBlocks old = 0 \<or> kBaseFeeMin b < kBaseFeeMin old
                       then kBaseFeeMin b else kBaseFeeMin old)"
  "kBaseFeeMax (MergeBuckets old b) = max (kBaseFeeMax old) (kBaseFeeMax b)"
  "kBaseFeeAvg (MergeBuckets old b) =
     (if 0 < i64_wrap (kBlocks old + kBlocks b)
      then big_Div (baseFeeSumOf old + baseFeeSumOf b) (i64_wrap (kBlocks old + kBlocks b)) else 0)"
  "kPricingVersion (MergeBuckets old b) = min (kPricingVersion old) (kPricingVersion b)"
  by (simp_all add: MergeBuckets_def merge_fees_def merge_sums_def split: prod.split)

lemma Merge_ranges [simp]:
  "kBacklogsMax (MergeBuckets old b) = max_backlogs (kBacklogsMax old) (kBacklogsMax b)"
  "kReplayErrorBips (MergeBuckets old b) = max (kReplayErrorBips old) (kReplayErrorBips b)"
  "(kArbOSVersionMin (MergeBuckets old b), kArbOSVersionMax (MergeBuckets old b)) = mergeArbOSRange old b"
  by (simp_all add: MergeBuckets_def merge_max_eq split: prod.split)

lemma Merge_known [simp]:
  "kFloorFeesWei (MergeBuckets old b) =
     (if min (kPricingVersion old) (kPricingVersion b) = PricingUnknown then None
      else addNullWei (kFloorFeesWei old) (kFloorFeesWei b))"
  "kSurplusFeesWei (MergeBuckets old b) =
     (if min (kPricingVersion old) (kPricingVersion b) = PricingUnknown then None
      else addNullWei (kSurplusFeesWei old) (kSurplusFeesWei b))"
  by (simp_all add: MergeBuckets_def merge_unknown_def merge_fees_def merge_sums_def split: prod.split)

lemma Merge_ends [simp]:
  assumes "kLastBlock old \<le> kLastBlock b"
  shows "kExponentEndBips (MergeBuckets old b) = kExponentEndBips b"
    "kBacklogsEnd (MergeBuckets old b) = kBacklogsEnd b"
    "kLastBlock (MergeBuckets old b) = kLastBlock b"
    "kConstraintSetID (MergeBuckets old b) =
       (if kConstraintSetID b \<noteq> None then kConstraintSetID b else kConstraintSetID old)"
    "kConstraintBipsEnd (MergeBuckets old b) =
       (if min (kPricingVersion old) (kPricingVersion b) = PricingUnknown then None else kConstraintBipsEnd b)"
    "kMinBaseFee (MergeBuckets old b) =
       (if min (kPricingVersion old) (kPricingVersion b) = PricingUnknown then None else kMinBaseFee b)"
  using assms
  by (simp_all add: MergeBuckets_def merge_unknown_def merge_fees_def merge_ends_def split: prod.split)

lemma handed_fields [simp]:
  "kChainID (builder_Bucket a) = kChainID a" "kResolution (builder_Bucket a) = kResolution a"
  "kBucketStart (builder_Bucket a) = kBucketStart a" "kBlocks (builder_Bucket a) = kBlocks a"
  "kGasUsed (builder_Bucket a) = kGasUsed a" "kPosterGas (builder_Bucket a) = kPosterGas a"
  "kFeesWei (builder_Bucket a) = kFeesWei a" "kPosterFeesWei (builder_Bucket a) = kPosterFeesWei a"
  "kBaseFeeMin (builder_Bucket a) = kBaseFeeMin a" "kBaseFeeMax (builder_Bucket a) = kBaseFeeMax a"
  "kBaseFeeSum (builder_Bucket a) = kBaseFeeSum a" "kExponentEndBips (builder_Bucket a) = kExponentEndBips a"
  "kBacklogsEnd (builder_Bucket a) = kBacklogsEnd a" "kBacklogsMax (builder_Bucket a) = kBacklogsMax a"
  "kConstraintSetID (builder_Bucket a) = kConstraintSetID a"
  "kReplayErrorBips (builder_Bucket a) = kReplayErrorBips a" "kLastBlock (builder_Bucket a) = kLastBlock a"
  "kPricingVersion (builder_Bucket a) = kPricingVersion a"
  "kArbOSVersionMin (builder_Bucket a) = kArbOSVersionMin a"
  "kArbOSVersionMax (builder_Bucket a) = kArbOSVersionMax a"
  by (simp_all add: builder_Bucket_def Let_def)

lemma handed_known [simp]:
  "kBaseFeeAvg (builder_Bucket a) =
     (if 0 < kBlocks a then big_Div (wei_of (kBaseFeeSum a)) (kBlocks a) else kBaseFeeAvg a)"
  "kMinBaseFee (builder_Bucket a) = (if kPricingVersion a = PricingUnknown then None else kMinBaseFee a)"
  "kFloorFeesWei (builder_Bucket a) = (if kPricingVersion a = PricingUnknown then None else kFloorFeesWei a)"
  "kSurplusFeesWei (builder_Bucket a) = (if kPricingVersion a = PricingUnknown then None else kSurplusFeesWei a)"
  "kConstraintBipsEnd (builder_Bucket a) =
     (if kPricingVersion a = PricingUnknown then None else kConstraintBipsEnd a)"
  by (simp_all add: builder_Bucket_def Let_def)

lemma arbosRange_append:
  assumes "xs \<noteq> []" "ys \<noteq> []"
  shows "arbosRange (xs @ ys) =
    (case (fst (arbosRange xs), fst (arbosRange ys)) of
       (Some lo, Some lb) \<Rightarrow> (Some (min lo lb), Some (max (the (snd (arbosRange xs))) (the (snd (arbosRange ys)))))
     | _ \<Rightarrow> (None, None))"
  using assms by (auto simp: arbosRange_def image_Un Min_Un Max_Un)


text \<open>The block numbers of a batch are ascending and its length is far below the range of the counter.\<close>

definition batch :: "db_block list \<Rightarrow> bool" where
  "batch xs \<longleftrightarrow> sorted (map bNumber xs) \<and> length xs < 2 ^ 63"

lemma batch_appendD: "batch (xs @ ys) \<Longrightarrow> batch xs \<and> batch ys"
  by (simp add: batch_def sorted_append)

lemma batch_last_le:
  assumes "batch (xs @ ys)" "ys \<noteq> []"
  shows "kLastBlock (build cid res st f xs) \<le> kLastBlock (build cid res st f ys)"
proof (cases "xs = []")
  case False
  then have "bNumber (last xs) \<le> bNumber (last ys)"
    using assms by (simp add: batch_def sorted_append)
  then show ?thesis using False assms by (simp add: batch_def build_last sorted_append)
qed simp

lemma batch_ends:
  assumes "batch xs" "xs \<noteq> []"
  shows "kExponentEndBips (build cid res st f xs) = bExponentBips (last xs)"
    "kBacklogsEnd (build cid res st f xs) = bBacklogs (last xs)"
    "kConstraintBipsEnd (build cid res st f xs) = Some (bConstraintBips (last xs))"
    "kMinBaseFee (build cid res st f xs) = bMinBaseFee (last xs)"
    "kLastBlock (build cid res st f xs) = bNumber (last xs)"
  using build_ends [of "butlast xs" "last xs"] assms by (simp_all add: batch_def)

lemma batch_blocks: "batch xs \<Longrightarrow> i64_wrap (int (length xs)) = int (length xs)"
  using build_blocks_0 by (simp add: batch_def)

lemma Merge_arbos:
  assumes "batch (xs @ ys)" "ys \<noteq> []"
  shows "(kArbOSVersionMin (MergeBuckets (builder_Bucket (build cid res st f xs)) (builder_Bucket (build cid res st f ys))),
          kArbOSVersionMax (MergeBuckets (builder_Bucket (build cid res st f xs)) (builder_Bucket (build cid res st f ys))))
     = arbosRange (xs @ ys)"
proof -
  have y: "(kArbOSVersionMin (build cid res st f ys), kArbOSVersionMax (build cid res st f ys)) = arbosRange ys"
    using assms by (intro build_arbos) (auto simp: batch_def)
  show ?thesis
  proof (cases "xs = []")
    case True
    then show ?thesis unfolding Merge_ranges using y by (simp add: mergeArbOSRange_def)
  next
    case False
    have x: "(kArbOSVersionMin (build cid res st f xs), kArbOSVersionMax (build cid res st f xs)) = arbosRange xs"
      using assms False by (intro build_arbos) (auto simp: batch_def)
    have n: "i64_wrap (int (length xs)) = int (length xs)" "i64_wrap (int (length ys)) = int (length ys)"
      using batch_appendD [OF assms(1)] by (simp_all add: batch_blocks)
    have "kArbOSVersionMin (build cid res st f xs) = fst (arbosRange xs)"
      "kArbOSVersionMax (build cid res st f xs) = snd (arbosRange xs)"
      "kArbOSVersionMin (build cid res st f ys) = fst (arbosRange ys)"
      "kArbOSVersionMax (build cid res st f ys) = snd (arbosRange ys)"
      using x y by (simp_all add: prod_eq_iff)
    then show ?thesis unfolding Merge_ranges
      using False assms(2) by (simp add: mergeArbOSRange_def arbosRange_append n) (auto simp: arbosRange_def)
  qed
qed

lemma Min_append: 
  assumes "xs \<noteq> []" "ys \<noteq> []"
  shows "Min (g ` set (xs @ ys)) = min (Min (g ` set xs)) (Min (g ` set ys))"
  using assms by (simp add: image_Un Min_Un)

lemma Max0_append:
  "Max (insert 0 (g ` set (xs @ ys))) = max (Max (insert (0::int) (g ` set xs))) (Max (insert 0 (g ` set ys)))"
proof -
  have "insert 0 (g ` set (xs @ ys)) = insert 0 (g ` set xs) \<union> insert 0 (g ` set ys)" by auto
  then show ?thesis by (simp only: Max_Un finite_imageI finite_insert finite_set insert_not_empty simp_thms)
qed

text \<open>
  C8. Merging the bucket of one batch with the bucket of the batch after it gives, field for
  field, the bucket a single builder makes of both: the incremental folds of the collector lose
  nothing against a rebuild. The later batch is not empty, block numbers ascend and the block
  counter stays in range.
\<close>

theorem MergeBuckets_build:
  assumes "batch (xs @ ys)" and "ys \<noteq> []"
  shows "MergeBuckets (builder_Bucket (build cid res st f xs)) (builder_Bucket (build cid res st f ys))
    = builder_Bucket (build cid res st f (xs @ ys))"
    (is "?M = ?B")
proof (rule Bucket.equality)
  note bs = batch_appendD [OF assms(1)]
  have n: "i64_wrap (int (length xs)) = int (length xs)" "i64_wrap (int (length ys)) = int (length ys)"
    "i64_wrap (int (length xs) + int (length ys)) = int (length xs) + int (length ys)"
    using bs batch_blocks [of xs] batch_blocks [of ys] batch_blocks [OF assms(1)] by simp_all
  have last: "kLastBlock (builder_Bucket (build cid res st f xs)) \<le> kLastBlock (builder_Bucket (build cid res st f ys))"
    using batch_last_le [OF assms] by simp
  have ne: "xs @ ys \<noteq> []" "last (xs @ ys) = last ys" using assms(2) by simp_all
  note ends = Merge_ends [OF last] batch_ends [OF assms(1) ne(1)] batch_ends [OF conjunct2 [OF bs] assms(2)] ne(2)
  show "kBlocks ?M = kBlocks ?B" by simp
  show "kPosterGas ?M = kPosterGas ?B" "kPosterFeesWei ?M = kPosterFeesWei ?B"
    "kBaseFeeSum ?M = kBaseFeeSum ?B" by (auto simp: addNullWei_def)
  show "kBaseFeeMax ?M = kBaseFeeMax ?B" "kReplayErrorBips ?M = kReplayErrorBips ?B"
    by (simp_all only: Merge_fees Merge_ranges handed_fields build_max Max0_append)
  show "kBaseFeeMin ?M = kBaseFeeMin ?B"
  proof (cases "xs = []")
    case False
    have l: "length xs < 2 ^ 63" "length ys < 2 ^ 63" "length (xs @ ys) < 2 ^ 63"
      using assms(1) by (simp_all add: batch_def)
    show ?thesis
      using False n(1) by (simp del: set_append Min_less_iff Min_gr_iff Min_ge_iff Min_le_iff
        add: build_min [OF False l(1)] build_min [OF assms(2) l(2)] build_min [OF ne(1) l(3)]
          Min_append [OF False assms(2)] min_def)
  qed simp
  show "kBaseFeeAvg ?M = kBaseFeeAvg ?B"
    using n assms(2) by (simp add: baseFeeSumOf_def wei_of_def)
  show "kExponentEndBips ?M = kExponentEndBips ?B" "kBacklogsEnd ?M = kBacklogsEnd ?B"
    "kLastBlock ?M = kLastBlock ?B"
    by (simp_all add: ends)
  show "kConstraintSetID ?M = kConstraintSetID ?B"
    using bs assms(1) by (simp add: ends batch_def build_set lastSet_append)
  show "kConstraintBipsEnd ?M = kConstraintBipsEnd ?B" "kMinBaseFee ?M = kMinBaseFee ?B"
    by (simp_all add: ends PricingUnknown_def PricingFull_def)
  show "kFloorFeesWei ?M = kFloorFeesWei ?B" "kSurplusFeesWei ?M = kSurplusFeesWei ?B"
    "kPricingVersion ?M = kPricingVersion ?B"
    by (simp_all add: PricingUnknown_def PricingFull_def addNullWei_def)
  show "kBacklogsMax ?M = kBacklogsMax ?B"
    by (simp add: backlogs.foldl_split [symmetric])
  have "(kArbOSVersionMin ?M, kArbOSVersionMax ?M) = (kArbOSVersionMin ?B, kArbOSVersionMax ?B)"
    using Merge_arbos [OF assms] build_arbos [OF ne(1)] assms(1) by (simp add: batch_def)
  then show "kArbOSVersionMin ?M = kArbOSVersionMin ?B" "kArbOSVersionMax ?M = kArbOSVersionMax ?B"
    unfolding prod.inject by blast+
qed simp_all


text \<open>
  C13. When every block of a bucket has its pricing breakdown and its poster gas, the fees of
  the bucket are exactly the floor share, the surplus share and the poster share, and the surplus is
  never negative.
\<close>

theorem bucket_fees_conserved:
  assumes "list_all DestinationsKnown xs"
  shows "let k = builder_Bucket (build cid res st f xs) in
     \<exists>floor surplus poster. kFloorFeesWei k = Some floor \<and> kSurplusFeesWei k = Some surplus \<and>
       kPosterFeesWei k = Some poster \<and> kFeesWei k = floor + surplus + poster \<and> 0 \<le> surplus"
proof -
  have p: "list_all posterKnown xs" and k: "list_all Known xs"
    using assms by (auto simp: DestinationsKnown_def list_all_iff)
  have each: "bBaseFee b * uint (bGasUsed b) =
      floorFees b + (computeFees b - floorFees b) + bBaseFee b * uint (posterGasOf b)"
    and pos: "0 \<le> computeFees b - floorFees b" if "b \<in> set xs" for b
  proof -
    have "posterGasOf b \<le> bGasUsed b"
      using p that by (auto simp: list_all_iff posterKnown_def posterGasOf_def split: option.splits)
    then have "uint (bGasUsed b - posterGasOf b) = uint (bGasUsed b) - uint (posterGasOf b)"
      by (simp add: uint_minus_simple_alt)
    then show "bBaseFee b * uint (bGasUsed b) =
      floorFees b + (computeFees b - floorFees b) + bBaseFee b * uint (posterGasOf b)"
      by (simp only: computeFees_def) (simp add: right_diff_distrib)
    show "0 \<le> computeFees b - floorFees b"
      by (simp add: computeFees_def floorFees_def Let_def mult_right_mono)
  qed
  have "(\<Sum>b\<leftarrow>xs. bBaseFee b * uint (bGasUsed b)) =
      (\<Sum>b\<leftarrow>xs. floorFees b) + (\<Sum>b\<leftarrow>xs. computeFees b - floorFees b) + (\<Sum>b\<leftarrow>xs. bBaseFee b * uint (posterGasOf b))"
    using each by (simp add: sum_list_addf [symmetric] cong: map_cong)
  moreover have "0 \<le> (\<Sum>b\<leftarrow>xs. computeFees b - floorFees b)"
    using pos by (intro sum_list_nonneg) auto
  ultimately show ?thesis using assms p k by (simp add: PricingUnknown_def PricingFull_def)
qed

text \<open>
  The average base fee of a bucket lies between its minimum, which is the fee of one of
  its blocks, and its maximum.
\<close>

theorem bucket_average_bounds:
  assumes "batch xs" and "xs \<noteq> []"
  shows "let k = builder_Bucket (build cid res st f xs) in
    kBaseFeeMin k \<le> kBaseFeeAvg k \<and> kBaseFeeAvg k \<le> kBaseFeeMax k
    \<and> kBaseFeeMin k \<in> bBaseFee ` set xs"
proof -
  let ?m = "Min (bBaseFee ` set xs)" and ?s = "\<Sum>b\<leftarrow>xs. bBaseFee b"
    and ?M = "Max (insert 0 (bBaseFee ` set xs))" and ?n = "int (length xs)"
  have n: "0 < ?n" using assms(2) by simp
  have m: "kBaseFeeMin (build cid res st f xs) = ?m"
    using assms by (intro build_min) (simp_all add: batch_def)
  have "(\<Sum>b\<leftarrow>xs. ?m) \<le> ?s" by (rule sum_list_mono) simp
  then have "?m * ?n \<le> ?s" by (simp add: sum_list_triv mult.commute)
  then have lo: "?m \<le> ?s div ?n" using n by (metis zdiv_mono1 less_irrefl nonzero_mult_div_cancel_right)
  have "?s \<le> (\<Sum>b\<leftarrow>xs. ?M)" by (rule sum_list_mono) (simp del: Max_insert)
  then have "?s \<le> ?M * ?n" by (simp add: sum_list_triv mult.commute del: Max_insert)
  then have hi: "?s div ?n \<le> ?M" using n by (metis zdiv_mono1 less_irrefl nonzero_mult_div_cancel_right)
  have "?m \<in> bBaseFee ` set xs" using assms(2) by (intro Min_in) auto
  with lo hi m n show ?thesis
    by (simp del: Max_insert Min_le_iff Max_ge_iff add: Let_def wei_of_def big_Div_def batch_blocks [OF assms(1)])
qed


section \<open>Folding a batch\<close>

text \<open>The specification of \<open>FoldBlocks\<close>: maximal runs of consecutive rows of one window.\<close>

function groups :: "duration \<Rightarrow> db_block list \<Rightarrow> db_block list list" where
  "groups w [] = []"
| "groups w (b # rows) =
     (b # takeWhile (\<lambda>c. Truncate (bTS c) w = Truncate (bTS b) w) rows)
       # groups w (dropWhile (\<lambda>c. Truncate (bTS c) w = Truncate (bTS b) w) rows)"
  by pat_completeness auto
termination
  by (relation "measure (\<lambda>(w, rows). length rows)") (auto simp: less_Suc_eq_le length_dropWhile_le)

definition group_bucket :: "string \<Rightarrow> (u64 \<Rightarrow> i64 option) \<Rightarrow> db_block list \<Rightarrow> Bucket" where
  "group_bucket res f g =
     builder_Bucket (build (bChainID (hd g)) res (Truncate (bTS (hd g)) (Resolutions res)) f g)"

lemma fold_rows_groups:
  assumes "xs \<noteq> []" and "Truncate (bTS (hd xs)) (Resolutions res) = st"
  shows "fold_rows res (Resolutions res) f (Some (build (bChainID (hd xs)) res st f xs)) rows
    = group_bucket res f (xs @ takeWhile (\<lambda>c. Truncate (bTS c) (Resolutions res) = st) rows)
      # map (group_bucket res f)
          (groups (Resolutions res) (dropWhile (\<lambda>c. Truncate (bTS c) (Resolutions res) = st) rows))"
  using assms
proof (induction rows arbitrary: xs st)
  case Nil
  then show ?case by (auto simp: group_bucket_def)
next
  case (Cons b rows)
  show ?case
  proof (cases "Truncate (bTS b) (Resolutions res) = st")
    case True
    then show ?thesis using Cons.IH [of "xs @ [b]" st] Cons.prems by simp
  next
    case False
    then show ?thesis using Cons.IH [of "[b]"] Cons.prems by (auto simp: group_bucket_def Let_def)
  qed
qed

lemma fold_rows_spec:
  "fold_rows res (Resolutions res) f None rows = map (group_bucket res f) (groups (Resolutions res) rows)"
proof (cases rows)
  case (Cons b bs)
  then show ?thesis using fold_rows_groups [of "[b]" res _ f bs] by simp
qed simp

lemma groups_concat: "concat (groups w rows) = rows"
  by (induction w rows rule: groups.induct) simp_all

definition oneWindow :: "duration \<Rightarrow> db_block list \<Rightarrow> bool" where
  "oneWindow w g \<longleftrightarrow> g \<noteq> [] \<and> list_all (\<lambda>c. Truncate (bTS c) w = Truncate (bTS (hd g)) w) g"

lemma oneWindow_run: "oneWindow w (b # takeWhile (\<lambda>c. Truncate (bTS c) w = Truncate (bTS b) w) rows)"
  by (auto simp: oneWindow_def list_all_iff dest: set_takeWhileD)

lemma groups_window: "list_all (oneWindow w) (groups w rows)"
  by (induction w rows rule: groups.induct) (simp_all add: oneWindow_run)

lemma groups_maximal:
  "successively (\<lambda>g h. Truncate (bTS (hd g)) w \<noteq> Truncate (bTS (hd h)) w) (groups w rows)"
proof (induction w rows rule: groups.induct)
  case (2 w b rows)
  let ?P = "\<lambda>c. Truncate (bTS c) w = Truncate (bTS b) w"
  show ?case
  proof (cases "dropWhile ?P rows")
    case Nil
    then show ?thesis by (simp only: groups.simps successively.simps)
  next
    case (Cons d ds)
    then have "\<not> ?P d" using hd_dropWhile [of ?P rows] by fastforce
    then have "Truncate (bTS b) w \<noteq> Truncate (bTS d) w" by metis
    with 2 show ?thesis by (simp add: Cons)
  qed
qed simp

text \<open>
  \<open>FoldBlocks\<close> implements its specification: at each resolution it cuts the rows into
  maximal runs of consecutive rows of one window and builds one bucket of each; no row is lost,
  repeated or reordered.
\<close>

theorem FoldBlocks_groups:
  "FoldBlocks rows f = concat (map (\<lambda>res. map (group_bucket res f) (groups (Resolutions res) rows)) ResolutionOrder)
   \<and> concat (groups w rows) = rows \<and> list_all (oneWindow w) (groups w rows)
   \<and> successively (\<lambda>g h. Truncate (bTS (hd g)) w \<noteq> Truncate (bTS (hd h)) w) (groups w rows)"
  unfolding FoldBlocks_def fold_rows_spec groups_concat
  using groups_window groups_maximal by blast

lemma FoldBlocks_resolution:
  assumes "res \<in> set ResolutionOrder"
  shows "filter (\<lambda>k. kResolution k = res) (FoldBlocks rows f) = map (group_bucket res f) (groups (Resolutions res) rows)"
proof -
  have key: "kResolution (group_bucket r f g) = r" for r g by (simp add: group_bucket_def)
  have "filter (\<lambda>k. kResolution k = res) (map (group_bucket r f) gs)
      = (if r = res then map (group_bucket r f) gs else [])" for r gs
    by (induction gs) (simp_all add: key)
  then show ?thesis using assms
    by (auto simp: FoldBlocks_def fold_rows_spec ResolutionOrder_def Resolution1m_def Resolution15m_def Resolution1h_def)
qed

lemma sum_list_groups: "(\<Sum>g\<leftarrow>gs. \<Sum>b\<leftarrow>g. h b) = (\<Sum>b\<leftarrow>concat gs. (h b :: 'a :: monoid_add))"
  by (induction gs) simp_all

text \<open>
  At every resolution the buckets \<open>FoldBlocks\<close> makes of a batch add up to the batch: the
  same fees, the same gas (modulo \<open>2 ^ 64\<close> like the code's counter) and the same number of blocks.
\<close>

theorem FoldBlocks_totals:
  assumes "res \<in> set ResolutionOrder"
  shows "let ks = filter (\<lambda>k. kResolution k = res) (FoldBlocks rows f) in
    (\<Sum>k\<leftarrow>ks. kFeesWei k) = (\<Sum>b\<leftarrow>rows. bBaseFee b * uint (bGasUsed b))
    \<and> (\<Sum>k\<leftarrow>ks. kGasUsed k) = (\<Sum>b\<leftarrow>rows. bGasUsed b)
    \<and> i64_wrap (\<Sum>k\<leftarrow>ks. kBlocks k) = i64_wrap (int (length rows))"
proof -
  have w: "i64_wrap (\<Sum>g\<leftarrow>gs. i64_wrap (int (length g))) = i64_wrap (int (length (concat gs)))" for gs :: "db_block list list"
  proof (induction gs)
    case (Cons g gs)
    have "i64_wrap (i64_wrap (int (length g)) + (\<Sum>h\<leftarrow>gs. i64_wrap (int (length h))))
        = i64_wrap (int (length g) + i64_wrap (\<Sum>h\<leftarrow>gs. i64_wrap (int (length h))))" by simp
    also have "\<dots> = i64_wrap (int (length g) + int (length (concat gs)))" by (simp only: Cons.IH i64_wrap_add_right)
    finally show ?case by simp
  qed simp
  show ?thesis
    using w [of "groups (Resolutions res) rows"]
    by (simp add: FoldBlocks_resolution [OF assms] o_def group_bucket_def sum_list_groups groups_concat del: length_concat)
qed


section \<open>The windows a batch touches\<close>

lemma bucket_starts_skip:
  "\<forall>r\<in>set run. Unix (Truncate (bTS r) w) \<in> set seen \<Longrightarrow>
   bucket_starts w seen (run @ rest) = bucket_starts w seen rest"
  by (induction run) simp_all

lemma Truncate_mono: "0 < d \<Longrightarrow> s \<le> t \<Longrightarrow> Truncate s d \<le> Truncate t d"
  by (simp add: Truncate_def minus_mod_eq_div_mult zdiv_mono1)

lemma Unix_mono: "s \<le> t \<Longrightarrow> Unix s \<le> Unix t"
  by (simp add: Unix_def Second_def zdiv_mono1)

lemma Unix_Truncate_inj:
  assumes "0 < d" and "Second dvd d" and "Unix (Truncate s d) = Unix (Truncate t d)"
  shows "Truncate s d = Truncate t d"
proof -
  have "Second dvd Truncate r d" for r
    using Truncate_bounds(3) [OF assms(1)] assms(2) by (rule dvd_trans [rotated])
  moreover have "Truncate s d div Second = Truncate t d div Second" using assms(3) by (simp add: Unix_def)
  ultimately show ?thesis by (metis dvd_div_mult_self)
qed

lemma bucket_starts_groups:
  assumes "0 < w" and "Second dvd w" and "sorted (map bTS rows)"
    and "\<forall>s\<in>set seen. \<forall>r\<in>set rows. s < Unix (Truncate (bTS r) w)"
  shows "bucket_starts w seen rows = map (\<lambda>g. Truncate (bTS (hd g)) w) (groups w rows)"
  using assms
proof (induction w rows arbitrary: seen rule: groups.induct)
  case (2 w b rows)
  let ?P = "\<lambda>c. Truncate (bTS c) w = Truncate (bTS b) w"
  let ?u = "\<lambda>r. Unix (Truncate (bTS r) w)"
  let ?seen = "?u b # seen"
  have new: "?u b \<notin> set seen" using 2(5) by auto
  have "sorted (map bTS (takeWhile ?P rows @ dropWhile ?P rows))"
    using 2(4) by (simp only: takeWhile_dropWhile_id) simp
  then have srt: "sorted (map bTS (dropWhile ?P rows))"
    by (simp only: map_append sorted_append)
  have later: "?u b < ?u r" if r: "r \<in> set (dropWhile ?P rows)" for r
  proof -
    obtain d ds where ds: "dropWhile ?P rows = d # ds" using r by (cases "dropWhile ?P rows") auto
    have "bTS d \<le> bTS r" using srt r by (auto simp: ds)
    then have dr: "?u d \<le> ?u r" using 2(2) by (simp add: Truncate_mono Unix_mono)
    have "\<not> ?P d" using hd_dropWhile [of ?P rows] ds by fastforce
    then have "?u d \<noteq> ?u b" using Unix_Truncate_inj [OF 2(2,3)] by blast
    moreover have "d \<in> set rows" using ds by (metis list.set_intros(1) set_dropWhileD)
    then have "?u b \<le> ?u d" using 2(2,4) by (simp add: Truncate_mono Unix_mono)
    ultimately show ?thesis using dr by linarith
  qed
  have "bucket_starts w ?seen rows = bucket_starts w ?seen (takeWhile ?P rows @ dropWhile ?P rows)"
    by simp
  also have "\<dots> = bucket_starts w ?seen (dropWhile ?P rows)"
    by (rule bucket_starts_skip) (auto dest: set_takeWhileD)
  also have "\<dots> = map (\<lambda>g. Truncate (bTS (hd g)) w) (groups w (dropWhile ?P rows))"
    using later 2(5) by (intro 2(1) [OF 2(2,3) srt]) (auto dest: set_dropWhileD)
  finally show ?case using new by (simp add: Let_def)
qed simp

text \<open>
  For rows in time order, the windows \<open>BucketStarts\<close> lists are those of the buckets
  \<open>FoldBlocks\<close> makes, in the same order.
\<close>

theorem BucketStarts_FoldBlocks:
  assumes "res \<in> set ResolutionOrder" and "sorted (map bTS rows)"
  shows "BucketStarts rows res = map kBucketStart (filter (\<lambda>k. kResolution k = res) (FoldBlocks rows f))"
proof -
  have "0 < Resolutions res \<and> Second dvd Resolutions res"
    using assms(1) by (auto simp: ResolutionOrder_def Resolutions_def Second_def)
  then show ?thesis using assms(2)
    by (simp add: BucketStarts_def bucket_starts_groups FoldBlocks_resolution [OF assms(1)] group_bucket_def)
qed


text \<open>Two blocks of one minute and one of the next, for the witnesses.\<close>

definition sample_block :: "u64 \<Rightarrow> gotime \<Rightarrow> db_block" where
  "sample_block n t =
     \<lparr>bChainID = 42161, bNumber = n, bHash = ''h'', bParentHash = ''p'', bTS = t, bGasUsed = 100,
      bPosterGas = Some 20, bBaseFee = 12, bL1Block = 7, bTxCount = 2, bBacklogs = [5, 9],
      bConstraintBips = [3], bExponentBips = 3, bPredictedBaseFee = Some 12, bMinBaseFee = Some 10,
      bAnchored = True, bPricingVersion = PricingFull, bArbOSVersion = Some 40\<rparr>"

definition sample_rows :: "db_block list" where
  "sample_rows = [sample_block 1 (5 * Second), sample_block 2 (30 * Second), sample_block 3 (65 * Second)]"

theorem MergeBuckets_build_witness:
  "batch (take 2 sample_rows @ drop 2 sample_rows) \<and> drop 2 sample_rows \<noteq> []
   \<and> kFeesWei (MergeBuckets (builder_Bucket (build 42161 Resolution1h 0 (\<lambda>n. Some 1) (take 2 sample_rows)))
        (builder_Bucket (build 42161 Resolution1h 0 (\<lambda>n. Some 1) (drop 2 sample_rows)))) = 3600"
proof -
  have h: "batch (take 2 sample_rows @ drop 2 sample_rows)" "drop 2 sample_rows \<noteq> []"
    by (simp_all add: batch_def sample_rows_def sample_block_def)
  show ?thesis
    unfolding MergeBuckets_build [OF h]
    using h by (simp add: sample_rows_def sample_block_def)
qed

theorem bucket_fees_conserved_witness:
  "list_all DestinationsKnown sample_rows
   \<and> (let k = builder_Bucket (build 42161 Resolution1h 0 (\<lambda>n. Some 1) sample_rows) in
     \<exists>floor surplus poster. kFloorFeesWei k = Some floor \<and> kSurplusFeesWei k = Some surplus \<and>
       kPosterFeesWei k = Some poster \<and> kFeesWei k = floor + surplus + poster \<and> 0 \<le> surplus)"
proof -
  have h: "list_all DestinationsKnown sample_rows"
    by (simp add: sample_rows_def sample_block_def DestinationsKnown_def Known_def posterKnown_def
        PricingFull_def u64_of_i64_def)
  then show ?thesis using bucket_fees_conserved by blast
qed

theorem bucket_average_bounds_witness:
  "batch sample_rows \<and> sample_rows \<noteq> []
   \<and> (let k = builder_Bucket (build 42161 Resolution1h 0 (\<lambda>n. Some 1) sample_rows) in
    kBaseFeeMin k \<le> kBaseFeeAvg k \<and> kBaseFeeAvg k \<le> kBaseFeeMax k \<and> kBaseFeeMin k \<in> bBaseFee ` set sample_rows)"
proof -
  have h: "batch sample_rows" "sample_rows \<noteq> []"
    by (simp_all add: batch_def sample_rows_def sample_block_def)
  then show ?thesis using bucket_average_bounds by blast
qed

theorem FoldBlocks_totals_witness:
  "Resolution1m \<in> set ResolutionOrder
   \<and> (\<Sum>k\<leftarrow>filter (\<lambda>k. kResolution k = Resolution1m) (FoldBlocks sample_rows (\<lambda>n. None)). kFeesWei k) = 3600"
proof -
  have h: "Resolution1m \<in> set ResolutionOrder" by (simp add: ResolutionOrder_def)
  then show ?thesis using FoldBlocks_totals [OF h, of sample_rows "\<lambda>n. None"]
    by (simp add: Let_def sample_rows_def sample_block_def)
qed

theorem BucketStarts_FoldBlocks_witness:
  "Resolution1m \<in> set ResolutionOrder \<and> sorted (map bTS sample_rows)
   \<and> map kBucketStart (filter (\<lambda>k. kResolution k = Resolution1m) (FoldBlocks sample_rows (\<lambda>n. None))) = [0, 60 * Second]"
proof -
  have h: "Resolution1m \<in> set ResolutionOrder" "sorted (map bTS sample_rows)"
    by (simp_all add: ResolutionOrder_def sample_rows_def sample_block_def Second_def)
  have "BucketStarts sample_rows Resolution1m = [0, 60 * Second]"
    by (simp add: BucketStarts_def Resolutions_def sample_rows_def sample_block_def Second_def
        Truncate_def Unix_def)
  then show ?thesis using h BucketStarts_FoldBlocks [OF h, of "\<lambda>n. None"] by simp
qed

end
