(* ===== verification/Abi.thy ===== *)
theory Abi
  imports Gas_Prelude
begin

text \<open>
  The hand-rolled codecs of \<open>internal/nitro/abi.go\<close> and the decoders of
  \<open>internal/nitro/precompiles.go\<close>: hex strings, JSON-RPC quantities, the 32-byte words of
  Solidity's ABI, \<open>bytes\<close> and \<open>uint64[3][]\<close> values. A Go byte slice is a list of \<open>8 word\<close>, a
  returned \<open>error\<close> the left summand of a result, and a run-time panic its own error value, so
  that a slice expression out of range is a branch of the model. An error wrapped with \<open>%w\<close> is the
  error it wraps. The Keccak hash of \<open>golang.org/x/crypto\<close> is a parameter of the definitions that
  use it.
\<close>

section \<open>Results\<close>

text \<open>A JSON value; the members of an object are kept in their order.\<close>

datatype json =
    JNull
  | JBool bool
  | JNumber string
  | JString string
  | JArray "json list"
  | JObject "(string \<times> json) list"

text \<open>
  The error object of a JSON-RPC answer, and the errors of the package: the sentinel values by name,
  a failure of the endpoint itself around its cause, and any other \<open>fmt.Errorf\<close> by its text.
\<close>

record RPCError =
  reCode :: int
  reMessage :: string
  reData :: "json option"

datatype nitro_error =
    ErrShortData
  | ErrOverflow
  | ErrNotInternal
  | ErrRateLimited
  | ErrStaleEndpoint
  | ErrRPC RPCError
  | EndpointError nitro_error
  | Failed string
  | Panic

type_synonym bytes = "byte list"
type_synonym 'a result = "nitro_error + 'a"

definition bind_err :: "'e + 'a \<Rightarrow> ('a \<Rightarrow> 'e + 'b) \<Rightarrow> 'e + 'b" where
  "bind_err r k = (case r of Inl e \<Rightarrow> Inl e | Inr x \<Rightarrow> k x)"

text \<open>A loop that appends one decoded element after another and returns the first error.\<close>

fun each_err :: "('a \<Rightarrow> 'e + 'b) \<Rightarrow> 'a list \<Rightarrow> 'e + 'b list" where
  "each_err f [] = Inr []"
| "each_err f (x # xs) = bind_err (f x) (\<lambda>y. bind_err (each_err f xs) (\<lambda>ys. Inr (y # ys)))"

text \<open>The slice expression \<open>data[lo:hi]\<close>.\<close>

definition slice :: "bytes \<Rightarrow> int \<Rightarrow> int \<Rightarrow> bytes result" where
  "slice data lo hi =
     (if 0 \<le> lo \<and> lo \<le> hi \<and> hi \<le> int (length data)
      then Inr (take (nat (hi - lo)) (drop (nat lo) data)) else Inl Panic)"

section \<open>Big integers as bytes\<close>

text \<open>\<open>big.Int.Bytes\<close>: the absolute value, big-endian, without leading zeros.\<close>

function nat_Bytes :: "nat \<Rightarrow> bytes" where
  "nat_Bytes n = (if n = 0 then [] else nat_Bytes (n div 256) @ [word_of_nat n])"
  by pat_completeness auto
termination by (relation "measure id") auto

declare nat_Bytes.simps [simp del]

definition big_Bytes :: "bigint \<Rightarrow> bytes" where
  "big_Bytes v = nat_Bytes (nat \<bar>v\<bar>)"

text \<open>\<open>big.Int.SetBytes\<close>.\<close>

definition SetBytes :: "bytes \<Rightarrow> bigint" where
  "SetBytes bs = foldl (\<lambda>a b. a * 256 + uint b) 0 bs"

definition IsUint64 :: "bigint \<Rightarrow> bool" where
  "IsUint64 v \<longleftrightarrow> 0 \<le> v \<and> v < 18446744073709551616"

section \<open>Hex\<close>

definition hexdigit :: "nat \<Rightarrow> char" where
  "hexdigit n = char_of (if n < 10 then 48 + n else 87 + n)"

definition unhex :: "char \<Rightarrow> nat option" where
  "unhex c = (let n = of_char c in
     if 48 \<le> n \<and> n \<le> 57 then Some (n - 48)
     else if 97 \<le> n \<and> n \<le> 102 then Some (n - 87)
     else if 65 \<le> n \<and> n \<le> 70 then Some (n - 55)
     else None)"

text \<open>\<open>hex.EncodeToString\<close> and \<open>hex.DecodeString\<close>.\<close>

fun EncodeToString :: "bytes \<Rightarrow> string" where
  "EncodeToString [] = []"
| "EncodeToString (b # bs) = hexdigit (unat b div 16) # hexdigit (unat b mod 16) # EncodeToString bs"

fun DecodeString :: "string \<Rightarrow> bytes result" where
  "DecodeString [] = Inr []"
| "DecodeString [c] = Inl (Failed ''odd length hex string'')"
| "DecodeString (c # d # s) =
     (case (unhex c, unhex d) of
        (Some a, Some b) \<Rightarrow> bind_err (DecodeString s) (\<lambda>bs. Inr (word_of_nat (a * 16 + b) # bs))
      | _ \<Rightarrow> Inl (Failed ''invalid byte''))"

definition TrimPrefix :: "string \<Rightarrow> string \<Rightarrow> string" where
  "TrimPrefix s p = (if take (length p) s = p then drop (length p) s else s)"

definition DecodeHex :: "string \<Rightarrow> bytes result" where
  "DecodeHex s0 =
     (let s = TrimPrefix (TrimPrefix s0 ''0x'') ''0X'';
          s' = (if length s mod 2 = 1 then CHR ''0'' # s else s)
      in DecodeString s')"

definition EncodeHex :: "bytes \<Rightarrow> string" where
  "EncodeHex b = ''0x'' @ EncodeToString b"

section \<open>Quantities\<close>

text \<open>\<open>big.Int.SetString\<close> in base 16: an optional sign and at least one digit, nothing after them.\<close>

fun hex_digits :: "nat \<Rightarrow> string \<Rightarrow> nat option" where
  "hex_digits acc [] = Some acc"
| "hex_digits acc (c # s) = (case unhex c of None \<Rightarrow> None | Some d \<Rightarrow> hex_digits (acc * 16 + d) s)"

definition SetString16 :: "string \<Rightarrow> bigint option" where
  "SetString16 t =
     (let neg = (take 1 t = ''-'');
          u = (if take 1 t = ''-'' \<or> take 1 t = ''+'' then drop 1 t else t)
      in if u = [] then None
         else map_option (\<lambda>n. if neg then - int n else int n) (hex_digits 0 u))"

definition HexBig :: "string \<Rightarrow> bigint result" where
  "HexBig s =
     (let t = TrimPrefix (TrimPrefix s ''0x'') ''0X'' in
      if t = '''' then Inl (Failed ''empty quantity'')
      else case SetString16 t of None \<Rightarrow> Inl (Failed ''invalid quantity'') | Some b \<Rightarrow> Inr b)"

definition HexUint64 :: "string \<Rightarrow> u64 result" where
  "HexUint64 s =
     bind_err (HexBig s) (\<lambda>b. if \<not> IsUint64 b then Inl ErrOverflow else Inr (word_of_int b))"

text \<open>\<open>fmt.Sprintf("0x%x", number)\<close>.\<close>

function hex_of_nat :: "nat \<Rightarrow> string" where
  "hex_of_nat n = (if n < 16 then [hexdigit n] else hex_of_nat (n div 16) @ [hexdigit (n mod 16)])"
  by pat_completeness auto
termination by (relation "measure id") auto

declare hex_of_nat.simps [simp del]

definition blockTag :: "u64 \<Rightarrow> string" where
  "blockTag number = ''0x'' @ hex_of_nat (unat number)"

section \<open>Words\<close>

definition wordSize :: int where
  "wordSize = 32"

text \<open>The index arithmetic is that of a Go \<open>int\<close> and wraps.\<close>

definition word :: "bytes \<Rightarrow> i64 \<Rightarrow> bytes result" where
  "word data i =
     (let start = i64_wrap (i * wordSize);
          stop = i64_wrap (start + wordSize)
      in if start < 0 \<or> int (length data) < stop then Inl ErrShortData
         else slice data start stop)"

definition wordBig :: "bytes \<Rightarrow> i64 \<Rightarrow> bigint result" where
  "wordBig data i = bind_err (word data i) (\<lambda>w. Inr (SetBytes w))"

definition wordInt256 :: "bytes \<Rightarrow> i64 \<Rightarrow> bigint result" where
  "wordInt256 data i =
     bind_err (word data i) (\<lambda>w.
       let v = SetBytes w in
       Inr (if 128 \<le> unat (w ! 0) then v - 2 ^ 256 else v))"

definition wordUint64 :: "bytes \<Rightarrow> i64 \<Rightarrow> u64 result" where
  "wordUint64 data i =
     bind_err (wordBig data i) (\<lambda>v. if \<not> IsUint64 v then Inl ErrOverflow else Inr (word_of_int v))"

definition wordInt64 :: "bytes \<Rightarrow> i64 \<Rightarrow> i64 result" where
  "wordInt64 data i =
     bind_err (wordInt256 data i) (\<lambda>v. if \<not> is_i64 v then Inl ErrOverflow else Inr v)"

definition wordAddress :: "bytes \<Rightarrow> i64 \<Rightarrow> string result" where
  "wordAddress data i =
     bind_err (word data i) (\<lambda>w. Inr (''0x'' @ EncodeToString (drop 12 w)))"

section \<open>Dynamic values\<close>

text \<open>\<open>int(v)\<close> of a \<open>uint64\<close> is \<open>i64_of_u64 v\<close>; the sums of offsets and lengths are \<open>uint64\<close> and wrap.\<close>

definition dynamicBytes :: "bytes \<Rightarrow> bytes result" where
  "dynamicBytes data =
     bind_err (wordUint64 data 0) (\<lambda>offset.
       if offset mod 32 \<noteq> 0 \<or> word_of_nat (length data) < offset + 32 then Inl ErrShortData
       else bind_err (wordUint64 data (i64_of_u64 (offset div 32))) (\<lambda>len.
         let start = offset + 32 in
         if word_of_nat (length data) < start + len then Inl ErrShortData
         else slice data (uint start) (uint (start + len))))"

definition triple :: "bytes \<Rightarrow> i64 \<Rightarrow> (u64 \<times> u64 \<times> u64) result" where
  "triple data pos =
     bind_err (wordUint64 data pos) (\<lambda>a.
       bind_err (wordUint64 data (i64_wrap (pos + 1))) (\<lambda>b.
         bind_err (wordUint64 data (i64_wrap (pos + 2))) (\<lambda>c. Inr (a, b, c))))"

definition uint64Triples :: "bytes \<Rightarrow> (u64 \<times> u64 \<times> u64) list result" where
  "uint64Triples data =
     bind_err (wordUint64 data 0) (\<lambda>offset.
       if offset mod 32 \<noteq> 0 then Inl ErrShortData
       else let base = i64_of_u64 (offset div 32) in
         bind_err (wordUint64 data base) (\<lambda>len.
           if (word_of_nat (length data) :: u64) div 32 < len then Inl ErrShortData
           else each_err (\<lambda>n. triple data (i64_wrap (base + 1 + int n * 3))) [0..<nat (i64_of_u64 len)]))"

definition padWord :: "bytes \<Rightarrow> bytes" where
  "padWord b =
     (if 32 \<le> length b then drop (length b - 32) b else replicate (32 - length b) 0 @ b)"

definition encodeUint64 :: "u64 \<Rightarrow> bytes" where
  "encodeUint64 v = padWord (big_Bytes (uint v))"

section \<open>Selectors\<close>

text \<open>The Keccak hash is the parameter \<open>keccak\<close>.\<close>

definition ascii_bytes :: "string \<Rightarrow> bytes" where
  "ascii_bytes s = map (\<lambda>c. word_of_nat (of_char c)) s"

definition Selector :: "(bytes \<Rightarrow> bytes) \<Rightarrow> string \<Rightarrow> bytes" where
  "Selector keccak sig = take 4 (keccak (ascii_bytes sig))"

definition SelectorHex :: "(bytes \<Rightarrow> bytes) \<Rightarrow> string \<Rightarrow> string" where
  "SelectorHex keccak sig = ''0x'' @ EncodeToString (Selector keccak sig)"

definition EventTopic :: "(bytes \<Rightarrow> bytes) \<Rightarrow> string \<Rightarrow> string" where
  "EventTopic keccak sig = ''0x'' @ EncodeToString (keccak (ascii_bytes sig))"

section \<open>Return values of the precompiles\<close>

record nitro_constraint =
  ncTarget :: u64
  ncWindow :: u64
  ncBacklog :: u64

record Prices =
  PerL2Tx :: bigint
  PerL1CalldataByte :: bigint
  PerL2Storage :: bigint
  PerArbGasBase :: bigint
  PerArbGasCongestion :: bigint
  PerArbGasTotal :: bigint

definition DecodeConstraints :: "bytes \<Rightarrow> nitro_constraint list result" where
  "DecodeConstraints data =
     (if data = [] then Inr []
      else bind_err (uint64Triples data) (\<lambda>ts.
        Inr (map (\<lambda>(a, b, c). \<lparr>ncTarget = a, ncWindow = b, ncBacklog = c\<rparr>) ts)))"

definition DecodePrices :: "bytes \<Rightarrow> Prices result" where
  "DecodePrices data =
     bind_err (each_err (\<lambda>i. wordBig data (int i)) [0..<6]) (\<lambda>vals.
       Inr \<lparr>PerL2Tx = vals ! 0, PerL1CalldataByte = vals ! 1, PerL2Storage = vals ! 2,
            PerArbGasBase = vals ! 3, PerArbGasCongestion = vals ! 4, PerArbGasTotal = vals ! 5\<rparr>)"

definition DecodeUint256 :: "bytes \<Rightarrow> bigint result" where
  "DecodeUint256 data = wordBig data 0"

definition DecodeInt256 :: "bytes \<Rightarrow> bigint result" where
  "DecodeInt256 data = wordInt256 data 0"

definition DecodeUint64 :: "bytes \<Rightarrow> u64 result" where
  "DecodeUint64 data = wordUint64 data 0"

definition DecodeInt64 :: "bytes \<Rightarrow> i64 result" where
  "DecodeInt64 data = wordInt64 data 0"

definition DecodeAddress :: "bytes \<Rightarrow> string result" where
  "DecodeAddress data = wordAddress data 0"

definition DecodeGasAccountingParams :: "bytes \<Rightarrow> (u64 \<times> u64 \<times> u64) result" where
  "DecodeGasAccountingParams data =
     bind_err (wordUint64 data 0) (\<lambda>speedLimit.
       bind_err (wordUint64 data 1) (\<lambda>gasPoolMax.
         bind_err (wordUint64 data 2) (\<lambda>maxTxGasLimit. Inr (speedLimit, gasPoolMax, maxTxGasLimit))))"

section \<open>Codecs as an interface\<close>

text \<open>
  What the callers of an encoder and its decoder rely on: decoding what was encoded gives the value
  back, for the values the format can hold.
\<close>

locale codec =
  fixes enc :: "'a \<Rightarrow> 'b"
    and dec :: "'b \<Rightarrow> 'e + 'a"
    and ok :: "'a \<Rightarrow> bool"
  assumes roundtrip: "ok x \<Longrightarrow> dec (enc x) = Inr x"
begin

lemma enc_inj: "ok x \<Longrightarrow> ok y \<Longrightarrow> enc x = enc y \<Longrightarrow> x = y"
  by (metis roundtrip sum.inject(2))

lemma each_roundtrip: "list_all ok xs \<Longrightarrow> each_err dec (map enc xs) = Inr xs"
  by (induction xs) (simp_all add: roundtrip bind_err_def)

end

lemma bind_err_simps [simp]:
  "bind_err (Inl e) k = Inl e" "bind_err (Inr x) k = k x"
  by (simp_all add: bind_err_def)

lemma bind_err_eq_Inr: "bind_err r k = Inr y \<longleftrightarrow> (\<exists>x. r = Inr x \<and> k x = Inr y)"
  by (cases r) simp_all

lemma bind_err_cong: "r = r' \<Longrightarrow> (\<And>x. r' = Inr x \<Longrightarrow> k x = k' x) \<Longrightarrow> bind_err r k = bind_err r' k'"
  by (cases r') auto

lemma each_err_Inr:
  "each_err f xs = Inr ys \<longleftrightarrow> length ys = length xs \<and> (\<forall>i<length xs. f (xs ! i) = Inr (ys ! i))"
proof (induction xs arbitrary: ys)
  case (Cons x xs)
  show ?case
    by (cases ys) (auto simp: bind_err_eq_Inr Cons.IH less_Suc_eq_0_disj)
qed auto

lemma each_err_map: "(\<And>x. x \<in> set xs \<Longrightarrow> f x = Inr (g x)) \<Longrightarrow> each_err f xs = Inr (map g xs)"
  by (induction xs) simp_all

section \<open>Bytes and integers\<close>

lemma SetBytes_Nil [simp]: "SetBytes [] = 0"
  by (simp add: SetBytes_def)

lemma SetBytes_snoc [simp]: "SetBytes (bs @ [b]) = SetBytes bs * 256 + uint b"
  by (simp add: SetBytes_def)

lemma SetBytes_bounds: "0 \<le> SetBytes bs \<and> SetBytes bs < 256 ^ length bs"
proof (induction bs rule: rev_induct)
  case (snoc b bs)
  have b: "0 \<le> uint b" "uint b < 256"
    using uint_ge_0 [of b] uint_bounded [of b] by simp_all
  have "SetBytes bs * 256 + uint b < (SetBytes bs + 1) * 256" using b by (simp add: algebra_simps)
  also have "\<dots> \<le> 256 ^ length bs * 256" using snoc by (intro mult_right_mono) simp_all
  finally show ?case using snoc b by (simp add: mult.commute)
qed simp

lemma SetBytes_zeros [simp]: "SetBytes (replicate k 0 @ bs) = SetBytes bs"
proof (induction bs rule: rev_induct)
  case Nil
  show ?case by (induction k) (simp_all add: SetBytes_def)
next
  case (snoc b bs)
  have "SetBytes ((replicate k 0 @ bs) @ [b]) = SetBytes (bs @ [b])"
    unfolding SetBytes_snoc using snoc by simp
  then show ?case by simp
qed

lemma SetBytes_nat_Bytes [simp]: "SetBytes (nat_Bytes n) = int n"
proof (induction n rule: nat_Bytes.induct)
  case (1 n)
  show ?case
  proof (cases "n = 0")
    case False
    have "uint (word_of_nat n :: byte) = int (n mod 256)"
      by (simp add: uint_word_of_int unsigned_of_nat take_bit_eq_mod zmod_int)
    then show ?thesis using False 1 by (simp add: nat_Bytes.simps [of n] zdiv_int zmod_int)
  qed (simp add: nat_Bytes.simps)
qed

lemma SetBytes_big_Bytes: "0 \<le> v \<Longrightarrow> SetBytes (big_Bytes v) = v"
  by (simp add: big_Bytes_def)

lemma length_nat_Bytes: "n < 256 ^ k \<Longrightarrow> length (nat_Bytes n) \<le> k"
proof (induction n arbitrary: k rule: nat_Bytes.induct)
  case (1 n)
  show ?case
  proof (cases "n = 0")
    case False
    then obtain j where k: "k = Suc j" using "1.prems" by (cases k) auto
    then have "n div 256 < 256 ^ j"
      using "1.prems" less_mult_imp_div_less [of n "256 ^ j" 256] by (simp add: mult.commute)
    then show ?thesis using 1 False k by (simp add: nat_Bytes.simps [of n])
  qed (simp add: nat_Bytes.simps)
qed

lemma length_big_Bytes: "0 \<le> v \<Longrightarrow> v < 2 ^ 256 \<Longrightarrow> length (big_Bytes v) \<le> 32"
proof -
  assume "0 \<le> v" "v < 2 ^ 256"
  then have "nat v < nat (2 ^ 256)" by (simp only: nat_less_iff nat_mono_iff zless_nat_conj) simp
  then have "nat v < 256 ^ 32" by (simp add: nat_power_eq)
  then show ?thesis using \<open>0 \<le> v\<close> by (simp add: big_Bytes_def length_nat_Bytes)
qed

lemma length_padWord [simp]: "length (padWord b) = 32"
  by (simp add: padWord_def)

lemma SetBytes_padWord: "length b \<le> 32 \<Longrightarrow> SetBytes (padWord b) = SetBytes b"
  by (cases "length b = 32") (simp_all add: padWord_def)

lemma SetBytes_padWord_big: "0 \<le> v \<Longrightarrow> v < 2 ^ 256 \<Longrightarrow> SetBytes (padWord (big_Bytes v)) = v"
  by (simp add: SetBytes_padWord length_big_Bytes SetBytes_big_Bytes)

lemma length_encodeUint64 [simp]: "length (encodeUint64 v) = 32"
  by (simp add: encodeUint64_def)

lemma uint_u64_bound: "uint (v :: u64) < 18446744073709551616"
  using uint_bounded [of v] by simp

lemma SetBytes_encodeUint64 [simp]: "SetBytes (encodeUint64 v) = uint v"
  unfolding encodeUint64_def using uint_u64_bound [of v]
  by (intro SetBytes_padWord_big) simp_all

section \<open>Reading words\<close>

lemma concat_chunk:
  assumes "\<forall>w\<in>set ws. length w = n" and "i < length ws"
  shows "take n (drop (n * i) (concat ws @ rest)) = ws ! i"
  using assms
proof (induction ws arbitrary: i)
  case (Cons w ws)
  then show ?case by (cases i) simp_all
qed simp

lemma length_concat_chunks: "\<forall>w\<in>set ws. length w = n \<Longrightarrow> length (concat ws) = n * length ws"
  by (induction ws) simp_all

text \<open>A word inside the data is read as it stands, and one past its end is an error, not a panic.\<close>

lemma word_in_range:
  assumes "32 * (int i + 1) \<le> int (length data)" and "length data < 2 ^ 63"
  shows "word data (int i) = Inr (take 32 (drop (32 * i) data))"
proof -
  have "is_i64 (int i * 32)" "is_i64 (int i * 32 + 32)"
    using assms by (simp_all add: is_i64_def MinInt64_def MaxInt64_def)
  then show ?thesis using assms
    by (simp add: word_def wordSize_def i64_wrap_id slice_def nat_mult_distrib mult.commute)
qed

lemma word_out_of_range:
  assumes "int (length data) < 32 * (int i + 1)" and "i < 2 ^ 58 - 1"
  shows "word data (int i) = Inl ErrShortData"
proof -
  have "is_i64 (int i * 32)" "is_i64 (int i * 32 + 32)"
    using assms by (simp_all add: is_i64_def MinInt64_def MaxInt64_def)
  then show ?thesis using assms
    by (simp add: word_def wordSize_def i64_wrap_id mult.commute)
qed

lemma word_concat:
  assumes "\<forall>w\<in>set ws. length w = 32" and "i < length ws" and "length (concat ws @ rest) < 2 ^ 63"
  shows "word (concat ws @ rest) (int i) = Inr (ws ! i)"
proof -
  have "32 * (int i + 1) \<le> int (length (concat ws @ rest))"
    using assms(2) by (simp add: length_concat_chunks [OF assms(1)] del: length_concat)
  then show ?thesis
    using word_in_range [OF _ assms(3)] concat_chunk [OF assms(1,2)] by simp
qed

lemma wordUint64_chunk: "word data i = Inr (encodeUint64 v) \<Longrightarrow> wordUint64 data i = Inr v"
  using uint_u64_bound [of v] by (simp add: wordUint64_def wordBig_def IsUint64_def)

lemma wordBig_chunk:
  "word data i = Inr (padWord (big_Bytes v)) \<Longrightarrow> 0 \<le> v \<Longrightarrow> v < 2 ^ 256 \<Longrightarrow> wordBig data i = Inr v"
  by (simp add: wordBig_def SetBytes_padWord_big)

section \<open>Hex round trips\<close>

lemma unhex_hexdigit [simp]: "n < 16 \<Longrightarrow> unhex (hexdigit n) = Some n"
  by (simp add: unhex_def hexdigit_def Let_def)

lemma hexdigit_not_sign: "n < 16 \<Longrightarrow> hexdigit n \<noteq> CHR ''X'' \<and> hexdigit n \<noteq> CHR ''x'' \<and> hexdigit n \<noteq> CHR ''-'' \<and> hexdigit n \<noteq> CHR ''+''"
proof -
  assume n: "n < 16"
  have "unhex (hexdigit n) \<noteq> None" using n by simp
  moreover have "unhex (CHR ''X'') = None" "unhex (CHR ''x'') = None" "unhex (CHR ''-'') = None" "unhex (CHR ''+'') = None"
    by (simp_all add: unhex_def Let_def)
  ultimately show ?thesis by metis
qed

lemma DecodeString_EncodeToString [simp]: "DecodeString (EncodeToString bs) = Inr bs"
proof (induction bs)
  case (Cons b bs)
  have "unat b < 256" using unsigned_less [of b, where 'a = nat] by simp
  then have d: "unat b div 16 < 16" by simp
  have "unat b div 16 * 16 + unat b mod 16 = unat b" by simp
  then have "word_of_nat (unat b div 16 * 16 + unat b mod 16) = (word_of_nat (unat b) :: byte)"
    by (simp only:)
  also have "\<dots> = b" by simp
  finally have "word_of_nat (unat b div 16 * 16 + unat b mod 16) = b" .
  then show ?case using Cons d by simp
qed simp

lemma length_EncodeToString [simp]: "length (EncodeToString bs) = 2 * length bs"
  by (induction bs) simp_all

lemma TrimPrefix_EncodeToString: "TrimPrefix (EncodeToString bs) ''0X'' = EncodeToString bs"
proof (cases bs)
  case (Cons b r)
  have "hexdigit (unat b mod 16) \<noteq> CHR ''X''" using hexdigit_not_sign by simp
  then show ?thesis by (simp add: Cons TrimPrefix_def)
qed (simp add: TrimPrefix_def)

lemma DecodeHex_EncodeHex: "DecodeHex (EncodeHex bs) = Inr bs"
proof -
  have "TrimPrefix (EncodeHex bs) ''0x'' = EncodeToString bs" by (simp add: EncodeHex_def TrimPrefix_def)
  then show ?thesis by (simp add: DecodeHex_def TrimPrefix_EncodeToString Let_def)
qed

interpretation hex: codec EncodeHex DecodeHex "\<lambda>bs. True"
  by unfold_locales (rule DecodeHex_EncodeHex)

lemma hex_digits_snoc:
  "hex_digits acc (s @ [c]) = Option.bind (hex_digits acc s) (\<lambda>n. map_option (\<lambda>d. n * 16 + d) (unhex c))"
  by (induction acc s rule: hex_digits.induct) (auto split: option.splits)

lemma hex_digits_hex_of_nat: "hex_digits 0 (hex_of_nat n) = Some n"
proof (induction n rule: hex_of_nat.induct)
  case (1 n)
  show ?case
  proof (cases "n < 16")
    case True
    then show ?thesis by (subst hex_of_nat.simps) simp
  next
    case False
    then show ?thesis using 1 by (subst hex_of_nat.simps) (simp add: hex_digits_snoc)
  qed
qed

lemma hex_of_nat_chars: "c \<in> set (hex_of_nat n) \<Longrightarrow> \<exists>d<16. c = hexdigit d"
proof (induction n rule: hex_of_nat.induct)
  case (1 n)
  show ?case
  proof (cases "n < 16")
    case True
    then show ?thesis using "1.prems" by (simp add: hex_of_nat.simps [of n]) blast
  next
    case False
    then have "c \<in> set (hex_of_nat (n div 16)) \<or> c = hexdigit (n mod 16)"
      using "1.prems" by (auto simp add: hex_of_nat.simps [of n])
    moreover have "\<exists>d<16. hexdigit (n mod 16) = hexdigit d" by (rule exI [of _ "n mod 16"]) simp
    ultimately show ?thesis using 1(1) [OF False] by blast
  qed
qed

lemma hex_of_nat_ne [simp]: "hex_of_nat n \<noteq> []"
  by (subst hex_of_nat.simps) simp

lemma hex_of_nat_first: "hex_of_nat n = c # s \<Longrightarrow> c \<noteq> CHR ''-'' \<and> c \<noteq> CHR ''+''"
  using hex_of_nat_chars [of c n] hexdigit_not_sign by auto

lemma hex_of_nat_trim: "TrimPrefix (hex_of_nat n) ''0X'' = hex_of_nat n"
proof -
  have "CHR ''X'' \<notin> set (hex_of_nat n)" using hex_of_nat_chars hexdigit_not_sign by fastforce
  then have "take 2 (hex_of_nat n) \<noteq> ''0X''" by (metis in_set_takeD list.set_intros(1) list.set_intros(2))
  then show ?thesis by (simp add: TrimPrefix_def numeral_2_eq_2)
qed

lemma HexBig_blockTag: "HexBig (blockTag n) = Inr (uint n)"
proof -
  have t: "TrimPrefix (TrimPrefix (blockTag n) ''0x'') ''0X'' = hex_of_nat (unat n)"
    by (simp add: blockTag_def TrimPrefix_def [of _ "''0x''"] hex_of_nat_trim)
  obtain c s where cs: "hex_of_nat (unat n) = c # s" by (cases "hex_of_nat (unat n)") simp_all
  have "SetString16 (hex_of_nat (unat n)) = Some (int (unat n))"
    using hex_of_nat_first [OF cs] hex_digits_hex_of_nat [of "unat n"] by (simp add: SetString16_def cs Let_def)
  then show ?thesis by (simp add: HexBig_def t)
qed

lemma HexUint64_blockTag: "HexUint64 (blockTag n) = Inr n"
  using uint_u64_bound [of n] by (simp add: HexUint64_def HexBig_blockTag IsUint64_def)

interpretation tag: codec blockTag HexUint64 "\<lambda>n. True"
  by unfold_locales (rule HexUint64_blockTag)

interpretation word64: codec encodeUint64 DecodeUint64 "\<lambda>v. True"
proof
  fix v
  have "word (encodeUint64 v) 0 = Inr (encodeUint64 v)"
    using word_concat [of "[encodeUint64 v]" 0 "[]"] by simp
  then show "DecodeUint64 (encodeUint64 v) = Inr v"
    by (simp add: DecodeUint64_def wordUint64_chunk)
qed

text \<open>
  Decoding undoes encoding for hex strings, for block tags and for \<open>uint64\<close> words.
\<close>

theorem nitro_roundtrips:
  "DecodeHex (EncodeHex bs) = Inr bs \<and> HexUint64 (blockTag n) = Inr n \<and> DecodeUint64 (encodeUint64 v) = Inr v"
  using hex.roundtrip tag.roundtrip word64.roundtrip by blast

section \<open>Dynamic values\<close>

text \<open>A \<open>bytes\<close> value as Solidity encodes it: the offset of its tail, its length, its content and padding.\<close>

definition encodeBytes :: "bytes \<Rightarrow> bytes \<Rightarrow> bytes" where
  "encodeBytes payload pad = encodeUint64 32 @ encodeUint64 (word_of_nat (length payload)) @ payload @ pad"

lemma i64_of_u64_small: "uint v < 9223372036854775808 \<Longrightarrow> i64_of_u64 v = uint v"
proof -
  assume "uint v < 9223372036854775808"
  then have "is_i64 (uint v)" using uint_ge_0 [of v] unfolding is_i64_def MinInt64_def MaxInt64_def by linarith
  then show ?thesis by (simp add: i64_of_u64_def i64_wrap_id)
qed

lemma uint_word_of_nat: "n < 2 ^ 63 \<Longrightarrow> uint (word_of_nat n :: u64) = int n"
  by (simp add: unsigned_of_nat take_bit_nat_eq_self)

text \<open>
  \<open>dynamicBytes\<close> returns the content of a \<open>bytes\<close> value as Solidity encodes it, whatever
  padding follows it.
\<close>

theorem dynamicBytes_roundtrip:
  assumes "length (encodeBytes payload pad) < 2 ^ 63"
  shows "dynamicBytes (encodeBytes payload pad) = Inr payload"
proof -
  let ?d = "encodeBytes payload pad" and ?n = "word_of_nat (length payload) :: u64"
  have l: "length ?d = 64 + length payload + length pad" by (simp add: encodeBytes_def)
  have w: "\<forall>w\<in>set [encodeUint64 32, encodeUint64 ?n]. length w = 32" by simp
  have d: "?d = concat [encodeUint64 32, encodeUint64 ?n] @ (payload @ pad)" by (simp add: encodeBytes_def)
  have w0: "wordUint64 ?d 0 = Inr 32"
    using word_concat [OF w, of 0] assms by (intro wordUint64_chunk) (simp add: d del: concat.simps)
  have w1: "wordUint64 ?d 1 = Inr ?n"
    using word_concat [OF w, of 1] assms by (intro wordUint64_chunk) (simp add: d del: concat.simps)
  have n: "uint ?n = int (length payload)" using assms l by (intro uint_word_of_nat) simp
  have L: "uint (word_of_nat (length ?d) :: u64) = int (length ?d)" using assms by (rule uint_word_of_nat)
  have s: "uint (64 + ?n) = 64 + int (length payload)"
    using n assms l by (subst uint_plus_simple) (simp_all add: no_olen_add no_plus_overflow_uint_size word_size)
  have "\<not> (word_of_nat (length ?d) :: u64) < 64" "\<not> word_of_nat (length ?d) < 64 + ?n"
    using L s l by (simp_all add: word_less_def)
  moreover have "slice ?d 64 (64 + int (length payload)) = Inr payload"
    by (simp add: slice_def l) (simp add: encodeBytes_def)
  ultimately show ?thesis
    using w0 w1 s by (simp add: dynamicBytes_def i64_of_u64_small Let_def)
qed


lemma dynamicBytes_head:
  assumes "length (encodeUint64 32 @ encodeUint64 n @ rest) < 2 ^ 63"
  shows "wordUint64 (encodeUint64 32 @ encodeUint64 n @ rest) 0 = Inr 32"
    "wordUint64 (encodeUint64 32 @ encodeUint64 n @ rest) 1 = Inr n"
proof -
  have w: "\<forall>w\<in>set [encodeUint64 32, encodeUint64 n]. length w = 32" by simp
  show "wordUint64 (encodeUint64 32 @ encodeUint64 n @ rest) 0 = Inr 32"
    using word_concat [OF w, of 0 rest] assms by (intro wordUint64_chunk) simp
  show "wordUint64 (encodeUint64 32 @ encodeUint64 n @ rest) 1 = Inr n"
    using word_concat [OF w, of 1 rest] assms by (intro wordUint64_chunk) simp
qed

text \<open>
  C14. A length field near \<open>2 ^ 64\<close> wraps the bound that \<open>dynamicBytes\<close> checks, so the slice
  expression after the check is out of range and the function panics instead of returning
  \<open>errShortData\<close>.
\<close>

theorem dynamicBytes_panics:
  assumes "length rest < 2 ^ 62"
  shows "dynamicBytes (encodeUint64 32 @ encodeUint64 (- 64) @ rest) = Inl Panic"
proof -
  let ?d = "encodeUint64 32 @ encodeUint64 (- 64) @ rest"
  have l: "length ?d < 2 ^ 63" using assms by simp
  have "uint (word_of_nat (length ?d) :: u64) = int (length ?d)" using l by (rule uint_word_of_nat)
  then have "\<not> (word_of_nat (length ?d) :: u64) < 64" by (simp add: word_less_def)
  then show ?thesis using dynamicBytes_head [OF l]
    by (simp add: dynamicBytes_def i64_of_u64_small Let_def slice_def)
qed

theorem dynamicBytes_roundtrip_witness:
  "length (encodeBytes [1, 2, 3] (replicate 29 0)) < 2 ^ 63
   \<and> dynamicBytes (encodeBytes [1, 2, 3] (replicate 29 0)) = Inr [1, 2, 3]"
proof -
  have h: "length (encodeBytes [1, 2, 3] (replicate 29 0)) < 2 ^ 63" by (simp add: encodeBytes_def)
  then show ?thesis using dynamicBytes_roundtrip by blast
qed

theorem dynamicBytes_panics_witness:
  "length ([] :: bytes) < 2 ^ 62 \<and> dynamicBytes (encodeUint64 32 @ encodeUint64 (- 64) @ []) = Inl Panic"
  using dynamicBytes_panics [of "[]"] by simp

lemma nth_concat3:
  assumes "i < length ts"
  shows "concat (map (\<lambda>t. [f t, g t, h t]) ts) ! (3 * i) = f (ts ! i)"
    "concat (map (\<lambda>t. [f t, g t, h t]) ts) ! (3 * i + 1) = g (ts ! i)"
    "concat (map (\<lambda>t. [f t, g t, h t]) ts) ! (3 * i + 2) = h (ts ! i)"
  using assms
proof (induction ts arbitrary: i)
  case (Cons t ts)
  { case 1 with Cons show ?case by (cases i) simp_all
  next case 2 with Cons show ?case by (cases i) simp_all
  next case 3 with Cons show ?case by (cases i) simp_all }
qed simp_all

lemma length_concat3: "length (concat (map (\<lambda>t. [f t, g t, h t]) ts)) = 3 * length ts"
  by (induction ts) simp_all

definition triple_words :: "(u64 \<times> u64 \<times> u64) list \<Rightarrow> bytes list" where
  "triple_words ts = [encodeUint64 32, encodeUint64 (word_of_nat (length ts))]
     @ concat (map (\<lambda>t. [encodeUint64 (fst t), encodeUint64 (fst (snd t)), encodeUint64 (snd (snd t))]) ts)"

lemma triple_words_length: "length (triple_words ts) = 2 + 3 * length ts" "\<forall>w\<in>set (triple_words ts). length w = 32"
  by (auto simp: triple_words_def length_concat3 simp del: length_concat)

lemma triple_words_nth:
  assumes "i < length ts"
  shows "triple_words ts ! (2 + 3 * i) = encodeUint64 (fst (ts ! i))"
    "triple_words ts ! (2 + 3 * i + 1) = encodeUint64 (fst (snd (ts ! i)))"
    "triple_words ts ! (2 + 3 * i + 2) = encodeUint64 (snd (snd (ts ! i)))"
  using nth_concat3 [OF assms, of "\<lambda>t. encodeUint64 (fst t)" "\<lambda>t. encodeUint64 (fst (snd t))" "\<lambda>t. encodeUint64 (snd (snd t))"]
  by (simp_all add: triple_words_def)

lemma uint64Triples_words:
  assumes "length ts < 2 ^ 56"
  shows "uint64Triples (concat (triple_words ts)) = Inr ts"
proof -
  let ?d = "concat (triple_words ts)" and ?n = "word_of_nat (length ts) :: u64"
  have l: "length ?d = 32 * (2 + 3 * length ts)"
    using length_concat_chunks [OF triple_words_length(2)] triple_words_length(1) by metis
  have rd: "word ?d (int i) = Inr (triple_words ts ! i)" if "i < 2 + 3 * length ts" for i
    using word_concat [OF triple_words_length(2), of i ts "[]"] that assms l triple_words_length(1) [of ts] by simp
  have w0: "wordUint64 ?d 0 = Inr 32" using rd [of 0] by (intro wordUint64_chunk) (simp add: triple_words_def)
  have w1: "wordUint64 ?d 1 = Inr ?n" using rd [of 1] by (intro wordUint64_chunk) (simp add: triple_words_def)
  have n: "uint ?n = int (length ts)" using assms by (intro uint_word_of_nat) simp
  have L: "uint (word_of_nat (length ?d) :: u64) = int (length ?d)" using assms l by (intro uint_word_of_nat) simp
  have fits: "\<not> (word_of_nat (length ?d) :: u64) div 32 < ?n"
    using n L l by (simp add: word_less_def uint_div)
  have t: "triple ?d (i64_wrap (2 + int i * 3)) = Inr (ts ! i)" if i: "i < length ts" for i
  proof -
    have "is_i64 (2 + int i * 3)" "is_i64 (2 + int i * 3 + 1)" "is_i64 (2 + int i * 3 + 2)"
      using i assms by (simp_all add: is_i64_def MinInt64_def MaxInt64_def)
    then have w: "i64_wrap (2 + int i * 3) = int (2 + 3 * i)"
      "i64_wrap (int (2 + 3 * i) + 1) = int (2 + 3 * i + 1)" "i64_wrap (int (2 + 3 * i) + 2) = int (2 + 3 * i + 2)"
      by (simp_all add: i64_wrap_id algebra_simps)
    have "wordUint64 ?d (int (2 + 3 * i)) = Inr (fst (ts ! i))"
      "wordUint64 ?d (int (2 + 3 * i + 1)) = Inr (fst (snd (ts ! i)))"
      "wordUint64 ?d (int (2 + 3 * i + 2)) = Inr (snd (snd (ts ! i)))"
      using rd [of "2 + 3 * i"] rd [of "2 + 3 * i + 1"] rd [of "2 + 3 * i + 2"] i triple_words_nth [OF i]
      by (auto intro!: wordUint64_chunk simp del: of_nat_add of_nat_mult)
    then show ?thesis unfolding triple_def w by simp
  qed
  have "each_err (\<lambda>n. triple ?d (i64_wrap (1 + 1 + int n * 3))) [0..<length ts] = Inr ts"
    using t by (simp add: each_err_Inr)
  then show ?thesis using w0 w1 fits n assms
    by (simp add: uint64Triples_def i64_of_u64_small Let_def)
qed

end
