(* ===== verification/Internal_Tx.thy ===== *)
theory Internal_Tx
  imports Abi
begin

text \<open>
  The ArbOS internal transactions of \<open>internal/nitro/internaltx.go\<close>: the codecs of \<open>startBlock\<close>
  and \<open>batchPostingReport\<close> calldata and the parent-chain gas ArbOS attributes to a posted batch. A
  \<open>*big.Int\<close> field is an option. Panics of the encoders on a nil fee are values, like every error.
\<close>

section \<open>Data\<close>

definition ArbosAddress :: string where
  "ArbosAddress = ''0x00000000000000000000000000000000000a4b05''"

definition InternalTxType :: u64 where
  "InternalTxType = 0x6a"

definition SigStartBlock :: string where
  "SigStartBlock = ''startBlock(uint256,uint64,uint64,uint64)''"

definition SigBatchPostingReportV2 :: string where
  "SigBatchPostingReportV2 = ''batchPostingReportV2(uint256,address,uint64,uint64,uint64,uint64,uint256)''"

definition SigBatchPostingReportV1 :: string where
  "SigBatchPostingReportV1 = ''batchPostingReport(uint256,address,uint64,uint64,uint256)''"

record Tx =
  txHash :: string
  txType :: u64
  txFrom :: string
  txTo :: string
  txInput :: bytes

record StartBlock =
  sbL1BaseFee :: "bigint option"
  sbL1BlockNumber :: u64
  sbL2BlockNumber :: u64
  sbTimePassed :: u64

record BatchPostingReport =
  brVersion :: int
  brBatchTimestamp :: u64
  brPoster :: string
  brBatchNumber :: u64
  brCalldataLen :: u64
  brCalldataNonZeros :: u64
  brExtraGas :: u64
  brL1BaseFee :: "bigint option"

definition arbOSVersionParentGasFloor :: u64 where "arbOSVersionParentGasFloor = 50"
definition floorGasAdditionalTokens :: u64 where "floorGasAdditionalTokens = 172"
definition txGas :: u64 where "txGas = 21000"
definition txDataZeroGas :: u64 where "txDataZeroGas = 4"
definition txDataNonZeroGas :: u64 where "txDataNonZeroGas = 16"
definition keccak256Gas :: u64 where "keccak256Gas = 30"
definition keccak256WordGas :: u64 where "keccak256WordGas = 6"
definition sstoreSetGas :: u64 where "sstoreSetGas = 20000"
definition MaxAttributedGasSpent :: u64 where "MaxAttributedGasSpent = 9223372036854775807"

lemmas batch_gas_constants =
  arbOSVersionParentGasFloor_def floorGasAdditionalTokens_def txGas_def txDataZeroGas_def
  txDataNonZeroGas_def keccak256Gas_def keccak256WordGas_def sstoreSetGas_def MaxAttributedGasSpent_def

record BatchPostingCostParams =
  pArbOSVersion :: u64
  pPerBatchGasCharge :: i64
  pParentGasFloorPerToken :: u64

record BatchPostingCost =
  GasSpent :: u64
  WeiSpent :: bigint

section \<open>Batch cost\<close>

definition saturatingAddUint64 :: "u64 \<Rightarrow> u64 \<Rightarrow> u64" where
  "saturatingAddUint64 a b = (if MaxUint64 - a < b then MaxUint64 else a + b)"

definition saturatingMulUint64 :: "u64 \<Rightarrow> u64 \<Rightarrow> u64" where
  "saturatingMulUint64 a b = (if a \<noteq> 0 \<and> MaxUint64 div a < b then MaxUint64 else a * b)"

definition saturatingAddInt64 :: "i64 \<Rightarrow> i64 \<Rightarrow> i64" where
  "saturatingAddInt64 a b =
     (if 0 < b \<and> i64_wrap (MaxInt64 - b) < a then MaxInt64
      else if b < 0 \<and> a < i64_wrap (MinInt64 - b) then MinInt64
      else i64_wrap (a + b))"

definition legacyCostForStats :: "u64 \<Rightarrow> u64 \<Rightarrow> u64" where
  "legacyCostForStats len nonZeros0 =
     (let nonZeros = min nonZeros0 len;
          zeros = len - nonZeros;
          gas0 = saturatingAddUint64 (saturatingMulUint64 zeros txDataZeroGas)
                   (saturatingMulUint64 nonZeros txDataNonZeroGas);
          words0 = len div 32;
          words = (if len mod 32 \<noteq> 0 then saturatingAddUint64 words0 1 else words0);
          gas1 = saturatingAddUint64 gas0 keccak256Gas;
          gas2 = saturatingAddUint64 gas1 (saturatingMulUint64 words keccak256WordGas)
      in saturatingAddUint64 gas2 (2 * sstoreSetGas))"

definition cost_v1 :: "BatchPostingReport \<Rightarrow> BatchPostingCostParams \<Rightarrow> u64" where
  "cost_v1 r p =
     (let dataGas = i64_of_u64 (min (brExtraGas r) (u64_of_i64 MaxInt64));
          signedGas = saturatingAddInt64 (pPerBatchGasCharge p) dataGas
      in if 0 < signedGas then u64_of_i64 signedGas else 0)"

definition cost_v2 :: "BatchPostingReport \<Rightarrow> BatchPostingCostParams \<Rightarrow> u64" where
  "cost_v2 r p =
     (let gas0 = legacyCostForStats (brCalldataLen r) (brCalldataNonZeros r);
          gas1 = saturatingAddUint64 gas0 (brExtraGas r);
          gas2 = (if 0 < pPerBatchGasCharge p
                  then saturatingAddUint64 gas1 (u64_of_i64 (pPerBatchGasCharge p)) else gas1)
      in if arbOSVersionParentGasFloor \<le> pArbOSVersion p then
           let nonZeros = min (brCalldataNonZeros r) (brCalldataLen r);
               tokens0 = saturatingAddUint64 (brCalldataLen r) (saturatingMulUint64 nonZeros 3);
               tokens = saturatingAddUint64 tokens0 floorGasAdditionalTokens;
               floor = saturatingAddUint64 (saturatingMulUint64 (pParentGasFloorPerToken p) tokens) txGas
           in max gas2 floor
         else gas2)"

definition Cost :: "BatchPostingReport \<Rightarrow> BatchPostingCostParams \<Rightarrow> BatchPostingCost result" where
  "Cost r p =
     (if brVersion r = 1 \<or> brVersion r = 2 then
        let gas = min (if brVersion r = 1 then cost_v1 r p else cost_v2 r p) MaxAttributedGasSpent;
            wei = (case brL1BaseFee r of None \<Rightarrow> 0 | Some fee \<Rightarrow> fee * uint gas)
        in Inr \<lparr>GasSpent = gas, WeiSpent = wei\<rparr>
      else Inl (Failed ''unsupported batch posting report version''))"

section \<open>Calldata\<close>

text \<open>\<open>strings.EqualFold\<close> on the ASCII strings the program compares with it.\<close>

definition lower_char :: "char \<Rightarrow> char" where
  "lower_char c = (let n = of_char c :: nat in if 65 \<le> n \<and> n \<le> 90 then char_of (n + 32) else c)"

definition EqualFold :: "string \<Rightarrow> string \<Rightarrow> bool" where
  "EqualFold s t \<longleftrightarrow> map lower_char s = map lower_char t"

definition IsInternalTx :: "Tx \<Rightarrow> bool" where
  "IsInternalTx tx \<longleftrightarrow> txType tx = InternalTxType \<and> EqualFold (txTo tx) ArbosAddress"

datatype internal_tx = Start StartBlock | Report BatchPostingReport

definition decodeStartBlock :: "bytes \<Rightarrow> StartBlock result" where
  "decodeStartBlock body =
     bind_err (wordBig body 0) (\<lambda>fee.
     bind_err (wordUint64 body 1) (\<lambda>l1.
     bind_err (wordUint64 body 2) (\<lambda>l2.
     bind_err (wordUint64 body 3) (\<lambda>t.
       Inr \<lparr>sbL1BaseFee = Some fee, sbL1BlockNumber = l1, sbL2BlockNumber = l2, sbTimePassed = t\<rparr>))))"

definition decodeBatchV2 :: "bytes \<Rightarrow> BatchPostingReport result" where
  "decodeBatchV2 body =
     bind_err (wordUint64 body 0) (\<lambda>ts.
     bind_err (wordAddress body 1) (\<lambda>poster.
     bind_err (wordUint64 body 2) (\<lambda>n.
     bind_err (wordUint64 body 3) (\<lambda>len.
     bind_err (wordUint64 body 4) (\<lambda>nz.
     bind_err (wordUint64 body 5) (\<lambda>extra.
     bind_err (wordBig body 6) (\<lambda>fee.
       Inr \<lparr>brVersion = 2, brBatchTimestamp = ts, brPoster = poster, brBatchNumber = n,
            brCalldataLen = len, brCalldataNonZeros = nz, brExtraGas = extra, brL1BaseFee = Some fee\<rparr>)))))))"

definition decodeBatchV1 :: "bytes \<Rightarrow> BatchPostingReport result" where
  "decodeBatchV1 body =
     bind_err (wordUint64 body 0) (\<lambda>ts.
     bind_err (wordAddress body 1) (\<lambda>poster.
     bind_err (wordUint64 body 2) (\<lambda>n.
     bind_err (wordUint64 body 3) (\<lambda>extra.
     bind_err (wordBig body 4) (\<lambda>fee.
       Inr \<lparr>brVersion = 1, brBatchTimestamp = ts, brPoster = poster, brBatchNumber = n,
            brCalldataLen = 0, brCalldataNonZeros = 0, brExtraGas = extra, brL1BaseFee = Some fee\<rparr>)))))"

definition DecodeInternalTx :: "(bytes \<Rightarrow> bytes) \<Rightarrow> bytes \<Rightarrow> internal_tx result" where
  "DecodeInternalTx keccak input =
     (if length input < 4 then Inl ErrNotInternal
      else let sel = take 4 input; body = drop 4 input in
        if sel = Selector keccak SigStartBlock then bind_err (decodeStartBlock body) (\<lambda>s. Inr (Start s))
        else if sel = Selector keccak SigBatchPostingReportV2
        then bind_err (decodeBatchV2 body) (\<lambda>r. Inr (Report r))
        else if sel = Selector keccak SigBatchPostingReportV1
        then bind_err (decodeBatchV1 body) (\<lambda>r. Inr (Report r))
        else Inl ErrNotInternal)"

text \<open>\<open>padWord(v.Bytes())\<close>, which panics on a nil \<open>v\<close>.\<close>

definition encode_fee :: "bigint option \<Rightarrow> bytes result" where
  "encode_fee fee = (case fee of None \<Rightarrow> Inl Panic | Some v \<Rightarrow> Inr (padWord (big_Bytes v)))"

definition EncodeStartBlock :: "(bytes \<Rightarrow> bytes) \<Rightarrow> StartBlock \<Rightarrow> bytes result" where
  "EncodeStartBlock keccak s =
     bind_err (encode_fee (sbL1BaseFee s)) (\<lambda>fee.
       Inr (Selector keccak SigStartBlock @ fee @ encodeUint64 (sbL1BlockNumber s)
            @ encodeUint64 (sbL2BlockNumber s) @ encodeUint64 (sbTimePassed s)))"

definition EncodeBatchPostingReport :: "(bytes \<Rightarrow> bytes) \<Rightarrow> BatchPostingReport \<Rightarrow> bytes result" where
  "EncodeBatchPostingReport keccak r =
     (let addr = (case DecodeHex (brPoster r) of Inl e \<Rightarrow> [] | Inr a \<Rightarrow> a) in
      bind_err (encode_fee (brL1BaseFee r)) (\<lambda>fee.
        if brVersion r = 1 then
          Inr (Selector keccak SigBatchPostingReportV1 @ encodeUint64 (brBatchTimestamp r) @ padWord addr
               @ encodeUint64 (brBatchNumber r) @ encodeUint64 (brExtraGas r) @ fee)
        else
          Inr (Selector keccak SigBatchPostingReportV2 @ encodeUint64 (brBatchTimestamp r) @ padWord addr
               @ encodeUint64 (brBatchNumber r) @ encodeUint64 (brCalldataLen r)
               @ encodeUint64 (brCalldataNonZeros r) @ encodeUint64 (brExtraGas r) @ fee)))"

section \<open>The cost is exact arithmetic, clamped once\<close>

lemma unat_saturatingAddUint64: "unat (saturatingAddUint64 a b) = sat64 (unat a + unat b)"
proof -
  have "unat (MaxUint64 - a) = 18446744073709551615 - unat a"
    using u64_le_MaxUint64 [of a] by (simp add: unat_sub)
  then show ?thesis using u64_bound [of a] u64_bound [of b]
    by (auto simp: saturatingAddUint64_def sat64_def word_less_nat_alt unat_word_ariths)
qed

lemma unat_saturatingMulUint64: "unat (saturatingMulUint64 a b) = sat64 (unat a * unat b)"
proof (cases "a = 0")
  case False
  then have a: "0 < unat a" by (simp add: unat_gt_0)
  have "unat (MaxUint64 div a) < unat b \<longleftrightarrow> 18446744073709551615 < unat a * unat b"
    using a by (simp add: unat_div div_less_iff_less_mult mult.commute)
  then show ?thesis using False
    by (auto simp: saturatingMulUint64_def sat64_def word_less_nat_alt unat_word_ariths)
qed (simp add: saturatingMulUint64_def sat64_def)

interpretation nsat: saturating_u64 saturatingAddUint64 saturatingMulUint64
  by unfold_locales (simp_all add: unat_saturatingAddUint64 unat_saturatingMulUint64)

lemma sat64_mult_right: "sat64 (p * sat64 t) = sat64 (p * t)"
proof (cases "p = 0 \<or> t \<le> 18446744073709551615")
  case False
  then have p: "1 \<le> p" and t: "18446744073709551615 < t" by auto
  have "18446744073709551615 \<le> p * 18446744073709551615" "18446744073709551615 \<le> p * t"
    using mult_le_mono [OF p le_refl [of 18446744073709551615]] mult_le_mono [OF p less_imp_le [OF t]] by simp_all
  then show ?thesis using t by (simp add: sat64_def)
qed (auto simp: sat64_def)

lemma sat64_mult_left: "sat64 (sat64 t * p) = sat64 (t * p)"
  using sat64_mult_right [of p t] by (simp add: mult.commute)

lemma min_sat64: "c \<le> 18446744073709551615 \<Longrightarrow> min (sat64 n) c = min n c"
  by (auto simp: sat64_def)

lemmas sat64_collapse = sat64_add_left sat64_add_right sat64_mult_left sat64_mult_right

text \<open>The batch gas on unbounded naturals.\<close>

definition spec_legacy :: "nat \<Rightarrow> nat \<Rightarrow> nat" where
  "spec_legacy len nz = 4 * (len - min nz len) + 16 * min nz len + 30 + 6 * ((len + 31) div 32) + 40000"

definition spec_v2 :: "BatchPostingReport \<Rightarrow> BatchPostingCostParams \<Rightarrow> nat" where
  "spec_v2 r p =
     (let len = unat (brCalldataLen r); nz = unat (brCalldataNonZeros r);
          gas = spec_legacy len nz + unat (brExtraGas r) + nat (pPerBatchGasCharge p);
          floor = unat (pParentGasFloorPerToken p) * (len + 3 * min nz len + 172) + 21000
      in if 50 \<le> unat (pArbOSVersion p) then max gas floor else gas)"

lemma unat_min: "unat (min a b) = min (unat a) (unat (b :: u64))"
  by (simp add: min_def word_le_nat_alt)

lemma unat_max: "unat (max a b) = max (unat a) (unat (b :: u64))"
  by (simp add: max_def word_le_nat_alt)

lemma ceil_32: "(n + 31) div 32 = (if n mod 32 = 0 then n div 32 else Suc (n div 32 :: nat))"
proof -
  have e: "(n + 31) div 32 = n div 32 + (n mod 32 + 31) div 32" using div_add1_eq [of n 31 32] by simp
  have "(m + 31) div 32 = 1" if "m \<noteq> 0" "m < 32" for m :: nat
    using that by (intro div_nat_eqI) simp_all
  then show ?thesis unfolding e by simp
qed

lemma words_ceil:
  "unat (if (len :: u64) mod 32 \<noteq> 0 then saturatingAddUint64 (len div 32) 1 else len div 32) = (unat len + 31) div 32"
proof -
  have "unat (len div 32) = unat len div 32" "unat (len mod 32) = unat len mod 32"
    by (simp_all add: unat_div unat_mod)
  moreover have "len mod 32 = 0 \<longleftrightarrow> unat len mod 32 = 0" using calculation(2) by (metis unat_0 unat_eq_zero)
  moreover have "unat len div 32 < 18446744073709551615" using u64_bound [of len] by simp
  ultimately show ?thesis unfolding ceil_32 by (auto simp: unat_saturatingAddUint64 sat64_def)
qed

lemma unat_legacyCostForStats: "unat (legacyCostForStats len nz) = sat64 (spec_legacy (unat len) (unat nz))"
proof -
  have z: "unat (len - min nz len) = unat len - min (unat nz) (unat len)"
    by (simp add: unat_sub unat_min)
  have s: "unat (2 * sstoreSetGas) = 40000" by (simp add: sstoreSetGas_def)
  have "unat (legacyCostForStats len nz) =
      sat64 (sat64 (sat64 (sat64 (sat64 ((unat len - min (unat nz) (unat len)) * 4)
        + sat64 (min (unat nz) (unat len) * 16)) + 30) + sat64 ((unat len + 31) div 32 * 6)) + 40000)"
    unfolding legacyCostForStats_def Let_def unat_saturatingAddUint64 unat_saturatingMulUint64 words_ceil z s unat_min
    by (simp add: txDataZeroGas_def txDataNonZeroGas_def keccak256Gas_def keccak256WordGas_def)
  also have "\<dots> = sat64 (spec_legacy (unat len) (unat nz))"
    by (simp only: sat64_collapse) (simp add: spec_legacy_def algebra_simps)
  finally show ?thesis .
qed

lemma sat64_max: "max (sat64 a) (sat64 b) = sat64 (max a b)"
  by (auto simp: sat64_def)

lemma unat_cost_v2:
  assumes "is_i64 (pPerBatchGasCharge p)"
  shows "unat (cost_v2 r p) = sat64 (spec_v2 r p)"
proof -
  let ?len = "unat (brCalldataLen r)" and ?nz = "min (unat (brCalldataNonZeros r)) (unat (brCalldataLen r))"
  have charge: "unat (u64_of_i64 (pPerBatchGasCharge p)) = nat (pPerBatchGasCharge p)" if "0 < pPerBatchGasCharge p"
    using that assms by (simp add: unat_u64_of_i64)
  have gas: "unat (let gas1 = saturatingAddUint64 (legacyCostForStats (brCalldataLen r) (brCalldataNonZeros r)) (brExtraGas r)
       in if 0 < pPerBatchGasCharge p then saturatingAddUint64 gas1 (u64_of_i64 (pPerBatchGasCharge p)) else gas1)
      = sat64 (spec_legacy ?len (unat (brCalldataNonZeros r)) + unat (brExtraGas r) + nat (pPerBatchGasCharge p))"
    by (auto simp: Let_def unat_saturatingAddUint64 unat_legacyCostForStats charge sat64_add_left)
  have fl: "unat (saturatingAddUint64 (saturatingMulUint64 (pParentGasFloorPerToken p)
        (saturatingAddUint64 (saturatingAddUint64 (brCalldataLen r)
          (saturatingMulUint64 (min (brCalldataNonZeros r) (brCalldataLen r)) 3)) floorGasAdditionalTokens)) txGas)
      = sat64 (unat (pParentGasFloorPerToken p) * (?len + 3 * ?nz + 172) + 21000)"
    unfolding unat_saturatingAddUint64 unat_saturatingMulUint64 unat_min sat64_collapse
    by (simp add: floorGasAdditionalTokens_def txGas_def mult.commute)
  have v: "arbOSVersionParentGasFloor \<le> pArbOSVersion p \<longleftrightarrow> 50 \<le> unat (pArbOSVersion p)"
    by (simp add: arbOSVersionParentGasFloor_def word_le_nat_alt)
  show ?thesis
    using gas fl unfolding cost_v2_def spec_v2_def Let_def v
    by (auto simp: unat_max sat64_max)
qed

lemma unat_cost_v1:
  assumes "is_i64 (pPerBatchGasCharge p)"
  shows "unat (cost_v1 r p) = nat (min (pPerBatchGasCharge p + min (uint (brExtraGas r)) MaxInt64) MaxInt64)"
proof -
  let ?e = "min (brExtraGas r) (u64_of_i64 MaxInt64)" and ?c = "pPerBatchGasCharge p"
  have m: "uint (u64_of_i64 MaxInt64) = MaxInt64" by (rule uint_u64_of_i64) (simp_all add: MaxInt64_def is_i64_def MinInt64_def)
  have u: "uint ?e = min (uint (brExtraGas r)) MaxInt64"
    using m by (simp add: min_def word_le_def)
  then have "uint ?e < 9223372036854775808" by (simp add: MaxInt64_def)
  then have d: "i64_of_u64 ?e = min (uint (brExtraGas r)) MaxInt64" using u by (simp add: i64_of_u64_small)
  let ?d = "min (uint (brExtraGas r)) MaxInt64"
  have dr: "0 \<le> ?d" "?d \<le> MaxInt64" by (simp_all add: MaxInt64_def)
  have w: "i64_wrap (MaxInt64 - ?d) = MaxInt64 - ?d" using dr by (intro i64_wrap_id) (simp add: is_i64_def MinInt64_def MaxInt64_def)
  have s: "saturatingAddInt64 ?c ?d = min (?c + ?d) MaxInt64"
  proof (cases "MaxInt64 - ?d < ?c")
    case True
    then show ?thesis using dr w assms by (auto simp: saturatingAddInt64_def is_i64_def)
  next
    case False
    then have "is_i64 (?c + ?d)" using assms dr unfolding is_i64_def by linarith
    moreover have "\<not> ?d < 0" "?c + ?d \<le> MaxInt64" using dr False by linarith+
    ultimately show ?thesis using False w by (simp only: saturatingAddInt64_def i64_wrap_id simp_thms if_False min_absorb1)
  qed
  then have "is_i64 (min (?c + ?d) MaxInt64)"
    using assms dr by (auto simp: is_i64_def MaxInt64_def MinInt64_def min_def)
  then show ?thesis unfolding cost_v1_def Let_def d s by (auto simp: unat_u64_of_i64)
qed

lemma clamp_int: "int (min (nat (min X MaxInt64)) 9223372036854775807) = max 0 (min MaxInt64 X)"
  by (cases "X \<le> 0"; cases "X \<le> MaxInt64") (simp_all add: MaxInt64_def)

lemma clamp_nat: "int (min n 9223372036854775807) = max 0 (min MaxInt64 (int n))"
  by (simp add: MaxInt64_def min_def)



section \<open>Calldata round trips\<close>

text \<open>
  What the decoder relies on of the hash: 32 bytes, and selectors that tell the three calls apart.
\<close>

definition selectors_ok :: "(bytes \<Rightarrow> bytes) \<Rightarrow> bool" where
  "selectors_ok keccak \<longleftrightarrow>
     list_all (\<lambda>sig. length (keccak (ascii_bytes sig)) = 32)
       [SigStartBlock, SigBatchPostingReportV2, SigBatchPostingReportV1]
     \<and> distinct (map (Selector keccak) [SigStartBlock, SigBatchPostingReportV2, SigBatchPostingReportV1])"

lemma selectors_length:
  "selectors_ok k \<Longrightarrow> length (Selector k SigStartBlock) = 4
     \<and> length (Selector k SigBatchPostingReportV2) = 4 \<and> length (Selector k SigBatchPostingReportV1) = 4"
  by (simp add: selectors_ok_def Selector_def)

definition fee_ok :: "bigint option \<Rightarrow> bool" where
  "fee_ok fee \<longleftrightarrow> (case fee of None \<Rightarrow> False | Some v \<Rightarrow> 0 \<le> v \<and> v < 2 ^ 256)"

text \<open>A report the calldata can hold: a known version, a canonical 20-byte address, a 256-bit fee.\<close>

definition report_ok :: "BatchPostingReport \<Rightarrow> bool" where
  "report_ok r \<longleftrightarrow>
     (brVersion r = 2 \<or> brVersion r = 1 \<and> brCalldataLen r = 0 \<and> brCalldataNonZeros r = 0)
     \<and> (case DecodeHex (brPoster r) of Inl e \<Rightarrow> False | Inr a \<Rightarrow> length a = 20 \<and> EncodeHex a = brPoster r)
     \<and> fee_ok (brL1BaseFee r)"

lemma word_chunks:
  assumes "\<forall>w\<in>set ws. length w = 32" and "length ws < 2 ^ 57" and "i < length ws"
  shows "word (concat ws) (int i) = Inr (ws ! i)"
proof -
  have "length (concat ws @ []) < 2 ^ 63"
    using length_concat_chunks [OF assms(1)] assms(2) by simp
  then show ?thesis using word_concat [OF assms(1,3), of "[]"] by simp
qed

lemma wordAddress_chunk:
  assumes "word data i = Inr (padWord a)" and "length a = 20"
  shows "wordAddress data i = Inr (EncodeHex a)"
  using assms by (simp add: wordAddress_def EncodeHex_def padWord_def)

lemma decodeStartBlock_words:
  assumes "0 \<le> v" "v < 2 ^ 256"
  shows "decodeStartBlock (padWord (big_Bytes v) @ encodeUint64 a @ encodeUint64 b @ encodeUint64 c)
    = Inr \<lparr>sbL1BaseFee = Some v, sbL1BlockNumber = a, sbL2BlockNumber = b, sbTimePassed = c\<rparr>"
proof -
  let ?ws = "[padWord (big_Bytes v), encodeUint64 a, encodeUint64 b, encodeUint64 c]"
  have rd: "word (concat ?ws) (int i) = Inr (?ws ! i)" if "i < 4" for i
    by (rule word_chunks) (use that in auto)
  have "wordBig (concat ?ws) 0 = Inr v" using rd [of 0] assms by (intro wordBig_chunk) simp_all
  moreover have "wordUint64 (concat ?ws) 1 = Inr a" using rd [of 1] by (intro wordUint64_chunk) simp
  moreover have "wordUint64 (concat ?ws) 2 = Inr b" using rd [of 2] by (intro wordUint64_chunk) simp
  moreover have "wordUint64 (concat ?ws) 3 = Inr c" using rd [of 3] by (intro wordUint64_chunk) simp
  ultimately show ?thesis by (simp add: decodeStartBlock_def)
qed

lemma decodeBatchV1_words:
  assumes "0 \<le> v" "v < 2 ^ 256" "length addr = 20"
  shows "decodeBatchV1 (encodeUint64 a @ padWord addr @ encodeUint64 b @ encodeUint64 c @ padWord (big_Bytes v))
    = Inr \<lparr>brVersion = 1, brBatchTimestamp = a, brPoster = EncodeHex addr, brBatchNumber = b,
            brCalldataLen = 0, brCalldataNonZeros = 0, brExtraGas = c, brL1BaseFee = Some v\<rparr>"
proof -
  let ?ws = "[encodeUint64 a, padWord addr, encodeUint64 b, encodeUint64 c, padWord (big_Bytes v)]"
  have rd: "word (concat ?ws) (int i) = Inr (?ws ! i)" if "i < 5" for i
    by (rule word_chunks) (use that in auto)
  have "wordUint64 (concat ?ws) 0 = Inr a" using rd [of 0] by (intro wordUint64_chunk) simp
  moreover have "wordAddress (concat ?ws) 1 = Inr (EncodeHex addr)"
    using rd [of 1] assms(3) by (intro wordAddress_chunk) simp_all
  moreover have "wordUint64 (concat ?ws) 2 = Inr b" using rd [of 2] by (intro wordUint64_chunk) simp
  moreover have "wordUint64 (concat ?ws) 3 = Inr c" using rd [of 3] by (intro wordUint64_chunk) simp
  moreover have "wordBig (concat ?ws) 4 = Inr v" using rd [of 4] assms by (intro wordBig_chunk) simp_all
  ultimately show ?thesis by (simp add: decodeBatchV1_def)
qed

lemma decodeBatchV2_words:
  assumes "0 \<le> v" "v < 2 ^ 256" "length addr = 20"
  shows "decodeBatchV2 (encodeUint64 a @ padWord addr @ encodeUint64 b @ encodeUint64 c @ encodeUint64 d
      @ encodeUint64 e @ padWord (big_Bytes v))
    = Inr \<lparr>brVersion = 2, brBatchTimestamp = a, brPoster = EncodeHex addr, brBatchNumber = b,
            brCalldataLen = c, brCalldataNonZeros = d, brExtraGas = e, brL1BaseFee = Some v\<rparr>"
proof -
  let ?ws = "[encodeUint64 a, padWord addr, encodeUint64 b, encodeUint64 c, encodeUint64 d, encodeUint64 e,
              padWord (big_Bytes v)]"
  have rd: "word (concat ?ws) (int i) = Inr (?ws ! i)" if "i < 7" for i
    by (rule word_chunks) (use that in auto)
  have "wordUint64 (concat ?ws) 0 = Inr a" using rd [of 0] by (intro wordUint64_chunk) simp
  moreover have "wordAddress (concat ?ws) 1 = Inr (EncodeHex addr)"
    using rd [of 1] assms(3) by (intro wordAddress_chunk) simp_all
  moreover have "wordUint64 (concat ?ws) 2 = Inr b" using rd [of 2] by (intro wordUint64_chunk) simp
  moreover have "wordUint64 (concat ?ws) 3 = Inr c" using rd [of 3] by (intro wordUint64_chunk) simp
  moreover have "wordUint64 (concat ?ws) 4 = Inr d" using rd [of 4] by (intro wordUint64_chunk) simp
  moreover have "wordUint64 (concat ?ws) 5 = Inr e" using rd [of 5] by (intro wordUint64_chunk) simp
  moreover have "wordBig (concat ?ws) 6 = Inr v" using rd [of 6] assms by (intro wordBig_chunk) simp_all
  ultimately show ?thesis by (simp add: decodeBatchV2_def)
qed

text \<open>
  Decoding the calldata of an encoded \<open>startBlock\<close> call gives the call back, for a hash whose
  selectors tell the internal calls apart and a fee of 256 bits.
\<close>

theorem StartBlock_roundtrip:
  assumes "selectors_ok keccak" and "fee_ok (sbL1BaseFee s)"
  shows "bind_err (EncodeStartBlock keccak s) (DecodeInternalTx keccak) = Inr (Start s)"
proof -
  obtain v where v: "sbL1BaseFee s = Some v" "0 \<le> v" "v < 2 ^ 256"
    using assms(2) by (auto simp: fee_ok_def split: option.splits)
  then show ?thesis
    using selectors_length [OF assms(1)] decodeStartBlock_words [OF v(2,3)]
    by (simp add: EncodeStartBlock_def encode_fee_def DecodeInternalTx_def Let_def)
qed

text \<open>
  Decoding the calldata of an encoded batch posting report gives the report back, for both
  versions.
\<close>

theorem BatchPostingReport_roundtrip:
  assumes "selectors_ok keccak" and "report_ok r"
  shows "bind_err (EncodeBatchPostingReport keccak r) (DecodeInternalTx keccak) = Inr (Report r)"
proof -
  obtain v where v: "brL1BaseFee r = Some v" "0 \<le> v" "v < 2 ^ 256"
    using assms(2) by (auto simp: report_ok_def fee_ok_def split: option.splits)
  obtain a where a: "DecodeHex (brPoster r) = Inr a" "length a = 20" "EncodeHex a = brPoster r"
    using assms(2) by (auto simp: report_ok_def split: sum.splits)
  have d: "distinct (map (Selector keccak) [SigStartBlock, SigBatchPostingReportV2, SigBatchPostingReportV1])"
    using assms(1) by (simp add: selectors_ok_def)
  consider (two) "brVersion r = 2" | (one) "brVersion r = 1" "brCalldataLen r = 0" "brCalldataNonZeros r = 0"
    using assms(2) by (auto simp: report_ok_def)
  then show ?thesis
  proof cases
    case two
    then show ?thesis
      using selectors_length [OF assms(1)] d decodeBatchV2_words [OF v(2,3) a(2)] v(1) a
      by (auto simp: EncodeBatchPostingReport_def encode_fee_def DecodeInternalTx_def Let_def)
  next
    case one
    then show ?thesis
      using selectors_length [OF assms(1)] d decodeBatchV1_words [OF v(2,3) a(2)] v(1) a
      by (auto simp: EncodeBatchPostingReport_def encode_fee_def DecodeInternalTx_def Let_def)
  qed
qed

text \<open>A stand-in hash that tells signatures apart by their length, for the witnesses.\<close>

definition length_hash :: "bytes \<Rightarrow> bytes" where
  "length_hash bs = word_of_nat (length bs) # replicate 31 0"

lemma length_hash_ok: "selectors_ok length_hash"
  by (simp add: selectors_ok_def Selector_def length_hash_def ascii_bytes_def SigStartBlock_def
      SigBatchPostingReportV2_def SigBatchPostingReportV1_def)

definition sample_report :: BatchPostingReport where
  "sample_report = \<lparr>brVersion = 2, brBatchTimestamp = 1700000000, brPoster = EncodeHex (replicate 20 7),
     brBatchNumber = 12, brCalldataLen = 100, brCalldataNonZeros = 60, brExtraGas = 5000, brL1BaseFee = Some 30\<rparr>"

definition sample_params :: BatchPostingCostParams where
  "sample_params = \<lparr>pArbOSVersion = 51, pPerBatchGasCharge = 210000, pParentGasFloorPerToken = 10\<rparr>"

theorem StartBlock_roundtrip_witness:
  "selectors_ok length_hash \<and> fee_ok (Some 99)
   \<and> bind_err (EncodeStartBlock length_hash \<lparr>sbL1BaseFee = Some 99, sbL1BlockNumber = 5, sbL2BlockNumber = 6, sbTimePassed = 1\<rparr>)
       (DecodeInternalTx length_hash)
     = Inr (Start \<lparr>sbL1BaseFee = Some 99, sbL1BlockNumber = 5, sbL2BlockNumber = 6, sbTimePassed = 1\<rparr>)"
  using length_hash_ok StartBlock_roundtrip [OF length_hash_ok,
      of "\<lparr>sbL1BaseFee = Some 99, sbL1BlockNumber = 5, sbL2BlockNumber = 6, sbTimePassed = 1\<rparr>"]
  by (simp add: fee_ok_def)

theorem BatchPostingReport_roundtrip_witness:
  "selectors_ok length_hash \<and> report_ok sample_report
   \<and> bind_err (EncodeBatchPostingReport length_hash sample_report) (DecodeInternalTx length_hash)
     = Inr (Report sample_report)"
proof -
  have "report_ok sample_report"
    using hex.roundtrip [of "replicate 20 7"] by (simp add: report_ok_def sample_report_def fee_ok_def)
  then show ?thesis using length_hash_ok BatchPostingReport_roundtrip by blast
qed


end
