(* ===== verification/Owner_Acts.thy ===== *)
theory Owner_Acts
  imports Internal_Tx
begin

text \<open>
  The \<open>OwnerActs\<close> events of the chain owner, \<open>internal/nitro/owneracts.go\<close>: the table of decoded
  ArbOwner methods, the decoder of their calldata and of the whole event. The decoded argument
  value, a Go \<open>any\<close>, is one of the forms the code stores; the argument map is a HOL map.
\<close>

section \<open>Data\<close>

definition OwnerActsTopic :: string where
  "OwnerActsTopic = ''0x3c9e6a772755407311e3b35b3ee56799df8f87395941b3a658eee9e08a67ebda''"

definition SigSetGasPricingConstraints :: string where
  "SigSetGasPricingConstraints = ''setGasPricingConstraints(uint64[3][])''"

definition SigSetParentGasFloorPerToken :: string where
  "SigSetParentGasFloorPerToken = ''setParentGasFloorPerToken(uint64)''"

record Log =
  lAddress :: string
  lTopics :: "string list"
  lData :: bytes
  lBlockNumber :: u64
  lBlockTimestamp :: u64
  lTxHash :: string
  lTxIndex :: u64
  lLogIndex :: u64

record ConstraintParam =
  GasTargetPerSecond :: u64
  AdjustmentWindowSeconds :: u64
  StartingBacklog :: u64

datatype arg_value = AUint u64 | AInt i64 | AString string | AConstraints "ConstraintParam list"

record OwnerAction =
  oaBlockNumber :: u64
  oaTimestamp :: u64
  oaTxHash :: string
  oaTxIndex :: u64
  oaLogIndex :: u64
  oaOwner :: string
  oaSelector :: string
  oaMethod :: string
  oaArgs :: "string \<Rightarrow> arg_value option"
  oaConstraints :: "ConstraintParam list"
  oaMinBaseFee :: "bigint option"

datatype argKind = kindUint64 | kindUint256 | kindAddress | kindInt64

record ownerMethod =
  omName :: string
  omParams :: "string list"
  omKinds :: "argKind list"

definition methodSetMinimumL2BaseFee :: string where
  "methodSetMinimumL2BaseFee = ''setMinimumL2BaseFee''"

definition owner_method :: "string \<Rightarrow> string list \<Rightarrow> argKind list \<Rightarrow> ownerMethod" where
  "owner_method n ps ks = \<lparr>omName = n, omParams = ps, omKinds = ks\<rparr>"

definition ownerMethods :: "(string \<times> ownerMethod) list" where
  "ownerMethods =
    [(''setMinimumL2BaseFee(uint256)'', owner_method methodSetMinimumL2BaseFee [''priceInWei''] [kindUint256]),
     (''setSpeedLimit(uint64)'', owner_method ''setSpeedLimit'' [''limit''] [kindUint64]),
     (''setL2GasPricingInertia(uint64)'', owner_method ''setL2GasPricingInertia'' [''sec''] [kindUint64]),
     (''setL2GasBacklogTolerance(uint64)'', owner_method ''setL2GasBacklogTolerance'' [''sec''] [kindUint64]),
     (''setL1PricePerUnit(uint256)'', owner_method ''setL1PricePerUnit'' [''pricePerUnit''] [kindUint256]),
     (''setL1PricingRewardRate(uint64)'', owner_method ''setL1PricingRewardRate'' [''weiPerUnit''] [kindUint64]),
     (''setL1PricingRewardRecipient(address)'',
        owner_method ''setL1PricingRewardRecipient'' [''recipient''] [kindAddress]),
     (''setNetworkFeeAccount(address)'', owner_method ''setNetworkFeeAccount'' [''newNetworkFeeAccount''] [kindAddress]),
     (''setInfraFeeAccount(address)'', owner_method ''setInfraFeeAccount'' [''newInfraFeeAccount''] [kindAddress]),
     (''addChainOwner(address)'', owner_method ''addChainOwner'' [''newOwner''] [kindAddress]),
     (''removeChainOwner(address)'', owner_method ''removeChainOwner'' [''ownerToRemove''] [kindAddress]),
     (''scheduleArbOSUpgrade(uint64,uint64)'',
        owner_method ''scheduleArbOSUpgrade'' [''newVersion'', ''timestamp''] [kindUint64, kindUint64]),
     (''setMaxTxGasLimit(uint64)'', owner_method ''setMaxTxGasLimit'' [''limit''] [kindUint64]),
     (''setMaxBlockGasLimit(uint64)'', owner_method ''setMaxBlockGasLimit'' [''limit''] [kindUint64]),
     (''setL1PricingEquilibrationUnits(uint256)'',
        owner_method ''setL1PricingEquilibrationUnits'' [''equilibrationUnits''] [kindUint256]),
     (''setPerBatchGasCharge(int64)'', owner_method ''setPerBatchGasCharge'' [''cost''] [kindInt64]),
     (SigSetParentGasFloorPerToken, owner_method ''setParentGasFloorPerToken'' [''gasFloorPerToken''] [kindUint64]),
     (''setAmortizedCostCapBips(uint64)'', owner_method ''setAmortizedCostCapBips'' [''cap''] [kindUint64]),
     (''setTransactionFilteringFrom(uint64)'', owner_method ''setTransactionFilteringFrom'' [''timestamp''] [kindUint64]),
     (''addTransactionFilterer(address)'', owner_method ''addTransactionFilterer'' [''filterer''] [kindAddress])]"

text \<open>The table the package's \<open>init\<close> fills, keyed by selector.\<close>

definition ownerMethodsBySelector :: "(bytes \<Rightarrow> bytes) \<Rightarrow> bytes \<Rightarrow> ownerMethod option" where
  "ownerMethodsBySelector keccak sel = map_of (map (\<lambda>(sig, m). (Selector keccak sig, m)) ownerMethods) sel"

section \<open>Decoding\<close>

text \<open>\<open>big.Int.String\<close>.\<close>

function dec_of_nat :: "nat \<Rightarrow> string" where
  "dec_of_nat n = (if n < 10 then [char_of (48 + n)] else dec_of_nat (n div 10) @ [char_of (48 + n mod 10)])"
  by pat_completeness auto
termination by (relation "measure id") auto

declare dec_of_nat.simps [simp del]

definition big_String :: "bigint \<Rightarrow> string" where
  "big_String v = (if v < 0 then CHR ''-'' # dec_of_nat (nat (- v)) else dec_of_nat (nat v))"

type_synonym decoded = "string \<times> (string \<Rightarrow> arg_value option) \<times> ConstraintParam list \<times> bigint option"

definition decode_arg :: "bytes \<Rightarrow> i64 \<Rightarrow> argKind \<Rightarrow> arg_value result" where
  "decode_arg body i kind =
     (case kind of
        kindUint64 \<Rightarrow> bind_err (wordUint64 body i) (\<lambda>v. Inr (AUint v))
      | kindInt64 \<Rightarrow> bind_err (wordInt64 body i) (\<lambda>v. Inr (AInt v))
      | kindAddress \<Rightarrow> bind_err (wordAddress body i) (\<lambda>v. Inr (AString v))
      | kindUint256 \<Rightarrow> bind_err (wordBig body i) (\<lambda>b. Inr (AString (big_String b))))"

text \<open>The minimum base fee an argument sets: only the \<open>uint256\<close> of \<open>setMinimumL2BaseFee\<close> does.\<close>

definition decode_fee :: "string \<Rightarrow> bytes \<Rightarrow> i64 \<Rightarrow> argKind \<Rightarrow> bigint option \<Rightarrow> bigint option" where
  "decode_fee name body i kind fee =
     (if kind = kindUint256 \<and> name = methodSetMinimumL2BaseFee
      then (case wordBig body i of Inr b \<Rightarrow> Some b | Inl e \<Rightarrow> fee) else fee)"

fun decode_args ::
  "string \<Rightarrow> bytes \<Rightarrow> i64 \<Rightarrow> string list \<Rightarrow> argKind list \<Rightarrow> (string \<Rightarrow> arg_value option) \<Rightarrow> bigint option
     \<Rightarrow> ((string \<Rightarrow> arg_value option) \<times> bigint option) result" where
  "decode_args name body i params [] args fee = Inr (args, fee)"
| "decode_args name body i [] (k # ks) args fee = Inl Panic"
| "decode_args name body i (p # ps) (k # ks) args fee =
     bind_err (decode_arg body i k) (\<lambda>v.
       decode_args name body (i + 1) ps ks (args(p \<mapsto> v)) (decode_fee name body i k fee))"

definition raw_args :: "bytes \<Rightarrow> string \<Rightarrow> arg_value option" where
  "raw_args calldata = [''raw'' \<mapsto> AString (EncodeHex calldata)]"

definition constraint_of :: "u64 \<times> u64 \<times> u64 \<Rightarrow> ConstraintParam" where
  "constraint_of t = \<lparr>GasTargetPerSecond = fst t, AdjustmentWindowSeconds = fst (snd t), StartingBacklog = snd (snd t)\<rparr>"

definition DecodeOwnerCalldata :: "(bytes \<Rightarrow> bytes) \<Rightarrow> bytes \<Rightarrow> decoded result" where
  "DecodeOwnerCalldata keccak calldata =
     (if length calldata < 4 then Inr ('''', raw_args calldata, [], None)
      else let sel = take 4 calldata; body = drop 4 calldata in
        if sel = Selector keccak SigSetGasPricingConstraints then
          bind_err (uint64Triples body) (\<lambda>triples.
            let cs = map constraint_of triples in
            Inr (''setGasPricingConstraints'', [''constraints'' \<mapsto> AConstraints cs], cs, None))
        else case ownerMethodsBySelector keccak sel of
               None \<Rightarrow> Inr ('''', raw_args calldata, [], None)
             | Some m \<Rightarrow>
                 bind_err (decode_args (omName m) body 0 (omParams m) (omKinds m) Map.empty None) (\<lambda>(args, fee).
                   Inr (omName m, args, [], fee)))"

definition mustDecode :: "string \<Rightarrow> bytes" where
  "mustDecode s = (case DecodeHex s of Inl e \<Rightarrow> replicate 32 0 | Inr b \<Rightarrow> padWord b)"

definition DecodeOwnerActs :: "(bytes \<Rightarrow> bytes) \<Rightarrow> Log \<Rightarrow> OwnerAction result" where
  "DecodeOwnerActs keccak l =
     (if length (lTopics l) \<noteq> 3 \<or> lTopics l ! 0 \<noteq> OwnerActsTopic then Inl (Failed ''not an OwnerActs event'')
      else case DecodeHex (lTopics l ! 1) of
             Inl e \<Rightarrow> Inl (Failed ''bad method topic'')
           | Inr methodTopic \<Rightarrow>
               if length methodTopic \<noteq> 32 then Inl (Failed ''bad method topic'')
               else
                 bind_err (wordAddress (mustDecode (lTopics l ! 2)) 0) (\<lambda>owner.
                 bind_err (dynamicBytes (lData l)) (\<lambda>calldata.
                 bind_err (DecodeOwnerCalldata keccak calldata) (\<lambda>(method, args, cs, fee).
                   let selector = EncodeHex (take 4 methodTopic) in
                   Inr \<lparr>oaBlockNumber = lBlockNumber l, oaTimestamp = lBlockTimestamp l, oaTxHash = lTxHash l,
                        oaTxIndex = lTxIndex l, oaLogIndex = lLogIndex l, oaOwner = owner, oaSelector = selector,
                        oaMethod = (if method = '''' then selector else method), oaArgs = args,
                        oaConstraints = cs, oaMinBaseFee = fee\<rparr>))))"

definition EncodeSetGasPricingConstraints :: "(bytes \<Rightarrow> bytes) \<Rightarrow> ConstraintParam list \<Rightarrow> bytes" where
  "EncodeSetGasPricingConstraints keccak cs =
     Selector keccak SigSetGasPricingConstraints @ encodeUint64 32 @ encodeUint64 (word_of_nat (length cs))
     @ concat (map (\<lambda>c. encodeUint64 (GasTargetPerSecond c) @ encodeUint64 (AdjustmentWindowSeconds c)
                        @ encodeUint64 (StartingBacklog c)) cs)"

section \<open>Properties\<close>

definition triple_of :: "ConstraintParam \<Rightarrow> u64 \<times> u64 \<times> u64" where
  "triple_of c = (GasTargetPerSecond c, AdjustmentWindowSeconds c, StartingBacklog c)"

lemma constraint_of_triple_of [simp]: "constraint_of (triple_of c) = c"
  by (simp add: constraint_of_def triple_of_def)

lemma encode_constraints_words:
  "encodeUint64 32 @ encodeUint64 (word_of_nat (length cs))
     @ concat (map (\<lambda>c. encodeUint64 (GasTargetPerSecond c) @ encodeUint64 (AdjustmentWindowSeconds c)
                        @ encodeUint64 (StartingBacklog c)) cs)
   = concat (triple_words (map triple_of cs))"
proof -
  have "concat (map (\<lambda>c. encodeUint64 (GasTargetPerSecond c) @ encodeUint64 (AdjustmentWindowSeconds c)
      @ encodeUint64 (StartingBacklog c)) cs)
    = concat (concat (map (\<lambda>t. [encodeUint64 (fst t), encodeUint64 (fst (snd t)), encodeUint64 (snd (snd t))])
        (map triple_of cs)))"
    by (induction cs) (simp_all add: triple_of_def)
  then show ?thesis by (simp add: triple_words_def)
qed

text \<open>
  C16. Decoding the calldata of an encoded \<open>setGasPricingConstraints\<close> call gives the constraints
  back, in order.
\<close>

theorem constraints_roundtrip:
  assumes "length (keccak (ascii_bytes SigSetGasPricingConstraints)) = 32" and "length cs < 2 ^ 56"
  shows "DecodeOwnerCalldata keccak (EncodeSetGasPricingConstraints keccak cs)
    = Inr (''setGasPricingConstraints'', [''constraints'' \<mapsto> AConstraints cs], cs, None)"
proof -
  have "length (Selector keccak SigSetGasPricingConstraints) = 4" using assms(1) by (simp add: Selector_def)
  moreover have "uint64Triples (concat (triple_words (map triple_of cs))) = Inr (map triple_of cs)"
    using assms(2) by (intro uint64Triples_words) simp
  ultimately show ?thesis
    by (simp add: DecodeOwnerCalldata_def EncodeSetGasPricingConstraints_def encode_constraints_words Let_def o_def)
qed

theorem constraints_roundtrip_witness:
  "length (length_hash (ascii_bytes SigSetGasPricingConstraints)) = 32
   \<and> length [\<lparr>GasTargetPerSecond = 7000000, AdjustmentWindowSeconds = 100, StartingBacklog = 0\<rparr>] < 2 ^ 56
   \<and> DecodeOwnerCalldata length_hash (EncodeSetGasPricingConstraints length_hash
        [\<lparr>GasTargetPerSecond = 7000000, AdjustmentWindowSeconds = 100, StartingBacklog = 0\<rparr>])
     = Inr (''setGasPricingConstraints'',
         [''constraints'' \<mapsto> AConstraints [\<lparr>GasTargetPerSecond = 7000000, AdjustmentWindowSeconds = 100, StartingBacklog = 0\<rparr>]],
         [\<lparr>GasTargetPerSecond = 7000000, AdjustmentWindowSeconds = 100, StartingBacklog = 0\<rparr>], None)"
  using constraints_roundtrip [of length_hash
      "[\<lparr>GasTargetPerSecond = 7000000, AdjustmentWindowSeconds = 100, StartingBacklog = 0\<rparr>]"]
  by (simp add: length_hash_def)

lemma ownerMethods_table:
  "list_all (\<lambda>(sig, m). omName m \<noteq> '''' \<and> length (omParams m) = length (omKinds m) \<and> ''raw'' \<notin> set (omParams m)
     \<and> (omName m = methodSetMinimumL2BaseFee \<longrightarrow> omParams m = [''priceInWei''] \<and> omKinds m = [kindUint256])) ownerMethods"
  by (simp add: ownerMethods_def owner_method_def methodSetMinimumL2BaseFee_def)

lemma ownerMethodsBySelector_entry:
  assumes "ownerMethodsBySelector keccak sel = Some m"
  shows "omName m \<noteq> ''''" "''raw'' \<notin> set (omParams m)"
    "omName m = methodSetMinimumL2BaseFee \<Longrightarrow> omParams m = [''priceInWei''] \<and> omKinds m = [kindUint256]"
proof -
  obtain sig where "(sig, m) \<in> set ownerMethods"
    using map_of_SomeD [OF assms [unfolded ownerMethodsBySelector_def]] by auto
  with ownerMethods_table show "omName m \<noteq> ''''" "''raw'' \<notin> set (omParams m)"
    "omName m = methodSetMinimumL2BaseFee \<Longrightarrow> omParams m = [''priceInWei''] \<and> omKinds m = [kindUint256]"
    unfolding list_all_iff by fastforce+
qed

lemma ownerMethodsBySelector_None:
  "ownerMethodsBySelector keccak sel = None \<longleftrightarrow> sel \<notin> Selector keccak ` fst ` set ownerMethods"
  by (force simp: ownerMethodsBySelector_def map_of_eq_None_iff image_image)

lemma decode_args_dom:
  "decode_args name body i ps ks args fee = Inr (args', fee') \<Longrightarrow> dom args' \<subseteq> dom args \<union> set ps"
proof (induction name body i ps ks args fee rule: decode_args.induct)
  case (3 name body i p ps k ks args fee)
  then obtain v where "decode_args name body (i + 1) ps ks (args(p \<mapsto> v)) (decode_fee name body i k fee) = Inr (args', fee')"
    "decode_arg body i k = Inr v"
    by (auto simp: bind_err_eq_Inr)
  then show ?case using 3 by fastforce
qed simp_all

lemma decode_args_fee:
  "decode_args name body i ps ks args fee = Inr (args', fee') \<Longrightarrow> name \<noteq> methodSetMinimumL2BaseFee \<Longrightarrow> fee' = fee"
proof (induction name body i ps ks args fee rule: decode_args.induct)
  case (3 name body i p ps k ks args fee)
  then obtain v where "decode_args name body (i + 1) ps ks (args(p \<mapsto> v)) (decode_fee name body i k fee) = Inr (args', fee')"
    "decode_arg body i k = Inr v"
    by (auto simp: bind_err_eq_Inr)
  then show ?case using 3 by (fastforce simp: decode_fee_def)
qed simp_all

text \<open>The selectors the decoder knows.\<close>

definition known_selectors :: "(bytes \<Rightarrow> bytes) \<Rightarrow> bytes list" where
  "known_selectors keccak = Selector keccak SigSetGasPricingConstraints # map (Selector keccak \<circ> fst) ownerMethods"

lemma wordBig_first:
  "wordBig data 0 = Inr b \<Longrightarrow> b = SetBytes (take 32 data)"
  by (auto simp: wordBig_def bind_err_eq_Inr word_def wordSize_def i64_wrap_id is_i64_def MinInt64_def MaxInt64_def
      slice_def Let_def split: if_splits)

text \<open>
  The decoder of owner calldata never hides a known call: the method name is empty, and the
  argument the raw calldata (from which the bytes can be recovered), exactly when the selector is
  missing or unknown; and the minimum base fee is set exactly by \<open>setMinimumL2BaseFee\<close>, to the
  first word of its arguments.
\<close>

theorem owner_calldata_typed:
  assumes "DecodeOwnerCalldata keccak cd = Inr (method, args, cs, fee)"
  shows "(method = '''' \<longleftrightarrow> length cd < 4 \<or> take 4 cd \<notin> set (known_selectors keccak))
    \<and> (if method = '''' then args = [''raw'' \<mapsto> AString (EncodeHex cd)] \<and> DecodeHex (EncodeHex cd) = Inr cd
       else args ''raw'' = None)
    \<and> fee = (if method = methodSetMinimumL2BaseFee then Some (SetBytes (take 32 (drop 4 cd))) else None)"
proof (cases "length cd < 4")
  case True
  then show ?thesis using assms
    by (auto simp: DecodeOwnerCalldata_def raw_args_def methodSetMinimumL2BaseFee_def hex.roundtrip)
next
  case long: False
  show ?thesis
  proof (cases "take 4 cd = Selector keccak SigSetGasPricingConstraints")
    case True
    then show ?thesis using assms long
      by (auto simp: DecodeOwnerCalldata_def bind_err_eq_Inr known_selectors_def methodSetMinimumL2BaseFee_def Let_def)
  next
    case other: False
    show ?thesis
    proof (cases "ownerMethodsBySelector keccak (take 4 cd)")
      case None
      then have "take 4 cd \<notin> set (known_selectors keccak)"
        using other by (auto simp: known_selectors_def ownerMethodsBySelector_None image_image)
      then show ?thesis using None assms long other
        by (auto simp: DecodeOwnerCalldata_def raw_args_def methodSetMinimumL2BaseFee_def hex.roundtrip)
    next
      case (Some m)
      note e = ownerMethodsBySelector_entry [OF Some]
      have k: "take 4 cd \<in> set (known_selectors keccak)"
        using Some ownerMethodsBySelector_None [of keccak "take 4 cd"] by (auto simp: known_selectors_def image_image)
      have d: "decode_args (omName m) (drop 4 cd) 0 (omParams m) (omKinds m) Map.empty None = Inr (args, fee)"
        and nm: "method = omName m"
        using assms long other Some by (auto simp: DecodeOwnerCalldata_def bind_err_eq_Inr)
      have "args ''raw'' = None" using decode_args_dom [OF d] e(2) by auto
      moreover have "fee = (if method = methodSetMinimumL2BaseFee then Some (SetBytes (take 32 (drop 4 cd))) else None)"
      proof (cases "method = methodSetMinimumL2BaseFee")
        case True
        then show ?thesis using d e(3) nm
          by (auto simp: bind_err_eq_Inr decode_arg_def decode_fee_def dest: wordBig_first)
      next
        case False
        then show ?thesis using decode_args_fee [OF d] nm by simp
      qed
      ultimately show ?thesis using e(1) nm k long by simp
    qed
  qed
qed

text \<open>An owner call the table does not hold, for the witness.\<close>

theorem owner_calldata_typed_witness:
  "\<exists>args cs fee. DecodeOwnerCalldata length_hash [9, 9] = Inr ('''', args, cs, fee)
     \<and> args = [''raw'' \<mapsto> AString (EncodeHex [9, 9])] \<and> fee = None"
proof -
  have h: "DecodeOwnerCalldata length_hash [9, 9] = Inr ('''', raw_args [9, 9], [], None)"
    by (simp add: DecodeOwnerCalldata_def)
  show ?thesis using h owner_calldata_typed [OF h] by (auto simp: methodSetMinimumL2BaseFee_def)
qed

text \<open>
  The offset \<open>2 ^ 63 - 32\<close> makes the end of the word it names wrap to a negative index, which passes
  the bound check of \<open>word\<close>.
\<close>

lemma uint64Triples_panics:
  assumes "length rest < 2 ^ 62"
  shows "uint64Triples (encodeUint64 0x7FFFFFFFFFFFFFE0 @ rest) = Inl Panic"
proof -
  let ?d = "encodeUint64 0x7FFFFFFFFFFFFFE0 @ rest"
  have "word ?d 0 = Inr (encodeUint64 0x7FFFFFFFFFFFFFE0)"
    using word_concat [of "[encodeUint64 0x7FFFFFFFFFFFFFE0]" 0 rest] assms by simp
  then have w: "wordUint64 ?d 0 = Inr 0x7FFFFFFFFFFFFFE0" by (rule wordUint64_chunk)
  have b: "i64_of_u64 (0x7FFFFFFFFFFFFFE0 div 32) = 288230376151711743"
    by (subst i64_of_u64_small) (simp_all add: uint_div)
  have "word ?d 288230376151711743 = Inl Panic"
    by (simp add: word_def wordSize_def i64_wrap_def slice_def Let_def)
  then have "wordUint64 ?d 288230376151711743 = Inl Panic" by (simp add: wordUint64_def wordBig_def)
  then show ?thesis using w b by (simp add: uint64Triples_def Let_def)
qed

end
