(* ===== verification/Rpc_Types.thy ===== *)
theory Rpc_Types
  imports Owner_Acts
begin

text \<open>
  The JSON-RPC answers of \<open>internal/nitro/types.go\<close>: headers, transactions, logs and receipts, and
  the validation that joins a header with the receipts of its block. \<open>encoding/json\<close> is modelled as far
  as the code uses it: a member of an object is matched to a field regardless of case, a later
  duplicate wins, \<open>null\<close> leaves a string field alone, and a value of another kind is an error. A
  \<open>json.RawMessage\<close> is empty, not JSON at all, or a JSON value.
\<close>

section \<open>Decoding JSON into fields\<close>

datatype raw_message = RawEmpty | RawMalformed | RawJSON json

definition decode_failed :: "'a result" where
  "decode_failed = Inl (Failed ''decode'')"

fun string_field :: "string \<Rightarrow> (string \<times> json) list \<Rightarrow> string \<Rightarrow> string result" where
  "string_field name [] cur = Inr cur"
| "string_field name ((k, v) # ms) cur =
     (if EqualFold k name
      then (case v of JString s \<Rightarrow> string_field name ms s | JNull \<Rightarrow> string_field name ms cur | _ \<Rightarrow> decode_failed)
      else string_field name ms cur)"

fun pointer_field :: "string \<Rightarrow> (string \<times> json) list \<Rightarrow> string option \<Rightarrow> string option result" where
  "pointer_field name [] cur = Inr cur"
| "pointer_field name ((k, v) # ms) cur =
     (if EqualFold k name
      then (case v of JString s \<Rightarrow> pointer_field name ms (Some s) | JNull \<Rightarrow> pointer_field name ms None
            | _ \<Rightarrow> decode_failed)
      else pointer_field name ms cur)"

fun array_field :: "string \<Rightarrow> (string \<times> json) list \<Rightarrow> json list \<Rightarrow> json list result" where
  "array_field name [] cur = Inr cur"
| "array_field name ((k, v) # ms) cur =
     (if EqualFold k name
      then (case v of JArray xs \<Rightarrow> array_field name ms xs | JNull \<Rightarrow> array_field name ms [] | _ \<Rightarrow> decode_failed)
      else array_field name ms cur)"

definition json_string :: "json \<Rightarrow> string result" where
  "json_string v = (case v of JString s \<Rightarrow> Inr s | JNull \<Rightarrow> Inr '''' | _ \<Rightarrow> decode_failed)"

text \<open>\<open>json.Unmarshal\<close> into a struct: an object, or \<open>null\<close>, which sets nothing.\<close>

definition json_members :: "json \<Rightarrow> (string \<times> json) list result" where
  "json_members v = (case v of JObject ms \<Rightarrow> Inr ms | JNull \<Rightarrow> Inr [] | _ \<Rightarrow> decode_failed)"

definition json_elements :: "json \<Rightarrow> json list result" where
  "json_elements v = (case v of JArray xs \<Rightarrow> Inr xs | JNull \<Rightarrow> Inr [] | _ \<Rightarrow> decode_failed)"

definition unmarshal :: "raw_message \<Rightarrow> json result" where
  "unmarshal raw = (case raw of RawJSON v \<Rightarrow> Inr v | _ \<Rightarrow> decode_failed)"

text \<open>The guard \<open>len(raw) == 0 || string(raw) == nullJSON\<close>.\<close>

definition raw_missing :: "raw_message \<Rightarrow> bool" where
  "raw_missing raw \<longleftrightarrow> raw = RawEmpty \<or> raw = RawJSON JNull"

section \<open>Data\<close>

record Header =
  hNumber :: u64
  hHash :: string
  hParentHash :: string
  hTimestamp :: u64
  hGasUsed :: u64
  hGasLimit :: u64
  hBaseFee :: bigint
  hL1BlockNumber :: u64
  hArbOSVersion :: u64
  hArbOSVersionKnown :: bool
  hTxCount :: int
  hTxHashes :: "string list"
  hPosterGas :: "u64 option"
  hComputeGasBefore :: "u64 list"

definition HasArbOSVersion :: "Header \<Rightarrow> bool" where
  "HasArbOSVersion h \<longleftrightarrow> hArbOSVersionKnown h \<or> hArbOSVersion h \<noteq> 0"

definition ComputeGas :: "Header \<Rightarrow> u64" where
  "ComputeGas h =
     (case hPosterGas h of
        None \<Rightarrow> hGasUsed h
      | Some p \<Rightarrow> if hGasUsed h < p then 0 else hGasUsed h - p)"

definition ComputeGasBeforeTx :: "Header \<Rightarrow> u64 \<Rightarrow> u64 option" where
  "ComputeGasBeforeTx h index =
     (if word_of_nat (length (hComputeGasBefore h)) \<le> index then None
      else Some (hComputeGasBefore h ! unat index))"

text \<open>A \<open>Block\<close> is a header with its transactions.\<close>

record nitro_block =
  nbHeader :: Header
  nbTxs :: "Tx list"

record Receipt =
  rcTxHash :: string
  rcBlockNumber :: u64
  rcTxIndex :: u64
  rcGasUsed :: u64
  rcCumulativeGasUsed :: u64

record rawBlock =
  rbNumber :: string
  rbHash :: string
  rbParentHash :: string
  rbTimestamp :: string
  rbGasUsed :: string
  rbGasLimit :: string
  rbBaseFee :: string
  rbL1BlockNumber :: string
  rbMixHash :: string
  rbTransactions :: "json list"

record rawReceipt =
  rrBlockHash :: string
  rrBlockNumber :: string
  rrTxHash :: string
  rrTxIndex :: string
  rrGasUsed :: "string option"
  rrCumulativeGasUsed :: "string option"
  rrGasUsedForL1 :: "string option"

definition decode_rawBlock :: "json \<Rightarrow> rawBlock result" where
  "decode_rawBlock v =
     bind_err (json_members v) (\<lambda>ms.
     bind_err (string_field ''number'' ms '''') (\<lambda>number.
     bind_err (string_field ''hash'' ms '''') (\<lambda>hash.
     bind_err (string_field ''parentHash'' ms '''') (\<lambda>parent.
     bind_err (string_field ''timestamp'' ms '''') (\<lambda>ts.
     bind_err (string_field ''gasUsed'' ms '''') (\<lambda>gasUsed.
     bind_err (string_field ''gasLimit'' ms '''') (\<lambda>gasLimit.
     bind_err (string_field ''baseFeePerGas'' ms '''') (\<lambda>fee.
     bind_err (string_field ''l1BlockNumber'' ms '''') (\<lambda>l1.
     bind_err (string_field ''mixHash'' ms '''') (\<lambda>mix.
     bind_err (array_field ''transactions'' ms []) (\<lambda>txs.
       Inr \<lparr>rbNumber = number, rbHash = hash, rbParentHash = parent, rbTimestamp = ts, rbGasUsed = gasUsed,
            rbGasLimit = gasLimit, rbBaseFee = fee, rbL1BlockNumber = l1, rbMixHash = mix,
            rbTransactions = txs\<rparr>)))))))))))"

definition decode_rawReceipt :: "json \<Rightarrow> rawReceipt result" where
  "decode_rawReceipt v =
     bind_err (json_members v) (\<lambda>ms.
     bind_err (string_field ''blockHash'' ms '''') (\<lambda>bh.
     bind_err (string_field ''blockNumber'' ms '''') (\<lambda>bn.
     bind_err (string_field ''transactionHash'' ms '''') (\<lambda>th.
     bind_err (string_field ''transactionIndex'' ms '''') (\<lambda>ti.
     bind_err (pointer_field ''gasUsed'' ms None) (\<lambda>gas.
     bind_err (pointer_field ''cumulativeGasUsed'' ms None) (\<lambda>cum.
     bind_err (pointer_field ''gasUsedForL1'' ms None) (\<lambda>l1.
       Inr \<lparr>rrBlockHash = bh, rrBlockNumber = bn, rrTxHash = th, rrTxIndex = ti, rrGasUsed = gas,
            rrCumulativeGasUsed = cum, rrGasUsedForL1 = l1\<rparr>))))))))"

section \<open>Headers\<close>

text \<open>An optional quantity: an empty string leaves the zero value.\<close>

definition optional_uint :: "string \<Rightarrow> u64 result" where
  "optional_uint s = (if s = '''' then Inr 0 else HexUint64 s)"

definition header_fee :: "string \<Rightarrow> bigint result" where
  "header_fee s = (if s = '''' then Inr 0 else HexBig s)"

text \<open>The ArbOS version is in bytes 16 to 23 of the mix digest; the second component says it was there.\<close>

definition header_version :: "string \<Rightarrow> (u64 \<times> bool) result" where
  "header_version s =
     (if s = '''' then Inr (0, False)
      else case DecodeHex s of
             Inl e \<Rightarrow> Inl (Failed ''mixHash'')
           | Inr mix \<Rightarrow>
               if length mix \<noteq> 32 then Inl (Failed ''mixHash'')
               else Inr (word_of_int (SetBytes (take 8 (drop 16 mix))), True))"

text \<open>One element of the transactions of a block: a hash, or an object with the whole transaction.\<close>

definition parse_tx :: "json \<Rightarrow> (string \<times> Tx option) result" where
  "parse_tx t =
     (case t of
        JString h \<Rightarrow> Inr (h, None)
      | _ \<Rightarrow>
          bind_err (json_members t) (\<lambda>ms.
          bind_err (string_field ''hash'' ms '''') (\<lambda>hash.
          bind_err (string_field ''type'' ms '''') (\<lambda>ty.
          bind_err (string_field ''from'' ms '''') (\<lambda>from.
          bind_err (string_field ''to'' ms '''') (\<lambda>to.
          bind_err (string_field ''input'' ms '''') (\<lambda>input.
          bind_err (optional_uint ty) (\<lambda>n.
          bind_err (if input = '''' then Inr [] else DecodeHex input) (\<lambda>inp.
            Inr (hash, Some \<lparr>txHash = hash, txType = n, txFrom = from, txTo = to, txInput = inp\<rparr>))))))))))"

definition parseHeader :: "raw_message \<Rightarrow> nitro_block result" where
  "parseHeader raw =
     (if raw_missing raw then Inl (Failed ''block not found'')
      else
        bind_err (unmarshal raw) (\<lambda>v.
        bind_err (decode_rawBlock v) (\<lambda>rb.
        bind_err (HexUint64 (rbNumber rb)) (\<lambda>number.
        bind_err (HexUint64 (rbTimestamp rb)) (\<lambda>ts.
        bind_err (HexUint64 (rbGasUsed rb)) (\<lambda>gasUsed.
        bind_err (optional_uint (rbGasLimit rb)) (\<lambda>gasLimit.
        bind_err (header_fee (rbBaseFee rb)) (\<lambda>fee.
        bind_err (optional_uint (rbL1BlockNumber rb)) (\<lambda>l1.
        bind_err (header_version (rbMixHash rb)) (\<lambda>(version, known).
        bind_err (each_err parse_tx (rbTransactions rb)) (\<lambda>txs.
          Inr \<lparr>nbHeader =
                 \<lparr>hNumber = number, hHash = rbHash rb, hParentHash = rbParentHash rb, hTimestamp = ts,
                  hGasUsed = gasUsed, hGasLimit = gasLimit, hBaseFee = fee, hL1BlockNumber = l1,
                  hArbOSVersion = version, hArbOSVersionKnown = known,
                  hTxCount = int (length (rbTransactions rb)), hTxHashes = map fst txs,
                  hPosterGas = None, hComputeGasBefore = []\<rparr>,
               nbTxs = List.map_filter snd txs\<rparr>)))))))))))"

section \<open>Logs and receipts\<close>

record rawLog =
  rlAddress :: string
  rlTopics :: "string list"
  rlData :: string
  rlBlockNumber :: string
  rlBlockTimestamp :: string
  rlTxHash :: string
  rlTxIndex :: string
  rlLogIndex :: string

definition decode_rawLog :: "json \<Rightarrow> rawLog result" where
  "decode_rawLog v =
     bind_err (json_members v) (\<lambda>ms.
     bind_err (string_field ''address'' ms '''') (\<lambda>address.
     bind_err (array_field ''topics'' ms []) (\<lambda>tops.
     bind_err (each_err json_string tops) (\<lambda>topics.
     bind_err (string_field ''data'' ms '''') (\<lambda>data.
     bind_err (string_field ''blockNumber'' ms '''') (\<lambda>bn.
     bind_err (string_field ''blockTimestamp'' ms '''') (\<lambda>bt.
     bind_err (string_field ''transactionHash'' ms '''') (\<lambda>th.
     bind_err (string_field ''transactionIndex'' ms '''') (\<lambda>ti.
     bind_err (string_field ''logIndex'' ms '''') (\<lambda>li.
       Inr \<lparr>rlAddress = address, rlTopics = topics, rlData = data, rlBlockNumber = bn, rlBlockTimestamp = bt,
            rlTxHash = th, rlTxIndex = ti, rlLogIndex = li\<rparr>))))))))))"

definition parse_log :: "rawLog \<Rightarrow> Log result" where
  "parse_log rl =
     bind_err (DecodeHex (rlData rl)) (\<lambda>d.
     bind_err (HexUint64 (rlBlockNumber rl)) (\<lambda>number.
     bind_err (HexUint64 (rlLogIndex rl)) (\<lambda>logIndex.
     bind_err (HexUint64 (rlTxIndex rl)) (\<lambda>txIndex.
     bind_err (optional_uint (rlBlockTimestamp rl)) (\<lambda>timestamp.
       Inr \<lparr>lAddress = rlAddress rl, lTopics = rlTopics rl, lData = d, lBlockNumber = number,
            lBlockTimestamp = timestamp, lTxHash = rlTxHash rl, lTxIndex = txIndex, lLogIndex = logIndex\<rparr>)))))"

definition parseLogs :: "raw_message \<Rightarrow> Log list result" where
  "parseLogs raw =
     bind_err (unmarshal raw) (\<lambda>v.
     bind_err (json_elements v) (\<lambda>xs.
     bind_err (each_err decode_rawLog xs) (each_err parse_log)))"

text \<open>A quantity that has to be there: a missing or empty one is an error.\<close>

definition required_uint :: "string option \<Rightarrow> u64 result" where
  "required_uint s = (case s of None \<Rightarrow> Inl (Failed ''missing quantity'')
     | Some t \<Rightarrow> if t = '''' then Inl (Failed ''missing quantity'') else HexUint64 t)"

definition parseReceipt :: "raw_message \<Rightarrow> Receipt result" where
  "parseReceipt raw =
     (if raw_missing raw then Inl (Failed ''receipt not found'')
      else
        bind_err (unmarshal raw) (\<lambda>v.
        bind_err (decode_rawReceipt v) (\<lambda>rr.
        bind_err (HexUint64 (rrBlockNumber rr)) (\<lambda>number.
        bind_err (HexUint64 (rrTxIndex rr)) (\<lambda>index.
        bind_err (required_uint (rrGasUsed rr)) (\<lambda>gas.
        bind_err (required_uint (rrCumulativeGasUsed rr)) (\<lambda>cum.
          Inr \<lparr>rcTxHash = rrTxHash rr, rcBlockNumber = number, rcTxIndex = index, rcGasUsed = gas,
               rcCumulativeGasUsed = cum\<rparr>)))))))"

record ReceiptTarget =
  tNumber :: u64
  tHash :: string
  tTxCount :: int
  tGasUsed :: u64
  tTxHashes :: "string list"
  tHashesKnown :: bool

definition receiptTarget :: "Header \<Rightarrow> ReceiptTarget" where
  "receiptTarget h =
     \<lparr>tNumber = hNumber h, tHash = hHash h, tTxCount = hTxCount h, tGasUsed = hGasUsed h,
      tTxHashes = hTxHashes h, tHashesKnown = True\<rparr>"

text \<open>The checks that receipt \<open>i\<close> belongs to the block.\<close>

definition receipt_identity :: "ReceiptTarget \<Rightarrow> nat \<Rightarrow> rawReceipt \<Rightarrow> unit result" where
  "receipt_identity t i r =
     (if rrBlockHash r = '''' \<or> \<not> EqualFold (rrBlockHash r) (tHash t) then Inl (Failed ''receipt hash'')
      else
        bind_err (HexUint64 (rrBlockNumber r)) (\<lambda>number.
        if number \<noteq> tNumber t then Inl (Failed ''receipt block'')
        else if tHashesKnown t \<and> length (tTxHashes t) \<le> i then Inl (Failed ''no transaction hash'')
        else if tHashesKnown t \<and> (rrTxHash r = '''' \<or> \<not> EqualFold (rrTxHash r) (tTxHashes t ! i))
        then Inl (Failed ''receipt transaction'')
        else bind_err (HexUint64 (rrTxIndex r)) (\<lambda>index.
          if index \<noteq> word_of_nat i then Inl (Failed ''receipt index'') else Inr ())))"

text \<open>The checks of its gas: the new total of the gas used and of the poster gas.\<close>

definition receipt_gas :: "rawReceipt \<Rightarrow> u64 \<Rightarrow> u64 \<Rightarrow> (u64 \<times> u64) result" where
  "receipt_gas r poster totalGas =
     bind_err (required_uint (rrGasUsed r)) (\<lambda>gasUsed.
     if MaxUint64 - totalGas < gasUsed then Inl (Failed ''receipt gas overflows'')
     else
       bind_err (required_uint (rrCumulativeGasUsed r)) (\<lambda>cumulative.
       if cumulative \<noteq> totalGas + gasUsed then Inl (Failed ''cumulative gas'')
       else
         bind_err (required_uint (rrGasUsedForL1 r)) (\<lambda>gas.
         if gasUsed < gas then Inl (Failed ''poster gas exceeds gas used'')
         else if MaxUint64 - poster < gas then Inl (Failed ''poster gas overflows'')
         else Inr (poster + gas, totalGas + gasUsed))))"

fun receipts_loop ::
  "ReceiptTarget \<Rightarrow> nat \<Rightarrow> u64 \<Rightarrow> u64 \<Rightarrow> rawReceipt list \<Rightarrow> (u64 \<times> u64 \<times> u64 list) result" where
  "receipts_loop t i poster totalGas [] = Inr (poster, totalGas, [])"
| "receipts_loop t i poster totalGas (r # rs) =
     bind_err (receipt_identity t i r) (\<lambda>_.
     bind_err (receipt_gas r poster totalGas) (\<lambda>(poster', totalGas').
     bind_err (receipts_loop t (Suc i) poster' totalGas' rs) (\<lambda>(final, finalGas, before).
       Inr (final, finalGas, (totalGas - poster) # before))))"

definition decode_receipts :: "raw_message \<Rightarrow> rawReceipt list result" where
  "decode_receipts raw =
     bind_err (unmarshal raw) (\<lambda>v. bind_err (json_elements v) (each_err decode_rawReceipt))"

definition parseReceipts :: "raw_message \<Rightarrow> ReceiptTarget \<Rightarrow> (u64 \<times> u64 list) result" where
  "parseReceipts raw t =
     (if raw_missing raw then Inl (Failed ''receipts not found'')
      else
        bind_err (decode_receipts raw) (\<lambda>receipts.
        if int (length receipts) \<noteq> tTxCount t then Inl (Failed ''receipt count'')
        else
          bind_err (receipts_loop t 0 0 0 receipts) (\<lambda>(poster, totalGas, before).
          if totalGas \<noteq> tGasUsed t then Inl (Failed ''receipt gas does not match header'')
          else if tGasUsed t < poster then Inl (Failed ''poster gas exceeds total gas'')
          else Inr (poster, before))))"

definition parseReceiptGas :: "raw_message \<Rightarrow> Header \<Rightarrow> (u64 \<times> u64 list) result" where
  "parseReceiptGas raw h = parseReceipts raw (receiptTarget h)"

definition parsePosterGas :: "raw_message \<Rightarrow> Header \<Rightarrow> u64 result" where
  "parsePosterGas raw h = bind_err (parseReceiptGas raw h) (\<lambda>(poster, before). Inr poster)"

section \<open>What a validated receipt set says\<close>

text \<open>The gas a receipt reports, and the part of it paid to the poster.\<close>

definition recUsed :: "rawReceipt \<Rightarrow> nat" where
  "recUsed r = (case required_uint (rrGasUsed r) of Inl e \<Rightarrow> 0 | Inr g \<Rightarrow> unat g)"

definition recPoster :: "rawReceipt \<Rightarrow> nat" where
  "recPoster r = (case required_uint (rrGasUsedForL1 r) of Inl e \<Rightarrow> 0 | Inr g \<Rightarrow> unat g)"

lemma unat_add_checked:
  assumes "\<not> MaxUint64 - a < (b :: u64)"
  shows "unat (a + b) = unat a + unat b"
proof -
  have "unat (MaxUint64 - a) = 18446744073709551615 - unat a"
    using u64_le_MaxUint64 [of a] by (simp add: unat_sub)
  then have "unat a + unat b \<le> 18446744073709551615"
    using assms u64_bound [of a] by (simp add: word_less_nat_alt)
  then show ?thesis by (simp add: unat_word_ariths)
qed

lemma receipt_gas_sound:
  assumes "receipt_gas r poster gas = Inr (poster', gas')"
  shows "unat poster' = unat poster + recPoster r \<and> unat gas' = unat gas + recUsed r \<and> recPoster r \<le> recUsed r"
  using assms
  by (auto simp: receipt_gas_def bind_err_eq_Inr recUsed_def recPoster_def unat_add_checked word_le_nat_alt
      linorder_not_less split: if_splits)

lemma receipts_loop_sound:
  assumes "receipts_loop t i poster gas rs = Inr (fp, fg, before)" and "unat poster \<le> unat gas"
  shows "unat fp = unat poster + (\<Sum>r\<leftarrow>rs. recPoster r) \<and> unat fg = unat gas + (\<Sum>r\<leftarrow>rs. recUsed r)
    \<and> list_all (\<lambda>r. recPoster r \<le> recUsed r) rs
    \<and> map unat before = map (\<lambda>k. unat gas - unat poster + (\<Sum>r\<leftarrow>take k rs. recUsed r - recPoster r)) [0..<length rs]"
  using assms
proof (induction rs arbitrary: i poster gas before)
  case (Cons r rs)
  obtain p' g' b' where step: "receipt_gas r poster gas = Inr (p', g')"
    and rest: "receipts_loop t (Suc i) p' g' rs = Inr (fp, fg, b')" and b: "before = (gas - poster) # b'"
    using Cons.prems(1) by (auto simp: bind_err_eq_Inr)
  note s = receipt_gas_sound [OF step]
  have le: "unat p' \<le> unat g'" using s Cons.prems(2) by linarith
  have d: "unat (gas - poster) = unat gas - unat poster"
    using Cons.prems(2) by (simp add: unat_sub word_le_nat_alt)
  have u: "[0..<length (r # rs)] = 0 # map Suc [0..<length rs]"
    by (simp only: list.size(4) upt_conv_Cons map_Suc_upt zero_less_Suc add_Suc_right add_0_right)
  note IH = Cons.IH [OF rest le]
  have "unat g' - unat p' = unat gas - unat poster + (recUsed r - recPoster r)"
    using s Cons.prems(2) by linarith
  then have "map unat before = map (\<lambda>k. unat gas - unat poster + (\<Sum>r\<leftarrow>take k (r # rs). recUsed r - recPoster r))
      [0..<length (r # rs)]"
    unfolding u b using IH d by (simp del: upt_Suc add: o_def add.assoc)
  then show ?case using IH s by (simp del: upt_Suc)
qed simp

lemma receipts_facts:
  assumes "parseReceipts raw t = Inr (poster, before)"
  obtains rs where "decode_receipts raw = Inr rs" "int (length rs) = tTxCount t"
    "(\<Sum>r\<leftarrow>rs. recUsed r) = unat (tGasUsed t)" "(\<Sum>r\<leftarrow>rs. recPoster r) = unat poster"
    "list_all (\<lambda>r. recPoster r \<le> recUsed r) rs"
    "map unat before = map (\<lambda>k. \<Sum>r\<leftarrow>take k rs. recUsed r - recPoster r) [0..<length rs]"
proof -
  obtain rs gas where d: "decode_receipts raw = Inr rs" "int (length rs) = tTxCount t"
    and l: "receipts_loop t 0 0 0 rs = Inr (poster, gas, before)" and g: "gas = tGasUsed t"
    using assms by (auto simp: parseReceipts_def bind_err_eq_Inr split: if_splits prod.splits)
  show thesis using receipts_loop_sound [OF l] d g by (intro that [of rs]) auto
qed

lemma sum_list_minus_le:
  "list_all (\<lambda>r. f r \<le> g r) rs \<Longrightarrow> (\<Sum>r\<leftarrow>rs. g r - f r :: nat) = (\<Sum>r\<leftarrow>rs. g r) - (\<Sum>r\<leftarrow>rs. f r)
     \<and> (\<Sum>r\<leftarrow>rs. f r) \<le> (\<Sum>r\<leftarrow>rs. g r)"
  by (induction rs) auto

text \<open>
  C9. A receipt set that passes validation accounts for the whole block: the receipts are as many as
  the transactions, their gas adds up to the gas of the header and their poster gas to the result
  without wrapping, no receipt pays the poster more than it used, and entry \<open>k\<close> of the second result is
  exactly the compute gas of the transactions before \<open>k\<close>.
\<close>

theorem parseReceipts_sound:
  assumes "parseReceipts raw t = Inr (poster, before)"
  shows "\<exists>rs. decode_receipts raw = Inr rs \<and> int (length rs) = tTxCount t
    \<and> (\<Sum>r\<leftarrow>rs. recUsed r) = unat (tGasUsed t) \<and> (\<Sum>r\<leftarrow>rs. recPoster r) = unat poster
    \<and> (\<Sum>r\<leftarrow>rs. recUsed r - recPoster r) = unat (tGasUsed t - poster) \<and> poster \<le> tGasUsed t
    \<and> list_all (\<lambda>r. recPoster r \<le> recUsed r) rs
    \<and> map unat before = map (\<lambda>k. \<Sum>r\<leftarrow>take k rs. recUsed r - recPoster r) [0..<length rs]"
proof -
  obtain rs where r: "decode_receipts raw = Inr rs" "int (length rs) = tTxCount t"
    "(\<Sum>r\<leftarrow>rs. recUsed r) = unat (tGasUsed t)" "(\<Sum>r\<leftarrow>rs. recPoster r) = unat poster"
    "list_all (\<lambda>r. recPoster r \<le> recUsed r) rs"
    "map unat before = map (\<lambda>k. \<Sum>r\<leftarrow>take k rs. recUsed r - recPoster r) [0..<length rs]"
    using assms by (rule receipts_facts)
  have p: "poster \<le> tGasUsed t" using sum_list_minus_le [OF r(5)] r by (simp add: word_le_nat_alt)
  then have "(\<Sum>r\<leftarrow>rs. recUsed r - recPoster r) = unat (tGasUsed t - poster)"
    using sum_list_minus_le [OF r(5)] r by (simp add: unat_sub)
  with r p show ?thesis by blast
qed

definition sample_receipt :: json where
  "sample_receipt = JObject
     [(''blockHash'', JString ''0xab''), (''blockNumber'', JString (blockTag 7)),
      (''transactionHash'', JString ''0xc1''), (''transactionIndex'', JString (blockTag 0)),
      (''gasUsed'', JString (blockTag 100)), (''cumulativeGasUsed'', JString (blockTag 100)),
      (''gasUsedForL1'', JString (blockTag 30))]"

definition sample_target :: ReceiptTarget where
  "sample_target = \<lparr>tNumber = 7, tHash = ''0xab'', tTxCount = 1, tGasUsed = 100, tTxHashes = [''0xc1''],
     tHashesKnown = True\<rparr>"

lemma sample_fields:
  "decode_rawReceipt sample_receipt = Inr \<lparr>rrBlockHash = ''0xab'', rrBlockNumber = blockTag 7, rrTxHash = ''0xc1'',
     rrTxIndex = blockTag 0, rrGasUsed = Some (blockTag 100), rrCumulativeGasUsed = Some (blockTag 100),
     rrGasUsedForL1 = Some (blockTag 30)\<rparr>"
  by (simp add: decode_rawReceipt_def sample_receipt_def json_members_def EqualFold_def lower_char_def)

lemma blockTag_ne [simp]: "blockTag n \<noteq> []"
  by (simp add: blockTag_def)

lemma sample_accepted: "parseReceipts (RawJSON (JArray [sample_receipt])) sample_target = Inr (30, [0])"
  by (simp add: parseReceipts_def raw_missing_def decode_receipts_def unmarshal_def json_elements_def sample_fields
      sample_target_def receipt_identity_def receipt_gas_def required_uint_def HexUint64_blockTag MaxUint64_def
      EqualFold_def lower_char_def)

theorem parseReceipts_sound_witness:
  "parseReceipts (RawJSON (JArray [sample_receipt])) sample_target = Inr (30, [0])
   \<and> (\<exists>rs. decode_receipts (RawJSON (JArray [sample_receipt])) = Inr rs \<and> (\<Sum>r\<leftarrow>rs. recPoster r) = 30)"
  using sample_accepted parseReceipts_sound [OF sample_accepted] by auto

text \<open>A header joined with the receipts of its block.\<close>

definition joined :: "Header \<Rightarrow> u64 \<Rightarrow> u64 list \<Rightarrow> Header" where
  "joined h poster before = h\<lparr>hPosterGas := Some poster, hComputeGasBefore := before\<rparr>"

lemma joined_compute_gas:
  assumes "parseReceiptGas raw h = Inr (poster, before)" and "length before < 2 ^ 63"
    and "ComputeGasBeforeTx (joined h poster before) i = Some g"
  shows "poster \<le> hGasUsed h \<and> g \<le> ComputeGas (joined h poster before)
    \<and> unat (ComputeGas (joined h poster before)) + unat poster = unat (hGasUsed h)"
proof -
  obtain rs where r: "(\<Sum>r\<leftarrow>rs. recUsed r) = unat (hGasUsed h)" "(\<Sum>r\<leftarrow>rs. recPoster r) = unat poster"
    "list_all (\<lambda>r. recPoster r \<le> recUsed r) rs"
    "map unat before = map (\<lambda>k. \<Sum>r\<leftarrow>take k rs. recUsed r - recPoster r) [0..<length rs]"
    using receipts_facts [OF assms(1) [unfolded parseReceiptGas_def]] by (auto simp: receiptTarget_def)
  note s = sum_list_minus_le [OF r(3)]
  have p: "poster \<le> hGasUsed h" using s r by (simp add: word_le_nat_alt)
  have c: "ComputeGas (joined h poster before) = hGasUsed h - poster"
    using p by (auto simp: ComputeGas_def joined_def)
  have cu: "unat (hGasUsed h - poster) = (\<Sum>r\<leftarrow>rs. recUsed r - recPoster r)"
    using s r p by (simp add: unat_sub)
  have len: "length before = length rs" using arg_cong [OF r(4), of length] by simp
  have i: "unat i < length before" and g: "g = before ! unat i"
    using assms(2,3) by (auto simp: ComputeGasBeforeTx_def joined_def word_le_nat_alt unat_of_nat
        take_bit_nat_eq_self unsigned_of_nat linorder_not_le split: if_splits)
  have "unat g = (\<Sum>r\<leftarrow>take (unat i) rs. recUsed r - recPoster r)"
    using arg_cong [OF r(4), of "\<lambda>xs. xs ! unat i"] i len g by simp
  also have "\<dots> \<le> (\<Sum>r\<leftarrow>take (unat i) rs @ drop (unat i) rs. recUsed r - recPoster r)"
    by (simp only: map_append sum_list_append le_add1)
  finally have "unat g \<le> unat (hGasUsed h - poster)" unfolding cu by simp
  then show ?thesis using p c by (simp add: word_le_nat_alt unat_sub)
qed

lemma receipt_join:
  assumes "parseReceiptGas raw h = Inr (poster, before)"
  shows "poster \<le> hGasUsed h \<and> int (length before) = hTxCount h"
proof -
  obtain rs where r: "int (length rs) = hTxCount h" "(\<Sum>r\<leftarrow>rs. recUsed r) = unat (hGasUsed h)"
    "(\<Sum>r\<leftarrow>rs. recPoster r) = unat poster" "list_all (\<lambda>r. recPoster r \<le> recUsed r) rs"
    "map unat before = map (\<lambda>k. \<Sum>r\<leftarrow>take k rs. recUsed r - recPoster r) [0..<length rs]"
    using receipts_facts [OF assms [unfolded parseReceiptGas_def]] by (auto simp: receiptTarget_def)
  have "length before = length rs" using arg_cong [OF r(5), of length] by simp
  then show ?thesis using sum_list_minus_le [OF r(4)] r by (simp add: word_le_nat_alt)
qed

end
