(* ===== verification/Rpc_Calls.thy ===== *)
theory Rpc_Calls
  imports Rpc_Types
begin

text \<open>
  The typed calls of \<open>internal/nitro/calls.go\<close> and the error classification of
  \<open>internal/nitro/client.go\<close>. The network is a parameter: the batcher \<open>send\<close> takes a list of
  requests and returns one result per request or an error, which is the contract the source states
  for the type \<open>batcher\<close> and the locale of the same name here; the split into capped batches and the
  matching of answers to request ids are shown to meet it.
\<close>

section \<open>Requests and results\<close>

datatype rpc_param =
    PString string
  | PBool bool
  | PCall string string
  | PFilter string string string "string list"

record Request =
  rqMethod :: string
  rqParams :: "rpc_param list"

record rpc_result =
  rsRaw :: raw_message
  rsErr :: "nitro_error option"

type_synonym batcher_fn = "Request list \<Rightarrow> rpc_result list result"

definition request :: "string \<Rightarrow> rpc_param list \<Rightarrow> Request" where
  "request meth ps = \<lparr>rqMethod = meth, rqParams = ps\<rparr>"

definition latestTag :: string where "latestTag = ''latest''"
definition methodGetBlockByNumber :: string where "methodGetBlockByNumber = ''eth_getBlockByNumber''"
definition methodGetBlockReceipts :: string where "methodGetBlockReceipts = ''eth_getBlockReceipts''"
definition ArbSysAddress :: string where "ArbSysAddress = ''0x0000000000000000000000000000000000000064''"
definition ArbOwnerPublicAddress :: string where
  "ArbOwnerPublicAddress = ''0x000000000000000000000000000000000000006b''"
definition ArbGasInfoAddress :: string where "ArbGasInfoAddress = ''0x000000000000000000000000000000000000006c''"
definition ArbOwnerAddress :: string where "ArbOwnerAddress = ''0x0000000000000000000000000000000000000070''"
definition ArbOSVersionOffset :: u64 where "ArbOSVersionOffset = 55"

definition CallRequestAt :: "string \<Rightarrow> bytes \<Rightarrow> string \<Rightarrow> Request" where
  "CallRequestAt to data tag = request ''eth_call'' [PCall to (EncodeHex data), PString tag]"

definition CallRequest :: "string \<Rightarrow> bytes \<Rightarrow> Request" where
  "CallRequest to data = CallRequestAt to data latestTag"

definition SelectorCallAt :: "(bytes \<Rightarrow> bytes) \<Rightarrow> string \<Rightarrow> string \<Rightarrow> string \<Rightarrow> Request" where
  "SelectorCallAt keccak to sig tag = CallRequestAt to (Selector keccak sig) tag"

definition SelectorCall :: "(bytes \<Rightarrow> bytes) \<Rightarrow> string \<Rightarrow> string \<Rightarrow> Request" where
  "SelectorCall keccak to sig = SelectorCallAt keccak to sig latestTag"

text \<open>The index expression \<open>results[i]\<close>.\<close>

definition result_at :: "'a list \<Rightarrow> nat \<Rightarrow> 'a result" where
  "result_at rs i = (if i < length rs then Inr (rs ! i) else Inl Panic)"

section \<open>Errors of the node\<close>

text \<open>\<open>errors.As(err, *RPCError)\<close>.\<close>

fun as_rpc :: "nitro_error \<Rightarrow> RPCError option" where
  "as_rpc (ErrRPC e) = Some e"
| "as_rpc (EndpointError e) = as_rpc e"
| "as_rpc e = None"

definition str_contains :: "string \<Rightarrow> string \<Rightarrow> bool" where
  "str_contains s sub = list_ex (\<lambda>i. take (length sub) (drop i s) = sub) [0..<Suc (length s)]"

definition containsFold :: "string \<Rightarrow> string \<Rightarrow> bool" where
  "containsFold s sub = str_contains (map lower_char s) (map lower_char sub)"

definition RateLimitCode :: int where "RateLimitCode = 429"
definition RateLimitCodeExceeded :: int where "RateLimitCodeExceeded = - 32005"
definition RateLimitCodeQuickNode :: int where "RateLimitCodeQuickNode = - 32007"
definition ResponseTooLargeCode :: int where "ResponseTooLargeCode = - 32003"

definition rateLimitMessage :: "string list" where
  "rateLimitMessage =
     [''rate limit'', ''request limit'', ''too many requests'', ''limit reached'', ''limit exceeded'']"

definition IsRateLimit :: "RPCError option \<Rightarrow> bool" where
  "IsRateLimit e0 \<longleftrightarrow> (case e0 of None \<Rightarrow> False
     | Some e \<Rightarrow> reCode e = RateLimitCode \<or> reCode e = RateLimitCodeExceeded \<or> reCode e = RateLimitCodeQuickNode
         \<or> list_ex (containsFold (reMessage e)) rateLimitMessage)"

definition IsResponseTooLarge :: "RPCError option \<Rightarrow> bool" where
  "IsResponseTooLarge e0 \<longleftrightarrow> (case e0 of None \<Rightarrow> False | Some e \<Rightarrow> reCode e = ResponseTooLargeCode)"

definition batchTooLarge :: "rpc_result list \<Rightarrow> bool" where
  "batchTooLarge rs = list_ex (\<lambda>r. case rsErr r of None \<Rightarrow> False | Some e \<Rightarrow> IsResponseTooLarge (as_rpc e)) rs"

fun IsEndpointError :: "nitro_error \<Rightarrow> bool" where
  "IsEndpointError (EndpointError e) = True"
| "IsEndpointError e = False"

definition isRevertData :: "(bytes \<Rightarrow> bytes) \<Rightarrow> json option \<Rightarrow> bool" where
  "isRevertData keccak data0 =
     (case data0 of
        None \<Rightarrow> False
      | Some data \<Rightarrow>
          let s = (case json_string data of
                     Inr s \<Rightarrow> Some s
                   | Inl e \<Rightarrow> (case bind_err (json_members data) (\<lambda>ms. string_field ''data'' ms '''') of
                                Inl e \<Rightarrow> None | Inr d \<Rightarrow> if d = '''' then None else Some d))
          in case s of
               None \<Rightarrow> False
             | Some t \<Rightarrow>
                 (case DecodeHex t of
                    Inl e \<Rightarrow> False
                  | Inr b \<Rightarrow> 4 \<le> length b \<and>
                      (take 4 b = Selector keccak ''Error(string)'' \<or> take 4 b = Selector keccak ''Panic(uint256)'')))"

definition IsRevert :: "(bytes \<Rightarrow> bytes) \<Rightarrow> nitro_error \<Rightarrow> bool" where
  "IsRevert keccak err =
     (case as_rpc err of
        None \<Rightarrow> False
      | Some e \<Rightarrow> reCode e = 3 \<or> containsFold (reMessage e) ''revert'' \<or> isRevertData keccak (reData e))"

section \<open>Batches\<close>

record rpcResponse =
  rpID :: u64
  rpResult :: raw_message
  rpError :: "RPCError option"

text \<open>Answers are matched to requests by id, whatever their order; the last answer with an id counts.\<close>

definition match_one :: "rpcResponse list \<Rightarrow> u64 \<Rightarrow> rpc_result" where
  "match_one responses id0 =
     (case map_of (map (\<lambda>r. (rpID r, r)) (rev responses)) id0 of
        None \<Rightarrow> \<lparr>rsRaw = RawEmpty, rsErr = Some (Failed ''missing response'')\<rparr>
      | Some r \<Rightarrow> (case rpError r of
                     Some e \<Rightarrow> \<lparr>rsRaw = RawEmpty, rsErr = Some (ErrRPC e)\<rparr>
                   | None \<Rightarrow> \<lparr>rsRaw = rpResult r, rsErr = None\<rparr>))"

definition matchResults :: "u64 list \<Rightarrow> rpcResponse list \<Rightarrow> rpc_result list" where
  "matchResults ids responses = map (match_one responses) ids"

definition chunkSize :: "nat \<Rightarrow> nat \<Rightarrow> nat" where
  "chunkSize capacity remaining = min (max capacity 1) remaining"

function batchCapped :: "nat \<Rightarrow> batcher_fn \<Rightarrow> batcher_fn" where
  "batchCapped cap batch reqs =
     (if reqs = [] then Inr []
      else let size = chunkSize cap (length reqs) in
        bind_err (batch (take size reqs)) (\<lambda>results.
        bind_err (batchCapped cap batch (drop size reqs)) (\<lambda>rest. Inr (results @ rest))))"
  by pat_completeness auto
termination
  by (relation "measure (\<lambda>(cap, batch, reqs). length reqs)") (auto simp: chunkSize_def)

declare batchCapped.simps [simp del]

section \<open>Calls by number\<close>

definition callBytes :: "rpc_result \<Rightarrow> bytes result" where
  "callBytes r =
     (case rsErr r of
        Some e \<Rightarrow> Inl e
      | None \<Rightarrow> bind_err (unmarshal (rsRaw r)) (\<lambda>v. bind_err (json_string v) DecodeHex))"

definition Call :: "batcher_fn \<Rightarrow> string \<Rightarrow> rpc_param list \<Rightarrow> raw_message result" where
  "Call send meth params =
     bind_err (send [request meth params]) (\<lambda>rs.
     bind_err (result_at rs 0) (\<lambda>r. case rsErr r of Some e \<Rightarrow> Inl e | None \<Rightarrow> Inr (rsRaw r)))"

definition quantity :: "batcher_fn \<Rightarrow> string \<Rightarrow> u64 result" where
  "quantity send meth =
     bind_err (Call send meth []) (\<lambda>raw.
     bind_err (unmarshal raw) (\<lambda>v. bind_err (json_string v) HexUint64))"

definition BlockNumber :: "batcher_fn \<Rightarrow> u64 result" where
  "BlockNumber send = quantity send ''eth_blockNumber''"

definition ChainID :: "batcher_fn \<Rightarrow> u64 result" where
  "ChainID send = quantity send ''eth_chainId''"

definition HeaderByNumber :: "batcher_fn \<Rightarrow> u64 \<Rightarrow> Header result" where
  "HeaderByNumber send number =
     bind_err (Call send methodGetBlockByNumber [PString (blockTag number), PBool False]) (\<lambda>raw.
     bind_err (parseHeader raw) (\<lambda>b. Inr (nbHeader b)))"

definition block_of_result :: "u64 \<Rightarrow> rpc_result \<Rightarrow> nitro_block result" where
  "block_of_result n r =
     (case rsErr r of
        Some e \<Rightarrow> Inl e
      | None \<Rightarrow>
          bind_err (parseHeader (rsRaw r)) (\<lambda>b.
          if hNumber (nbHeader b) \<noteq> n then Inl (Failed ''response is another block'') else Inr b))"

text \<open>The loop ranges over the results; it indexes \<open>numbers\<close> and panics when there are more results.\<close>

fun blocks_loop :: "u64 list \<Rightarrow> rpc_result list \<Rightarrow> nitro_block list result" where
  "blocks_loop numbers [] = Inr []"
| "blocks_loop [] (r # rs) = Inl Panic"
| "blocks_loop (n # ns) (r # rs) =
     bind_err (block_of_result n r) (\<lambda>b. bind_err (blocks_loop ns rs) (\<lambda>bs. Inr (b # bs)))"

definition blocksByNumbers :: "batcher_fn \<Rightarrow> u64 list \<Rightarrow> bool \<Rightarrow> nitro_block list result" where
  "blocksByNumbers send numbers full =
     bind_err (send (map (\<lambda>n. request methodGetBlockByNumber [PString (blockTag n), PBool full]) numbers))
       (blocks_loop numbers)"

definition transactionReceipts :: "batcher_fn \<Rightarrow> string list \<Rightarrow> Receipt list result" where
  "transactionReceipts send hashes =
     bind_err (send (map (\<lambda>h. request ''eth_getTransactionReceipt'' [PString h]) hashes)) (\<lambda>results.
     if length results \<noteq> length hashes then Inl (Failed ''receipts: result count'')
     else each_err (\<lambda>r. case rsErr r of Some e \<Rightarrow> Inl e | None \<Rightarrow> parseReceipt (rsRaw r)) results)"

text \<open>One header joined with the receipts of its block.\<close>

definition join_header :: "u64 \<Rightarrow> rpc_result \<Rightarrow> rpc_result \<Rightarrow> Header result" where
  "join_header n br rr =
     bind_err (block_of_result n br) (\<lambda>block.
     case rsErr rr of
       Some e \<Rightarrow> Inl e
     | None \<Rightarrow>
         bind_err (parseReceiptGas (rsRaw rr) (nbHeader block)) (\<lambda>(posterGas, before).
           Inr ((nbHeader block)\<lparr>hPosterGas := Some posterGas, hComputeGasBefore := before\<rparr>)))"

definition header_requests :: "u64 list \<Rightarrow> Request list" where
  "header_requests numbers =
     concat (map (\<lambda>n. [request methodGetBlockByNumber [PString (blockTag n), PBool False],
                       request methodGetBlockReceipts [PString (blockTag n)]]) numbers)"

definition headersByNumbers :: "batcher_fn \<Rightarrow> u64 list \<Rightarrow> Header list result" where
  "headersByNumbers send numbers =
     (let reqs = header_requests numbers in
      bind_err (send reqs) (\<lambda>results.
      if length results \<noteq> length reqs then Inl (Failed ''headers: result count'')
      else each_err (\<lambda>i. join_header (numbers ! i) (results ! (2 * i)) (results ! (2 * i + 1))) [0..<length numbers]))"

definition posterGasByNumbers :: "batcher_fn \<Rightarrow> ReceiptTarget list \<Rightarrow> (u64 \<Rightarrow> u64 option) result" where
  "posterGasByNumbers send targets =
     (if targets = [] then Inr Map.empty
      else
        bind_err (send (map (\<lambda>t. request methodGetBlockReceipts [PString (blockTag (tNumber t))]) targets)) (\<lambda>results.
        if length results \<noteq> length targets then Inl (Failed ''receipts: result count'')
        else
          bind_err (each_err (\<lambda>(t, r). case rsErr r of
                        Some e \<Rightarrow> Inl e
                      | None \<Rightarrow> bind_err (parseReceipts (rsRaw r) t) (\<lambda>(gas, before). Inr (tNumber t, gas)))
                     (zip targets results)) (\<lambda>pairs.
            Inr (map_of (rev pairs)))))"

definition Logs :: "batcher_fn \<Rightarrow> u64 \<Rightarrow> u64 \<Rightarrow> string \<Rightarrow> string list \<Rightarrow> Log list result" where
  "Logs send from to address topics =
     bind_err (Call send ''eth_getLogs'' [PFilter (blockTag from) (blockTag to) address topics]) parseLogs"

definition client_OwnerActsLogs :: "batcher_fn \<Rightarrow> u64 \<Rightarrow> u64 \<Rightarrow> Log list result" where
  "client_OwnerActsLogs send from to = Logs send from to ArbOwnerAddress [OwnerActsTopic]"

definition Balance :: "batcher_fn \<Rightarrow> string \<Rightarrow> bigint result" where
  "Balance send address =
     bind_err (Call send ''eth_getBalance'' [PString address, PString latestTag]) (\<lambda>raw.
     bind_err (unmarshal raw) (\<lambda>v. bind_err (json_string v) HexBig))"

definition CallContract :: "batcher_fn \<Rightarrow> string \<Rightarrow> bytes \<Rightarrow> bytes result" where
  "CallContract send to data =
     bind_err (send [CallRequest to data]) (\<lambda>rs. bind_err (result_at rs 0) callBytes)"

definition decodeArbOSVersion :: "bytes \<Rightarrow> u64 result" where
  "decodeArbOSVersion data =
     bind_err (DecodeUint64 data) (\<lambda>v.
     if v < ArbOSVersionOffset then Inl (Failed ''arbOSVersion below offset'') else Inr (v - ArbOSVersionOffset))"

definition ArbOSVersion :: "(bytes \<Rightarrow> bytes) \<Rightarrow> batcher_fn \<Rightarrow> u64 result" where
  "ArbOSVersion keccak send =
     bind_err (CallContract send ArbSysAddress (Selector keccak ''arbOSVersion()'')) decodeArbOSVersion"

section \<open>Samples of the pricer\<close>

record LegacyParams =
  lpSpeedLimit :: u64
  lpInertia :: u64
  lpTolerance :: u64
  lpBacklog :: u64

record L1Sample =
  l1BaseFeeEstimate :: bigint
  l1Surplus :: bigint
  l1FeesAvailable :: bigint
  l1UnitsSinceUpdate :: u64
  l1LastUpdateTime :: u64
  l1EquilibrationUnits :: u64
  l1PerBatchGasCharge :: i64
  l1RewardRate :: u64
  l1ArbOSVersion :: u64
  l1ParentGasFloorPerToken :: u64

record Account =
  acAddress :: string
  acBalance :: bigint

record FeeAccounts =
  faInfra :: Account
  faNetwork :: Account
  faL1Reward :: Account

record Sample =
  smSampledAt :: gotime
  smHeader :: Header
  smConstraints :: "nitro_constraint list"
  smPrices :: "Prices option"
  smMinBaseFee :: bigint
  smLegacy :: "LegacyParams option"

definition sample_IsLegacy :: "Sample \<Rightarrow> bool" where
  "sample_IsLegacy s \<longleftrightarrow> length (smConstraints s) = 0"

text \<open>The constraints of a sample: a revert means the chain has none, another error fails the sample.\<close>

definition sample_constraints :: "(bytes \<Rightarrow> bytes) \<Rightarrow> rpc_result \<Rightarrow> nitro_constraint list result" where
  "sample_constraints keccak r =
     (case rsErr r of
        None \<Rightarrow> bind_err (callBytes r) DecodeConstraints
      | Some e \<Rightarrow> if IsRevert keccak e then Inr [] else Inl e)"

definition legacyParamsAt :: "(bytes \<Rightarrow> bytes) \<Rightarrow> batcher_fn \<Rightarrow> string \<Rightarrow> LegacyParams result" where
  "legacyParamsAt keccak send tag =
     bind_err (send (map (\<lambda>sig. SelectorCallAt keccak ArbGasInfoAddress sig tag)
       [''getGasBacklog()'', ''getPricingInertia()'', ''getGasBacklogTolerance()'', ''getGasAccountingParams()''])) (\<lambda>results.
     bind_err (each_err callBytes results) (\<lambda>datas.
     bind_err (bind_err (result_at datas 0) DecodeUint64) (\<lambda>backlog.
     bind_err (bind_err (result_at datas 1) DecodeUint64) (\<lambda>inertia.
     bind_err (bind_err (result_at datas 2) DecodeUint64) (\<lambda>tolerance.
     bind_err (bind_err (result_at datas 3) DecodeGasAccountingParams) (\<lambda>(speedLimit, _, _).
       Inr \<lparr>lpSpeedLimit = speedLimit, lpInertia = inertia, lpTolerance = tolerance, lpBacklog = backlog\<rparr>))))))"

text \<open>The legacy parameters are read exactly when the sample has no constraints.\<close>

definition sample_legacy ::
  "(bytes \<Rightarrow> bytes) \<Rightarrow> batcher_fn \<Rightarrow> string \<Rightarrow> nitro_constraint list \<Rightarrow> LegacyParams option result" where
  "sample_legacy keccak send tag cs =
     (if length cs = 0 then bind_err (legacyParamsAt keccak send tag) (\<lambda>lp. Inr (Some lp)) else Inr None)"

definition PricingSampleAt :: "(bytes \<Rightarrow> bytes) \<Rightarrow> batcher_fn \<Rightarrow> gotime \<Rightarrow> u64 \<Rightarrow> Sample result" where
  "PricingSampleAt keccak send now number =
     (let tag = blockTag number in
      bind_err (send [request methodGetBlockByNumber [PString tag, PBool False],
                      SelectorCallAt keccak ArbGasInfoAddress ''getGasPricingConstraints()'' tag,
                      SelectorCallAt keccak ArbGasInfoAddress ''getMinimumGasPrice()'' tag]) (\<lambda>results.
      bind_err (bind_err (result_at results 0) (block_of_result number)) (\<lambda>b.
      bind_err (bind_err (result_at results 1) (sample_constraints keccak)) (\<lambda>cs.
      bind_err (bind_err (bind_err (result_at results 2) callBytes) DecodeUint256) (\<lambda>fee.
      bind_err (sample_legacy keccak send tag cs) (\<lambda>legacy.
        Inr \<lparr>smSampledAt = now, smHeader = nbHeader b, smConstraints = cs, smPrices = None,
             smMinBaseFee = fee, smLegacy = legacy\<rparr>))))))"

text \<open>The block of a sample: pinned to the number in the tag, unless the tag is \<open>latest\<close>.\<close>

definition sample_block_at :: "string \<Rightarrow> rpc_result \<Rightarrow> nitro_block result" where
  "sample_block_at tag r =
     (case rsErr r of
        Some e \<Rightarrow> Inl e
      | None \<Rightarrow>
          bind_err (parseHeader (rsRaw r)) (\<lambda>b.
          if tag = latestTag then Inr b
          else case HexUint64 tag of
                 Inl e \<Rightarrow> Inl (Failed ''response is another block'')
               | Inr want \<Rightarrow>
                   if hNumber (nbHeader b) \<noteq> want then Inl (Failed ''response is another block'') else Inr b))"

definition sampleAt :: "(bytes \<Rightarrow> bytes) \<Rightarrow> batcher_fn \<Rightarrow> gotime \<Rightarrow> string \<Rightarrow> Sample result" where
  "sampleAt keccak send now tag =
     bind_err (send [request methodGetBlockByNumber [PString tag, PBool False],
                     request methodGetBlockReceipts [PString tag],
                     SelectorCallAt keccak ArbGasInfoAddress ''getGasPricingConstraints()'' tag,
                     SelectorCallAt keccak ArbGasInfoAddress ''getPricesInWei()'' tag,
                     SelectorCallAt keccak ArbGasInfoAddress ''getMinimumGasPrice()'' tag]) (\<lambda>results.
     bind_err (bind_err (result_at results 0) (sample_block_at tag)) (\<lambda>b.
     bind_err (bind_err (result_at results 1)
                (\<lambda>r. case rsErr r of Some e \<Rightarrow> Inl e | None \<Rightarrow> parseReceiptGas (rsRaw r) (nbHeader b))) (\<lambda>(poster, before).
     bind_err (bind_err (result_at results 2) (sample_constraints keccak)) (\<lambda>cs.
     bind_err (bind_err (bind_err (result_at results 3) callBytes) DecodePrices) (\<lambda>prices.
     bind_err (bind_err (bind_err (result_at results 4) callBytes) DecodeUint256) (\<lambda>fee.
     bind_err (sample_legacy keccak send tag cs) (\<lambda>legacy.
       Inr \<lparr>smSampledAt = now,
            smHeader = (nbHeader b)\<lparr>hPosterGas := Some poster, hComputeGasBefore := before\<rparr>,
            smConstraints = cs, smPrices = Some prices, smMinBaseFee = fee, smLegacy = legacy\<rparr>)))))))"

definition FastSampleAt :: "(bytes \<Rightarrow> bytes) \<Rightarrow> batcher_fn \<Rightarrow> gotime \<Rightarrow> u64 \<Rightarrow> Sample result" where
  "FastSampleAt keccak send now number = sampleAt keccak send now (blockTag number)"

definition FastSample :: "(bytes \<Rightarrow> bytes) \<Rightarrow> batcher_fn \<Rightarrow> gotime \<Rightarrow> Sample result" where
  "FastSample keccak send now =
     bind_err (BlockNumber send) (\<lambda>head. sampleAt keccak send now (blockTag head))"

definition l1_calls :: "(string \<times> string) list" where
  "l1_calls =
     [(ArbGasInfoAddress, ''getL1BaseFeeEstimate()''), (ArbGasInfoAddress, ''getL1PricingSurplus()''),
      (ArbGasInfoAddress, ''getL1FeesAvailable()''), (ArbGasInfoAddress, ''getL1PricingUnitsSinceUpdate()''),
      (ArbGasInfoAddress, ''getLastL1PricingUpdateTime()''),
      (ArbGasInfoAddress, ''getL1PricingEquilibrationUnits()''),
      (ArbGasInfoAddress, ''getPerBatchGasCharge()''), (ArbGasInfoAddress, ''getL1RewardRate()''),
      (ArbSysAddress, ''arbOSVersion()''), (ArbOwnerPublicAddress, ''getParentGasFloorPerToken()'')]"

text \<open>The parent floor getter is read only from the ArbOS version that has it.\<close>

definition l1SampleAt :: "(bytes \<Rightarrow> bytes) \<Rightarrow> batcher_fn \<Rightarrow> string \<Rightarrow> L1Sample result" where
  "l1SampleAt keccak send tag =
     bind_err (send (map (\<lambda>(address, sig). SelectorCallAt keccak address sig tag) l1_calls)) (\<lambda>results.
     bind_err (each_err callBytes (butlast results)) (\<lambda>datas.
     bind_err (bind_err (result_at datas 0) DecodeUint256) (\<lambda>estimate.
     bind_err (bind_err (result_at datas 1) DecodeInt256) (\<lambda>surplus.
     bind_err (bind_err (result_at datas 2) DecodeUint256) (\<lambda>fees.
     bind_err (bind_err (result_at datas 3) DecodeUint64) (\<lambda>units.
     bind_err (bind_err (result_at datas 4) DecodeUint64) (\<lambda>updated.
     bind_err (bind_err (result_at datas 5) DecodeUint64) (\<lambda>equilibration.
     bind_err (bind_err (result_at datas 6) DecodeInt64) (\<lambda>charge.
     bind_err (bind_err (result_at datas 7) DecodeUint64) (\<lambda>reward.
     bind_err (bind_err (result_at datas 8) decodeArbOSVersion) (\<lambda>version.
     bind_err (if arbOSVersionParentGasFloor \<le> version
               then bind_err (bind_err (result_at results 9) callBytes) DecodeUint64 else Inr 0) (\<lambda>floor.
       Inr \<lparr>l1BaseFeeEstimate = estimate, l1Surplus = surplus, l1FeesAvailable = fees,
            l1UnitsSinceUpdate = units, l1LastUpdateTime = updated, l1EquilibrationUnits = equilibration,
            l1PerBatchGasCharge = charge, l1RewardRate = reward, l1ArbOSVersion = version,
            l1ParentGasFloorPerToken = floor\<rparr>))))))))))))"

definition fee_accounts :: "(bytes \<Rightarrow> bytes) \<Rightarrow> batcher_fn \<Rightarrow> FeeAccounts result" where
  "fee_accounts keccak send =
     bind_err (send [SelectorCall keccak ArbOwnerPublicAddress ''getInfraFeeAccount()'',
                     SelectorCall keccak ArbOwnerPublicAddress ''getNetworkFeeAccount()'',
                     SelectorCall keccak ArbGasInfoAddress ''getL1RewardRecipient()'']) (\<lambda>results.
     bind_err (each_err (\<lambda>r. bind_err (callBytes r) DecodeAddress) results) (\<lambda>addrs.
     bind_err (send (map (\<lambda>a. request ''eth_getBalance'' [PString a, PString latestTag]) addrs)) (\<lambda>bals.
     bind_err (each_err (\<lambda>(a, r). case rsErr r of
                   Some e \<Rightarrow> Inl e
                 | None \<Rightarrow> bind_err (unmarshal (rsRaw r)) (\<lambda>v. bind_err (json_string v) (\<lambda>s.
                     bind_err (HexBig s) (\<lambda>bal. Inr \<lparr>acAddress = a, acBalance = bal\<rparr>)))) (zip addrs bals)) (\<lambda>accounts.
     bind_err (result_at accounts 0) (\<lambda>infra.
     bind_err (result_at accounts 1) (\<lambda>network.
     bind_err (result_at accounts 2) (\<lambda>l1.
       Inr \<lparr>faInfra = infra, faNetwork = network, faL1Reward = l1\<rparr>)))))))"

section \<open>The contract of a batcher\<close>

locale batcher =
  fixes send :: batcher_fn
  assumes one_per_request: "send reqs = Inr rs \<Longrightarrow> length rs = length reqs"
begin

lemma blocks_by_number:
  "blocksByNumbers send numbers full = Inr bs \<Longrightarrow> map (hNumber \<circ> nbHeader) bs = numbers"
proof -
  have loop: "length rs = length ns \<Longrightarrow> blocks_loop ns rs = Inr bs \<Longrightarrow> map (hNumber \<circ> nbHeader) bs = ns" for ns rs bs
    by (induction ns rs arbitrary: bs rule: blocks_loop.induct)
      (auto simp: bind_err_eq_Inr block_of_result_def split: option.splits if_splits)
  assume "blocksByNumbers send numbers full = Inr bs"
  then obtain rs where "length rs = length numbers" "blocks_loop numbers rs = Inr bs"
    using one_per_request by (fastforce simp: blocksByNumbers_def bind_err_eq_Inr)
  then show ?thesis by (rule loop)
qed

text \<open>The index expressions on the results of a batch are in range.\<close>

lemma result_in_range: "send reqs = Inr rs \<Longrightarrow> i < length reqs \<Longrightarrow> result_at rs i = Inr (rs ! i)"
  using one_per_request by (simp add: result_at_def)

end

section \<open>Batches of the client meet it\<close>

definition MaxBatch :: nat where
  "MaxBatch = 100"

text \<open>
  \<open>post\<close> is one HTTP round trip: the answers and whether the endpoint throttled it, or an error. Every
  attempt takes fresh ids from the counter; \<open>left\<close> is the number of attempts that remain.
\<close>

definition client_ids :: "u64 \<Rightarrow> nat \<Rightarrow> u64 list" where
  "client_ids next n = map (\<lambda>i. next + word_of_nat i + 1) [0..<n]"

fun batch_attempts ::
  "(u64 list \<Rightarrow> Request list \<Rightarrow> (rpcResponse list \<times> bool) result) \<Rightarrow> nat \<Rightarrow> u64 \<Rightarrow> batcher_fn" where
  "batch_attempts post 0 next reqs = Inl (EndpointError ErrRateLimited)"
| "batch_attempts post (Suc left) next reqs =
     bind_err (post (client_ids next (length reqs)) reqs) (\<lambda>(responses, limited).
       if \<not> limited then Inr (matchResults (client_ids next (length reqs)) responses)
       else batch_attempts post left (next + word_of_nat (length reqs)) reqs)"

definition client_Batch ::
  "(u64 list \<Rightarrow> Request list \<Rightarrow> (rpcResponse list \<times> bool) result) \<Rightarrow> nat \<Rightarrow> u64 \<Rightarrow> batcher_fn" where
  "client_Batch post maxAttempts next reqs =
     (if length reqs = 0 then Inr []
      else if MaxBatch < length reqs then Inl (Failed ''batch exceeds limit'')
      else batch_attempts post (max maxAttempts 1) next reqs)"

lemma length_matchResults [simp]: "length (matchResults ids responses) = length ids"
  by (simp add: matchResults_def)

lemma batch_attempts_length: "batch_attempts post n next reqs = Inr rs \<Longrightarrow> length rs = length reqs"
proof (induction n arbitrary: "next")
  case (Suc n)
  let ?ids = "client_ids next (length reqs)"
  obtain responses limited where p: "post ?ids reqs = Inr (responses, limited)"
    using Suc.prems by (cases "post ?ids reqs") auto
  show ?case
  proof (cases limited)
    case True
    then show ?thesis using Suc p by simp
  next
    case False
    then have "rs = matchResults ?ids responses" using Suc.prems p by simp
    then show ?thesis by (simp add: client_ids_def)
  qed
qed simp

lemma client_Batch_length: "client_Batch post n next reqs = Inr rs \<Longrightarrow> length rs = length reqs"
proof -
  assume a: "client_Batch post n next reqs = Inr rs"
  show ?thesis
  proof (cases "length reqs = 0")
    case False
    then have "batch_attempts post (max n 1) next reqs = Inr rs"
      using a by (simp only: client_Batch_def if_False split: if_splits) simp
    then show ?thesis by (rule batch_attempts_length)
  qed (use a in \<open>simp add: client_Batch_def\<close>)
qed

lemma batchCapped_length:
  assumes "\<And>rq rs. batch rq = Inr rs \<Longrightarrow> length rs = length rq"
  shows "batchCapped cap batch reqs = Inr rs \<Longrightarrow> length rs = length reqs"
proof (induction "length reqs" arbitrary: reqs rs rule: less_induct)
  case less
  show ?case
  proof (cases "reqs = []")
    case True
    then show ?thesis using less.prems by (simp add: batchCapped.simps)
  next
    case False
    let ?n = "chunkSize cap (length reqs)"
    obtain xs ys where x: "batch (take ?n reqs) = Inr xs" "batchCapped cap batch (drop ?n reqs) = Inr ys" "rs = xs @ ys"
      using less.prems False by (subst (asm) batchCapped.simps) (auto simp: bind_err_eq_Inr Let_def)
    have "?n \<le> length reqs" "0 < ?n" using False by (simp_all add: chunkSize_def)
    then show ?thesis using assms [OF x(1)] less.hyps [OF _ x(2)] x(3) False by simp
  qed
qed

interpretation client: batcher "client_Batch post maxAttempts next" for post maxAttempts "next"
  by unfold_locales (rule client_Batch_length)

interpretation capped: batcher "batchCapped cap (client_Batch post maxAttempts next)" for cap post maxAttempts "next"
  by unfold_locales (rule batchCapped_length [OF client_Batch_length])

text \<open>
  Splitting a request list changes nothing: when every batch of at most the cap (one at least) is
  answered request by request, the split sends only such batches and returns the answers of the
  whole list in order.
\<close>

theorem batchCapped_order:
  assumes "\<And>rq. length rq \<le> max cap 1 \<Longrightarrow> batch rq = Inr (map f rq)"
  shows "batchCapped cap batch reqs = Inr (map f reqs)"
proof (induction "length reqs" arbitrary: reqs rule: less_induct)
  case less
  show ?case
  proof (cases "reqs = []")
    case False
    let ?n = "chunkSize cap (length reqs)"
    have n: "?n \<le> max cap 1" "0 < ?n" using False by (simp_all add: chunkSize_def)
    have "batch (take ?n reqs) = Inr (map f (take ?n reqs))" using n by (intro assms) simp
    moreover have "batchCapped cap batch (drop ?n reqs) = Inr (map f (drop ?n reqs))"
      using n False by (intro less) simp
    ultimately have "batchCapped cap batch reqs = Inr (map f (take ?n reqs) @ map f (drop ?n reqs))"
      using False by (subst batchCapped.simps) (simp add: Let_def)
    then show ?thesis by (simp flip: map_append)
  qed (simp add: batchCapped.simps)
qed

theorem batchCapped_order_witness:
  "batchCapped 2 (client_Batch (\<lambda>ids rq. Inr ([], False)) 5 0) (replicate 3 (request ''eth_chainId'' []))
     = Inr (replicate 3 \<lparr>rsRaw = RawEmpty, rsErr = Some (Failed ''missing response'')\<rparr>)"
proof -
  have h: "client_Batch (\<lambda>ids rq. Inr ([], False)) 5 0 rq
       = Inr (map (\<lambda>r. \<lparr>rsRaw = RawEmpty, rsErr = Some (Failed ''missing response'')\<rparr>) rq)"
    if "length rq \<le> max 2 1" for rq
    using that by (simp add: client_Batch_def MaxBatch_def matchResults_def match_one_def client_ids_def
        numeral_eq_Suc o_def map_replicate_const)
  show ?thesis using batchCapped_order [OF h, where reqs = "replicate 3 (request ''eth_chainId'' [])"] by simp
qed

section \<open>Joined headers and samples\<close>

lemma join_header_sound:
  assumes "join_header n br rr = Inr h"
  shows "hNumber h = n \<and> (\<exists>p. hPosterGas h = Some p \<and> p \<le> hGasUsed h) \<and> int (length (hComputeGasBefore h)) = hTxCount h"
proof -
  obtain block poster before where b: "block_of_result n br = Inr block"
    and g: "parseReceiptGas (rsRaw rr) (nbHeader block) = Inr (poster, before)"
    and h: "h = (nbHeader block)\<lparr>hPosterGas := Some poster, hComputeGasBefore := before\<rparr>"
    using assms by (auto simp: join_header_def bind_err_eq_Inr split: option.splits)
  have "hNumber (nbHeader block) = n"
    using b by (auto simp: block_of_result_def bind_err_eq_Inr split: option.splits if_splits)
  then show ?thesis using receipt_join [OF g] h by simp
qed


text \<open>
  A sample pinned to a block is of that block alone, with the poster gas of its receipts, and
  carries the legacy parameters exactly when the chain has no constraints.
\<close>

theorem FastSampleAt_pinned:
  assumes "FastSampleAt keccak send now number = Inr s"
  shows "hNumber (smHeader s) = number \<and> (\<exists>p. hPosterGas (smHeader s) = Some p \<and> p \<le> hGasUsed (smHeader s))
    \<and> smSampledAt s = now \<and> (smLegacy s \<noteq> None \<longleftrightarrow> sample_IsLegacy s)"
proof -
  have tag: "blockTag number \<noteq> latestTag" by (simp add: blockTag_def latestTag_def)
  obtain r b rr poster before where b: "sample_block_at (blockTag number) r = Inr b"
    and g: "parseReceiptGas rr (nbHeader b) = Inr (poster, before)"
    and h: "smHeader s = (nbHeader b)\<lparr>hPosterGas := Some poster, hComputeGasBefore := before\<rparr>"
    and l: "sample_legacy keccak send (blockTag number) (smConstraints s) = Inr (smLegacy s)"
    and t: "smSampledAt s = now"
    using assms by (auto simp: FastSampleAt_def sampleAt_def bind_err_eq_Inr split: option.splits)
  have "hNumber (nbHeader b) = number"
    using b tag by (auto simp: sample_block_at_def bind_err_eq_Inr HexUint64_blockTag split: option.splits if_splits)
  moreover have "smLegacy s \<noteq> None \<longleftrightarrow> sample_IsLegacy s"
    using l by (auto simp: sample_legacy_def sample_IsLegacy_def bind_err_eq_Inr split: if_splits intro: sym)
  ultimately show ?thesis using receipt_join [OF g] h t by simp
qed


definition sample_header_json :: json where
  "sample_header_json = JObject
     [(''number'', JString (blockTag 7)), (''hash'', JString ''0xab''), (''timestamp'', JString (blockTag 1000)),
      (''gasUsed'', JString (blockTag 100)), (''transactions'', JArray [JString ''0xc1''])]"

definition sample_rpc :: batcher_fn where
  "sample_rpc reqs = Inr (map (\<lambda>r.
     if rqMethod r = methodGetBlockByNumber then \<lparr>rsRaw = RawJSON sample_header_json, rsErr = None\<rparr>
     else if rqMethod r = methodGetBlockReceipts then \<lparr>rsRaw = RawJSON (JArray [sample_receipt]), rsErr = None\<rparr>
     else \<lparr>rsRaw = RawJSON (JString (EncodeHex (concat (replicate 6 (encodeUint64 0))))), rsErr = None\<rparr>) reqs)"

lemma sample_header_parsed:
  "parseHeader (RawJSON sample_header_json) = Inr \<lparr>nbHeader =
     \<lparr>hNumber = 7, hHash = ''0xab'', hParentHash = '''', hTimestamp = 1000, hGasUsed = 100, hGasLimit = 0, hBaseFee = 0,
      hL1BlockNumber = 0, hArbOSVersion = 0, hArbOSVersionKnown = False, hTxCount = 1, hTxHashes = [''0xc1''],
      hPosterGas = None, hComputeGasBefore = []\<rparr>, nbTxs = []\<rparr>"
  by (simp add: parseHeader_def raw_missing_def unmarshal_def decode_rawBlock_def sample_header_json_def json_members_def
      EqualFold_def lower_char_def HexUint64_blockTag optional_uint_def header_fee_def header_version_def parse_tx_def
      List.map_filter_def)

lemma sample_block_parsed: "block_of_result 7 \<lparr>rsRaw = RawJSON sample_header_json, rsErr = None\<rparr>
   = parseHeader (RawJSON sample_header_json)"
  by (simp add: block_of_result_def sample_header_parsed)

lemma sample_gas_parsed: "parseReceiptGas (RawJSON (JArray [sample_receipt]))
    \<lparr>hNumber = 7, hHash = ''0xab'', hParentHash = '''', hTimestamp = 1000, hGasUsed = 100, hGasLimit = 0, hBaseFee = 0,
      hL1BlockNumber = 0, hArbOSVersion = 0, hArbOSVersionKnown = False, hTxCount = 1, hTxHashes = [''0xc1''],
      hPosterGas = None, hComputeGasBefore = []\<rparr> = Inr (30, [0])"
  using sample_accepted by (simp add: parseReceiptGas_def receiptTarget_def sample_target_def)



definition zero_words :: bytes where
  "zero_words = concat (replicate 6 (encodeUint64 0))"

lemma zero_word: "i < 6 \<Longrightarrow> word zero_words (int i) = Inr (encodeUint64 0)"
  using word_chunks [of "replicate 6 (encodeUint64 0)" i] by (simp add: zero_words_def)

lemma zero_uint: "i < 6 \<Longrightarrow> wordUint64 zero_words (int i) = Inr 0" and zero_big: "i < 6 \<Longrightarrow> wordBig zero_words (int i) = Inr 0"
  using zero_word [of i] by (simp_all add: wordUint64_chunk wordBig_def)

lemma zero_decoded:
  "DecodeUint64 zero_words = Inr 0" "DecodeUint256 zero_words = Inr 0" "DecodeGasAccountingParams zero_words = Inr (0, 0, 0)"
  "DecodeConstraints zero_words = Inr []"
  using zero_uint [of 0] zero_uint [of 1] zero_uint [of 2] zero_big [of 0]
  by (simp_all add: DecodeUint64_def DecodeUint256_def DecodeGasAccountingParams_def DecodeConstraints_def
      uint64Triples_def i64_of_u64_def Let_def)

lemma zero_prices: "\<exists>p. DecodePrices zero_words = Inr p"
proof -
  have "each_err (\<lambda>i. wordBig zero_words (int i)) [0..<6] = Inr (map (\<lambda>i. 0) [0..<6])"
    by (rule each_err_map) (simp add: zero_big)
  then show ?thesis by (simp add: DecodePrices_def)
qed

lemma zero_call: "callBytes \<lparr>rsRaw = RawJSON (JString (EncodeHex zero_words)), rsErr = None\<rparr> = Inr zero_words"
  by (simp add: callBytes_def unmarshal_def json_string_def DecodeHex_EncodeHex)

theorem FastSampleAt_pinned_witness:
  "\<exists>s. FastSampleAt length_hash sample_rpc 5 7 = Inr s \<and> hNumber (smHeader s) = 7 \<and> sample_IsLegacy s \<and> smLegacy s \<noteq> None"
proof -
  have legacy: "\<exists>lp. sample_legacy length_hash sample_rpc tag [] = Inr (Some lp)" for tag
    by (simp add: sample_legacy_def legacyParamsAt_def sample_rpc_def SelectorCallAt_def CallRequestAt_def request_def
        methodGetBlockByNumber_def methodGetBlockReceipts_def result_at_def zero_call [unfolded zero_words_def]
        zero_decoded [unfolded zero_words_def])
  obtain lp where lp: "sample_legacy length_hash sample_rpc (blockTag 7) [] = Inr (Some lp)" using legacy by blast
  obtain p where p: "DecodePrices zero_words = Inr p" using zero_prices by blast
  have tag: "blockTag 7 \<noteq> latestTag" by (simp add: blockTag_def latestTag_def)
  have "\<exists>s. FastSampleAt length_hash sample_rpc 5 7 = Inr s \<and> smConstraints s = []"
    using lp p tag
    by (simp add: FastSampleAt_def sampleAt_def sample_rpc_def SelectorCallAt_def CallRequestAt_def request_def
        methodGetBlockByNumber_def methodGetBlockReceipts_def result_at_def sample_block_at_def sample_constraints_def
        sample_header_parsed sample_gas_parsed HexUint64_blockTag zero_call [unfolded zero_words_def]
        zero_decoded [unfolded zero_words_def] zero_words_def)
  then obtain s where s: "FastSampleAt length_hash sample_rpc 5 7 = Inr s" "smConstraints s = []" by blast
  show ?thesis using s FastSampleAt_pinned [OF s(1)] by (auto simp: sample_IsLegacy_def)
qed

end
