(* ===== verification/Endpoint.thy ===== *)
theory Endpoint
  imports Rpc_Calls
begin

text \<open>
  The adaptive state of one endpoint: the back-off of \<open>internal/nitro/client.go\<close> and the batch cap,
  \<open>eth_getLogs\<close> range and WebSocket health of \<open>internal/nitro/endpoint.go\<close>. The clock is an argument
  of every operation (the value \<open>e.now()\<close> returns) and the network is the list of what the successive
  attempts came back with, in order, so that the loops are functions of what the node answers. One
  caller is modelled at a time: the locks make each operation atomic, and \<open>fanOut\<close>, which runs
  \<open>sendRange\<close> on disjoint ranges in parallel, is not modelled.
\<close>

section \<open>State\<close>

datatype Class = Bulk | Fast

record client_state =
  cNextID :: u64
  cCallTimes :: "gotime list"
  cFastCalls :: u64
  cBulkCalls :: u64
  cCalls :: u64
  cRequests :: u64
  cErrors :: u64
  cTotalLatency :: duration
  cRateLimitEvents :: u64
  cLast429 :: gotime
  cBackoff :: duration
  cBlockedUntil :: gotime

definition minBackoff :: duration where "minBackoff = 2 * Second"
definition maxBackoff :: duration where "maxBackoff = 60 * Second"

record endpoint_state =
  eBatchCap :: nat
  eMaxBatchCap :: nat
  eMinBatchCap :: nat
  eLastLimit :: gotime
  eLastRecovery :: gotime
  eVerified :: bool
  eDisabled :: bool
  eReason :: string
  eLogRange :: u64
  eLastLogRefusal :: gotime
  eLastLogRecovery :: gotime
  eWSUntil :: gotime
  eWSReason :: string
  eWSDrops :: nat
  eWSUpAt :: gotime

definition minBatchCap :: nat where "minBatchCap = 10"
definition sizeBatchFloor :: nat where "sizeBatchFloor = 1"
definition capRecoveryInterval :: duration where "capRecoveryInterval = 60 * Second"
definition wsDropLimit :: nat where "wsDropLimit = 3"
definition wsHealthyFor :: duration where "wsHealthyFor = 60 * Second"
definition MaxLogRange :: u64 where "MaxLogRange = 100000"
definition minLogRange :: u64 where "minLogRange = 1"

section \<open>Accounting and back-off of the client\<close>

definition callWindow :: duration where "callWindow = 10 * Second"

definition trimCallsLocked :: "gotime \<Rightarrow> client_state \<Rightarrow> client_state" where
  "trimCallsLocked now c = c\<lparr>cCallTimes := filter (\<lambda>t. \<not> t < now - callWindow) (cCallTimes c)\<rparr>"

definition recordCalls :: "gotime \<Rightarrow> Class \<Rightarrow> nat \<Rightarrow> client_state \<Rightarrow> client_state" where
  "recordCalls now class n c0 =
     (let c1 = trimCallsLocked now c0;
          c2 = c1\<lparr>cCallTimes := cCallTimes c1 @ replicate n now\<rparr>;
          c3 = (if class = Fast then c2\<lparr>cFastCalls := cFastCalls c2 + word_of_nat n\<rparr>
                else c2\<lparr>cBulkCalls := cBulkCalls c2 + word_of_nat n\<rparr>)
      in c3\<lparr>cCalls := cCalls c3 + word_of_nat n\<rparr>)"

definition recordRequest :: "duration \<Rightarrow> bool \<Rightarrow> client_state \<Rightarrow> client_state" where
  "recordRequest latency failed c =
     c\<lparr>cRequests := cRequests c + 1, cTotalLatency := cTotalLatency c + max latency 0,
       cErrors := (if failed then cErrors c + 1 else cErrors c)\<rparr>"

definition recordResultErrors :: "rpc_result list \<Rightarrow> client_state \<Rightarrow> client_state" where
  "recordResultErrors results c =
     (let failures = length (filter (\<lambda>r. rsErr r \<noteq> None) results) in
      if failures = 0 then c else c\<lparr>cErrors := cErrors c + word_of_nat failures\<rparr>)"

text \<open>The calls of the window that \<open>Stats\<close> reports.\<close>

definition CallsLast10s :: "gotime \<Rightarrow> client_state \<Rightarrow> nat" where
  "CallsLast10s now c = length (cCallTimes (trimCallsLocked now c))"

definition cooldown :: "gotime \<Rightarrow> client_state \<Rightarrow> duration" where
  "cooldown now c = cBlockedUntil c - now"

definition noteRateLimit :: "gotime \<Rightarrow> gotime \<Rightarrow> client_state \<Rightarrow> client_state \<times> bool" where
  "noteRateLimit now sentAt c0 =
     (let c = (trimCallsLocked now c0)\<lparr>cRateLimitEvents := cRateLimitEvents c0 + 1, cLast429 := now\<rparr> in
      if sentAt < cBlockedUntil c then (c, False)
      else
        let doubled = cBackoff c * 2 in
        (c\<lparr>cBlockedUntil := now + cBackoff c, cBackoff := (if maxBackoff < doubled then maxBackoff else doubled)\<rparr>, True))"

definition resetBackoff :: "gotime \<Rightarrow> client_state \<Rightarrow> client_state" where
  "resetBackoff sentAt c = (if \<not> sentAt < cBlockedUntil c then c\<lparr>cBackoff := minBackoff\<rparr> else c)"

section \<open>Construction, verification and WebSocket health\<close>

text \<open>The zero \<open>time.Time\<close> is the time 0.\<close>

definition newEndpoint :: "int \<Rightarrow> endpoint_state" where
  "newEndpoint batchSize0 =
     (let batchSize = (if batchSize0 \<le> 0 \<or> int MaxBatch < batchSize0 then MaxBatch else nat batchSize0) in
      \<lparr>eBatchCap = batchSize, eMaxBatchCap = batchSize, eMinBatchCap = min minBatchCap batchSize,
       eLastLimit = 0, eLastRecovery = 0, eVerified = False, eDisabled = False, eReason = '''',
       eLogRange = 0, eLastLogRefusal = 0, eLastLogRecovery = 0,
       eWSUntil = 0, eWSReason = '''', eWSDrops = 0, eWSUpAt = 0\<rparr>)"

definition setVerified :: "endpoint_state \<Rightarrow> endpoint_state" where
  "setVerified e = e\<lparr>eVerified := True\<rparr>"

definition disable :: "string \<Rightarrow> endpoint_state \<Rightarrow> endpoint_state" where
  "disable reason e = e\<lparr>eDisabled := True, eReason := reason\<rparr>"

definition noteWSConnected :: "gotime \<Rightarrow> endpoint_state \<Rightarrow> endpoint_state" where
  "noteWSConnected now e = e\<lparr>eWSUpAt := now, eWSUntil := 0, eWSReason := ''''\<rparr>"

definition noteWSFailure :: "gotime \<Rightarrow> bool \<Rightarrow> duration \<Rightarrow> string \<Rightarrow> endpoint_state \<Rightarrow> endpoint_state \<times> bool" where
  "noteWSFailure now subscribed cooldown0 reason e =
     (let drops = (if eWSUpAt e \<noteq> 0 \<and> wsHealthyFor \<le> now - eWSUpAt e then 0 else eWSDrops e) + 1;
          cooled = e\<lparr>eWSDrops := 0, eWSUntil := now + cooldown0, eWSReason := reason\<rparr>
      in if subscribed \<and> drops < wsDropLimit then (e\<lparr>eWSDrops := drops\<rparr>, False)
         else (cooled, True))"

definition wsCooling :: "gotime \<Rightarrow> endpoint_state \<Rightarrow> (gotime \<times> string) option" where
  "wsCooling now e = (if now < eWSUntil e then Some (eWSUntil e, eWSReason e) else None)"

section \<open>The batch cap\<close>

definition observe :: "gotime \<Rightarrow> nat \<Rightarrow> bool \<Rightarrow> bool \<Rightarrow> endpoint_state \<Rightarrow> endpoint_state" where
  "observe now items limited fresh e =
     (if limited then
        let e1 = e\<lparr>eLastLimit := now\<rparr> in
        if fresh \<and> 1 < items \<and> eMinBatchCap e1 < eBatchCap e1
        then e1\<lparr>eBatchCap := max (eBatchCap e1 div 2) (eMinBatchCap e1)\<rparr> else e1
      else if eMaxBatchCap e \<le> eBatchCap e then e
      else if now - max (eLastLimit e) (eLastRecovery e) < capRecoveryInterval then e
      else e\<lparr>eBatchCap := min (eBatchCap e * 2) (eMaxBatchCap e), eLastRecovery := now\<rparr>)"

definition shrinkForSize :: "gotime \<Rightarrow> nat \<Rightarrow> endpoint_state \<Rightarrow> endpoint_state \<times> bool" where
  "shrinkForSize now items e =
     (if items \<le> sizeBatchFloor then (e, False)
      else (e\<lparr>eBatchCap := min (eBatchCap e) (max (items div 2) sizeBatchFloor), eLastLimit := now\<rparr>, True))"

text \<open>
  What one attempt of a chunk came back with: an error, a throttled answer (and whether it opened
  the cooldown), or the results of the items. The time is that of the observation.
\<close>

datatype attempt =
    AttemptError nitro_error
  | AttemptLimited gotime bool
  | AttemptOk gotime "Request list \<Rightarrow> rpc_result list"

definition observed :: "attempt \<Rightarrow> nat \<Rightarrow> endpoint_state \<Rightarrow> endpoint_state" where
  "observed a items e =
     (case a of AttemptError err \<Rightarrow> e
      | AttemptLimited now fresh \<Rightarrow> observe now items True fresh e
      | AttemptOk now f \<Rightarrow> observe now items False False e)"

text \<open>
  \<open>sendRange\<close> over the requests still to send: \<open>pacerCap\<close> is what the pacer holds for the class and
  \<open>attempts\<close> counts the throttled attempts of the current chunk. \<open>None\<close> means the list of attempts ran
  out before the loop returned.
\<close>

fun sendRange ::
  "nat \<Rightarrow> nat \<Rightarrow> nat \<Rightarrow> endpoint_state \<Rightarrow> attempt list \<Rightarrow> Request list
     \<Rightarrow> (endpoint_state \<times> rpc_result list result) option" where
  "sendRange maxAttempts pacerCap attempts e net [] = Some (e, Inr [])"
| "sendRange maxAttempts pacerCap attempts e [] (r # rs) = None"
| "sendRange maxAttempts pacerCap attempts e (a # net) (r # rs) =
     (let reqs = r # rs;
          size = chunkSize (min (eBatchCap e) pacerCap) (length reqs);
          e1 = observed a size e
      in case a of
           AttemptError err \<Rightarrow> Some (e1, Inl err)
         | AttemptLimited now fresh \<Rightarrow>
             if maxAttempts \<le> attempts + 1 then Some (e1, Inl (EndpointError ErrRateLimited))
             else sendRange maxAttempts pacerCap (attempts + 1) e1 net reqs
         | AttemptOk now f \<Rightarrow>
             let results = f (take size reqs) in
             if batchTooLarge results \<and> snd (shrinkForSize now size e1)
             then sendRange maxAttempts pacerCap attempts (fst (shrinkForSize now size e1)) net reqs
             else case sendRange maxAttempts pacerCap 0 e1 net (drop size reqs) of
                    None \<Rightarrow> None
                  | Some (e2, Inl err) \<Rightarrow> Some (e2, Inl err)
                  | Some (e2, Inr rest) \<Rightarrow> Some (e2, Inr (results @ rest)))"

section \<open>The range of eth\_getLogs\<close>

definition logRangeLocked :: "endpoint_state \<Rightarrow> u64" where
  "logRangeLocked e = (if eLogRange e = 0 then MaxLogRange else eLogRange e)"

definition observeLogRange :: "gotime \<Rightarrow> u64 \<Rightarrow> bool \<Rightarrow> endpoint_state \<Rightarrow> endpoint_state" where
  "observeLogRange now width refused e =
     (if refused then
        e\<lparr>eLastLogRefusal := now, eLogRange := max (min (logRangeLocked e) width div 2) minLogRange\<rparr>
      else if eLogRange e = 0 \<or> MaxLogRange \<le> eLogRange e then e
      else if now - max (eLastLogRefusal e) (eLastLogRecovery e) < capRecoveryInterval then e
      else e\<lparr>eLastLogRecovery := now, eLogRange := min (eLogRange e * 2) MaxLogRange\<rparr>)"

text \<open>\<open>errors.Is(err, ErrRateLimited)\<close>.\<close>

fun is_rate_limited :: "nitro_error \<Rightarrow> bool" where
  "is_rate_limited ErrRateLimited = True"
| "is_rate_limited (EndpointError e) = is_rate_limited e"
| "is_rate_limited e = False"

definition logsRefused :: "nitro_error \<Rightarrow> bool" where
  "logsRefused err \<longleftrightarrow> as_rpc err \<noteq> None \<or> is_rate_limited err"

text \<open>
  One iteration of \<open>OwnerActsLogs\<close> at \<open>start\<close>: the piece asked for. Sleeping only delays the next
  iteration; a cancelled context is an error of the fetch that is not a refusal.
\<close>

definition piece_end :: "endpoint_state \<Rightarrow> u64 \<Rightarrow> u64 \<Rightarrow> u64" where
  "piece_end e start to =
     (let end0 = start + logRangeLocked e - 1 in if to < end0 \<or> end0 < start then to else end0)"

text \<open>
  The loop: \<open>fetch\<close> is the \<open>eth_getLogs\<close> call of the node, which may answer differently each time, so the
  list \<open>net\<close> gives the time of each answer and the fetch function in force then. \<open>None\<close> means the list ran
  out.
\<close>

fun logs_loop ::
  "endpoint_state \<Rightarrow> (gotime \<times> (u64 \<Rightarrow> u64 \<Rightarrow> Log list result)) list \<Rightarrow> u64 \<Rightarrow> u64
     \<Rightarrow> (endpoint_state \<times> Log list result) option" where
  "logs_loop e [] start to = None"
| "logs_loop e ((now, fetch) # net) start to =
     (let end1 = piece_end e start to; asked = end1 - start + 1 in
      case fetch start end1 of
        Inr logs \<Rightarrow>
          let e1 = observeLogRange now asked False e in
          if end1 = to then Some (e1, Inr logs)
          else (case logs_loop e1 net (end1 + 1) to of
                  None \<Rightarrow> None
                | Some (e2, Inl err) \<Rightarrow> Some (e2, Inl err)
                | Some (e2, Inr rest) \<Rightarrow> Some (e2, Inr (logs @ rest)))
      | Inl err \<Rightarrow>
          if \<not> logsRefused err then Some (e, Inl err)
          else if asked \<le> 1 then Some (e, Inl (EndpointError err))
          else logs_loop (observeLogRange now asked True e) net start to)"

definition OwnerActsLogs ::
  "endpoint_state \<Rightarrow> (gotime \<times> (u64 \<Rightarrow> u64 \<Rightarrow> Log list result)) list \<Rightarrow> u64 \<Rightarrow> u64
     \<Rightarrow> (endpoint_state \<times> Log list result) option" where
  "OwnerActsLogs e net from to = (if to < from then Some (e, Inr []) else logs_loop e net from to)"

section \<open>Limits that adapt\<close>

text \<open>
  The batch cap and the log range follow one contract: a refusal halves the width down to a floor,
  an acceptance leaves it or doubles it up to a ceiling.
\<close>

locale adaptive_limit =
  fixes width :: "'s \<Rightarrow> nat"
    and refuse :: "'s \<Rightarrow> 's"
    and accept :: "'s \<Rightarrow> 's"
    and lo hi :: "'s \<Rightarrow> nat"
  assumes refuse_width: "lo s \<le> width s \<Longrightarrow> width (refuse s) = max (width s div 2) (lo s)"
    and accept_width: "width s \<le> hi s \<Longrightarrow> width (accept s) = width s \<or> width (accept s) = min (2 * width s) (hi s)"
    and bounds_kept: "lo (refuse s) = lo s" "hi (refuse s) = hi s" "lo (accept s) = lo s" "hi (accept s) = hi s"
begin

lemma refuse_in: "lo s \<le> width s \<Longrightarrow> width s \<le> hi s \<Longrightarrow> lo s \<le> width (refuse s) \<and> width (refuse s) \<le> hi s"
  by (simp add: refuse_width)

lemma accept_in: "lo s \<le> width s \<Longrightarrow> width s \<le> hi s \<Longrightarrow> lo s \<le> width (accept s) \<and> width (accept s) \<le> hi s"
  using accept_width [of s] by auto

lemma refusals: "lo s \<le> width s \<Longrightarrow> width ((refuse ^^ k) s) = max (width s div 2 ^ k) (lo s) \<and> lo ((refuse ^^ k) s) = lo s"
proof (induction k)
  case (Suc k)
  then have w: "width ((refuse ^^ k) s) = max (width s div 2 ^ k) (lo s)" and l: "lo ((refuse ^^ k) s) = lo s"
    by simp_all
  have "width ((refuse ^^ Suc k) s) = max (max (width s div 2 ^ k) (lo s) div 2) (lo s)"
    using w l by (simp add: refuse_width)
  also have "\<dots> = max (width s div 2 ^ k div 2) (lo s)" by (auto simp: max_def)
  also have "width s div 2 ^ k div 2 = width s div 2 ^ Suc k" by (simp only: power_Suc2 div_mult2_eq)
  finally show ?case using l by (simp add: bounds_kept)
qed simp

text \<open>Enough refusals reach the floor, whatever the width was.\<close>

lemma reaches_floor: "lo s \<le> width s \<Longrightarrow> width s < 2 ^ k \<Longrightarrow> width ((refuse ^^ k) s) = lo s"
  using refusals [of s k] by simp

end

definition log_width :: "endpoint_state \<Rightarrow> nat" where
  "log_width e = unat (logRangeLocked e)"

text \<open>A refusal of the widest range in force.\<close>

definition refuse_logs :: "gotime \<Rightarrow> endpoint_state \<Rightarrow> endpoint_state" where
  "refuse_logs now e = observeLogRange now (logRangeLocked e) True e"

lemma log_width_observe_refused:
  "log_width (observeLogRange now w True e) = max (min (log_width e) (unat w) div 2) 1"
proof -
  let ?r = "max (min (logRangeLocked e) w div 2) minLogRange"
  have "unat ?r = max (min (log_width e) (unat w) div 2) 1"
    by (simp add: unat_max unat_min unat_div minLogRange_def log_width_def)
  moreover from this have "?r \<noteq> 0" by (metis max.cobounded2 not_one_le_zero unat_0)
  ultimately show ?thesis by (simp add: observeLogRange_def log_width_def [of "_ \<lparr>eLogRange := _\<rparr>"] logRangeLocked_def [of "_ \<lparr>eLogRange := _\<rparr>"])
qed

lemma log_width_observe_accepted:
  assumes "log_width e \<le> 100000"
  shows "log_width (observeLogRange now w False e) = log_width e
     \<or> log_width (observeLogRange now w False e) = min (2 * log_width e) 100000"
proof (cases "eLogRange e = 0 \<or> observeLogRange now w False e = e")
  case False
  then have e: "observeLogRange now w False e = e\<lparr>eLastLogRecovery := now, eLogRange := min (eLogRange e * 2) MaxLogRange\<rparr>"
    by (auto simp: observeLogRange_def split: if_splits)
  have x: "log_width e = unat (eLogRange e)" "0 < unat (eLogRange e)"
    using False by (simp_all add: log_width_def logRangeLocked_def unat_gt_0)
  then have u: "unat (min (eLogRange e * 2) MaxLogRange) = min (2 * unat (eLogRange e)) 100000"
    using assms by (simp add: unat_min MaxLogRange_def unat_word_ariths)
  then have "unat (min (eLogRange e * 2) MaxLogRange) \<noteq> 0" using x(2) by simp
  then have "min (eLogRange e * 2) MaxLogRange \<noteq> 0" by (simp only: unat_eq_zero not_False_eq_True)
  then show ?thesis using e u x(1) by (simp add: log_width_def logRangeLocked_def)
qed (auto simp: observeLogRange_def)

interpretation logs: adaptive_limit log_width "refuse_logs now" "observeLogRange now w False" "\<lambda>e. 1" "\<lambda>e. 100000"
  for now w
  by unfold_locales
    (simp_all add: refuse_logs_def log_width_observe_refused log_width_def [symmetric] log_width_observe_accepted)

interpretation caps: adaptive_limit eBatchCap "observe now (Suc (Suc k)) True True" "observe now items False f"
    eMinBatchCap eMaxBatchCap
  for now k items f
  by unfold_locales (auto simp: observe_def Let_def)

section \<open>Reachable endpoints\<close>

text \<open>Every operation an endpoint undergoes, at any time and in any order.\<close>

inductive endpoint_step :: "endpoint_state \<Rightarrow> endpoint_state \<Rightarrow> bool" where
  step_observe: "endpoint_step e (observe now items limited fresh e)"
| step_shrink: "endpoint_step e (fst (shrinkForSize now items e))"
| step_logs: "0 < w \<Longrightarrow> endpoint_step e (observeLogRange now w refused e)"
| step_verified: "endpoint_step e (setVerified e)"
| step_disable: "endpoint_step e (disable reason e)"
| step_ws_up: "endpoint_step e (noteWSConnected now e)"
| step_ws_down: "endpoint_step e (fst (noteWSFailure now subscribed cool reason e))"

inductive_cases endpoint_stepE: "endpoint_step e e'"

inductive reachable_endpoint :: "int \<Rightarrow> endpoint_state \<Rightarrow> bool" for batchSize where
  reach_new: "reachable_endpoint batchSize (newEndpoint batchSize)"
| reach_step: "reachable_endpoint batchSize e \<Longrightarrow> endpoint_step e e' \<Longrightarrow> reachable_endpoint batchSize e'"

definition endpoint_ok :: "endpoint_state \<Rightarrow> bool" where
  "endpoint_ok e \<longleftrightarrow> 1 \<le> eBatchCap e \<and> eBatchCap e \<le> eMaxBatchCap e \<and> eMaxBatchCap e \<le> MaxBatch
     \<and> 1 \<le> eMinBatchCap e \<and> eMinBatchCap e \<le> eMaxBatchCap e
     \<and> 1 \<le> log_width e \<and> log_width e \<le> 100000 \<and> eWSDrops e < wsDropLimit"

lemma endpoint_ok_new: "endpoint_ok (newEndpoint batchSize)"
  by (auto simp: endpoint_ok_def newEndpoint_def MaxBatch_def minBatchCap_def wsDropLimit_def log_width_def
      logRangeLocked_def MaxLogRange_def Let_def)

lemma observe_ok: "endpoint_ok e \<Longrightarrow> endpoint_ok (observe now items limited fresh e)"
  by (auto simp: endpoint_ok_def observe_def Let_def log_width_def logRangeLocked_def)

lemma shrink_ok: "endpoint_ok e \<Longrightarrow> endpoint_ok (fst (shrinkForSize now items e))"
  by (auto simp: endpoint_ok_def shrinkForSize_def sizeBatchFloor_def log_width_def logRangeLocked_def)

lemma observeLogRange_frame [simp]:
  "eBatchCap (observeLogRange now w r e) = eBatchCap e" "eMaxBatchCap (observeLogRange now w r e) = eMaxBatchCap e"
  "eMinBatchCap (observeLogRange now w r e) = eMinBatchCap e" "eWSDrops (observeLogRange now w r e) = eWSDrops e"
  by (simp_all add: observeLogRange_def)

lemma logs_ok:
  assumes "endpoint_ok e"
  shows "endpoint_ok (observeLogRange now w refused e)"
proof -
  have "1 \<le> log_width e" "log_width e \<le> 100000" using assms by (simp_all add: endpoint_ok_def)
  then have "1 \<le> log_width (observeLogRange now w refused e) \<and> log_width (observeLogRange now w refused e) \<le> 100000"
    using log_width_observe_refused [of now w e] logs.accept_in [of e now w] by (cases refused) auto
  then show ?thesis using assms by (simp add: endpoint_ok_def)
qed

lemma ws_ok:
  "endpoint_ok e \<Longrightarrow> endpoint_ok (setVerified e)" "endpoint_ok e \<Longrightarrow> endpoint_ok (disable reason e)"
  "endpoint_ok e \<Longrightarrow> endpoint_ok (noteWSConnected now e)"
  "endpoint_ok e \<Longrightarrow> endpoint_ok (fst (noteWSFailure now subscribed cool reason e))"
  by (auto simp: endpoint_ok_def setVerified_def disable_def noteWSConnected_def noteWSFailure_def wsDropLimit_def
      log_width_def logRangeLocked_def Let_def)

lemmas endpoint_ok_steps = observe_ok shrink_ok logs_ok ws_ok

lemma endpoint_step_ok: "endpoint_step e e' \<Longrightarrow> endpoint_ok e \<Longrightarrow> endpoint_ok e'"
  by (induction rule: endpoint_step.induct) (simp_all add: endpoint_ok_steps)

text \<open>
  C18. Whatever an endpoint is put through, its batch cap stays between one and the configured size
  (itself at most 100), its log range between one block and a hundred thousand, and its count of
  dropped subscriptions below the limit; seventeen refusals in a row take the log range to a single
  block.
\<close>

theorem reachable_endpoint_ok:
  assumes "reachable_endpoint batchSize e"
  shows "endpoint_ok e \<and> log_width ((refuse_logs now ^^ 17) e) = 1"
proof -
  have ok: "endpoint_ok e"
    using assms by (induction rule: reachable_endpoint.induct) (auto intro: endpoint_ok_new endpoint_step_ok)
  then have "1 \<le> log_width e" "log_width e < 2 ^ 17" by (simp_all add: endpoint_ok_def)
  then show ?thesis using ok logs.reaches_floor [of e 17 now] by simp
qed

theorem reachable_endpoint_ok_witness:
  "reachable_endpoint 50 (observe 10 20 True True (newEndpoint 50))
   \<and> eBatchCap (observe 10 20 True True (newEndpoint 50)) = 25
   \<and> endpoint_ok (observe 10 20 True True (newEndpoint 50))"
proof -
  have r: "reachable_endpoint 50 (observe 10 20 True True (newEndpoint 50))"
    by (rule reach_step [OF reach_new step_observe])
  have "eBatchCap (observe 10 20 True True (newEndpoint 50)) = 25"
    by (simp add: observe_def newEndpoint_def MaxBatch_def minBatchCap_def Let_def)
  then show ?thesis using r reachable_endpoint_ok [OF r] by blast
qed

text \<open>The back-off of the client stays between its bounds.\<close>

definition backoff_ok :: "client_state \<Rightarrow> bool" where
  "backoff_ok c \<longleftrightarrow> minBackoff \<le> cBackoff c \<and> cBackoff c \<le> maxBackoff"

lemma backoff_ok_steps:
  "backoff_ok c \<Longrightarrow> backoff_ok (fst (noteRateLimit now sentAt c))" "backoff_ok c \<Longrightarrow> backoff_ok (resetBackoff sentAt c)"
  by (auto simp: backoff_ok_def noteRateLimit_def trimCallsLocked_def resetBackoff_def minBackoff_def maxBackoff_def Second_def Let_def)

text \<open>A wave of throttled answers to requests sent before the cooldown ended costs one step.\<close>

lemma one_step_per_wave:
  assumes "noteRateLimit now sentAt c = (c1, True)" and "sentAt' < cBlockedUntil c1"
  shows "noteRateLimit now' sentAt' c1
    = ((trimCallsLocked now' c1)\<lparr>cRateLimitEvents := cRateLimitEvents c1 + 1, cLast429 := now'\<rparr>, False)"
  using assms by (simp add: noteRateLimit_def trimCallsLocked_def Let_def)

text \<open>The class counters add up to the call counter, and the window holds only recent calls.\<close>

definition accounting_ok :: "client_state \<Rightarrow> bool" where
  "accounting_ok c \<longleftrightarrow> cCalls c = cFastCalls c + cBulkCalls c"

lemma recordCalls_ok:
  "accounting_ok c \<Longrightarrow> accounting_ok (recordCalls now class n c)"
  "t \<in> set (cCallTimes (recordCalls now class n c)) \<Longrightarrow> now - callWindow \<le> t"
  by (auto simp: accounting_ok_def recordCalls_def trimCallsLocked_def Let_def callWindow_def Second_def split: if_splits)

section \<open>Sending a range\<close>

text \<open>Every attempt that is answered answers each request on its own, as \<open>g\<close> says.\<close>

definition answers :: "(Request \<Rightarrow> rpc_result) \<Rightarrow> attempt \<Rightarrow> bool" where
  "answers g a \<longleftrightarrow> (case a of AttemptOk now f \<Rightarrow> f = map g | _ \<Rightarrow> True)"

lemma sendRange_answers:
  assumes "list_all (answers g) net" and "sendRange m p k e net reqs = Some (e', Inr rs)"
  shows "rs = map g reqs"
  using assms
proof (induction m p k e net reqs arbitrary: e' rs rule: sendRange.induct)
  case (3 m p k e a net r rs0)
  let ?reqs = "r # rs0"
  let ?n = "chunkSize (min (eBatchCap e) p) (length ?reqs)"
  show ?case
  proof (cases a)
    case (AttemptOk now f)
    then have f: "f = map g" using "3.prems"(1) by (simp add: answers_def)
    show ?thesis
    proof (cases "batchTooLarge (map g (take ?n ?reqs)) \<and> snd (shrinkForSize now ?n (observed a ?n e))")
      case True
      then show ?thesis
        using "3.IH"(2) [OF refl refl refl AttemptOk refl] "3.prems" AttemptOk f
        by (simp add: Let_def)
    next
      case False
      then obtain e2 rest where rest: "sendRange m p 0 (observed a ?n e) net (drop ?n ?reqs) = Some (e2, Inr rest)"
        "rs = map g (take ?n ?reqs) @ rest"
        using "3.prems"(2) AttemptOk f
        by (auto simp: Let_def simp del: drop_Suc_Cons split: option.splits sum.splits prod.splits)
      have "rest = map g (drop ?n ?reqs)"
        using "3.IH"(3) [OF refl refl refl AttemptOk refl] False rest(1) "3.prems"(1) AttemptOk f
        by (simp add: Let_def)
      then show ?thesis using rest(2) by (simp only: map_append [symmetric] append_take_drop_id)
    qed
  next
    case (AttemptLimited now fresh)
    then show ?thesis
      using "3.IH"(1) [OF refl refl refl AttemptLimited] "3.prems" by (auto simp: Let_def split: if_splits)
  qed (use "3.prems" in \<open>simp add: Let_def\<close>)
qed simp_all

text \<open>The width of the chunk in hand; a throttled attempt does not widen it.\<close>

abbreviation chunk_of :: "endpoint_state \<Rightarrow> nat \<Rightarrow> 'a list \<Rightarrow> nat" where
  "chunk_of e p reqs \<equiv> chunkSize (min (eBatchCap e) p) (length reqs)"

lemma limited_not_wider: "eBatchCap (observe now n True fresh e) \<le> eBatchCap e"
  by (auto simp: observe_def Let_def)

lemma chunkSize_mono: "c \<le> c' \<Longrightarrow> chunkSize (min c p) n \<le> chunkSize (min c' p) n"
  by (auto simp: chunkSize_def min_def max_def)

lemma shrink_narrower:
  assumes "snd (shrinkForSize now n e)"
  shows "chunk_of (fst (shrinkForSize now n e)) p reqs \<le> n div 2"
  using assms by (auto simp: shrinkForSize_def sizeBatchFloor_def chunkSize_def split: if_splits)

lemma chunk_bounds: "reqs \<noteq> [] \<Longrightarrow> 0 < chunk_of e p reqs" "chunk_of e p reqs \<le> length reqs" "p \<le> 100 \<Longrightarrow> chunk_of e p reqs < 2 ^ 7"
  by (auto simp: chunkSize_def)

lemma sendRange_enough:
  assumes "p \<le> 100" and "reqs \<noteq> []" and "chunk_of e p reqs < 2 ^ k"
    and "(m + 8) * (length reqs - 1) + (m - att) + k \<le> length net" and "0 < k"
  shows "sendRange m p att e net reqs \<noteq> None"
  using assms(2-5)
proof (induction net arbitrary: att e reqs k)
  case Nil
  then show ?case by simp
next
  case (Cons a net)
  obtain r rs0 where reqs: "reqs = r # rs0" using Cons.prems(1) by (cases reqs) auto
  let ?n = "chunk_of e p reqs"
  show ?case
  proof (cases a)
    case (AttemptError err)
    then show ?thesis by (simp add: reqs Let_def)
  next
    case (AttemptLimited now fresh)
    show ?thesis
    proof (cases "m \<le> att + 1")
      case True
      then show ?thesis using AttemptLimited by (simp add: reqs Let_def)
    next
      case False
      let ?e = "observe now ?n True fresh e"
      have "chunk_of ?e p reqs \<le> ?n" using limited_not_wider by (rule chunkSize_mono)
      then have c: "chunk_of ?e p reqs < 2 ^ k" using Cons.prems(2) by (rule le_less_trans)
      have "m - att = m - (att + 1) + 1" using False by linarith
      then have l: "(m + 8) * (length reqs - 1) + (m - (att + 1)) + k \<le> length net"
        using Cons.prems(3) unfolding list.size(4) by linarith
      have "sendRange m p (att + 1) ?e net reqs \<noteq> None"
        by (rule Cons.IH [OF Cons.prems(1) c l Cons.prems(4)])
      then show ?thesis using False AttemptLimited by (simp add: reqs Let_def observed_def)
    qed
  next
    case (AttemptOk now f)
    let ?e = "observe now ?n False False e"
    show ?thesis
    proof (cases "batchTooLarge (f (take ?n reqs)) \<and> snd (shrinkForSize now ?n ?e)")
      case True
      let ?s = "fst (shrinkForSize now ?n ?e)"
      have n: "1 < ?n" using True by (simp add: shrinkForSize_def sizeBatchFloor_def split: if_splits)
      then obtain j where k: "k = Suc j" "0 < j" using Cons.prems(2) by (cases k; cases "k - 1") auto
      have "chunk_of ?s p reqs \<le> ?n div 2" using True by (intro shrink_narrower) simp
      also have "\<dots> < 2 ^ j" using Cons.prems(2) k(1) by simp
      finally have c: "chunk_of ?s p reqs < 2 ^ j" .
      have l: "(m + 8) * (length reqs - 1) + (m - att) + j \<le> length net"
        using Cons.prems(3) k(1) unfolding list.size(4) by linarith
      have "sendRange m p att ?s net reqs \<noteq> None"
        by (rule Cons.IH [OF Cons.prems(1) c l k(2)])
      then show ?thesis using True AttemptOk by (simp add: reqs Let_def observed_def)
    next
      case False
      have d: "length (drop ?n reqs) \<le> length reqs - 1" using chunk_bounds(1) [OF Cons.prems(1), of e p] by simp
      have "sendRange m p 0 ?e net (drop ?n reqs) \<noteq> None"
      proof (cases "drop ?n reqs = []")
        case True
        then show ?thesis by (simp only: sendRange.simps) simp
      next
        case False
        have "(m + 8) * (length (drop ?n reqs) - 1) + (m + 8) \<le> (m + 8) * (length reqs - 1)"
        proof -
          have "length (drop ?n reqs) - 1 + 1 \<le> length reqs - 1"
            using d False length_greater_0_conv [of "drop ?n reqs"] by linarith
          then have "(m + 8) * (length (drop ?n reqs) - 1 + 1) \<le> (m + 8) * (length reqs - 1)" by (rule mult_le_mono2)
          then show ?thesis by (simp only: distrib_left mult_1_right)
        qed
        then have "(m + 8) * (length (drop ?n reqs) - 1) + (m - 0) + 7 \<le> length net"
          using Cons.prems(3,4) unfolding list.size(4) by linarith
        then show ?thesis
          by (rule Cons.IH [OF False chunk_bounds(3) [OF assms(1)]]) simp
      qed
      then show ?thesis using False AttemptOk
        by (auto simp: reqs Let_def observed_def simp del: drop_Suc_Cons split: option.split sum.split)
    qed
  qed
qed

text \<open>
  C19. \<open>sendRange\<close> returns: with a pacer that holds at most a hundred calls, at most
  \<open>maxAttempts + 8\<close> attempts per request bring it to an answer or an error, however the node throttles
  and refuses. And when it returns results, they are the answers of all the requests in their order,
  each once, whatever was retried or narrowed on the way.
\<close>

theorem sendRange_returns:
  assumes "p \<le> 100" and "(m + 8) * length reqs \<le> length net" and "list_all (answers g) net"
  shows "\<exists>e' r. sendRange m p 0 e net reqs = Some (e', r) \<and> (case r of Inl err \<Rightarrow> True | Inr rs \<Rightarrow> rs = map g reqs)"
proof (cases "reqs = []")
  case True
  then show ?thesis by simp
next
  case False
  then have "(m + 8) * (length reqs - 1) + (m - 0) + 7 \<le> length net"
    using assms(2) by (cases reqs) simp_all
  then have "sendRange m p 0 e net reqs \<noteq> None"
    using False chunk_bounds(3) [OF assms(1)] by (intro sendRange_enough [OF assms(1), where k = 7]) auto
  then obtain e' r where s: "sendRange m p 0 e net reqs = Some (e', r)" by auto
  show ?thesis using s sendRange_answers [OF assms(3)] by (cases r) auto
qed

theorem sendRange_returns_witness:
  "let net = AttemptLimited 1 True # replicate 40 (AttemptOk 2 (map (\<lambda>r. \<lparr>rsRaw = RawEmpty, rsErr = None\<rparr>)));
       reqs = replicate 3 (request ''eth_chainId'' []) in
   8 \<le> (100 :: nat) \<and> (5 + 8) * length reqs \<le> length net \<and> list_all (answers (\<lambda>r. \<lparr>rsRaw = RawEmpty, rsErr = None\<rparr>)) net
   \<and> (\<exists>e' r. sendRange 5 8 0 (newEndpoint 50) net reqs = Some (e', r))"
proof -
  let ?g = "\<lambda>r :: Request. \<lparr>rsRaw = RawEmpty, rsErr = None\<rparr>"
  let ?net = "AttemptLimited 1 True # replicate 40 (AttemptOk 2 (map ?g))"
  let ?reqs = "replicate 3 (request ''eth_chainId'' [])"
  have h: "(8 :: nat) \<le> 100" "(5 + 8) * length ?reqs \<le> length ?net" "list_all (answers ?g) ?net"
    by (simp_all add: answers_def list_all_iff)
  then show ?thesis using sendRange_returns [OF h, of "newEndpoint 50"] unfolding Let_def by blast
qed

section \<open>Reading logs in pieces\<close>

text \<open>The logs of a range of blocks, block by block, for the logs \<open>L\<close> of every block.\<close>

definition block_logs :: "(u64 \<Rightarrow> Log list) \<Rightarrow> u64 \<Rightarrow> u64 \<Rightarrow> Log list" where
  "block_logs L a b = concat (map (\<lambda>n. L (word_of_nat n)) [unat a..<Suc (unat b)])"

definition serves :: "(u64 \<Rightarrow> Log list) \<Rightarrow> (u64 \<Rightarrow> u64 \<Rightarrow> Log list result) \<Rightarrow> bool" where
  "serves L fetch \<longleftrightarrow> (\<forall>a b logs. fetch a b = Inr logs \<longrightarrow> logs = block_logs L a b)"

lemma block_logs_append:
  assumes "a \<le> b" and "b < c"
  shows "block_logs L a b @ block_logs L (b + 1) c = block_logs L a c"
proof -
  have "[unat a..<Suc (unat c)] = [unat a..<Suc (unat b)] @ [Suc (unat b)..<Suc (unat c)]"
    using assms upt_add_eq_append [of "unat a" "Suc (unat b)" "unat c - unat b"]
    by (simp add: word_le_nat_alt word_less_nat_alt del: upt_Suc)
  then show ?thesis by (simp add: block_logs_def unat_next [OF assms(2)] del: upt_Suc)
qed

lemma unat_word_of_nat: "n \<le> 18446744073709551615 \<Longrightarrow> unat (word_of_nat n :: u64) = n"
  by (simp add: unsigned_of_nat take_bit_nat_eq_self)

lemma unat_piece:
  assumes "unat s + unat r \<le> 18446744073709551616" and "0 < unat (r :: u64)"
  shows "unat (s + r - 1) = unat s + unat r - 1"
proof -
  have "s + r - 1 = word_of_nat (unat s + unat r - 1)" using assms(2) by (simp add: of_nat_diff)
  also have "unat \<dots> = unat s + unat r - 1" using assms(1) by (intro unat_word_of_nat) linarith
  finally show ?thesis .
qed

lemma piece_end_bounds:
  assumes "start \<le> to" and "0 < log_width e" and "log_width e \<le> 100000"
  shows "start \<le> piece_end e start to" "piece_end e start to \<le> to"
    "unat (piece_end e start to - start + 1) \<le> log_width e"
proof -
  let ?r = "logRangeLocked e" and ?stop = "start + logRangeLocked e - 1"
  have r: "0 < unat ?r" "unat ?r \<le> 100000" using assms by (simp_all add: log_width_def)
  show s: "start \<le> piece_end e start to" using assms(1) by (auto simp: piece_end_def Let_def)
  show t: "piece_end e start to \<le> to" by (auto simp: piece_end_def Let_def)
  have n: "unat (piece_end e start to) - unat start + 1 \<le> unat ?r"
  proof (cases "unat start + unat ?r \<le> 18446744073709551616")
    case True
    have u: "unat ?stop = unat start + unat ?r - 1" by (rule unat_piece [OF True r(1)])
    then have "\<not> ?stop < start" using r by (simp add: word_less_nat_alt)
    then have "unat (piece_end e start to) \<le> unat ?stop" by (auto simp: piece_end_def Let_def word_less_nat_alt)
    then show ?thesis using u r by linarith
  next
    case False
    have "unat (piece_end e start to) \<le> 18446744073709551615" by (rule u64_bound)
    then show ?thesis using False r(1) by linarith
  qed
  have "unat (piece_end e start to - start) = unat (piece_end e start to) - unat start"
    using s by (simp add: unat_sub word_le_nat_alt)
  then have "unat (piece_end e start to - start + 1) = unat (piece_end e start to) - unat start + 1"
    using n r(2) by (simp add: unat_word_ariths)
  then show "unat (piece_end e start to - start + 1) \<le> log_width e" using n by (simp add: log_width_def)
qed

lemma logs_loop_complete:
  assumes "list_all (\<lambda>(now, fetch). serves L fetch) net" and "logs_loop e net start to = Some (e', Inr logs)"
    and "start \<le> to" and "endpoint_ok e"
  shows "logs = block_logs L start to"
  using assms
proof (induction e net start to arbitrary: e' logs rule: logs_loop.induct)
  case (2 e now fetch net start to)
  let ?stop = "piece_end e start to"
  have b: "start \<le> ?stop" "?stop \<le> to" using piece_end_bounds [OF "2.prems"(3)] "2.prems"(4) by (simp_all add: endpoint_ok_def)
  show ?case
  proof (cases "fetch start ?stop")
    case (Inl err)
    then show ?thesis using 2 logs_ok by (simp add: Let_def split: if_splits)
  next
    case (Inr ls)
    then have ls: "ls = block_logs L start ?stop" using "2.prems"(1) by (simp add: serves_def)
    show ?thesis
    proof (cases "?stop = to")
      case True
      then show ?thesis using Inr "2.prems"(2) ls by (simp add: Let_def)
    next
      case False
      then have lt: "?stop < to" using b(2) by simp
      then have "?stop + 1 \<le> to" by (simp add: word_le_nat_alt word_less_nat_alt unat_next [OF lt] Suc_le_eq)
      moreover obtain e2 rest where rest: "logs_loop (observeLogRange now (?stop - start + 1) False e) net (?stop + 1) to = Some (e2, Inr rest)"
        "logs = ls @ rest"
        using Inr False "2.prems"(2) by (auto simp: Let_def split: option.splits sum.splits)
      ultimately have "rest = block_logs L (?stop + 1) to"
        using "2.IH"(2) [OF refl refl Inr refl False] "2.prems" logs_ok by simp
      then show ?thesis using rest(2) ls block_logs_append [OF b(1) lt] by simp
    qed
  qed
qed simp

lemma logs_loop_enough:
  assumes "start \<le> to" and "endpoint_ok e" and "log_width e < 2 ^ k"
    and "18 * (unat to - unat start) + k + 1 \<le> length net"
  shows "logs_loop e net start to \<noteq> None"
  using assms
proof (induction net arbitrary: e start k)
  case (Cons x net)
  obtain now fetch where x: "x = (now, fetch)" by (cases x)
  let ?stop = "piece_end e start to"
  let ?asked = "?stop - start + 1"
  have w: "0 < log_width e" "log_width e \<le> 100000" using Cons.prems(2) by (simp_all add: endpoint_ok_def)
  note b = piece_end_bounds [OF Cons.prems(1) w]
  show ?case
  proof (cases "fetch start ?stop")
    case (Inr ls)
    show ?thesis
    proof (cases "?stop = to")
      case False
      then have lt: "?stop < to" using b(2) by simp
      let ?e = "observeLogRange now ?asked False e"
      have u: "unat (?stop + 1) = Suc (unat ?stop)" "unat ?stop < unat to" "unat start \<le> unat ?stop"
        using unat_next [OF lt] lt b(1) by (simp_all add: word_less_nat_alt word_le_nat_alt)
      then have st: "?stop + 1 \<le> to" by (simp add: word_le_nat_alt)
      have ok: "endpoint_ok ?e" using Cons.prems(2) by (rule logs_ok)
      then have k: "log_width ?e < 2 ^ 17" by (simp add: endpoint_ok_def)
      have "18 * (unat to - unat (?stop + 1)) + 17 + 1 \<le> length net"
        using Cons.prems(4) u by simp
      then have "logs_loop ?e net (?stop + 1) to \<noteq> None" by (rule Cons.IH [OF st ok k])
      then show ?thesis using Inr False by (auto simp: x Let_def split: sum.split)
    qed (use Inr in \<open>simp add: x Let_def\<close>)
  next
    case (Inl err)
    show ?thesis
    proof (cases "logsRefused err \<and> \<not> ?asked \<le> 1")
      case True
      let ?e = "observeLogRange now ?asked True e"
      have "2 \<le> unat ?asked" using True by (simp add: word_le_nat_alt not_le)
      then have "2 \<le> log_width e" using b(3) by linarith
      then obtain j where j: "k = Suc (Suc j)"
        using Cons.prems(3) by (cases k; cases "k - 1") auto
      have "log_width ?e = max (min (log_width e) (unat ?asked) div 2) 1" by (rule log_width_observe_refused)
      also have "\<dots> < 2 ^ Suc j" using Cons.prems(3) j one_less_power [of "2 :: nat" "Suc j"] by auto
      finally have "logs_loop ?e net start to \<noteq> None"
        using Cons.prems j by (intro Cons.IH [where k = "Suc j"] logs_ok) simp_all
      then show ?thesis using Inl True by (simp add: x Let_def)
    qed (use Inl in \<open>auto simp: x Let_def\<close>)
  qed
qed simp

text \<open>
  C20. Reading owner events over a range returns: at most 18 calls per block bring an endpoint to the
  logs or an error, however it refuses and whenever its range recovers. And when it returns logs they
  are those of every block of the range, in block order, none missed or repeated at a seam.
\<close>

theorem OwnerActsLogs_complete:
  assumes "endpoint_ok e" and "18 * (unat to - unat from + 1) \<le> length net"
    and "list_all (\<lambda>(now, fetch). serves L fetch) net"
  shows "\<exists>e' r. OwnerActsLogs e net from to = Some (e', r)
    \<and> (case r of Inl err \<Rightarrow> True | Inr logs \<Rightarrow> logs = (if to < from then [] else block_logs L from to))"
proof (cases "to < from")
  case False
  then have le: "from \<le> to" by simp
  have "log_width e < 2 ^ 17" using assms(1) by (simp add: endpoint_ok_def)
  then have "logs_loop e net from to \<noteq> None"
    using assms(2) by (intro logs_loop_enough [OF le assms(1), where k = 17]) simp_all
  then obtain e' r where s: "logs_loop e net from to = Some (e', r)" by auto
  show ?thesis
    using False s logs_loop_complete [OF assms(3) _ le assms(1)] by (cases r) (auto simp: OwnerActsLogs_def)
qed (simp add: OwnerActsLogs_def)

theorem OwnerActsLogs_complete_witness:
  "endpoint_ok (newEndpoint 50) \<and> 18 * (unat (6 :: u64) - unat (5 :: u64) + 1) \<le> length (replicate 36 ())
   \<and> list_all (\<lambda>(now, fetch). serves (\<lambda>n. []) fetch) (replicate 36 (1 :: gotime, \<lambda>a b. Inr (block_logs (\<lambda>n. []) a b)))
   \<and> (\<exists>e' r. OwnerActsLogs (newEndpoint 50) (replicate 36 (1 :: gotime, \<lambda>a b. Inr (block_logs (\<lambda>n. []) a b))) 5 6 = Some (e', r))"
proof -
  let ?net = "replicate 36 (1 :: gotime, \<lambda>a b. Inr (block_logs (\<lambda>n. []) a b))"
  have h: "endpoint_ok (newEndpoint 50)" "18 * (unat (6 :: u64) - unat (5 :: u64) + 1) \<le> length ?net"
    "list_all (\<lambda>(now, fetch). serves (\<lambda>n. []) fetch) ?net"
    by (simp_all add: endpoint_ok_new list_all_iff serves_def)
  then show ?thesis using OwnerActsLogs_complete [OF h] by auto
qed

end
