(* ===== verification/Holes.thy ===== *)
theory Holes
  imports Bucket Rpc_Calls "HOL-Library.List_Lexorder" "HOL-Library.Char_ord" "HOL-Library.Multiset"
begin

text \<open>
  The queue of missing block ranges (\<open>internal/model/model.go\<close>, \<open>internal/collector/fill.go\<close>,
  with \<open>recordHole\<close> of \<open>collector.go\<close> and \<open>resetHistoryHoles\<close> of \<open>history.go\<close>): the durable
  ranges the live follower skipped, the cursor and replay checkpoint a filler leaves in each,
  how the queue is normalized, and every operation that rewrites it.

  A time kept in a range is the RFC 3339 string the program stores; the program compares those
  strings bytewise, which is the lexicographic order of character codes here. The database is
  the list of ranges it holds, an operation maps the list it loads to the list it saves.
\<close>

section \<open>Strings of times and numbers\<close>

text \<open>What \<open>big.Int.SetString\<close> with base 10 reads; \<open>big_String\<close> is what \<open>String\<close> writes.\<close>

definition undigit :: "char \<Rightarrow> nat option" where
  "undigit c = (if 48 \<le> (of_char c :: nat) \<and> (of_char c :: nat) \<le> 57 then Some (of_char c - 48) else None)"

fun decimal_digits :: "nat \<Rightarrow> string \<Rightarrow> nat option" where
  "decimal_digits acc [] = Some acc"
| "decimal_digits acc (c # cs) =
     (case undigit c of None \<Rightarrow> None | Some d \<Rightarrow> decimal_digits (10 * acc + d) cs)"

definition SetString10 :: "string \<Rightarrow> bigint option" where
  "SetString10 s =
     (case s of
        [] \<Rightarrow> None
      | c # cs \<Rightarrow>
          let (neg, body) = (if c = CHR ''-'' then (True, cs) else if c = CHR ''+'' then (False, cs) else (False, s))
          in if body = [] then None
             else map_option (\<lambda>n. if neg then - int n else int n) (decimal_digits 0 body))"

text \<open>
  \<open>Time.UTC().Format(time.RFC3339)\<close>: the civil date of a day of the proleptic Gregorian
  calendar, counted in years that start in March so that the leap day comes last.
\<close>

definition civil :: "int \<Rightarrow> int \<times> int \<times> int" where
  "civil days =
     (let z = days + 306;
          era = z div 146097;
          doe = z mod 146097;
          yoe = (doe - doe div 1460 + doe div 36524 - doe div 146096) div 365;
          doy = doe - (365 * yoe + yoe div 4 - yoe div 100);
          mp = (5 * doy + 2) div 153;
          d = doy - (153 * mp + 2) div 5 + 1;
          mon = (if mp < 10 then mp + 3 else mp - 9)
      in (yoe + era * 400 + (if mon \<le> 2 then 1 else 0), mon, d))"

definition padded :: "nat \<Rightarrow> int \<Rightarrow> string" where
  "padded w v = (let s = dec_of_nat (nat v) in replicate (w - length s) (CHR ''0'') @ s)"

definition RFC3339 :: "gotime \<Rightarrow> string" where
  "RFC3339 t =
     (let secs = t div Second;
          (y, mon, d) = civil (secs div 86400);
          s = secs mod 86400
      in padded 4 y @ ''-'' @ padded 2 mon @ ''-'' @ padded 2 d @ ''T'' @
         padded 2 (s div 3600) @ '':'' @ padded 2 (s div 60 mod 60) @ '':'' @ padded 2 (s mod 60) @ ''Z'')"

text \<open>
  \<open>time.Parse(time.RFC3339, s)\<close>: two-digit fields, except that the hour may have one digit, an
  optional fraction of a second after a period or a comma, cut off after nine digits, and \<open>Z\<close> or
  an offset of at most 24 hours and 60 minutes. \<open>None\<close> is the parse error.
\<close>

definition getnum :: "bool \<Rightarrow> string \<Rightarrow> (nat \<times> string) option" where
  "getnum fixed s =
     (case s of
        [] \<Rightarrow> None
      | c # cs \<Rightarrow>
          (case undigit c of
             None \<Rightarrow> None
           | Some d \<Rightarrow>
               (case cs of
                  [] \<Rightarrow> if fixed then None else Some (d, cs)
                | c' # cs' \<Rightarrow>
                    (case undigit c' of
                       None \<Rightarrow> if fixed then None else Some (d, cs)
                     | Some d' \<Rightarrow> Some (10 * d + d', cs')))))"

definition expect :: "char \<Rightarrow> string \<Rightarrow> string option" where
  "expect c s = (case s of [] \<Rightarrow> None | x # xs \<Rightarrow> if x = c then Some xs else None)"

definition field :: "bool \<Rightarrow> nat \<Rightarrow> nat \<Rightarrow> string \<Rightarrow> (nat \<times> string) option" where
  "field fixed lo hi s =
     Option.bind (getnum fixed s) (\<lambda>(n, r). if lo \<le> n \<and> n \<le> hi then Some (n, r) else None)"

definition parse_year :: "string \<Rightarrow> (nat \<times> string) option" where
  "parse_year s =
     (if length s < 4 then None else map_option (\<lambda>y. (y, drop 4 s)) (decimal_digits 0 (take 4 s)))"

definition parse_fraction :: "string \<Rightarrow> int \<times> string" where
  "parse_fraction s =
     (case s of
        c # d # _ \<Rightarrow>
          if (c = CHR ''.'' \<or> c = CHR '','') \<and> undigit d \<noteq> None
          then let ds = take 9 (takeWhile (\<lambda>x. undigit x \<noteq> None) (tl s))
               in (int (the (decimal_digits 0 ds)) * 10 ^ (9 - length ds),
                   dropWhile (\<lambda>x. undigit x \<noteq> None) (tl s))
          else (0, s)
      | _ \<Rightarrow> (0, s))"

definition parse_zone :: "string \<Rightarrow> (int \<times> string) option" where
  "parse_zone s =
     (case s of
        [] \<Rightarrow> None
      | c # cs \<Rightarrow>
          if c = CHR ''Z'' then Some (0, cs)
          else if length s < 6 \<or> (c \<noteq> CHR ''+'' \<and> c \<noteq> CHR ''-'') then None
          else Option.bind (field True 0 24 (take 2 cs)) (\<lambda>(h, _).
               Option.bind (expect (CHR '':'') (drop 2 cs)) (\<lambda>r.
               Option.bind (field True 0 60 (take 2 r)) (\<lambda>(m, _).
                 Some ((if c = CHR ''-'' then - 1 else 1) * (int h * 3600 + int m * 60), drop 2 r)))))"

definition daysIn :: "nat \<Rightarrow> nat \<Rightarrow> nat" where
  "daysIn m y =
     (if m = 2 then if y mod 4 = 0 \<and> (y mod 100 \<noteq> 0 \<or> y mod 400 = 0) then 29 else 28
      else if m \<in> {4, 6, 9, 11} then 30 else 31)"

definition days_of_civil :: "int \<Rightarrow> int \<Rightarrow> int \<Rightarrow> int" where
  "days_of_civil y m d =
     (let y' = (if m \<le> 2 then y - 1 else y);
          yoe = y' mod 400;
          doy = (153 * (if 2 < m then m - 3 else m + 9) + 2) div 5 + d - 1
      in y' div 400 * 146097 + (yoe * 365 + yoe div 4 - yoe div 100 + doy) - 306)"

definition Parse :: "string \<Rightarrow> gotime option" where
  "Parse s =
     Option.bind (parse_year s) (\<lambda>(y, s).
     Option.bind (expect (CHR ''-'') s) (\<lambda>s.
     Option.bind (field True 1 12 s) (\<lambda>(mon, s).
     Option.bind (expect (CHR ''-'') s) (\<lambda>s.
     Option.bind (field True 0 99 s) (\<lambda>(d, s).
     Option.bind (expect (CHR ''T'') s) (\<lambda>s.
     Option.bind (field False 0 23 s) (\<lambda>(h, s).
     Option.bind (expect (CHR '':'') s) (\<lambda>s.
     Option.bind (field True 0 59 s) (\<lambda>(m, s).
     Option.bind (expect (CHR '':'') s) (\<lambda>s.
     Option.bind (field True 0 59 s) (\<lambda>(sec, s).
     (case parse_fraction s of (ns, s) \<Rightarrow>
     Option.bind (parse_zone s) (\<lambda>(zone, s).
       if s \<noteq> [] \<or> d < 1 \<or> daysIn mon y < d then None
       else Some ((days_of_civil (int y) (int mon) (int d) * 86400 + int h * 3600 + int m * 60 + int sec - zone)
                  * Second + ns))))))))))))))"

section \<open>Ranges\<close>

definition rangePending :: string where "rangePending = ''pending''"
definition rangeRetrying :: string where "rangeRetrying = ''retrying''"
definition rangeBlocked :: string where "rangeBlocked = ''blocked''"
definition reasonCatchUpLimit :: string where "reasonCatchUpLimit = ''catch up limit''"
definition reasonReplayDiscontinuity :: string where "reasonReplayDiscontinuity = ''replay discontinuity''"
definition reasonNoState :: string where "reasonNoState = ''no state''"
definition reasonExpired :: string where "reasonExpired = ''expired''"
definition reasonUnsupportedModel :: string where "reasonUnsupportedModel = ''unsupported model''"

record model_constraint =
  mcTarget :: u64
  mcWindow :: u64
  mcBacklog :: u64
  mcExponentBips :: i64

record HoleState =
  hsBlock :: u64
  hsHash :: string
  hsPrevTS :: u64
  hsMinBaseFee :: string
  hsConstraints :: "model_constraint list"
  hsLegacy :: "LegacyParams option"
  hsSetID :: i64
  hsPendingFee :: string
  hsPendingExponent :: i64
  hsPendingBips :: "i64 list"

record hole =
  From :: u64
  To :: u64
  At :: string
  Lifecycle :: string
  Next :: u64
  State :: "HoleState option"
  Folded :: u64
  Reason :: string
  RetryCount :: u64
  LastAttemptAt :: string
  NextRetryAt :: string
  LastError :: string
  PredecessorAt :: string
  SuccessorAt :: string
  CursorAt :: string

definition Start :: "hole \<Rightarrow> u64" where
  "Start h = (if From h < Next h \<and> Next h \<le> To h then Next h else From h)"

definition Blocks :: "hole \<Rightarrow> u64" where
  "Blocks h = (if To h < Start h then 0 else To h - Start h + 1)"

definition effectiveLifecycle :: "hole \<Rightarrow> string" where
  "effectiveLifecycle h =
     (if Lifecycle h \<noteq> [] then Lifecycle h
      else if Reason h = reasonNoState \<or> Reason h = reasonUnsupportedModel then rangeBlocked
      else rangePending)"

definition compatibleLifecycle :: "hole \<Rightarrow> hole \<Rightarrow> bool" where
  "compatibleLifecycle a b \<longleftrightarrow>
     (effectiveLifecycle a = rangeBlocked) = (effectiveLifecycle b = rangeBlocked)"

text \<open>The steps of \<open>mergeHole\<close> in the order the code takes them.\<close>

definition merge_extent :: "hole \<Rightarrow> hole \<Rightarrow> hole" where
  "merge_extent h i = i\<lparr>To := max (To i) (To h), Folded := max (Folded i) (Folded h)\<rparr>"

definition merge_lifecycle :: "hole \<Rightarrow> hole \<Rightarrow> hole" where
  "merge_lifecycle h i =
     i\<lparr>Lifecycle := (if effectiveLifecycle i = rangeRetrying \<or> effectiveLifecycle h = rangeRetrying
                    then rangeRetrying else effectiveLifecycle i)\<rparr>"

definition merge_cursor :: "hole \<Rightarrow> hole \<Rightarrow> hole" where
  "merge_cursor h i =
     (if From h = From i \<and> Next i < Next h
      then i\<lparr>Next := Next h, State := State h, CursorAt := CursorAt h\<rparr> else i)"

definition merge_bounds :: "u64 \<Rightarrow> hole \<Rightarrow> hole \<Rightarrow> hole" where
  "merge_bounds oldTo h i =
     i\<lparr>At := (if At i = [] \<or> (At h \<noteq> [] \<and> At h < At i) then At h else At i),
       PredecessorAt := (if PredecessorAt i = [] \<and> From h = From i then PredecessorAt h else PredecessorAt i),
       SuccessorAt := (if oldTo \<le> To h \<and> SuccessorAt h \<noteq> [] then SuccessorAt h else SuccessorAt i)\<rparr>"

definition merge_attempts :: "hole \<Rightarrow> hole \<Rightarrow> hole" where
  "merge_attempts h i =
     (let i = (if LastAttemptAt i < LastAttemptAt h
               then i\<lparr>LastAttemptAt := LastAttemptAt h, NextRetryAt := NextRetryAt h, LastError := LastError h\<rparr>
               else i)
      in i\<lparr>RetryCount := max (RetryCount i) (RetryCount h)\<rparr>)"

definition mergeHole :: "hole \<Rightarrow> hole \<Rightarrow> hole" where
  "mergeHole i h =
     merge_attempts h (merge_bounds (To i) h (merge_cursor h (merge_lifecycle h (merge_extent h i))))"

text \<open>
  \<open>sort.SliceStable\<close> by start and then by end is two stable sorts, the minor key first. The
  loop keeps the last merged range apart from the ones before it.
\<close>

definition mergeable :: "hole \<Rightarrow> hole \<Rightarrow> bool" where
  "mergeable prev h \<longleftrightarrow>
     compatibleLifecycle prev h \<and> Reason prev = Reason h \<and> To prev < MaxUint64 \<and> From h \<le> To prev + 1"

fun merge_loop :: "hole \<Rightarrow> hole list \<Rightarrow> hole list" where
  "merge_loop prev [] = [prev]"
| "merge_loop prev (h # hs) =
     (if mergeable prev h then merge_loop (mergeHole prev h) hs else prev # merge_loop h hs)"

definition normalizeHoles :: "hole list \<Rightarrow> hole list" where
  "normalizeHoles holes =
     (case sort_key From (sort_key To (filter (\<lambda>h. From h \<le> To h) holes)) of
        [] \<Rightarrow> []
      | h # hs \<Rightarrow> merge_loop h hs)"

section \<open>Durable rows\<close>

text \<open>
  A row of \<open>missing_ranges\<close>. The replay column is a JSON document: either one that decodes to a
  checkpoint, or one that does not (\<open>Inl\<close> with the decoder's error). \<open>created_at\<close> follows the
  detection time and \<open>updated_at\<close> is set by the database.
\<close>

datatype fill_error =
    BadTime string string
  | BadReplayState string
  | ConstraintViolation

record MissingRange =
  rChainID :: u64
  rFrom :: u64
  rTo :: u64
  rDetectedAt :: gotime
  rLifecycle :: string
  rReason :: string
  rCursor :: u64
  rReplayState :: "(string + HoleState) option"
  rFolded :: u64
  rRetryCount :: u64
  rLastAttemptAt :: "gotime option"
  rNextRetryAt :: "gotime option"
  rLastError :: "string option"
  rPredecessorAt :: "gotime option"
  rSuccessorAt :: "gotime option"
  rCursorAt :: "gotime option"
  rCreatedAt :: gotime

definition formatNullTime :: "gotime option \<Rightarrow> string" where
  "formatNullTime v = (case v of None \<Rightarrow> [] | Some t \<Rightarrow> RFC3339 t)"

definition requiredTime :: "string \<Rightarrow> string \<Rightarrow> fill_error + gotime" where
  "requiredTime raw fld = (case Parse raw of None \<Rightarrow> Inl (BadTime fld raw) | Some t \<Rightarrow> Inr t)"

definition optionalTime :: "string \<Rightarrow> string \<Rightarrow> fill_error + gotime option" where
  "optionalTime raw fld = (if raw = [] then Inr None else bind_err (requiredTime raw fld) (\<lambda>t. Inr (Some t)))"

definition holeFromRow :: "MissingRange \<Rightarrow> fill_error + hole" where
  "holeFromRow row =
     (let h = \<lparr>From = rFrom row, To = rTo row, At = RFC3339 (rDetectedAt row), Lifecycle = rLifecycle row,
               Next = rCursor row, State = None, Folded = rFolded row, Reason = rReason row,
               RetryCount = rRetryCount row, LastAttemptAt = formatNullTime (rLastAttemptAt row),
               NextRetryAt = formatNullTime (rNextRetryAt row),
               LastError = (case rLastError row of None \<Rightarrow> [] | Some e \<Rightarrow> e),
               PredecessorAt = formatNullTime (rPredecessorAt row),
               SuccessorAt = formatNullTime (rSuccessorAt row), CursorAt = formatNullTime (rCursorAt row)\<rparr>
      in case rReplayState row of
           None \<Rightarrow> Inr h
         | Some (Inl e) \<Rightarrow> Inl (BadReplayState e)
         | Some (Inr st) \<Rightarrow> Inr (h\<lparr>State := Some st\<rparr>))"

definition rowFromHole :: "u64 \<Rightarrow> hole \<Rightarrow> fill_error + MissingRange" where
  "rowFromHole chainID h =
     bind_err (requiredTime (At h) ''detected at'') (\<lambda>detected.
     bind_err (optionalTime (LastAttemptAt h) ''last attempt at'') (\<lambda>lastAttempt.
     bind_err (optionalTime (NextRetryAt h) ''next retry at'') (\<lambda>nextRetry.
     bind_err (optionalTime (PredecessorAt h) ''predecessor at'') (\<lambda>predecessor.
     bind_err (optionalTime (SuccessorAt h) ''successor at'') (\<lambda>successor.
     bind_err (optionalTime (CursorAt h) ''cursor at'') (\<lambda>cursorAt.
       Inr \<lparr>rChainID = chainID, rFrom = From h, rTo = To h, rDetectedAt = detected,
            rLifecycle = effectiveLifecycle h, rReason = Reason h, rCursor = Next h,
            rReplayState = map_option Inr (State h), rFolded = Folded h, rRetryCount = RetryCount h,
            rLastAttemptAt = lastAttempt, rNextRetryAt = nextRetry,
            rLastError = (if LastError h = [] then None else Some (LastError h)),
            rPredecessorAt = predecessor, rSuccessorAt = successor, rCursorAt = cursorAt,
            rCreatedAt = detected\<rparr>))))))"

text \<open>
  What the table accepts: a \<open>BIGINT\<close> holds no value above \<open>MaxInt64\<close>, the checks of the
  migration, and one row per start block. The replacement runs in the caller's transaction, so
  a violation leaves the old rows.
\<close>

definition row_ok :: "MissingRange \<Rightarrow> bool" where
  "row_ok r \<longleftrightarrow>
     uint (rTo r) \<le> MaxInt64 \<and> rFrom r \<le> rTo r
     \<and> rLifecycle r \<in> {rangePending, rangeRetrying, rangeBlocked}
     \<and> (rCursor r = 0 \<or> (rFrom r \<le> rCursor r \<and> uint (rCursor r) \<le> uint (rTo r) + 1 \<and> uint (rCursor r) \<le> MaxInt64))
     \<and> uint (rFolded r) \<le> MaxInt64 \<and> uint (rRetryCount r) \<le> MaxInt64"

definition ReplaceMissingRanges :: "MissingRange list \<Rightarrow> fill_error + MissingRange list" where
  "ReplaceMissingRanges rows =
     (if (\<forall>r\<in>set rows. row_ok r) \<and> distinct (map rFrom rows) then Inr rows else Inl ConstraintViolation)"

definition loadHoles :: "MissingRange list \<Rightarrow> fill_error + hole list" where
  "loadHoles rows = each_err holeFromRow rows"

definition saveHoles :: "u64 \<Rightarrow> gotime \<Rightarrow> hole list \<Rightarrow> fill_error + MissingRange list" where
  "saveHoles chainID now holes =
     bind_err (each_err (\<lambda>h. rowFromHole chainID (if At h = [] then h\<lparr>At := RFC3339 now\<rparr> else h))
                (normalizeHoles holes))
       ReplaceMissingRanges"

section \<open>Operations on the queue\<close>

definition recordHole :: "u64 \<Rightarrow> gotime \<Rightarrow> hole \<Rightarrow> MissingRange list \<Rightarrow> fill_error + MissingRange list" where
  "recordHole chainID now h rows =
     bind_err (loadHoles rows) (\<lambda>holes.
       let h = h\<lparr>At := RFC3339 now\<rparr>; h = h\<lparr>Lifecycle := effectiveLifecycle h\<rparr>
       in saveHoles chainID now (holes @ [h]))"

text \<open>
  The entries of the old JSON checkpoint as they are imported; \<open>importLegacyHoles\<close> appends them
  to the durable rows.
\<close>

definition importedHole :: "gotime \<Rightarrow> hole \<Rightarrow> hole" where
  "importedHole now h =
     (let h = (if At h = [] then h\<lparr>At := RFC3339 now\<rparr> else h)
      in if Reason h = reasonNoState then h\<lparr>Lifecycle := rangeBlocked\<rparr>
         else if Reason h = reasonExpired then h\<lparr>Lifecycle := rangePending, Reason := reasonCatchUpLimit\<rparr>
         else h\<lparr>Lifecycle := rangePending\<rparr>)"

definition importLegacyHoles ::
  "u64 \<Rightarrow> gotime \<Rightarrow> hole list \<Rightarrow> MissingRange list \<Rightarrow> fill_error + MissingRange list" where
  "importLegacyHoles chainID now legacy rows =
     bind_err (loadHoles rows) (\<lambda>existing.
       saveHoles chainID now (existing @ map (importedHole now) legacy))"

definition markHole :: "(u64 \<Rightarrow> string option) \<Rightarrow> hole \<Rightarrow> hole \<times> bool" where
  "markHole reasons h =
     (case reasons (From h) of
        None \<Rightarrow> (h, False)
      | Some reason \<Rightarrow>
          if Reason h = reason \<and> Lifecycle h = rangeBlocked then (h, False)
          else (h\<lparr>Reason := reason, Lifecycle := rangeBlocked, NextRetryAt := []\<rparr>, True))"

definition save_if_changed ::
  "u64 \<Rightarrow> gotime \<Rightarrow> MissingRange list \<Rightarrow> (hole \<times> bool) list \<Rightarrow> fill_error + MissingRange list" where
  "save_if_changed chainID now rows marked =
     (if \<exists>m\<in>set marked. snd m then saveHoles chainID now (map fst marked) else Inr rows)"

definition markHoles ::
  "u64 \<Rightarrow> gotime \<Rightarrow> (u64 \<Rightarrow> string option) \<Rightarrow> MissingRange list \<Rightarrow> fill_error + MissingRange list" where
  "markHoles chainID now reasons rows =
     bind_err (loadHoles rows) (\<lambda>holes. save_if_changed chainID now rows (map (markHole reasons) holes))"

definition restartDelay :: duration where
  "restartDelay = 5 * Second"

definition maxRetryDelay :: duration where
  "maxRetryDelay = 5 * 60 * Second"

text \<open>The doubling loop of \<open>retryDelay\<close>: it stops when the count or the cap is reached.\<close>

function retry_loop :: "u64 \<Rightarrow> u64 \<Rightarrow> duration \<Rightarrow> duration" where
  "retry_loop i tries delay =
     (if i < tries \<and> delay < maxRetryDelay then retry_loop (i + 1) tries (delay * 2) else delay)"
  by pat_completeness auto
termination
  by (relation "measure (\<lambda>(i, tries, _). unat tries - unat i)")
    (auto simp: unat_next word_less_nat_alt)

declare retry_loop.simps [simp del]

definition retryDelay :: "u64 \<Rightarrow> duration" where
  "retryDelay tries = min (retry_loop 1 tries restartDelay) maxRetryDelay"

definition failedHole :: "gotime \<Rightarrow> string \<Rightarrow> hole \<Rightarrow> hole" where
  "failedHole now cause h =
     (let n = RetryCount h + 1
      in h\<lparr>Lifecycle := rangeRetrying, RetryCount := n, LastAttemptAt := RFC3339 now,
           NextRetryAt := RFC3339 (now + retryDelay n), LastError := cause\<rparr>)"

text \<open>Only the first range that contains the attempted one is changed.\<close>

fun fail_first :: "gotime \<Rightarrow> string \<Rightarrow> hole \<Rightarrow> hole list \<Rightarrow> (hole \<times> bool) list" where
  "fail_first now cause attempted [] = []"
| "fail_first now cause attempted (h # hs) =
     (if From attempted < From h \<or> To h < To attempted
      then (h, False) # fail_first now cause attempted hs
      else (failedHole now cause h, True) # map (\<lambda>h. (h, False)) hs)"

definition recordFillFailure ::
  "u64 \<Rightarrow> gotime \<Rightarrow> hole \<Rightarrow> string \<Rightarrow> MissingRange list \<Rightarrow> fill_error + MissingRange list" where
  "recordFillFailure chainID now attempted cause rows =
     bind_err (loadHoles rows) (\<lambda>holes.
       save_if_changed chainID now rows (fail_first now cause attempted holes))"

definition advancedHole :: "hole \<Rightarrow> hole \<Rightarrow> hole" where
  "advancedHole h cur =
     cur\<lparr>Next := Next h, State := State h, Reason := Reason h, Lifecycle := Lifecycle h,
         CursorAt := CursorAt h, NextRetryAt := NextRetryAt h, LastError := LastError h,
         RetryCount := max (RetryCount cur) (RetryCount h), LastAttemptAt := LastAttemptAt h,
         Folded := max (Folded cur) (Folded h)\<rparr>"

fun advance_loop :: "hole \<Rightarrow> bool \<Rightarrow> hole list \<Rightarrow> hole list" where
  "advance_loop h done [] = []"
| "advance_loop h done (cur # hs) =
     (if From cur \<noteq> From h \<or> To cur < To h then cur # advance_loop h done hs
      else if done \<and> To cur = To h then advance_loop h done hs
      else advancedHole h cur # advance_loop h done hs)"

definition advanceHole ::
  "u64 \<Rightarrow> gotime \<Rightarrow> hole \<Rightarrow> bool \<Rightarrow> MissingRange list \<Rightarrow> fill_error + MissingRange list" where
  "advanceHole chainID now h done rows =
     bind_err (loadHoles rows) (\<lambda>holes. saveHoles chainID now (advance_loop h done holes))"

definition rewoundHole :: "u64 \<Rightarrow> bool \<Rightarrow> hole \<Rightarrow> hole \<times> bool" where
  "rewoundHole ancestor bucketsCleared h =
     (let cleared = bucketsCleared \<and> 0 < Folded h;
          h' = (if cleared then h\<lparr>Folded := 0\<rparr> else h)
      in if Next h = 0 \<or> Next h - 1 \<le> ancestor then (h', cleared)
         else (h'\<lparr>Next := 0, State := None, CursorAt := []\<rparr>, True))"

definition rewindHoles ::
  "u64 \<Rightarrow> gotime \<Rightarrow> u64 \<Rightarrow> bool \<Rightarrow> MissingRange list \<Rightarrow> fill_error + MissingRange list" where
  "rewindHoles chainID now ancestor bucketsCleared rows =
     bind_err (loadHoles rows) (\<lambda>holes.
       save_if_changed chainID now rows (map (rewoundHole ancestor bucketsCleared) holes))"

definition resetHole :: "bool \<Rightarrow> hole \<Rightarrow> hole \<times> bool" where
  "resetHole bucketsDeleted h =
     (let requeue = Reason h = reasonNoState;
          h1 = (if requeue then h\<lparr>Lifecycle := rangePending, Reason := [], NextRetryAt := [], LastError := []\<rparr> else h);
          restart = bucketsDeleted \<and> 0 < Folded h
      in (if restart then h1\<lparr>Next := 0, State := None, Folded := 0, CursorAt := []\<rparr> else h1,
          requeue \<or> restart))"

definition resetHistoryHoles ::
  "u64 \<Rightarrow> gotime \<Rightarrow> bool \<Rightarrow> MissingRange list \<Rightarrow> fill_error + MissingRange list" where
  "resetHistoryHoles chainID now bucketsDeleted rows =
     bind_err (loadHoles rows) (\<lambda>holes.
       save_if_changed chainID now rows (map (resetHole bucketsDeleted) holes))"

section \<open>Merging ranges\<close>

text \<open>The blocks of a range, the recovery class of a range, and the blocks a queue covers for a class.\<close>

definition hspan :: "hole \<Rightarrow> nat set" where
  "hspan h = {unat (From h)..unat (To h)}"

definition hclass :: "hole \<Rightarrow> bool \<times> string" where
  "hclass h = (effectiveLifecycle h = rangeBlocked, Reason h)"

definition covered :: "bool \<times> string \<Rightarrow> hole list \<Rightarrow> nat set" where
  "covered c hs = (\<Union>h\<in>{h \<in> set hs. hclass h = c}. hspan h)"

definition earlier :: "hole \<Rightarrow> hole \<Rightarrow> bool" where
  "earlier a b \<longleftrightarrow> From a \<le> From b \<and> (From a = From b \<longrightarrow> To a \<le> To b)"

lemma effectiveLifecycle_nonempty: "effectiveLifecycle h \<noteq> []"
  by (simp add: effectiveLifecycle_def rangeBlocked_def rangePending_def)

lemma merge_steps [simp]:
  "From (merge_extent h i) = From i" "From (merge_lifecycle h i) = From i" "From (merge_cursor h i) = From i"
  "From (merge_bounds t h i) = From i" "From (merge_attempts h i) = From i"
  "To (merge_lifecycle h i) = To i" "To (merge_cursor h i) = To i" "To (merge_bounds t h i) = To i"
  "To (merge_attempts h i) = To i"
  "Folded (merge_lifecycle h i) = Folded i" "Folded (merge_cursor h i) = Folded i"
  "Folded (merge_bounds t h i) = Folded i" "Folded (merge_attempts h i) = Folded i"
  "Reason (merge_extent h i) = Reason i" "Reason (merge_lifecycle h i) = Reason i"
  "Reason (merge_cursor h i) = Reason i" "Reason (merge_bounds t h i) = Reason i"
  "Reason (merge_attempts h i) = Reason i"
  "Lifecycle (merge_extent h i) = Lifecycle i" "Lifecycle (merge_cursor h i) = Lifecycle i"
  "Lifecycle (merge_bounds t h i) = Lifecycle i" "Lifecycle (merge_attempts h i) = Lifecycle i"
  "Next (merge_extent h i) = Next i" "Next (merge_lifecycle h i) = Next i"
  "Next (merge_bounds t h i) = Next i" "Next (merge_attempts h i) = Next i"
  "effectiveLifecycle (merge_extent h i) = effectiveLifecycle i"
  by (simp_all add: merge_extent_def merge_lifecycle_def merge_cursor_def merge_bounds_def merge_attempts_def
      Let_def effectiveLifecycle_def)

lemma mergeHole_fields [simp]:
  "From (mergeHole i h) = From i"
  "To (mergeHole i h) = max (To i) (To h)"
  "Folded (mergeHole i h) = max (Folded i) (Folded h)"
  "Reason (mergeHole i h) = Reason i"
  "Next (mergeHole i h) = (if From h = From i \<and> Next i < Next h then Next h else Next i)"
  by (simp_all add: mergeHole_def) (simp_all add: merge_extent_def merge_cursor_def merge_lifecycle_def)

lemma mergeHole_Lifecycle:
  "Lifecycle (mergeHole i h) =
     (if effectiveLifecycle i = rangeRetrying \<or> effectiveLifecycle h = rangeRetrying
      then rangeRetrying else effectiveLifecycle i)"
  by (simp add: mergeHole_def) (simp add: merge_lifecycle_def)

lemma lifecycle_distinct [simp]:
  "rangeRetrying \<noteq> rangeBlocked" "rangePending \<noteq> rangeBlocked" "rangePending \<noteq> rangeRetrying" "rangeRetrying \<noteq> []"
  "rangeBlocked \<noteq> rangeRetrying"
  by (simp_all add: rangeRetrying_def rangeBlocked_def rangePending_def)

lemma mergeHole_class:
  assumes "mergeable i h"
  shows "hclass (mergeHole i h) = hclass i" "hclass h = hclass i"
proof -
  have "effectiveLifecycle (mergeHole i h) = Lifecycle (mergeHole i h)"
    using effectiveLifecycle_nonempty [of i] by (simp add: effectiveLifecycle_def [of "mergeHole i h"] mergeHole_Lifecycle)
  then show "hclass (mergeHole i h) = hclass i" "hclass h = hclass i"
    using assms by (auto simp: hclass_def mergeable_def compatibleLifecycle_def mergeHole_Lifecycle)
qed

lemma mergeHole_span:
  assumes "mergeable i h" "From i \<le> From h" "From i \<le> To i" "From h \<le> To h"
  shows "hspan (mergeHole i h) = hspan i \<union> hspan h"
proof -
  have "unat (From h) \<le> Suc (unat (To i))"
    using assms(1) unat_next [of "To i" MaxUint64] by (simp add: mergeable_def word_le_nat_alt)
  then show ?thesis using assms(2-4) by (auto simp: hspan_def unat_max word_le_nat_alt)
qed

lemma merge_loop_covered:
  assumes "sorted (map From (p # hs))" "\<forall>h\<in>set (p # hs). From h \<le> To h"
  shows "covered c (merge_loop p hs) = covered c (p # hs)"
  using assms
proof (induction p hs rule: merge_loop.induct)
  case (2 prev h hs)
  show ?case
  proof (cases "mergeable prev h")
    case True
    have "covered c (merge_loop (mergeHole prev h) hs) = covered c (mergeHole prev h # hs)"
      using 2 True by (intro "2.IH"(1)) (auto simp: le_max_iff_disj)
    also have "\<dots> = covered c (prev # h # hs)"
      using 2(3,4) mergeHole_class [OF True] mergeHole_span [OF True] by (auto simp: covered_def)
    finally show ?thesis using True by simp
  next
    case False
    have "covered c (merge_loop h hs) = covered c (h # hs)"
      using 2 False by (intro "2.IH"(2)) auto
    then show ?thesis using False by (auto simp: covered_def)
  qed
qed (simp add: covered_def)

lemma merge_loop_origin:
  assumes "g \<in> set (merge_loop p hs)"
  shows "\<exists>y\<in>set (p # hs). From g = From y \<and> To y \<le> To g"
  using assms
proof (induction p hs rule: merge_loop.induct)
  case (2 prev h hs)
  show ?case
  proof (cases "mergeable prev h")
    case True
    then have "\<exists>y\<in>set (mergeHole prev h # hs). From g = From y \<and> To y \<le> To g"
      using 2 by simp
    then show ?thesis by auto
  next
    case False
    then show ?thesis using 2 by auto
  qed
qed simp

lemma merge_loop_keeps:
  assumes "sorted (map From (p # hs))" "\<forall>h\<in>set (p # hs). From h \<le> To h" "y \<in> set (p # hs)"
  shows "\<exists>g\<in>set (merge_loop p hs). hclass g = hclass y \<and> hspan y \<subseteq> hspan g \<and> Folded y \<le> Folded g"
  using assms
proof (induction p hs arbitrary: y rule: merge_loop.induct)
  case (2 prev h hs)
  show ?case
  proof (cases "mergeable prev h")
    case True
    let ?m = "mergeHole prev h"
    have sub: "hspan ?m = hspan prev \<union> hspan h" using mergeHole_span [OF True] 2(3,4) by simp
    obtain z where z: "z \<in> set (?m # hs)" "hclass z = hclass y" "hspan y \<subseteq> hspan z" "Folded y \<le> Folded z"
    proof (cases "y \<in> set hs")
      case False
      then have "y = prev \<or> y = h" using 2(5) by simp
      then have "hclass ?m = hclass y \<and> hspan y \<subseteq> hspan ?m \<and> Folded y \<le> Folded ?m"
        using sub mergeHole_class [OF True] by auto
      then show ?thesis using that [of ?m] by simp
    qed (use that [of y] in simp)
    have "sorted (map From (?m # hs))" "\<forall>h\<in>set (?m # hs). From h \<le> To h"
      using 2(3,4) by (auto simp: le_max_iff_disj)
    from "2.IH"(1) [OF True this z(1)] z(2-4) show ?thesis using True by (metis merge_loop.simps(2) order_trans)
  next
    case False
    have "y = prev \<or> y \<in> set (h # hs)" using 2(5) by simp
    then show ?thesis
    proof
      assume "y \<in> set (h # hs)"
      from "2.IH"(2) [OF False _ _ this] 2(3,4) show ?thesis using False by auto
    qed (use False in auto)
  qed
qed auto

lemma merge_loop_earlier:
  assumes "sorted_wrt earlier (p # hs)"
  shows "sorted_wrt earlier (merge_loop p hs)"
  using assms
proof (induction p hs rule: merge_loop.induct)
  case (2 prev h hs)
  show ?case
  proof (cases "mergeable prev h")
    case True
    have "earlier (mergeHole prev h) y" if "y \<in> set hs" for y
      using "2.prems" that by (auto simp: earlier_def dest!: bspec)
    then have "sorted_wrt earlier (mergeHole prev h # hs)" using "2.prems" by simp
    then show ?thesis using "2.IH"(1) True by simp
  next
    case False
    have "earlier prev g" if g: "g \<in> set (merge_loop h hs)" for g
    proof -
      obtain y where "y \<in> set (h # hs)" "From g = From y" "To y \<le> To g" using merge_loop_origin [OF g] by auto
      moreover have "earlier prev y" using "2.prems" \<open>y \<in> set (h # hs)\<close> by auto
      ultimately show ?thesis by (auto simp: earlier_def)
    qed
    then show ?thesis using "2.IH"(2) "2.prems" False by simp
  qed
qed simp

lemma merge_loop_valid:
  assumes "\<forall>h\<in>set (p # hs). From h \<le> To h" "g \<in> set (merge_loop p hs)"
  shows "From g \<le> To g"
proof -
  obtain y where "y \<in> set (p # hs)" "From g = From y" "To y \<le> To g"
    using merge_loop_origin [OF assms(2)] by auto
  then show ?thesis using assms(1) by (metis order_trans)
qed

text \<open>No range of the result can be merged into the one before it.\<close>

fun unmerged :: "hole list \<Rightarrow> bool" where
  "unmerged (a # b # hs) \<longleftrightarrow> \<not> mergeable a b \<and> unmerged (b # hs)"
| "unmerged _ \<longleftrightarrow> True"

lemma merge_loop_hd:
  "merge_loop p hs \<noteq> [] \<and> From (hd (merge_loop p hs)) = From p \<and> hclass (hd (merge_loop p hs)) = hclass p"
proof (induction p hs rule: merge_loop.induct)
  case (2 prev h hs)
  then show ?case using mergeHole_class(1) [of prev h] by (cases "mergeable prev h") simp_all
qed simp

lemma mergeable_cong:
  "From g = From h \<Longrightarrow> hclass g = hclass h \<Longrightarrow> mergeable p g = mergeable p h"
  by (auto simp: mergeable_def hclass_def compatibleLifecycle_def)

lemma merge_loop_unmerged: "unmerged (merge_loop p hs)"
proof (induction p hs rule: merge_loop.induct)
  case (2 prev h hs)
  show ?case
  proof (cases "mergeable prev h")
    case False
    obtain g gs where g: "merge_loop h hs = g # gs" "From g = From h" "hclass g = hclass h"
      using merge_loop_hd [of h hs] by (cases "merge_loop h hs") auto
    then show ?thesis using 2(2) [OF False] False mergeable_cong [OF g(2,3), of prev] by simp
  qed (use 2 in simp)
qed simp

lemma merge_loop_id: "unmerged (p # hs) \<Longrightarrow> merge_loop p hs = p # hs"
  by (induction p hs rule: merge_loop.induct) simp_all

section \<open>Normalization\<close>

lemma sorted_wrt_lex:
  assumes "sorted (map f xs)" "\<And>k. sorted (map g (filter (\<lambda>y. f y = k) xs))"
  shows "sorted_wrt (\<lambda>x y. f x \<le> f y \<and> (f x = f y \<longrightarrow> g x \<le> g y)) xs"
  using assms
proof (induction xs)
  case (Cons x xs)
  have "g x \<le> g y" if "y \<in> set xs" "f x = f y" for y
    using Cons.prems(2) [of "f x"] that by auto
  moreover have "sorted (map g (filter (\<lambda>y. f y = k) xs))" for k
    using Cons.prems(2) [of k] by (auto split: if_splits)
  ultimately show ?case using Cons by auto
qed simp

abbreviation ordered :: "hole list \<Rightarrow> hole list" where
  "ordered hs \<equiv> sort_key From (sort_key To hs)"

lemma ordered_earlier: "sorted_wrt earlier (ordered hs)"
proof -
  have "sorted_wrt (\<lambda>x y. From x \<le> From y \<and> (From x = From y \<longrightarrow> To x \<le> To y)) (ordered hs)"
    by (rule sorted_wrt_lex) (simp_all add: sort_key_stable filter_sort)
  then show ?thesis by (simp add: earlier_def [abs_def])
qed

lemma ordered_id:
  assumes "sorted_wrt earlier hs"
  shows "ordered hs = hs"
proof (rule properties_for_sort_key)
  fix k assume "k \<in> set hs"
  have "sorted (map To (filter (\<lambda>x. From k = From x) hs))"
    using assms by (induction hs) (auto simp: earlier_def)
  then show "filter (\<lambda>x. From k = From x) hs = filter (\<lambda>x. From k = From x) (sort_key To hs)"
    by (simp add: filter_sort sort_key_id_if_sorted)
next
  show "sorted (map From hs)" using assms by (induction hs) (auto simp: earlier_def)
qed simp

lemma normalizeHoles_cases:
  obtains "normalizeHoles hs = []" "filter (\<lambda>h. From h \<le> To h) hs = []"
  | p qs where "normalizeHoles hs = merge_loop p qs" "ordered (filter (\<lambda>h. From h \<le> To h) hs) = p # qs"
      "sorted_wrt earlier (p # qs)" "sorted (map From (p # qs))" "\<forall>h\<in>set (p # qs). From h \<le> To h"
      "set (p # qs) = {h \<in> set hs. From h \<le> To h}"
proof (cases "ordered (filter (\<lambda>h. From h \<le> To h) hs)")
  case Nil
  then have "set (ordered (filter (\<lambda>h. From h \<le> To h) hs)) = {}" by simp
  then have "filter (\<lambda>h. From h \<le> To h) hs = []" by (simp add: filter_empty_conv)
  then show ?thesis using that(1) by (simp add: normalizeHoles_def)
next
  case (Cons p qs)
  have e: "sorted_wrt earlier (p # qs)" using ordered_earlier by (metis Cons)
  have "sorted (map From (p # qs))" by (metis Cons sorted_sort_key)
  moreover have "set (p # qs) = {h \<in> set hs. From h \<le> To h}"
    using arg_cong [OF Cons, of set] by simp
  moreover from this have "\<forall>h\<in>set (p # qs). From h \<le> To h" by blast
  moreover have "normalizeHoles hs = merge_loop p qs" unfolding normalizeHoles_def Cons by simp
  ultimately show ?thesis using that(2) Cons e by blast
qed

lemma merge_loop_induct_inv:
  assumes "\<And>h. h \<in> set (p # hs) \<Longrightarrow> P h" "\<And>i h. P i \<Longrightarrow> P h \<Longrightarrow> P (mergeHole i h)"
    and "g \<in> set (merge_loop p hs)"
  shows "P g"
  using assms(1,3)
proof (induction p hs rule: merge_loop.induct)
  case (2 prev h hs)
  then show ?case using assms(2) [of prev h] by (cases "mergeable prev h") auto
qed simp

lemma normalizeHoles_inv:
  assumes "\<And>h. h \<in> set hs \<Longrightarrow> P h" "\<And>i h. P i \<Longrightarrow> P h \<Longrightarrow> P (mergeHole i h)"
    and "g \<in> set (normalizeHoles hs)"
  shows "P g"
  using assms(3)
proof (cases hs rule: normalizeHoles_cases)
  case (2 p qs)
  show ?thesis
  proof (rule merge_loop_induct_inv [of p qs P])
    show "P h" if "h \<in> set (p # qs)" for h using that assms(1) unfolding 2(6) by blast
    show "g \<in> set (merge_loop p qs)" using assms(3) unfolding 2(1) .
  qed (rule assms(2))
qed simp

lemma normalizeHoles_covered: "covered c (normalizeHoles hs) = covered c hs"
proof (cases hs rule: normalizeHoles_cases)
  case 1
  then have "hspan h = {}" if "h \<in> set hs" for h
    using that by (auto simp: filter_empty_conv hspan_def word_le_nat_alt)
  then show ?thesis using 1 by (auto simp: covered_def)
next
  case (2 p qs)
  have "covered c (merge_loop p qs) = covered c (p # qs)" by (rule merge_loop_covered [OF 2(4,5)])
  moreover have "covered c (p # qs) = covered c hs"
    unfolding covered_def 2(6) by (auto simp: hspan_def word_le_nat_alt)
  ultimately show ?thesis using 2(1) by simp
qed

lemma normalizeHoles_keeps:
  assumes "h \<in> set hs" "From h \<le> To h"
  shows "\<exists>g\<in>set (normalizeHoles hs). hclass g = hclass h \<and> hspan h \<subseteq> hspan g \<and> Folded h \<le> Folded g"
proof (cases hs rule: normalizeHoles_cases)
  case 1
  then show ?thesis using assms by (auto simp: filter_empty_conv)
next
  case (2 p qs)
  have "h \<in> set (p # qs)" using assms unfolding 2(6) by simp
  from merge_loop_keeps [OF 2(4,5) this] show ?thesis using 2(1) by simp
qed

lemma normalizeHoles_shape:
  "sorted_wrt earlier (normalizeHoles hs) \<and> unmerged (normalizeHoles hs) \<and> (\<forall>h\<in>set (normalizeHoles hs). From h \<le> To h)"
proof (cases hs rule: normalizeHoles_cases)
  case (2 p qs)
  have "sorted_wrt earlier (merge_loop p qs)" by (rule merge_loop_earlier [OF 2(3)])
  moreover have "\<forall>h\<in>set (merge_loop p qs). From h \<le> To h" using merge_loop_valid [OF 2(5)] by blast
  ultimately show ?thesis using merge_loop_unmerged [of p qs] unfolding 2(1) by blast
qed simp

lemma normalizeHoles_fixed:
  assumes "sorted_wrt earlier hs" "unmerged hs" "\<forall>h\<in>set hs. From h \<le> To h"
  shows "normalizeHoles hs = hs"
proof -
  have "filter (\<lambda>h. From h \<le> To h) hs = hs" using assms(3) by simp
  then have "normalizeHoles hs = (case hs of [] \<Rightarrow> [] | p # qs \<Rightarrow> merge_loop p qs)"
    unfolding normalizeHoles_def using ordered_id [OF assms(1)] by simp
  then show ?thesis using assms(2) by (cases hs) (simp_all add: merge_loop_id)
qed

lemma normalizeHoles_span: "(\<Union>h\<in>set (normalizeHoles hs). hspan h) = (\<Union>h\<in>set hs. hspan h)"
proof -
  have "(\<Union>h\<in>set xs. hspan h) = (\<Union>c. covered c xs)" for xs by (auto simp: covered_def)
  then show ?thesis by (simp add: normalizeHoles_covered)
qed


section \<open>What a save stores\<close>

definition rspan :: "MissingRange \<Rightarrow> nat set" where
  "rspan r = {unat (rFrom r)..unat (rTo r)}"

definition missing :: "MissingRange list \<Rightarrow> nat set" where
  "missing rows = (\<Union>r\<in>set rows. rspan r)"

definition decodes :: "MissingRange \<Rightarrow> bool" where
  "decodes r \<longleftrightarrow> (case rReplayState r of Some (Inl e) \<Rightarrow> False | _ \<Rightarrow> True)"

definition table_ok :: "MissingRange list \<Rightarrow> bool" where
  "table_ok rows \<longleftrightarrow>
     (\<forall>r\<in>set rows. row_ok r \<and> decodes r) \<and> distinct (map rFrom rows) \<and> sorted (map rFrom rows)"

text \<open>A cursor is sound for a set of indexed blocks when every block it has passed is indexed.\<close>

definition hole_sound :: "nat set \<Rightarrow> hole \<Rightarrow> bool" where
  "hole_sound D h \<longleftrightarrow> {unat (From h)..<unat (Next h)} \<subseteq> D"

definition row_sound :: "nat set \<Rightarrow> MissingRange \<Rightarrow> bool" where
  "row_sound D r \<longleftrightarrow> {unat (rFrom r)..<unat (rCursor r)} \<subseteq> D"

lemma mergeHole_sound: "hole_sound D i \<Longrightarrow> hole_sound D h \<Longrightarrow> hole_sound D (mergeHole i h)"
  by (auto simp: hole_sound_def)

lemmas normalizeHoles_sound = normalizeHoles_inv [where P = "hole_sound D" for D, OF _ mergeHole_sound]

text \<open>The fields a row and the range read from it or written to it share.\<close>

definition agrees :: "hole \<Rightarrow> MissingRange \<Rightarrow> bool" where
  "agrees h r \<longleftrightarrow> rFrom r = From h \<and> rTo r = To h \<and> rCursor r = Next h \<and> rFolded r = Folded h \<and> rReason r = Reason h"

lemma agrees_span: "agrees h r \<Longrightarrow> rspan r = hspan h" "agrees h r \<Longrightarrow> row_sound D r = hole_sound D h"
  by (simp_all add: agrees_def rspan_def hspan_def row_sound_def hole_sound_def)

lemma holeFromRow_agrees: "holeFromRow r = Inr h \<Longrightarrow> agrees h r"
  by (auto simp: holeFromRow_def Let_def agrees_def split: option.splits sum.splits)

lemma holeFromRow_decodes: "decodes r \<longleftrightarrow> (\<exists>h. holeFromRow r = Inr h)"
  by (auto simp: holeFromRow_def Let_def decodes_def split: option.splits sum.splits)

lemma rowFromHole_agrees: "rowFromHole c h = Inr r \<Longrightarrow> agrees h r \<and> decodes r"
  by (auto simp: rowFromHole_def bind_err_eq_Inr agrees_def decodes_def split: option.splits)

lemma each_err_list_all2:
  "each_err f xs = Inr ys \<Longrightarrow> (\<And>x y. f x = Inr y \<Longrightarrow> P x y) \<Longrightarrow> list_all2 P xs ys"
  by (simp add: each_err_Inr list_all2_conv_all_nth)

lemma list_all2_union:
  "list_all2 (\<lambda>x y. f x = g y) xs ys \<Longrightarrow> (\<Union>x\<in>set xs. f x) = (\<Union>y\<in>set ys. g y)"
  by (induction rule: list_all2_induct) simp_all

lemma loadHoles_agrees: "loadHoles rows = Inr hs \<Longrightarrow> list_all2 (\<lambda>r h. agrees h r) rows hs"
  unfolding loadHoles_def by (erule each_err_list_all2) (rule holeFromRow_agrees)

lemma loadHoles_total: "table_ok rows \<Longrightarrow> \<exists>hs. loadHoles rows = Inr hs"
  unfolding loadHoles_def table_ok_def
proof (induction rows)
  case (Cons r rows)
  then show ?case using holeFromRow_decodes [of r] by (auto simp: bind_err_eq_Inr)
qed simp

lemma loadHoles_facts:
  assumes "loadHoles rows = Inr hs"
  shows "missing rows = (\<Union>h\<in>set hs. hspan h)" "(\<forall>r\<in>set rows. row_sound D r) = (\<forall>h\<in>set hs. hole_sound D h)"
proof -
  note l = loadHoles_agrees [OF assms]
  have "list_all2 (\<lambda>r h. rspan r = hspan h) rows hs" by (rule list_all2_mono [OF l]) (rule agrees_span)
  from list_all2_union [OF this] show "missing rows = (\<Union>h\<in>set hs. hspan h)" by (simp add: missing_def)
  show "(\<forall>r\<in>set rows. row_sound D r) = (\<forall>h\<in>set hs. hole_sound D h)"
    using l by (induction rule: list_all2_induct) (simp_all add: agrees_span)
qed

lemma saveHoles_facts:
  assumes "saveHoles c now hs = Inr rows"
  shows "missing rows = (\<Union>h\<in>set hs. hspan h)" "table_ok rows"
    "(\<forall>h\<in>set hs. hole_sound D h) \<Longrightarrow> (\<forall>r\<in>set rows. row_sound D r)"
proof -
  let ?n = "normalizeHoles hs"
  let ?f = "\<lambda>h. rowFromHole c (if At h = [] then h\<lparr>At := RFC3339 now\<rparr> else h)"
  have e: "each_err ?f ?n = Inr rows" and t: "\<forall>r\<in>set rows. row_ok r" "distinct (map rFrom rows)"
    using assms by (auto simp: saveHoles_def bind_err_eq_Inr ReplaceMissingRanges_def split: if_splits)
  have "agrees h r \<and> decodes r" if "?f h = Inr r" for h r
    using rowFromHole_agrees [OF that] by (auto simp: agrees_def)
  from each_err_list_all2 [OF e this] have l: "list_all2 (\<lambda>h r. agrees h r \<and> decodes r) ?n rows" by simp
  have "list_all2 (\<lambda>h r. hspan h = rspan r) ?n rows"
    by (rule list_all2_mono [OF l]) (auto dest: agrees_span(1))
  from list_all2_union [OF this] show "missing rows = (\<Union>h\<in>set hs. hspan h)"
    by (simp add: missing_def normalizeHoles_span)
  have "map rFrom rows = map From ?n \<and> (\<forall>r\<in>set rows. decodes r)"
    using l by (induction rule: list_all2_induct) (auto simp: agrees_def)
  moreover have "sorted (map From ?n)"
    using normalizeHoles_shape [of hs] unfolding sorted_map
    by (auto elim!: sorted_wrt_mono_rel [rotated] simp: earlier_def)
  ultimately show "table_ok rows" using t by (simp add: table_ok_def)
  show "\<forall>r\<in>set rows. row_sound D r" if "\<forall>h\<in>set hs. hole_sound D h"
  proof -
    have "\<forall>h\<in>set ?n. hole_sound D h" using normalizeHoles_sound [of hs D] that by blast
    then show ?thesis using l
      by (auto simp: list_all2_conv_all_nth all_set_conv_all_nth) (metis agrees_span(2))
  qed
qed

section \<open>Operations that rewrite ranges in place\<close>

text \<open>
  The contract the in-place operations share: they answer range by range, keep the extent of
  each, and report a range they left alone as unchanged. What is saved then covers the same
  blocks, and a cursor claim that holds for the rewritten ranges holds for the saved rows.
\<close>

definition in_place :: "hole \<Rightarrow> hole \<times> bool \<Rightarrow> bool" where
  "in_place h m \<longleftrightarrow> From (fst m) = From h \<and> To (fst m) = To h \<and> (snd m \<or> fst m = h)"

locale queue_update =
  fixes upds :: "hole list \<Rightarrow> (hole \<times> bool) list"
  assumes upds_in_place: "list_all2 in_place hs (upds hs)"
begin

lemma upds_span: "(\<Union>m\<in>set (upds hs). hspan (fst m)) = (\<Union>h\<in>set hs. hspan h)"
proof -
  have "list_all2 (\<lambda>h m. hspan h = hspan (fst m)) hs (upds hs)"
    by (rule list_all2_mono [OF upds_in_place]) (simp add: in_place_def hspan_def)
  from list_all2_union [OF this] show ?thesis ..
qed

lemma upds_unchanged: "\<forall>m\<in>set (upds hs). \<not> snd m \<Longrightarrow> map fst (upds hs) = hs"
  using upds_in_place [of hs] by (induction rule: list_all2_induct) (auto simp: in_place_def)

lemma updated_rows:
  assumes "bind_err (loadHoles rows) (\<lambda>hs. save_if_changed c now rows (upds hs)) = Inr rows'" "table_ok rows"
  obtains hs where "loadHoles rows = Inr hs" "missing rows' = missing rows" "table_ok rows'"
    "\<And>D. \<forall>m\<in>set (upds hs). hole_sound D (fst m) \<Longrightarrow> \<forall>r\<in>set rows'. row_sound D r"
proof -
  obtain hs where hs: "loadHoles rows = Inr hs" "save_if_changed c now rows (upds hs) = Inr rows'"
    using assms(1) by (auto simp: bind_err_eq_Inr)
  show ?thesis
  proof (cases "\<exists>m\<in>set (upds hs). snd m")
    case True
    then have s: "saveHoles c now (map fst (upds hs)) = Inr rows'" using hs(2) by (simp add: save_if_changed_def)
    have "missing rows' = missing rows"
      using saveHoles_facts(1) [OF s] loadHoles_facts(1) [OF hs(1)] by (simp add: upds_span)
    moreover have "\<forall>r\<in>set rows'. row_sound D r" if "\<forall>m\<in>set (upds hs). hole_sound D (fst m)" for D
      by (rule saveHoles_facts(3) [OF s]) (use that in simp)
    ultimately show ?thesis using that hs(1) saveHoles_facts(2) [OF s] by blast
  next
    case False
    then have r: "rows' = rows" and u: "map fst (upds hs) = hs"
      using hs(2) upds_unchanged [of hs] by (auto simp: save_if_changed_def)
    have "\<forall>r\<in>set rows'. row_sound D r" if "\<forall>m\<in>set (upds hs). hole_sound D (fst m)" for D
    proof -
      have "\<forall>h\<in>set (map fst (upds hs)). hole_sound D h" using that by simp
      then have "\<forall>h\<in>set hs. hole_sound D h" by (simp only: u)
      then show ?thesis using loadHoles_facts(2) [OF hs(1)] by (simp add: r)
    qed
    then show ?thesis using that hs(1) assms(2) r by blast
  qed
qed

end

lemma markHole_in_place: "in_place h (markHole reasons h)"
  by (simp add: in_place_def markHole_def split: option.split)

lemma rewoundHole_in_place: "in_place h (rewoundHole ancestor cleared h)"
  by (simp add: in_place_def rewoundHole_def Let_def)

lemma resetHole_in_place: "in_place h (resetHole deleted h)"
  by (simp add: in_place_def resetHole_def Let_def)

lemma fail_first_in_place: "list_all2 in_place hs (fail_first now cause a hs)"
proof (induction hs)
  case (Cons h hs)
  have "list_all2 in_place hs (map (\<lambda>h. (h, False)) hs)"
    by (simp add: list_all2_conv_all_nth in_place_def)
  moreover have "in_place h (h, False)" "in_place h (failedHole now cause h, True)"
    by (simp_all add: in_place_def failedHole_def Let_def)
  ultimately show ?case using Cons by simp
qed simp

interpretation marking: queue_update "map (markHole reasons)" for reasons
  by unfold_locales (simp add: list_all2_conv_all_nth markHole_in_place)

interpretation rewinding: queue_update "map (rewoundHole ancestor cleared)" for ancestor cleared
  by unfold_locales (simp add: list_all2_conv_all_nth rewoundHole_in_place)

interpretation resetting: queue_update "map (resetHole deleted)" for deleted
  by unfold_locales (simp add: list_all2_conv_all_nth resetHole_in_place)

interpretation failing: queue_update "fail_first now cause attempted" for now cause attempted
  by unfold_locales (rule fail_first_in_place)

lemma markHole_sound: "hole_sound D h \<Longrightarrow> hole_sound D (fst (markHole reasons h))"
  by (simp add: hole_sound_def markHole_def split: option.split)

lemma resetHole_sound:
  "(\<not> (deleted \<and> 0 < Folded h) \<Longrightarrow> hole_sound D h) \<Longrightarrow> hole_sound D (fst (resetHole deleted h))"
  by (simp add: hole_sound_def resetHole_def Let_def)

lemma fail_first_sound:
  "\<forall>h\<in>set hs. hole_sound D h \<Longrightarrow> m \<in> set (fail_first now cause a hs) \<Longrightarrow> hole_sound D (fst m)"
  by (induction hs) (auto simp: hole_sound_def failedHole_def Let_def split: if_splits)

lemma rewoundHole_sound:
  assumes "hole_sound D h"
  shows "hole_sound (D \<inter> {..unat ancestor}) (fst (rewoundHole ancestor cleared h))"
proof (cases "Next h = 0 \<or> Next h - 1 \<le> ancestor")
  case True
  have "unat (Next h) \<le> Suc (unat ancestor)"
  proof (cases "Next h = 0")
    case False
    then have "unat (Next h - 1) = unat (Next h) - 1" by (simp add: unat_minus_one)
    then show ?thesis using True False by (auto simp: word_le_nat_alt)
  qed simp
  moreover have "Next (fst (rewoundHole ancestor cleared h)) = Next h" "From (fst (rewoundHole ancestor cleared h)) = From h"
    using True by (auto simp: rewoundHole_def Let_def)
  ultimately show ?thesis using assms by (auto simp: hole_sound_def)
next
  case False
  then have "Next (fst (rewoundHole ancestor cleared h)) = 0" by (auto simp: rewoundHole_def Let_def)
  then show ?thesis by (simp add: hole_sound_def)
qed

section \<open>The queue as a state machine\<close>

text \<open>
  The range a fill batch of \<open>n\<close> blocks commits: \<open>fillBatch\<close> moves the cursor and clears the retry
  state, \<open>commitFill\<close> raises the fold watermark to the new cursor.
\<close>

definition filledHole :: "hole \<Rightarrow> u64 \<Rightarrow> HoleState \<Rightarrow> string \<Rightarrow> hole" where
  "filledHole h n st cursorAt =
     (let h = h\<lparr>Next := Start h + n, State := Some st, CursorAt := cursorAt, Lifecycle := rangePending,
                NextRetryAt := [], LastError := []\<rparr>
      in h\<lparr>Folded := max (Folded h) (Next h)\<rparr>)"

text \<open>
  The database rows, with two sets the program does not keep: the blocks whose rows have been
  committed, and the blocks ever reported missing. A step is one committed transaction; one
  that fails leaves the queue as it was. The filler works on a range it read earlier in the
  same generation, so the blocks below its cursor are still committed. A rewind removes the
  blocks above the ancestor, which the follower then reaches again from below. A rebuild of the
  history may remove blocks, but none that a range without a fold watermark has passed; what it
  removes of ranges already finished is left to the backfill.
\<close>

record queue =
  qRows :: "MissingRange list"
  qIndexed :: "nat set"
  qSkipped :: "nat set"

inductive queue_step :: "u64 \<Rightarrow> queue \<Rightarrow> queue \<Rightarrow> bool" for chainID where
  record_range:
    "recordHole chainID now h (qRows q) = Inr rows \<Longrightarrow> Next h = 0
     \<Longrightarrow> queue_step chainID q \<lparr>qRows = rows, qIndexed = qIndexed q, qSkipped = qSkipped q \<union> hspan h\<rparr>"
| import_legacy:
    "importLegacyHoles chainID now legacy (qRows q) = Inr rows \<Longrightarrow> \<forall>h\<in>set legacy. hole_sound (qIndexed q) h
     \<Longrightarrow> queue_step chainID q
          \<lparr>qRows = rows, qIndexed = qIndexed q, qSkipped = qSkipped q \<union> (\<Union>h\<in>set legacy. hspan h)\<rparr>"
| mark_ranges:
    "markHoles chainID now reasons (qRows q) = Inr rows
     \<Longrightarrow> queue_step chainID q \<lparr>qRows = rows, qIndexed = qIndexed q, qSkipped = qSkipped q\<rparr>"
| fill_failed:
    "recordFillFailure chainID now attempted cause (qRows q) = Inr rows
     \<Longrightarrow> queue_step chainID q \<lparr>qRows = rows, qIndexed = qIndexed q, qSkipped = qSkipped q\<rparr>"
| fill_committed:
    "hole_sound (qIndexed q) h \<Longrightarrow> unat (Start h) + unat n \<le> Suc (unat (To h))
     \<Longrightarrow> h' = filledHole h n st cursorAt
     \<Longrightarrow> advanceHole chainID now h' (To h' < Next h') (qRows q) = Inr rows
     \<Longrightarrow> queue_step chainID q
          \<lparr>qRows = rows, qIndexed = qIndexed q \<union> {unat (Start h)..<unat (Start h) + unat n}, qSkipped = qSkipped q\<rparr>"
| rewind:
    "rewindHoles chainID now ancestor cleared (qRows q) = Inr rows
     \<Longrightarrow> queue_step chainID q
          \<lparr>qRows = rows, qIndexed = qIndexed q \<inter> {..unat ancestor}, qSkipped = qSkipped q \<inter> {..unat ancestor}\<rparr>"
| rebuild_history:
    "resetHistoryHoles chainID now deleted (qRows q) = Inr rows
     \<Longrightarrow> \<forall>r\<in>set (qRows q). \<not> (deleted \<and> 0 < rFolded r) \<longrightarrow> row_sound D r
     \<Longrightarrow> queue_step chainID q
          \<lparr>qRows = rows, qIndexed = D, qSkipped = qSkipped q - (qIndexed q - D - missing (qRows q))\<rparr>"

inductive queue_reachable :: "u64 \<Rightarrow> queue \<Rightarrow> bool" for chainID where
  empty_queue: "queue_reachable chainID \<lparr>qRows = [], qIndexed = {}, qSkipped = {}\<rparr>"
| queue_steps: "queue_reachable chainID q \<Longrightarrow> queue_step chainID q q' \<Longrightarrow> queue_reachable chainID q'"

inductive_cases queue_stepE: "queue_step chainID q q'"

definition queue_ok :: "queue \<Rightarrow> bool" where
  "queue_ok q \<longleftrightarrow>
     table_ok (qRows q) \<and> (\<forall>r\<in>set (qRows q). row_sound (qIndexed q) r) \<and> qSkipped q \<subseteq> qIndexed q \<union> missing (qRows q)"

lemma sound_mono: "hole_sound D h \<Longrightarrow> D \<subseteq> D' \<Longrightarrow> hole_sound D' h"
  by (auto simp: hole_sound_def)

lemma recordHole_ok:
  assumes "queue_ok q" "recordHole c now h (qRows q) = Inr rows" "Next h = 0"
  shows "queue_ok \<lparr>qRows = rows, qIndexed = qIndexed q, qSkipped = qSkipped q \<union> hspan h\<rparr>"
proof -
  let ?h = "h\<lparr>At := RFC3339 now, Lifecycle := effectiveLifecycle (h\<lparr>At := RFC3339 now\<rparr>)\<rparr>"
  obtain hs where l: "loadHoles (qRows q) = Inr hs" and s: "saveHoles c now (hs @ [?h]) = Inr rows"
    using assms(2) by (auto simp: recordHole_def bind_err_eq_Inr Let_def)
  have "missing rows = missing (qRows q) \<union> hspan h"
    using saveHoles_facts(1) [OF s] loadHoles_facts(1) [OF l] by (simp add: hspan_def Un_commute)
  moreover have "\<forall>r\<in>set rows. row_sound (qIndexed q) r"
    using assms(1,3) loadHoles_facts(2) [OF l]
    by (intro saveHoles_facts(3) [OF s]) (auto simp: queue_ok_def hole_sound_def)
  ultimately show ?thesis using assms(1) saveHoles_facts(2) [OF s] by (auto simp: queue_ok_def)
qed

lemma importedHole_keeps:
  "hspan (importedHole now h) = hspan h" "hole_sound D (importedHole now h) = hole_sound D h"
  by (simp_all add: importedHole_def Let_def hspan_def hole_sound_def)

lemma importLegacyHoles_ok:
  assumes "queue_ok q" "importLegacyHoles c now legacy (qRows q) = Inr rows" "\<forall>h\<in>set legacy. hole_sound (qIndexed q) h"
  shows "queue_ok \<lparr>qRows = rows, qIndexed = qIndexed q, qSkipped = qSkipped q \<union> (\<Union>h\<in>set legacy. hspan h)\<rparr>"
proof -
  obtain hs where l: "loadHoles (qRows q) = Inr hs" and s: "saveHoles c now (hs @ map (importedHole now) legacy) = Inr rows"
    using assms(2) by (auto simp: importLegacyHoles_def bind_err_eq_Inr)
  have "missing rows = missing (qRows q) \<union> (\<Union>h\<in>set legacy. hspan h)"
    using saveHoles_facts(1) [OF s] loadHoles_facts(1) [OF l] by (simp add: importedHole_keeps)
  moreover have "\<forall>r\<in>set rows. row_sound (qIndexed q) r"
    using assms(1,3) loadHoles_facts(2) [OF l]
    by (intro saveHoles_facts(3) [OF s]) (auto simp: queue_ok_def importedHole_keeps)
  ultimately show ?thesis using assms(1) saveHoles_facts(2) [OF s] by (auto simp: queue_ok_def)
qed

lemma markHoles_ok:
  assumes "queue_ok q" "markHoles c now reasons (qRows q) = Inr rows"
  shows "queue_ok \<lparr>qRows = rows, qIndexed = qIndexed q, qSkipped = qSkipped q\<rparr>"
proof -
  have t: "table_ok (qRows q)" using assms(1) by (simp add: queue_ok_def)
  from marking.updated_rows [OF assms(2) [unfolded markHoles_def] t]
  obtain hs where u: "loadHoles (qRows q) = Inr hs" "missing rows = missing (qRows q)" "table_ok rows"
    "\<And>D. \<forall>m\<in>set (map (markHole reasons) hs). hole_sound D (fst m) \<Longrightarrow> \<forall>r\<in>set rows. row_sound D r"
    by blast
  have "\<forall>r\<in>set rows. row_sound (qIndexed q) r"
    using assms(1) loadHoles_facts(2) [OF u(1)] by (intro u(4)) (auto simp: queue_ok_def markHole_sound)
  then show ?thesis using assms(1) u(2,3) by (simp add: queue_ok_def)
qed

lemma recordFillFailure_ok:
  assumes "queue_ok q" "recordFillFailure c now attempted cause (qRows q) = Inr rows"
  shows "queue_ok \<lparr>qRows = rows, qIndexed = qIndexed q, qSkipped = qSkipped q\<rparr>"
proof -
  have t: "table_ok (qRows q)" using assms(1) by (simp add: queue_ok_def)
  from failing.updated_rows [OF assms(2) [unfolded recordFillFailure_def] t]
  obtain hs where u: "loadHoles (qRows q) = Inr hs" "missing rows = missing (qRows q)" "table_ok rows"
    "\<And>D. \<forall>m\<in>set (fail_first now cause attempted hs). hole_sound D (fst m) \<Longrightarrow> \<forall>r\<in>set rows. row_sound D r"
    by blast
  have "\<forall>r\<in>set rows. row_sound (qIndexed q) r"
    using assms(1) loadHoles_facts(2) [OF u(1)] by (intro u(4)) (auto simp: queue_ok_def intro: fail_first_sound)
  then show ?thesis using assms(1) u(2,3) by (simp add: queue_ok_def)
qed

lemma rewindHoles_ok:
  assumes "queue_ok q" "rewindHoles c now ancestor cleared (qRows q) = Inr rows"
  shows "queue_ok \<lparr>qRows = rows, qIndexed = qIndexed q \<inter> {..unat ancestor}, qSkipped = qSkipped q \<inter> {..unat ancestor}\<rparr>"
proof -
  have t: "table_ok (qRows q)" using assms(1) by (simp add: queue_ok_def)
  from rewinding.updated_rows [OF assms(2) [unfolded rewindHoles_def] t]
  obtain hs where u: "loadHoles (qRows q) = Inr hs" "missing rows = missing (qRows q)" "table_ok rows"
    "\<And>D. \<forall>m\<in>set (map (rewoundHole ancestor cleared) hs). hole_sound D (fst m) \<Longrightarrow> \<forall>r\<in>set rows. row_sound D r"
    by blast
  have "\<forall>r\<in>set rows. row_sound (qIndexed q \<inter> {..unat ancestor}) r"
    using assms(1) loadHoles_facts(2) [OF u(1)] by (intro u(4)) (auto simp: queue_ok_def rewoundHole_sound)
  then show ?thesis using assms(1) u(2,3) by (auto simp: queue_ok_def)
qed

lemma resetHistoryHoles_ok:
  assumes "queue_ok q" "resetHistoryHoles c now deleted (qRows q) = Inr rows"
    and D: "\<forall>r\<in>set (qRows q). \<not> (deleted \<and> 0 < rFolded r) \<longrightarrow> row_sound D r"
  shows "queue_ok \<lparr>qRows = rows, qIndexed = D, qSkipped = qSkipped q - (qIndexed q - D - missing (qRows q))\<rparr>"
proof -
  have t: "table_ok (qRows q)" using assms(1) by (simp add: queue_ok_def)
  from resetting.updated_rows [OF assms(2) [unfolded resetHistoryHoles_def] t]
  obtain hs where u: "loadHoles (qRows q) = Inr hs" "missing rows = missing (qRows q)" "table_ok rows"
    "\<And>D. \<forall>m\<in>set (map (resetHole deleted) hs). hole_sound D (fst m) \<Longrightarrow> \<forall>r\<in>set rows. row_sound D r"
    by blast
  have "hole_sound D h" if "h \<in> set hs" "\<not> (deleted \<and> 0 < Folded h)" for h
  proof -
    obtain r where "r \<in> set (qRows q)" "agrees h r"
      using loadHoles_agrees [OF u(1)] \<open>h \<in> set hs\<close> by (metis list_all2_conv_all_nth in_set_conv_nth)
    then show ?thesis using D that(2) agrees_span(2) by (auto simp: agrees_def)
  qed
  then have "\<forall>r\<in>set rows. row_sound D r" by (intro u(4)) (auto intro: resetHole_sound)
  then show ?thesis using assms(1) u(2,3) by (auto simp: queue_ok_def)
qed

lemma advance_loop_span:
  assumes "\<not> fin \<or> hspan h \<subseteq> D"
  shows "(\<Union>c\<in>set hs. hspan c) \<subseteq> D \<union> (\<Union>c\<in>set (advance_loop h fin hs). hspan c)"
proof (induction hs)
  case (Cons c hs)
  have "hspan (advancedHole h c) = hspan c" by (simp add: hspan_def advancedHole_def)
  moreover have "hspan c = hspan h" if "From c = From h" "To c = To h" using that by (simp add: hspan_def)
  ultimately show ?case using Cons assms by (cases "From c = From h"; cases "To c = To h") auto
qed simp

lemma advance_loop_sound:
  assumes "\<forall>c\<in>set hs. hole_sound D c" "hole_sound D h" "c \<in> set (advance_loop h fin hs)"
  shows "hole_sound D c"
  using assms by (induction hs) (auto simp: hole_sound_def advancedHole_def split: if_splits)

lemma filledHole_sound:
  assumes "hole_sound D h" "unat (Start h) + unat n \<le> Suc (unat (To h))"
  shows "hole_sound (D \<union> {unat (Start h)..<unat (Start h) + unat n}) (filledHole h n st ca)"
proof -
  have "unat (Start h + n) \<le> unat (Start h) + unat n" by (simp add: unat_word_ariths)
  moreover have "{unat (From h)..<unat (Start h)} \<subseteq> D" using assms(1) by (auto simp: Start_def hole_sound_def)
  ultimately show ?thesis by (fastforce simp: hole_sound_def filledHole_def Let_def)
qed

lemma advanceHole_ok:
  assumes "queue_ok q" "hole_sound (qIndexed q) h" "unat (Start h) + unat n \<le> Suc (unat (To h))"
    and h': "h' = filledHole h n st ca" and a: "advanceHole c now h' (To h' < Next h') (qRows q) = Inr rows"
  shows "queue_ok \<lparr>qRows = rows, qIndexed = qIndexed q \<union> {unat (Start h)..<unat (Start h) + unat n}, qSkipped = qSkipped q\<rparr>"
proof -
  let ?D = "qIndexed q \<union> {unat (Start h)..<unat (Start h) + unat n}"
  obtain hs where l: "loadHoles (qRows q) = Inr hs"
    and s: "saveHoles c now (advance_loop h' (To h' < Next h') hs) = Inr rows"
    using a by (auto simp: advanceHole_def bind_err_eq_Inr)
  have hs: "hole_sound ?D h'" using filledHole_sound [OF assms(2,3)] h' by simp
  have old: "\<forall>c\<in>set hs. hole_sound ?D c"
    using assms(1) loadHoles_facts(2) [OF l] by (auto simp: queue_ok_def intro: sound_mono)
  have "\<not> To h' < Next h' \<or> hspan h' \<subseteq> ?D"
    using hs by (fastforce simp: hspan_def hole_sound_def word_less_nat_alt)
  from advance_loop_span [OF this, of hs] have "missing (qRows q) \<subseteq> ?D \<union> missing rows"
    using saveHoles_facts(1) [OF s] loadHoles_facts(1) [OF l] by simp
  moreover have "\<forall>r\<in>set rows. row_sound ?D r"
    using advance_loop_sound [OF old hs] by (intro saveHoles_facts(3) [OF s]) blast
  ultimately show ?thesis using assms(1) saveHoles_facts(2) [OF s] by (auto simp: queue_ok_def)
qed

lemmas queue_ops_ok = recordHole_ok importLegacyHoles_ok markHoles_ok recordFillFailure_ok rewindHoles_ok
  resetHistoryHoles_ok advanceHole_ok

lemma reachable_queue_ok: "queue_reachable c q \<Longrightarrow> queue_ok q"
proof (induction rule: queue_reachable.induct)
  case (queue_steps q q')
  from queue_steps(2,3) show ?case by (elim queue_stepE) (auto intro: queue_ops_ok)
qed (simp add: queue_ok_def table_ok_def missing_def)


definition skipped_range :: hole where
  "skipped_range = \<lparr>From = 10, To = 20, At = [], Lifecycle = [], Next = 0, State = None, Folded = 0,
     Reason = reasonCatchUpLimit, RetryCount = 0, LastAttemptAt = [], NextRetryAt = [], LastError = [],
     PredecessorAt = [], SuccessorAt = [], CursorAt = []\<rparr>"

definition recorded_rows :: "MissingRange list" where
  "recorded_rows = [\<lparr>rChainID = 1, rFrom = 10, rTo = 20, rDetectedAt = 63844765261000000000, rLifecycle = rangePending,
     rReason = reasonCatchUpLimit, rCursor = 0, rReplayState = None, rFolded = 0, rRetryCount = 0,
     rLastAttemptAt = None, rNextRetryAt = None, rLastError = None, rPredecessorAt = None, rSuccessorAt = None,
     rCursorAt = None, rCreatedAt = 63844765261000000000\<rparr>]"

lemma recorded: "recordHole 1 63844765261000000000 skipped_range [] = Inr recorded_rows"
  by code_simp


section \<open>Retry delays\<close>

lemma retry_loop_min:
  "0 < delay \<Longrightarrow> min (retry_loop i tries delay) maxRetryDelay = min (delay * 2 ^ (unat tries - unat i)) maxRetryDelay"
proof (induction i tries delay rule: retry_loop.induct)
  case (1 i tries delay)
  show ?case
  proof (cases "i < tries \<and> delay < maxRetryDelay")
    case True
    then have "unat tries - unat i = Suc (unat tries - unat (i + 1))"
      using unat_next [of i tries] by (simp add: word_less_nat_alt Suc_diff_Suc)
    then show ?thesis using True 1(1) [OF True] 1(2) by (subst retry_loop.simps) (simp add: mult.assoc)
  next
    case False
    then have r: "retry_loop i tries delay = delay" by (subst retry_loop.simps) auto
    have "delay * 1 \<le> delay * 2 ^ (unat tries - unat i)" using 1(2) by (intro mult_left_mono) simp_all
    moreover have "unat tries - unat i = 0 \<or> maxRetryDelay \<le> delay" using False by (auto simp: word_less_nat_alt)
    ultimately show ?thesis unfolding r by (elim disjE) (simp_all add: min_absorb2)
  qed
qed

text \<open>
  The delay before the next attempt at a range that failed \<open>n\<close> times in a row is five seconds
  doubled \<open>n - 1\<close> times and never more than five minutes; the loop that computes it ends for every
  counter.
\<close>

theorem retryDelay_exact: "retryDelay n = min (5 * Second * 2 ^ (unat n - 1)) (300 * Second)"
  using retry_loop_min [of restartDelay 1 n] by (simp add: retryDelay_def restartDelay_def maxRetryDelay_def Second_def)

section \<open>Two classes at one start\<close>

lemma normalizeHoles_two:
  assumes "From a = From b" "From a \<le> To a" "From b \<le> To b" "hclass a \<noteq> hclass b"
  shows "normalizeHoles [a, b] \<in> {[a, b], [b, a]}"
proof -
  have "\<not> mergeable a b" "\<not> mergeable b a"
    using assms(4) mergeHole_class(2) by metis+
  moreover have "ordered [a, b] \<in> {[a, b], [b, a]}" by auto
  ultimately show ?thesis using assms(2,3) by (auto simp: normalizeHoles_def split: list.split)
qed

lemma saveHoles_same_start:
  assumes "From a = From b" "From a \<le> To a" "From b \<le> To b" "hclass a \<noteq> hclass b"
  shows "saveHoles c now [a, b] \<noteq> Inr rows"
proof
  assume s: "saveHoles c now [a, b] = Inr rows"
  then have e: "each_err (\<lambda>h. rowFromHole c (if At h = [] then h\<lparr>At := RFC3339 now\<rparr> else h)) (normalizeHoles [a, b]) = Inr rows"
    by (auto simp: saveHoles_def bind_err_eq_Inr ReplaceMissingRanges_def split: if_splits)
  have "rFrom r = From h" if "rowFromHole c (if At h = [] then h\<lparr>At := RFC3339 now\<rparr> else h) = Inr r" for h r
    using rowFromHole_agrees [OF that] by (auto simp: agrees_def split: if_splits)
  from each_err_list_all2 [OF e this] have "list_all2 (\<lambda>h r. rFrom r = From h) (normalizeHoles [a, b]) rows" .
  then have "map rFrom rows = map From (normalizeHoles [a, b])"
    by (induction rule: list_all2_induct) simp_all
  then have "\<not> distinct (map rFrom rows)" using normalizeHoles_two [OF assms] assms(1) by auto
  then show False using saveHoles_facts(2) [OF s] by (simp add: table_ok_def)
qed



end
