(* ===== verification/Pacer.thy ===== *)
theory Pacer
  imports Endpoint
begin

text \<open>
  The token bucket that meters the calls of an endpoint (\<open>internal/nitro/pacer.go\<close>): its refill,
  the fast reserve, what each class may take and how long it waits, the time-shared mode below
  one call per second, and the turnstile the callers queue at.

  Each section the code runs under the mutex is a function on the state, with the clock's reading
  as an argument. The \<open>float64\<close> levels and rates are rational numbers: the arithmetic is exact
  and the rounding of the floating point unit, which \<open>tokenEpsilon\<close> is there to absorb, is not
  modelled. A waiter's channel is its caller's number; the channels closed so far are a set.
\<close>

section \<open>State\<close>

record Pacer =
  pUnlimited :: bool
  pRate :: rat
  pBurst :: rat
  pReserve :: rat
  pReserveRate :: rat
  pTokens :: rat
  pFastTokens :: rat
  pLast :: gotime
  pHeld :: bool
  pQueue :: "nat list"
  pReady :: "nat set"
  pBulkPending :: int
  pFastPending :: int
  pLastFast :: bool
  pTurn :: bool

definition tokenEpsilon :: rat where
  "tokenEpsilon = 1 / 1000000000"

definition MinCallsPerSecond :: rat where
  "MinCallsPerSecond = 1 / 10"

definition maxPacerWait :: duration where
  "maxPacerWait = 60 * Second"

definition in_seconds :: "duration \<Rightarrow> rat" where
  "in_seconds d = of_int d / of_int Second"

fun Class_String :: "Class \<Rightarrow> string" where
  "Class_String Fast = ''fast''"
| "Class_String Bulk = ''bulk''"

text \<open>The class a context carries, if any.\<close>

definition ClassOf :: "Class option \<Rightarrow> Class" where
  "ClassOf ctx = (case ctx of Some c \<Rightarrow> c | None \<Rightarrow> Bulk)"

definition NewPacer :: "gotime \<Rightarrow> rat \<Rightarrow> Pacer" where
  "NewPacer now callsPerSecond =
     (let p = \<lparr>pUnlimited = False, pRate = 0, pBurst = 0, pReserve = 0, pReserveRate = 0, pTokens = 0,
               pFastTokens = 0, pLast = now, pHeld = False, pQueue = [], pReady = {}, pBulkPending = 0,
               pFastPending = 0, pLastFast = False, pTurn = False\<rparr>
      in if callsPerSecond \<le> 0 then p\<lparr>pUnlimited := True\<rparr>
         else let rate = max callsPerSecond MinCallsPerSecond;
                  burst = max (2 * rate) 1;
                  reserve = max 1 (rate / 4)
              in p\<lparr>pRate := rate, pBurst := burst, pTokens := burst, pReserve := reserve,
                   pReserveRate := min reserve rate, pFastTokens := reserve\<rparr>)"

definition sharedCap :: "Pacer \<Rightarrow> rat" where
  "sharedCap p = pBurst p - pReserve p"

definition timeShared :: "Pacer \<Rightarrow> bool" where
  "timeShared p \<longleftrightarrow> \<not> pUnlimited p \<and> sharedCap p < 1"

text \<open>The conversion \<open>int(x)\<close> truncates towards zero.\<close>

definition trunc :: "rat \<Rightarrow> int" where
  "trunc x = (if 0 \<le> x then \<lfloor>x\<rfloor> else \<lceil>x\<rceil>)"

definition MaxBatchFor :: "Class \<Rightarrow> Pacer \<Rightarrow> int" where
  "MaxBatchFor class p =
     (if pUnlimited p then int MaxBatch
      else let held = sharedCap p + (if class = Fast then pReserve p else 0)
           in min (max (trunc (held + tokenEpsilon)) 0) (int MaxBatch))"

definition pacer_MaxBatch :: "Pacer \<Rightarrow> int" where
  "pacer_MaxBatch p = MaxBatchFor Bulk p"

section \<open>Levels\<close>

definition refillLocked :: "gotime \<Rightarrow> Pacer \<Rightarrow> Pacer" where
  "refillLocked t p =
     (let elapsed = in_seconds (t - pLast p);
          p = (if 0 < elapsed
               then p\<lparr>pTokens := min (pTokens p + elapsed * pRate p) (pBurst p),
                      pFastTokens := min (pFastTokens p + elapsed * pReserveRate p) (pReserve p)\<rparr>
               else p)
      in p\<lparr>pFastTokens := min (pFastTokens p) (pTokens p), pLast := t\<rparr>)"

definition sharedLocked :: "Pacer \<Rightarrow> rat" where
  "sharedLocked p = max (pTokens p - pFastTokens p) 0"

definition bulkTurnLocked :: "Pacer \<Rightarrow> bool" where
  "bulkTurnLocked p \<longleftrightarrow> pFastPending p = 0 \<or> pLastFast p"

definition fastTurnLocked :: "Pacer \<Rightarrow> bool" where
  "fastTurnLocked p \<longleftrightarrow> pBulkPending p = 0 \<or> \<not> pLastFast p"

definition openLocked :: "Class \<Rightarrow> Pacer \<Rightarrow> rat" where
  "openLocked class p =
     (if class = Bulk \<and> timeShared p
      then if \<not> bulkTurnLocked p then 0 else pTokens p
      else sharedLocked p)"

definition pacer_Available :: "gotime \<Rightarrow> Pacer \<Rightarrow> Pacer \<times> int" where
  "pacer_Available now p =
     (if pUnlimited p then (p, MaxInt64)
      else let p = refillLocked now p
           in if timeShared p then (p, max \<lfloor>pTokens p + tokenEpsilon\<rfloor> 0)
              else (p, max \<lfloor>sharedLocked p + tokenEpsilon\<rfloor> 0))"

definition notifyTurnLocked :: "Pacer \<Rightarrow> Pacer" where
  "notifyTurnLocked p = (if pTurn p then p\<lparr>pTurn := False\<rparr> else p)"

definition turnSignalLocked :: "Pacer \<Rightarrow> Pacer" where
  "turnSignalLocked p = (if \<not> pTurn p then p\<lparr>pTurn := True\<rparr> else p)"

definition servedLocked :: "bool \<Rightarrow> Pacer \<Rightarrow> Pacer" where
  "servedLocked fast p = notifyTurnLocked (p\<lparr>pLastFast := fast\<rparr>)"

definition Refund :: "gotime \<Rightarrow> int \<Rightarrow> Pacer \<Rightarrow> Pacer" where
  "Refund now n p =
     (if pUnlimited p \<or> n \<le> 0 then p
      else let p = refillLocked now p;
               p = p\<lparr>pTokens := min (pTokens p + of_int n) (pBurst p)\<rparr>;
               p = p\<lparr>pFastTokens := min (pFastTokens p) (pTokens p)\<rparr>
           in notifyTurnLocked p)"

definition drawReserveLocked :: "int \<Rightarrow> Pacer \<Rightarrow> Pacer \<times> int" where
  "drawReserveLocked remaining p =
     (if timeShared p \<and> \<not> fastTurnLocked p then (p, remaining)
      else let k = min remaining \<lfloor>pFastTokens p + tokenEpsilon\<rfloor>
           in if k \<le> 0 then (p, remaining)
              else (servedLocked True
                     (p\<lparr>pTokens := pTokens p - of_int k, pFastTokens := max (pFastTokens p - of_int k) 0\<rparr>),
                    remaining - k))"

definition takeLocked :: "Class \<Rightarrow> int \<Rightarrow> Pacer \<Rightarrow> Pacer \<times> int" where
  "takeLocked class want p =
     (let k = min want \<lfloor>openLocked class p + tokenEpsilon\<rfloor>
      in if k \<le> 0 then (p, 0)
         else let p = p\<lparr>pTokens := pTokens p - of_int k\<rparr>;
                  p = p\<lparr>pFastTokens := min (pFastTokens p) (pTokens p)\<rparr>
              in (if class = Bulk then servedLocked False p else p, k))"

definition enter :: "Class \<Rightarrow> Pacer \<Rightarrow> Pacer" where
  "enter class p =
     (if class = Fast then p\<lparr>pFastPending := pFastPending p + 1\<rparr> else p\<lparr>pBulkPending := pBulkPending p + 1\<rparr>)"

definition leave :: "Class \<Rightarrow> Pacer \<Rightarrow> Pacer" where
  "leave class p =
     notifyTurnLocked
       (if class = Fast then p\<lparr>pFastPending := pFastPending p - 1\<rparr> else p\<lparr>pBulkPending := pBulkPending p - 1\<rparr>)"

section \<open>Waits\<close>

definition seconds :: "rat \<Rightarrow> duration" where
  "seconds s =
     (if \<not> 0 < s then 0
      else if in_seconds maxPacerWait \<le> s then maxPacerWait
      else \<lceil>s * of_int Second\<rceil>)"

definition classCapLocked :: "Class \<Rightarrow> Pacer \<Rightarrow> rat" where
  "classCapLocked class p = (if class = Bulk \<and> timeShared p then pBurst p else sharedCap p)"

definition openWaitLocked :: "Class \<Rightarrow> int \<Rightarrow> Pacer \<Rightarrow> duration" where
  "openWaitLocked class want p =
     (let need = min (of_int want) (classCapLocked class p);
          shared = openLocked class p
      in if need \<le> shared then 0
         else if class = Bulk \<and> timeShared p then seconds ((need - shared) / pRate p)
         else if pFastTokens p < pReserve p
         then let growth = pRate p - pReserveRate p;
                  fill = (pReserve p - pFastTokens p) / pReserveRate p
              in if 0 < growth \<and> need \<le> shared + growth * fill then seconds ((need - shared) / growth)
                 else seconds (fill + (need - (shared + growth * fill)) / pRate p)
         else seconds (0 + (need - shared) / pRate p))"

definition reserveWaitLocked :: "Pacer \<Rightarrow> duration" where
  "reserveWaitLocked p = seconds ((1 - pFastTokens p) / pReserveRate p)"

text \<open>A caller waits for its lane's turn (\<open>None\<close>, on the turn channel) or for a duration.\<close>

definition waitForLocked :: "Class \<Rightarrow> int \<Rightarrow> Pacer \<Rightarrow> Pacer \<times> duration option" where
  "waitForLocked class remaining p =
     (if class = Bulk \<and> timeShared p \<and> \<not> bulkTurnLocked p then (turnSignalLocked p, None)
      else let d = openWaitLocked class remaining p
           in (p, Some (if class = Fast then min d (reserveWaitLocked p) else d)))"

section \<open>The turnstile\<close>

definition releaseLocked :: "Pacer \<Rightarrow> Pacer" where
  "releaseLocked p =
     (case pQueue p of
        [] \<Rightarrow> p\<lparr>pHeld := False\<rparr>
      | w # ws \<Rightarrow> p\<lparr>pQueue := ws, pReady := insert w (pReady p)\<rparr>)"

fun dequeue :: "nat \<Rightarrow> nat list \<Rightarrow> nat list option" where
  "dequeue w [] = None"
| "dequeue w (x # xs) = (if x = w then Some xs else map_option ((#) x) (dequeue w xs))"

definition dequeueLocked :: "nat \<Rightarrow> Pacer \<Rightarrow> Pacer \<times> bool" where
  "dequeueLocked w p = (case dequeue w (pQueue p) of None \<Rightarrow> (p, False) | Some q \<Rightarrow> (p\<lparr>pQueue := q\<rparr>, True))"

definition abandonLocked :: "nat \<Rightarrow> Pacer \<Rightarrow> Pacer" where
  "abandonLocked w p = (case dequeueLocked w p of (p', queued) \<Rightarrow> if \<not> queued then releaseLocked p' else p')"

text \<open>\<open>acquire\<close> up to where it parks: the turnstile is taken, or the caller has queued.\<close>

definition acquire :: "nat \<Rightarrow> Pacer \<Rightarrow> Pacer \<times> bool" where
  "acquire w p = (if \<not> pHeld p then (p\<lparr>pHeld := True\<rparr>, True) else (p\<lparr>pQueue := pQueue p @ [w]\<rparr>, False))"

text \<open>
  One round of the loops a caller runs: the locked section and what it then waits for. \<open>Served\<close>
  leaves the loop.
\<close>

datatype outcome = Served | AwaitTurn int | Sleep int duration

definition spend_round :: "gotime \<Rightarrow> Class \<Rightarrow> int \<Rightarrow> Pacer \<Rightarrow> Pacer \<times> outcome" where
  "spend_round now class remaining p =
     (let p = refillLocked now p;
          (p, remaining) = (if class = Fast then drawReserveLocked remaining p else (p, remaining));
          (p, k) = takeLocked class remaining p;
          remaining = remaining - k
      in if remaining = 0 then (releaseLocked p, Served)
         else case waitForLocked class remaining p of
                (p, None) \<Rightarrow> (p, AwaitTurn remaining)
              | (p, Some d) \<Rightarrow> (p, Sleep remaining d))"

definition waitTurns_round :: "gotime \<Rightarrow> int \<Rightarrow> Pacer \<Rightarrow> Pacer \<times> outcome" where
  "waitTurns_round now remaining p =
     (let p = refillLocked now p;
          (p, remaining) = drawReserveLocked remaining p
      in if remaining = 0 then (p, Served)
         else let yielding = \<not> fastTurnLocked p;
                  p = turnSignalLocked p;
                  d = reserveWaitLocked p
              in (p, if yielding then AwaitTurn remaining else Sleep remaining d))"

definition parkFast_round :: "gotime \<Rightarrow> nat \<Rightarrow> int \<Rightarrow> Pacer \<Rightarrow> Pacer \<times> outcome" where
  "parkFast_round now w remaining p =
     (let p = refillLocked now p;
          (p, remaining) = drawReserveLocked remaining p
      in if remaining = 0 then (abandonLocked w p, Served)
         else (p, Sleep remaining (reserveWaitLocked p)))"

text \<open>What \<open>Wait\<close> does first: it returns at once, or enters one of the loops.\<close>

datatype waiting = Returned | InTurns int | AtTurnstile int

definition Wait :: "gotime \<Rightarrow> bool \<Rightarrow> Class \<Rightarrow> int \<Rightarrow> Pacer \<Rightarrow> Pacer \<times> waiting" where
  "Wait now cancelled class n p =
     (if n \<le> 0 \<or> cancelled \<or> pUnlimited p then (p, Returned)
      else let p = enter class p
           in if class = Fast \<and> timeShared p then (p, InTurns n)
              else if class = Fast
              then case drawReserveLocked n (refillLocked now p) of
                     (p, remaining) \<Rightarrow> if remaining = 0 then (leave class p, Returned) else (p, AtTurnstile remaining)
              else (p, AtTurnstile n))"

section \<open>Accounting\<close>

definition config :: "Pacer \<Rightarrow> bool \<times> rat \<times> rat \<times> rat \<times> rat" where
  "config p = (pUnlimited p, pRate p, pBurst p, pReserve p, pReserveRate p)"

lemma config_levels [simp]:
  "config (p\<lparr>pTokens := x\<rparr>) = config p" "config (p\<lparr>pFastTokens := x\<rparr>) = config p"
  "config (p\<lparr>pTokens := x, pFastTokens := y\<rparr>) = config p"
  by (simp_all add: config_def)

definition bounded :: "Pacer \<Rightarrow> bool" where
  "bounded p \<longleftrightarrow> pTokens p \<le> pBurst p \<and> pFastTokens p \<le> pReserve p \<and> 0 \<le> pRate p \<and> 0 \<le> pReserveRate p
     \<and> 0 \<le> pReserve p"

text \<open>How far the levels have been overdrawn, as a number that is never positive.\<close>

definition low :: "Pacer \<Rightarrow> rat" where
  "low p = min 0 (min (pTokens p) (pFastTokens p))"

text \<open>
  What a locked section that grants \<open>k\<close> calls and takes back \<open>r\<close> does to the bucket: the level
  falls by \<open>k\<close> up to the refund and the refill for the time that passed, and the overdraft grows
  by at most \<open>tokenEpsilon\<close> for each call.
\<close>

definition metered :: "Pacer \<Rightarrow> int \<Rightarrow> int \<Rightarrow> Pacer \<Rightarrow> bool" where
  "metered p k r p' \<longleftrightarrow>
     config p' = config p \<and> bounded p' \<and> 0 \<le> k \<and> 0 \<le> r \<and> pLast p \<le> pLast p'
     \<and> pTokens p' \<le> pTokens p - of_int k + of_int r + in_seconds (pLast p' - pLast p) * pRate p
     \<and> low p - tokenEpsilon * of_int k \<le> low p'"

lemma in_seconds_simps [simp]:
  "in_seconds 0 = 0" "0 \<le> in_seconds d \<longleftrightarrow> 0 \<le> d" "0 < in_seconds d \<longleftrightarrow> 0 < d"
  by (simp_all add: in_seconds_def Second_def zero_le_divide_iff zero_less_divide_iff)

lemma in_seconds_add: "in_seconds (a + b) = in_seconds a + in_seconds b"
  by (simp add: in_seconds_def add_divide_distrib)

lemma in_seconds_diff: "in_seconds (c - a) = in_seconds (c - b) + in_seconds (b - a)"
  by (simp flip: in_seconds_add)

lemma metered_refl: "bounded p \<Longrightarrow> metered p 0 0 p"
  by (simp add: metered_def)

lemma metered_trans:
  assumes "metered p k r p'" "metered p' k' r' p''"
  shows "metered p (k + k') (r + r') p''"
proof -
  have "pRate p' = pRate p" using assms(1) by (simp add: metered_def config_def)
  then have "in_seconds (pLast p'' - pLast p) * pRate p
      = in_seconds (pLast p' - pLast p) * pRate p + in_seconds (pLast p'' - pLast p') * pRate p'"
    using in_seconds_diff [of "pLast p''" "pLast p" "pLast p'"] by (simp add: distrib_right)
  then show ?thesis using assms by (simp add: metered_def distrib_left)
qed

text \<open>Sections that touch neither the levels nor the clock.\<close>

definition idle :: "(Pacer \<Rightarrow> Pacer) \<Rightarrow> bool" where
  "idle f \<longleftrightarrow> (\<forall>p. config (f p) = config p \<and> pTokens (f p) = pTokens p
                 \<and> pFastTokens (f p) = pFastTokens p \<and> pLast (f p) = pLast p)"

lemma metered_idle: "idle f \<Longrightarrow> metered p k r p' \<Longrightarrow> metered p k r (f p')"
  by (simp add: idle_def metered_def bounded_def low_def config_def)

lemma idle_sections:
  "idle notifyTurnLocked" "idle turnSignalLocked" "idle (enter c)" "idle (leave c)" "idle releaseLocked"
  "idle (abandonLocked w)" "idle (\<lambda>p. fst (acquire w p))" "idle (\<lambda>p. fst (waitForLocked c n p))"
  by (simp_all add: idle_def config_def notifyTurnLocked_def turnSignalLocked_def enter_def leave_def releaseLocked_def
      abandonLocked_def dequeueLocked_def acquire_def waitForLocked_def Let_def split: list.split option.split)

lemma refill_levels:
  assumes "bounded p" "pLast p \<le> t"
  shows "metered p 0 0 (refillLocked t p)" "pFastTokens (refillLocked t p) \<le> pTokens (refillLocked t p)"
    "pLast (refillLocked t p) = t" "config (refillLocked t p) = config p"
proof -
  define e where "e = in_seconds (t - pLast p)"
  have e: "0 \<le> e" "e * pRate p \<ge> 0" "e * pReserveRate p \<ge> 0"
    using assms by (simp_all add: e_def bounded_def)
  have p': "pTokens (refillLocked t p) = min (pTokens p + e * pRate p) (pBurst p)"
    "pFastTokens (refillLocked t p) = min (min (pFastTokens p + e * pReserveRate p) (pReserve p)) (min (pTokens p + e * pRate p) (pBurst p))"
    using assms e by (auto simp: refillLocked_def Let_def bounded_def simp flip: e_def)
  show c: "config (refillLocked t p) = config p" "pLast (refillLocked t p) = t"
    by (simp_all add: refillLocked_def Let_def config_def)
  show "pFastTokens (refillLocked t p) \<le> pTokens (refillLocked t p)" unfolding p' by (rule min.cobounded2)
  have "pRate (refillLocked t p) = pRate p" "pBurst (refillLocked t p) = pBurst p" "pReserve (refillLocked t p) = pReserve p"
    "pReserveRate (refillLocked t p) = pReserveRate p"
    using c(1) by (simp_all add: config_def)
  moreover have "low p \<le> low (refillLocked t p)"
    using assms(1) e unfolding low_def p' bounded_def by linarith
  ultimately show "metered p 0 0 (refillLocked t p)"
    using assms by (simp add: metered_def c bounded_def p' flip: e_def)
qed

lemma eps_bounds: "0 < tokenEpsilon" "tokenEpsilon < 1"
  by (simp_all add: tokenEpsilon_def)

lemma servedLocked_frame:
  "pTokens (servedLocked b p) = pTokens p" "pFastTokens (servedLocked b p) = pFastTokens p"
  "pLast (servedLocked b p) = pLast p" "config (servedLocked b p) = config p"
  by (simp_all add: servedLocked_def notifyTurnLocked_def config_def)

lemma min_floor:
  assumes "\<not> min n \<lfloor>x :: rat\<rfloor> \<le> 0"
  shows "1 \<le> min n \<lfloor>x\<rfloor>" "of_int (min n \<lfloor>x\<rfloor>) \<le> x"
proof -
  show "1 \<le> min n \<lfloor>x\<rfloor>" using assms by linarith
  have "of_int (min n \<lfloor>x\<rfloor>) \<le> (of_int \<lfloor>x\<rfloor> :: rat)" by (simp only: of_int_le_iff min.cobounded2)
  also have "\<dots> \<le> x" by simp
  finally show "of_int (min n \<lfloor>x\<rfloor>) \<le> x" .
qed

lemma draw_levels:
  assumes "bounded p" "pFastTokens p \<le> pTokens p" "0 \<le> n" "drawReserveLocked n p = (p', m)"
  shows "metered p (n - m) 0 p'" "0 \<le> m" "m \<le> n"
proof -
  let ?k = "min n \<lfloor>pFastTokens p + tokenEpsilon\<rfloor>"
  show "metered p (n - m) 0 p'"
  proof (cases "(timeShared p \<and> \<not> fastTurnLocked p) \<or> ?k \<le> 0")
    case True
    then have "p' = p" "m = n" using assms(4) by (auto simp: drawReserveLocked_def Let_def split: if_splits)
    then show ?thesis using metered_refl [OF assms(1)] by simp
  next
    case False
    define k where "k = ?k"
    have p': "m = n - k" "pTokens p' = pTokens p - of_int k" "pFastTokens p' = max (pFastTokens p - of_int k) 0"
      "pLast p' = pLast p" "config p' = config p"
      using False assms(4) by (auto simp: drawReserveLocked_def Let_def servedLocked_frame k_def split: if_splits)
    have k: "1 \<le> k" "of_int k \<le> pFastTokens p + tokenEpsilon" using False min_floor unfolding k_def by blast+
    have eps: "tokenEpsilon * 1 \<le> tokenEpsilon * of_int k"
      using k(1) eps_bounds by (intro mult_left_mono) (simp_all only: of_int_1_le_iff less_imp_le)
    have "low p - tokenEpsilon * of_int k \<le> low p'"
      using eps k(2) assms(2) eps_bounds unfolding low_def p' by linarith
    moreover have "bounded p'" using assms(1) p' k(1) by (simp add: bounded_def config_def)
    ultimately show ?thesis using k(1) by (simp add: metered_def p')
  qed
  show "0 \<le> m" "m \<le> n"
    using assms(3,4) by (auto simp: drawReserveLocked_def Let_def split: if_splits)
qed


lemma open_bound: "openLocked c p \<le> max (pTokens p) 0 \<or> openLocked c p = pTokens p - pFastTokens p"
  by (auto simp: openLocked_def sharedLocked_def max_def)

lemma take_levels:
  assumes "bounded p" "0 \<le> n" "takeLocked c n p = (p', k)"
  shows "metered p k 0 p'" "0 \<le> k" "k \<le> n"
proof -
  let ?k = "min n \<lfloor>openLocked c p + tokenEpsilon\<rfloor>"
  show "metered p k 0 p'"
  proof (cases "?k \<le> 0")
    case True
    then have "p' = p" "k = 0" using assms(3) by (auto simp: takeLocked_def Let_def split: if_splits)
    then show ?thesis using metered_refl [OF assms(1)] by simp
  next
    case False
    then have p': "k = ?k" "pTokens p' = pTokens p - of_int k" "pFastTokens p' = min (pFastTokens p) (pTokens p - of_int k)"
      "pLast p' = pLast p" "config p' = config p"
      using assms(3) by (auto simp: takeLocked_def Let_def servedLocked_frame split: if_splits)
    have k: "1 \<le> k" "of_int k \<le> openLocked c p + tokenEpsilon" using min_floor [OF False] p'(1) by simp_all
    have one: "(1 :: rat) \<le> of_int k" using k(1) by simp
    have eps: "tokenEpsilon * 1 \<le> tokenEpsilon * of_int k"
      using one eps_bounds by (intro mult_left_mono) simp_all
    have "low p - tokenEpsilon * of_int k \<le> low p'"
      using eps k(2) one eps_bounds open_bound [of c p] unfolding low_def p' by linarith
    moreover have "bounded p'" using assms(1) p' k(1) by (simp add: bounded_def config_def) linarith
    ultimately show ?thesis using k(1) by (simp add: metered_def p'(2-5))
  qed
  show "0 \<le> k" "k \<le> n"
    using assms(2,3) by (auto simp: takeLocked_def Let_def split: if_splits)
qed


lemma Refund_metered:
  assumes "bounded p" "pLast p \<le> now" "0 \<le> n"
  shows "metered p 0 n (Refund now n p)"
proof (cases "pUnlimited p \<or> n \<le> 0")
  case True
  then show ?thesis using metered_refl [OF assms(1)] assms(3) by (simp add: Refund_def metered_def)
next
  case False
  let ?q = "refillLocked now p"
  define q' where "q' = ?q\<lparr>pTokens := min (pTokens ?q + of_int n) (pBurst ?q),
                           pFastTokens := min (pFastTokens ?q) (min (pTokens ?q + of_int n) (pBurst ?q))\<rparr>"
  have q: "metered p 0 0 ?q" "bounded ?q" using refill_levels(1) [OF assms(1,2)] by (simp_all add: metered_def)
  have n: "(0 :: rat) \<le> of_int n" using assms(3) by simp
  have f: "pTokens q' = min (pTokens ?q + of_int n) (pBurst ?q)"
    "pFastTokens q' = min (pFastTokens ?q) (min (pTokens ?q + of_int n) (pBurst ?q))"
    "pLast q' = pLast ?q" "config q' = config ?q" by (simp_all add: q'_def)
  have c: "pRate q' = pRate ?q" "pBurst q' = pBurst ?q" "pReserve q' = pReserve ?q" "pReserveRate q' = pReserveRate ?q"
    using f(4) by (simp_all add: config_def)
  have "low ?q \<le> low q'" using q(2) n unfolding low_def f bounded_def by linarith
  moreover have "bounded q'" using q(2) unfolding bounded_def f(1,2) c by linarith
  ultimately have "metered ?q 0 n q'" using assms(3) n by (simp add: metered_def f min.coboundedI1)
  from metered_idle [OF idle_sections(1) metered_trans [OF q(1) this]] False
  show ?thesis by (simp add: Refund_def Let_def q'_def)
qed

lemma Available_metered:
  assumes "bounded p" "pLast p \<le> now"
  shows "metered p 0 0 (fst (pacer_Available now p))"
  using metered_refl [OF assms(1)] refill_levels(1) [OF assms] by (simp add: pacer_Available_def Let_def)

fun left :: "outcome \<Rightarrow> int" where
  "left Served = 0"
| "left (AwaitTurn r) = r"
| "left (Sleep r d) = r"

lemma refill_draw:
  assumes "bounded p" "pLast p \<le> now" "0 \<le> n" "drawReserveLocked n (refillLocked now p) = (p', m)"
  shows "metered p (n - m) 0 p'" "0 \<le> m" "m \<le> n"
proof -
  note r = refill_levels [OF assms(1,2)]
  have b: "bounded (refillLocked now p)" using r(1) by (simp add: metered_def)
  note d = draw_levels [OF b r(2) assms(3,4)]
  show "metered p (n - m) 0 p'" "0 \<le> m" "m \<le> n" using metered_trans [OF r(1) d(1)] d(2,3) by simp_all
qed

lemma spend_round_metered:
  assumes "bounded p" "pLast p \<le> now" "0 \<le> n" "spend_round now c n p = (p', out)"
  shows "metered p (n - left out) 0 p'"
proof -
  obtain q m where q: "(if c = Fast then drawReserveLocked n (refillLocked now p) else (refillLocked now p, n)) = (q, m)"
    by fastforce
  have m: "metered p (n - m) 0 q" "0 \<le> m"
    using q refill_draw [OF assms(1-3)] refill_levels(1) [OF assms(1,2)] assms(3) by (cases "c = Fast"; auto)+
  obtain q' k where t: "takeLocked c m q = (q', k)" by fastforce
  have "bounded q" using m(1) by (simp add: metered_def)
  from metered_trans [OF m(1) take_levels(1) [OF this m(2) t]]
  have b: "metered p (n - (m - k)) 0 q'" by (simp add: algebra_simps)
  have w: "metered p (n - (m - k)) 0 (fst (waitForLocked c (m - k) q'))" by (rule metered_idle [OF idle_sections(8) b])
  show ?thesis
  proof (cases "m - k = 0")
    case True
    then have "p' = releaseLocked q'" "out = Served" using assms(4) q t by (auto simp: spend_round_def Let_def)
    then show ?thesis using metered_idle [OF idle_sections(5) b] True by simp
  next
    case False
    then have "p' = fst (waitForLocked c (m - k) q')" "left out = m - k"
      using assms(4) q t by (auto simp: spend_round_def Let_def split: prod.splits option.splits)
    then show ?thesis using w by simp
  qed
qed

lemma waitTurns_round_metered:
  assumes "bounded p" "pLast p \<le> now" "0 \<le> n" "waitTurns_round now n p = (p', out)"
  shows "metered p (n - left out) 0 p'"
proof -
  obtain q m where q: "drawReserveLocked n (refillLocked now p) = (q, m)" by fastforce
  note b = refill_draw(1) [OF assms(1-3) q]
  then show ?thesis using assms(4) q metered_idle [OF idle_sections(2) b]
    by (auto simp: waitTurns_round_def Let_def split: if_splits)
qed

lemma parkFast_round_metered:
  assumes "bounded p" "pLast p \<le> now" "0 \<le> n" "parkFast_round now w n p = (p', out)"
  shows "metered p (n - left out) 0 p'"
proof -
  obtain q m where q: "drawReserveLocked n (refillLocked now p) = (q, m)" by fastforce
  note b = refill_draw(1) [OF assms(1-3) q]
  then show ?thesis using assms(4) q metered_idle [OF idle_sections(6) b]
    by (auto simp: parkFast_round_def Let_def split: if_splits)
qed

fun waiting_left :: "waiting \<Rightarrow> int" where
  "waiting_left Returned = 0"
| "waiting_left (InTurns r) = r"
| "waiting_left (AtTurnstile r) = r"

lemma Wait_metered:
  assumes "bounded p" "pLast p \<le> now" "0 < n" "\<not> pUnlimited p" "Wait now False c n p = (p', out)"
  shows "metered p (n - waiting_left out) 0 p'"
proof -
  have e: "metered p 0 0 (enter c p)" by (rule metered_idle [OF idle_sections(3) metered_refl [OF assms(1)]])
  obtain q m where q: "drawReserveLocked n (refillLocked now (enter c p)) = (q, m)" by fastforce
  have "bounded (enter c p)" "pLast (enter c p) \<le> now"
    using e idle_sections(3) [of c] assms(2) by (simp_all add: metered_def idle_def)
  from metered_trans [OF e refill_draw(1) [OF this _ q]] have b: "metered p (n - m) 0 q" using assms(3) by simp
  then show ?thesis using assms(3-5) q e metered_idle [OF idle_sections(4) b]
    by (auto simp: Wait_def Let_def split: if_splits)
qed

text \<open>
  The locked sections the callers of a pacer run, with the calls each grants and the ones it gives
  back, and their sequences in the order the mutex lets them in. The clock is monotonic.
\<close>

inductive pacer_section :: "Pacer \<Rightarrow> int \<Rightarrow> int \<Rightarrow> Pacer \<Rightarrow> bool" where
  at_wait: "pLast p \<le> now \<Longrightarrow> 0 < n \<Longrightarrow> \<not> pUnlimited p \<Longrightarrow> Wait now False c n p = (p', w)
    \<Longrightarrow> pacer_section p (n - waiting_left w) 0 p'"
| at_spend: "pLast p \<le> now \<Longrightarrow> 0 \<le> n \<Longrightarrow> spend_round now c n p = (p', out)
    \<Longrightarrow> pacer_section p (n - left out) 0 p'"
| at_turns: "pLast p \<le> now \<Longrightarrow> 0 \<le> n \<Longrightarrow> waitTurns_round now n p = (p', out)
    \<Longrightarrow> pacer_section p (n - left out) 0 p'"
| at_park: "pLast p \<le> now \<Longrightarrow> 0 \<le> n \<Longrightarrow> parkFast_round now w n p = (p', out)
    \<Longrightarrow> pacer_section p (n - left out) 0 p'"
| at_refund: "pLast p \<le> now \<Longrightarrow> 0 \<le> n \<Longrightarrow> pacer_section p 0 n (Refund now n p)"
| at_available: "pLast p \<le> now \<Longrightarrow> pacer_section p 0 0 (fst (pacer_Available now p))"
| at_acquire: "pacer_section p 0 0 (fst (acquire w p))"
| at_abandon: "pacer_section p 0 0 (abandonLocked w p)"
| at_release: "pacer_section p 0 0 (releaseLocked p)"
| at_leave: "pacer_section p 0 0 (leave c p)"

inductive pacer_run :: "Pacer \<Rightarrow> int \<Rightarrow> int \<Rightarrow> Pacer \<Rightarrow> bool" where
  run_none: "pacer_run p 0 0 p"
| run_section: "pacer_run p k r p' \<Longrightarrow> pacer_section p' k' r' p'' \<Longrightarrow> pacer_run p (k + k') (r + r') p''"

lemma section_metered: "pacer_section p k r p' \<Longrightarrow> bounded p \<Longrightarrow> metered p k r p'"
  by (induction rule: pacer_section.induct)
    (simp_all add: Wait_metered spend_round_metered waitTurns_round_metered parkFast_round_metered Refund_metered
      Available_metered metered_idle [OF idle_sections(4)] metered_idle [OF idle_sections(5)]
      metered_idle [OF idle_sections(6)] metered_idle [OF idle_sections(7)] metered_refl)

lemma run_metered: "pacer_run p k r p' \<Longrightarrow> bounded p \<Longrightarrow> metered p k r p'"
proof (induction rule: pacer_run.induct)
  case (run_section p k r p' k' r' p'')
  then have "metered p k r p'" "bounded p'" by (simp_all add: metered_def)
  then show ?case using metered_trans section_metered run_section by blast
qed (rule metered_refl)

text \<open>
  C23. The budget. Over any sequence of the pacer's locked sections, however the callers of both
  classes interleave, the calls granted in a window of \<open>w\<close> seconds are at most the burst plus the
  rate times \<open>w\<close> plus what was refunded, up to a billionth of a call for each call granted and the
  overdraft \<open>D\<close> the window starts with. The bucket never holds more than its burst and the reserve
  never more than its size.
\<close>

theorem pacer_budget:
  assumes "pacer_run p k r p'" "bounded p" "0 \<le> D" "- D \<le> pTokens p" "- D \<le> pFastTokens p"
  shows "of_int k * (1 - tokenEpsilon) \<le> pBurst p + pRate p * in_seconds (pLast p' - pLast p) + of_int r + D
    \<and> pTokens p' \<le> pBurst p \<and> pFastTokens p' \<le> pReserve p"
proof -
  have m: "metered p k r p'" by (rule run_metered [OF assms(1,2)])
  have "- D \<le> low p" using assms(3-5) by (simp add: low_def)
  moreover have "low p - tokenEpsilon * of_int k \<le> low p'" "low p' \<le> pTokens p'"
    using m by (simp_all add: metered_def low_def)
  ultimately have "- D - tokenEpsilon * of_int k \<le> pTokens p'" by linarith
  then have "of_int k * (1 - tokenEpsilon) \<le> pBurst p + pRate p * in_seconds (pLast p' - pLast p) + of_int r + D"
    using m assms(2) by (simp add: metered_def bounded_def algebra_simps)
  then show ?thesis using m by (simp add: metered_def bounded_def config_def)
qed

lemma ten_per_second:
  "pTokens (NewPacer 0 10) = 20" "pFastTokens (NewPacer 0 10) = 5 / 2" "pBurst (NewPacer 0 10) = 20"
  "pReserve (NewPacer 0 10) = 5 / 2" "pRate (NewPacer 0 10) = 10" "pReserveRate (NewPacer 0 10) = 5 / 2"
  "pLast (NewPacer 0 10) = 0" "pUnlimited (NewPacer 0 10) = False"
  by (simp_all add: NewPacer_def MinCallsPerSecond_def Let_def)

lemma spent_fifteen: "spend_round 1000000000 Bulk 15 (NewPacer 0 10)
    = ((NewPacer 0 10)\<lparr>pTokens := 5, pLast := 1000000000\<rparr>, Served)"
  by code_simp

theorem pacer_budget_witness:
  "of_int 15 * (1 - tokenEpsilon) \<le> 20 + 10 * in_seconds 1000000000 + of_int 0 + 0
    \<and> pTokens ((NewPacer 0 10)\<lparr>pTokens := 5, pLast := 1000000000\<rparr>) \<le> 20
    \<and> pFastTokens ((NewPacer 0 10)\<lparr>pTokens := 5, pLast := 1000000000\<rparr>) \<le> 5 / 2"
proof -
  let ?p = "NewPacer 0 10" and ?q = "(NewPacer 0 10)\<lparr>pTokens := 5, pLast := 1000000000\<rparr>"
  note f = ten_per_second
  have "pacer_section ?p (15 - left Served) 0 ?q"
    by (rule pacer_section.at_spend [of ?p 1000000000 15 Bulk ?q Served]) (simp_all add: f spent_fifteen)
  from pacer_run.run_section [OF pacer_run.run_none this] have "pacer_run ?p 15 0 ?q" by simp
  from pacer_budget [OF this, of 0] show ?thesis by (simp add: f bounded_def)
qed

section \<open>Waiting long enough\<close>

text \<open>A pacer that was created with a positive rate.\<close>

definition limited :: "Pacer \<Rightarrow> bool" where
  "limited p \<longleftrightarrow> \<not> pUnlimited p \<and> 0 < pRate p \<and> 0 < pReserveRate p \<and> pFastTokens p \<le> pTokens p \<and> bounded p"

lemma seconds_covers:
  assumes "seconds s < maxPacerWait"
  shows "s \<le> in_seconds (seconds s)"
proof (cases "0 < s")
  case True
  then have "seconds s = \<lceil>s * of_int Second\<rceil>" using assms by (auto simp: seconds_def)
  moreover have "s * of_int Second \<le> of_int \<lceil>s * of_int Second\<rceil>" by simp
  ultimately show ?thesis by (simp add: in_seconds_def pos_le_divide_eq Second_def)
qed (simp add: seconds_def)

lemma refill_shared:
  assumes "limited p" "0 \<le> d"
  defines "e \<equiv> in_seconds d"
  shows "sharedLocked (refillLocked (pLast p + d) p)
    \<ge> min (sharedCap p) (max (pTokens p - pFastTokens p + (pRate p - pReserveRate p) * e) (pTokens p - pReserve p + pRate p * e))"
    and "pTokens (refillLocked (pLast p + d) p) = min (pTokens p + e * pRate p) (pBurst p)"
proof -
  have e: "0 \<le> e" using assms(2) by (simp add: e_def)
  have t: "pTokens (refillLocked (pLast p + d) p) = min (pTokens p + e * pRate p) (pBurst p)"
    "pFastTokens (refillLocked (pLast p + d) p)
       = min (min (pFastTokens p + e * pReserveRate p) (pReserve p)) (min (pTokens p + e * pRate p) (pBurst p))"
    using assms by (auto simp: refillLocked_def Let_def limited_def bounded_def)
  then show "pTokens (refillLocked (pLast p + d) p) = min (pTokens p + e * pRate p) (pBurst p)" by simp
  show "sharedLocked (refillLocked (pLast p + d) p)
    \<ge> min (sharedCap p) (max (pTokens p - pFastTokens p + (pRate p - pReserveRate p) * e) (pTokens p - pReserve p + pRate p * e))"
    unfolding sharedLocked_def sharedCap_def t mult.commute [of _ e] right_diff_distrib by linarith
qed


lemma seconds_nonneg: "0 \<le> seconds s"
  by (simp add: seconds_def maxPacerWait_def Second_def)

lemma refill_frame:
  "timeShared (refillLocked t p) = timeShared p" "bulkTurnLocked (refillLocked t p) = bulkTurnLocked p"
  "sharedCap (refillLocked t p) = sharedCap p"
  by (simp_all add: refillLocked_def Let_def timeShared_def sharedCap_def bulkTurnLocked_def)

text \<open>The wait a caller that draws on the part above the reserve needs, in exact seconds.\<close>

lemma shared_after:
  assumes "limited p" "need \<le> sharedCap p" "sharedLocked p < need"
    and d: "(if pFastTokens p < pReserve p
             then let growth = pRate p - pReserveRate p; fill = (pReserve p - pFastTokens p) / pReserveRate p
                  in if 0 < growth \<and> need \<le> sharedLocked p + growth * fill then (need - sharedLocked p) / growth
                     else fill + (need - (sharedLocked p + growth * fill)) / pRate p
             else 0 + (need - sharedLocked p) / pRate p) \<le> in_seconds d" "0 \<le> d"
  shows "need \<le> sharedLocked (refillLocked (pLast p + d) p)"
proof -
  define e where "e = in_seconds d"
  have rates: "0 < pRate p" "0 < pReserveRate p" and fast: "pFastTokens p \<le> pTokens p" "pFastTokens p \<le> pReserve p"
    using assms(1) by (simp_all add: limited_def bounded_def)
  have sh: "sharedLocked p = pTokens p - pFastTokens p" using fast by (simp add: sharedLocked_def)
  have "need \<le> pTokens p - pFastTokens p + (pRate p - pReserveRate p) * e \<or> need \<le> pTokens p - pReserve p + pRate p * e"
  proof (cases "pFastTokens p < pReserve p")
    case True
    define growth where "growth = pRate p - pReserveRate p"
    define fill where "fill = (pReserve p - pFastTokens p) / pReserveRate p"
    show ?thesis
    proof (cases "0 < growth \<and> need \<le> sharedLocked p + growth * fill")
      case g: True
      then have "(need - sharedLocked p) / growth \<le> e"
        using True d(1) by (simp add: Let_def e_def flip: growth_def fill_def)
      then have "need - sharedLocked p \<le> e * growth" using g by (simp add: pos_divide_le_eq)
      then show ?thesis by (simp add: sh growth_def mult.commute)
    next
      case False
      then have "fill + (need - (sharedLocked p + growth * fill)) / pRate p \<le> e"
        using True d(1) by (auto simp: Let_def e_def simp flip: growth_def fill_def)
      then have "need - (sharedLocked p + growth * fill) \<le> (e - fill) * pRate p"
        using rates by (simp add: pos_divide_le_eq [symmetric])
      moreover have "pReserveRate p * fill = pReserve p - pFastTokens p" using rates by (simp add: fill_def)
      ultimately show ?thesis by (simp add: sh growth_def algebra_simps)
    qed
  next
    case False
    then have "(need - sharedLocked p) / pRate p \<le> e" using d(1) by (simp add: e_def)
    then have "need - sharedLocked p \<le> e * pRate p" using rates by (simp add: pos_divide_le_eq)
    then show ?thesis using False fast by (simp add: sh mult.commute)
  qed
  then have "need \<le> min (sharedCap p) (max (pTokens p - pFastTokens p + (pRate p - pReserveRate p) * e) (pTokens p - pReserve p + pRate p * e))"
    using assms(2) by (simp add: le_max_iff_disj)
  also have "\<dots> \<le> sharedLocked (refillLocked (pLast p + d) p)"
    unfolding e_def by (rule refill_shared(1) [OF assms(1) d(2)])
  finally show ?thesis .
qed

lemma need_open:
  assumes "limited p" "need \<le> classCapLocked c p" "need \<le> openLocked c p"
    and turn: "c = Bulk \<and> timeShared p \<Longrightarrow> bulkTurnLocked p"
  shows "need \<le> openLocked c (refillLocked (pLast p) p)"
proof -
  have "pFastTokens (refillLocked (pLast p) p) = pFastTokens p" "pTokens (refillLocked (pLast p) p) = pTokens p"
    using assms(1) by (simp_all add: refillLocked_def Let_def limited_def)
  then show ?thesis using assms
    by (cases "c = Bulk \<and> timeShared p") (auto simp: openLocked_def refill_frame sharedLocked_def)
qed

text \<open>
  A computed wait is long enough. When nobody spends meanwhile, sleeping for what
  \<open>openWaitLocked\<close> returns leaves the class at least the tokens it waits for, or all it can ever
  hold when it wants more; the one exception is a wait cut short at the one minute limit, after
  which the caller asks again. A bulk caller on a time-shared bucket asks only on its turn.
\<close>

theorem openWait_covers:
  assumes "limited p" "openWaitLocked c want p < maxPacerWait" "c = Bulk \<and> timeShared p \<Longrightarrow> bulkTurnLocked p"
  shows "min (of_int want) (classCapLocked c p) \<le> openLocked c (refillLocked (pLast p + openWaitLocked c want p) p)"
proof -
  define need where "need = min (of_int want) (classCapLocked c p)"
  define d where "d = openWaitLocked c want p"
  have cap: "need \<le> classCapLocked c p" by (simp add: need_def)
  have d0: "0 \<le> d" by (simp add: d_def openWaitLocked_def Let_def seconds_nonneg)
  show ?thesis unfolding need_def [symmetric] d_def [symmetric]
  proof (cases "need \<le> openLocked c p")
    case True
    then have "d = 0" by (simp add: d_def openWaitLocked_def need_def)
    then show "need \<le> openLocked c (refillLocked (pLast p + d) p)"
      using need_open [OF assms(1) cap True assms(3)] by simp
  next
    case False
    show "need \<le> openLocked c (refillLocked (pLast p + d) p)"
    proof (cases "c = Bulk \<and> timeShared p")
      case True
      then have o: "openLocked c p = pTokens p" using assms(3) by (simp add: openLocked_def)
      have ds: "d = seconds ((need - pTokens p) / pRate p)"
        unfolding d_def openWaitLocked_def need_def [symmetric] Let_def using False True o by simp
      then have "(need - pTokens p) / pRate p \<le> in_seconds d" using assms(2) seconds_covers by (simp add: d_def)
      then have "need \<le> pTokens p + in_seconds d * pRate p"
        using assms(1) by (simp add: limited_def pos_divide_le_eq algebra_simps)
      then show ?thesis
        using True assms(3) cap refill_shared(2) [OF assms(1) d0]
        by (simp add: openLocked_def refill_frame classCapLocked_def)
    next
      case F: False
      then have o: "openLocked q (refillLocked t p) = sharedLocked (refillLocked t p)" "openLocked c p = sharedLocked p" if "q = c" for q t
        using that by (auto simp: openLocked_def refill_frame)
      define s where "s = (if pFastTokens p < pReserve p
             then let growth = pRate p - pReserveRate p; fill = (pReserve p - pFastTokens p) / pReserveRate p
                  in if 0 < growth \<and> need \<le> sharedLocked p + growth * fill then (need - sharedLocked p) / growth
                     else fill + (need - (sharedLocked p + growth * fill)) / pRate p
             else 0 + (need - sharedLocked p) / pRate p)"
      have "d = seconds s"
        unfolding d_def openWaitLocked_def need_def [symmetric] s_def Let_def using False F o(2) [OF refl] by auto
      then have "s \<le> in_seconds d" using assms(2) seconds_covers by (simp add: d_def)
      moreover have "need \<le> sharedCap p" using F cap by (auto simp: classCapLocked_def)
      ultimately show ?thesis
        using shared_after [OF assms(1) _ _ _ d0, of need] False o [OF refl] unfolding s_def by simp
    qed
  qed
qed

definition drained :: Pacer where
  "drained = (NewPacer 0 10)\<lparr>pTokens := 0, pFastTokens := 0\<rparr>"

theorem openWait_covers_witness:
  "5 \<le> openLocked Bulk (refillLocked (pLast drained + openWaitLocked Bulk 5 drained) drained)"
proof -
  have w: "openWaitLocked Bulk 5 drained = 666666667" "classCapLocked Bulk drained = 35 / 2" "\<not> timeShared drained"
    by code_simp+
  then have "min (of_int 5) (classCapLocked Bulk drained)
      \<le> openLocked Bulk (refillLocked (pLast drained + openWaitLocked Bulk 5 drained) drained)"
    by (intro openWait_covers) (simp_all add: drained_def limited_def bounded_def ten_per_second maxPacerWait_def Second_def)
  then show ?thesis using w(2) by simp
qed

section \<open>The turnstile as a state machine\<close>

text \<open>
  Where each caller stands: outside, parked in the queue until its channel is closed, or holding
  the turnstile. A caller's number stands for the waiter it allocates, so its channel is fresh
  when it queues again. Sections that only meter tokens leave the turnstile alone.
\<close>

datatype stand = Away | Parked | Holding

inductive turnstile_step :: "Pacer \<times> (nat \<Rightarrow> stand) \<Rightarrow> Pacer \<times> (nat \<Rightarrow> stand) \<Rightarrow> bool" where
  arrives: "ph i = Away \<Longrightarrow> acquire i p = (p', got)
    \<Longrightarrow> turnstile_step (p, ph) (p', ph(i := if got then Holding else Parked))"
| handed: "ph i = Parked \<Longrightarrow> i \<in> pReady p
    \<Longrightarrow> turnstile_step (p, ph) (p\<lparr>pReady := pReady p - {i}\<rparr>, ph(i := Holding))"
| abandons: "ph i = Parked \<Longrightarrow> p' = abandonLocked i p
    \<Longrightarrow> turnstile_step (p, ph) (p'\<lparr>pReady := pReady p' - {i}\<rparr>, ph(i := Away))"
| releases: "ph i = Holding \<Longrightarrow> turnstile_step (p, ph) (releaseLocked p, ph(i := Away))"
| meters: "pHeld p' = pHeld p \<Longrightarrow> pQueue p' = pQueue p \<Longrightarrow> pReady p' = pReady p
    \<Longrightarrow> turnstile_step (p, ph) (p', ph)"

inductive turnstile_reachable :: "Pacer \<times> (nat \<Rightarrow> stand) \<Rightarrow> bool" where
  opened: "turnstile_reachable (NewPacer now rate, \<lambda>_. Away)"
| steps: "turnstile_reachable s \<Longrightarrow> turnstile_step s s' \<Longrightarrow> turnstile_reachable s'"

inductive_cases turnstile_stepE: "turnstile_step s s'"

definition owners :: "Pacer \<Rightarrow> (nat \<Rightarrow> stand) \<Rightarrow> nat set" where
  "owners p ph = {i. ph i = Holding} \<union> pReady p"

definition turnstile_ok :: "Pacer \<times> (nat \<Rightarrow> stand) \<Rightarrow> bool" where
  "turnstile_ok s \<longleftrightarrow>
     (case s of (p, ph) \<Rightarrow>
        distinct (pQueue p) \<and> set (pQueue p) \<inter> pReady p = {} \<and> (\<forall>i. ph i = Parked \<longleftrightarrow> i \<in> set (pQueue p) \<union> pReady p)
        \<and> (if pHeld p then \<exists>i. owners p ph = {i} else owners p ph = {} \<and> pQueue p = []))"

lemma dequeue_Some:
  "dequeue w q = Some q' \<Longrightarrow> distinct q \<Longrightarrow> distinct q' \<and> w \<in> set q \<and> set q' = set q - {w}"
  by (induction q arbitrary: q') (auto split: if_splits)

lemma dequeue_None: "dequeue w q = None \<longleftrightarrow> w \<notin> set q"
  by (induction q) auto

text \<open>Handing on what \<open>i\<close> owned: the turnstile goes to the first in the queue, or opens.\<close>

lemma release_ok:
  assumes "distinct (pQueue p)" "set (pQueue p) \<inter> pReady p = {}" "pHeld p"
    and "\<forall>j. ph j = Parked \<longleftrightarrow> j \<in> set (pQueue p) \<union> pReady p" "{j. ph j = Holding} = {}" "pReady p = {}"
  shows "turnstile_ok (releaseLocked p, ph)"
proof (cases "pQueue p")
  case Nil
  then show ?thesis using assms by (simp add: turnstile_ok_def releaseLocked_def owners_def)
next
  case (Cons w ws)
  then show ?thesis using assms by (auto simp: turnstile_ok_def releaseLocked_def owners_def)
qed

lemma owner_unique: "turnstile_ok (p, ph) \<Longrightarrow> i \<in> owners p ph \<Longrightarrow> owners p ph = {i} \<and> pHeld p"
  by (auto simp: turnstile_ok_def split: if_splits)

lemma turnstile_step_ok:
  assumes "turnstile_step s s'" "turnstile_ok s"
  shows "turnstile_ok s'"
  using assms
proof (induction rule: turnstile_step.induct)
  case (arrives ph i p p' got)
  then have "\<forall>j. ph j = Parked \<longleftrightarrow> j \<in> set (pQueue p) \<union> pReady p" by (simp add: turnstile_ok_def)
  from spec [OF this, of i] have "i \<notin> set (pQueue p) \<union> pReady p" using arrives(1) by simp
  moreover have "{j. j \<noteq> i \<and> (j \<noteq> i \<longrightarrow> ph j = Holding)} = {j. ph j = Holding}" using arrives(1) by auto
  ultimately show ?case using arrives
    by (cases "pHeld p") (auto simp: turnstile_ok_def acquire_def owners_def)
next
  case (handed ph i p)
  have "i \<in> owners p ph" using handed(2) by (simp add: owners_def)
  then have o: "owners p ph = {i}" "pHeld p" using owner_unique [OF handed(3)] by simp_all
  have r: "pReady p = {i}" "i \<notin> set (pQueue p)" "{j. j \<noteq> i \<and> ph j = Holding} = {}"
    using o(1) handed(2,3) by (auto simp: owners_def turnstile_ok_def)
  have "owners (p\<lparr>pReady := pReady p - {i}\<rparr>) (ph(i := Holding)) = {i}" using r by (auto simp: owners_def)
  then show ?case using handed(3) o(2) r by (simp add: turnstile_ok_def)
next
  case (abandons ph i p' p)
  show ?case
  proof (cases "i \<in> set (pQueue p)")
    case True
    then obtain q where q: "dequeue i (pQueue p) = Some q" using dequeue_None by fastforce
    have "p' = p\<lparr>pQueue := q\<rparr>" using abandons(2) q by (simp add: abandonLocked_def dequeueLocked_def)
    moreover have "i \<notin> pReady p" using True abandons(3) by (auto simp: turnstile_ok_def)
    moreover have "owners (p\<lparr>pQueue := q, pReady := pReady p - {i}\<rparr>) (ph(i := Away)) = owners p ph"
      using abandons(1) \<open>i \<notin> pReady p\<close> by (auto simp: owners_def)
    ultimately show ?thesis using abandons(1,3) True dequeue_Some [OF q]
      by (auto simp: turnstile_ok_def split: if_splits)
  next
    case False
    then have r: "i \<in> pReady p" using abandons(1,3) by (auto simp: turnstile_ok_def)
    then have o: "owners p ph = {i}" "pHeld p" using owner_unique [OF abandons(3)] by (auto simp: owners_def)
    have "p' = releaseLocked p"
      using abandons(2) False dequeue_None [of i "pQueue p"] by (simp add: abandonLocked_def dequeueLocked_def)
    then have "p'\<lparr>pReady := pReady p' - {i}\<rparr> = releaseLocked (p\<lparr>pReady := pReady p - {i}\<rparr>)"
      using False by (cases "pQueue p") (auto simp: releaseLocked_def insert_Diff_if)
    moreover have "turnstile_ok (releaseLocked (p\<lparr>pReady := pReady p - {i}\<rparr>), ph(i := Away))"
      using abandons(1,3) o r False by (intro release_ok) (auto simp: turnstile_ok_def owners_def)
    ultimately show ?thesis by simp
  qed
next
  case (releases ph i p)
  then have "owners p ph = {i}" "pHeld p" using owner_unique [of p ph i] by (auto simp: owners_def)
  have "pReady p = {}"
  proof -
    have "ph j = Parked" if "j \<in> pReady p" for j using that releases(2) by (simp add: turnstile_ok_def)
    moreover have "j = i" if "j \<in> pReady p" for j using that \<open>owners p ph = {i}\<close> by (auto simp: owners_def)
    ultimately show ?thesis using releases(1) by fastforce
  qed
  moreover have "i \<notin> set (pQueue p)"
  proof
    assume "i \<in> set (pQueue p)"
    then have "ph i = Parked" using releases(2) by (simp add: turnstile_ok_def)
    then show False using releases(1) by simp
  qed
  moreover have "{j. (ph(i := Away)) j = Holding} = {}" using \<open>owners p ph = {i}\<close> by (auto simp: owners_def)
  ultimately show ?case using releases \<open>pHeld p\<close> by (intro release_ok) (auto simp: turnstile_ok_def)
next
  case (meters p' p ph)
  then have "owners p' ph = owners p ph" by (simp add: owners_def)
  then show ?case using meters by (simp add: turnstile_ok_def)
qed

lemma reachable_turnstile_ok: "turnstile_reachable s \<Longrightarrow> turnstile_ok s"
proof (induction rule: turnstile_reachable.induct)
  case (opened now rate)
  then show ?case by (simp add: turnstile_ok_def NewPacer_def Let_def owners_def)
qed (rule turnstile_step_ok)

text \<open>
  C24. The turnstile is exclusive and never lost. In every state the callers can reach by arriving,
  being handed the turnstile, giving up and releasing it in any order, at most one caller holds it;
  and whenever a caller is parked, the turnstile is held and exactly one caller either holds it or
  has just been handed it, so a release is still to come that serves the queue.
\<close>

theorem turnstile_exclusive:
  assumes "turnstile_reachable (p, ph)"
  shows "(ph i = Holding \<longrightarrow> ph j = Holding \<longrightarrow> i = j)
    \<and> (ph i = Parked \<longrightarrow> pHeld p \<and> (\<exists>!k. ph k = Holding \<or> ph k = Parked \<and> k \<in> pReady p))"
proof -
  have ok: "turnstile_ok (p, ph)" by (rule reachable_turnstile_ok [OF assms])
  have "owners p ph = {k. ph k = Holding \<or> ph k = Parked \<and> k \<in> pReady p}"
    using ok by (auto simp: turnstile_ok_def owners_def)
  then have "\<exists>k. \<forall>x. (ph x = Holding \<or> ph x = Parked \<and> x \<in> pReady p) = (x = k)" if "pHeld p"
    using ok that by (auto simp: turnstile_ok_def set_eq_iff)
  moreover have "pHeld p" if "ph i \<noteq> Away"
    using ok that by (cases "ph i") (auto simp: turnstile_ok_def owners_def split: if_splits)
  ultimately show ?thesis by (metis stand.distinct)
qed

theorem turnstile_exclusive_witness:
  "let p = (NewPacer 0 10)\<lparr>pHeld := True, pQueue := [2]\<rparr>; ph = (\<lambda>_. Away)(1 := Holding, 2 := Parked)
   in pHeld p \<and> (\<exists>!k. ph k = Holding \<or> ph k = Parked \<and> k \<in> pReady p)"
proof -
  have a: "turnstile_step (NewPacer 0 10, \<lambda>_. Away) ((NewPacer 0 10)\<lparr>pHeld := True\<rparr>, (\<lambda>_. Away)(1 := Holding))"
    using turnstile_step.arrives [of "\<lambda>_. Away" 1 "NewPacer 0 10" _ True]
    by (simp add: acquire_def NewPacer_def Let_def MinCallsPerSecond_def)
  have b: "turnstile_step ((NewPacer 0 10)\<lparr>pHeld := True\<rparr>, (\<lambda>_. Away)(1 := Holding))
      ((NewPacer 0 10)\<lparr>pHeld := True, pQueue := [2]\<rparr>, (\<lambda>_. Away)(1 := Holding, 2 := Parked))"
    using turnstile_step.arrives [of "(\<lambda>_. Away)(1 := Holding)" 2 "(NewPacer 0 10)\<lparr>pHeld := True\<rparr>" _ False]
    by (simp add: acquire_def NewPacer_def Let_def MinCallsPerSecond_def)
  from turnstile_exclusive [OF turnstile_reachable.steps [OF turnstile_reachable.steps [OF turnstile_reachable.opened a] b], of 2]
  show ?thesis unfolding Let_def by simp
qed

end
