(* ===== verification/Timeline.thy ===== *)
theory Timeline
  imports Holes "HOL-Library.Product_Lexorder"
begin

text \<open>
  The pricing history of a chain owner (\<open>internal/collector/collector.go\<close>): the recorded changes
  to the constraint sets, the minimum base fee and the legacy parameters, the order they take
  effect in, what was in force at a block, and how a change is applied to a replay state.

  The arguments of a recorded action are a JSON document, here the map of its members. A
  \<open>constraint_sets\<close> document that does not decode is \<open>None\<close>.
\<close>

section \<open>Changes\<close>

record actionPosition =
  apTxHash :: string
  apTxIndex :: u64
  apTxIndexKnown :: bool
  apLogIndex :: i64

definition noPosition :: actionPosition where
  "noPosition = \<lparr>apTxHash = [], apTxIndex = 0, apTxIndexKnown = False, apLogIndex = 0\<rparr>"

record ConstraintSetEntry =
  ceTarget :: u64
  ceWindow :: u64
  ceStartingBacklog :: u64

record setChange =
  scBlock :: u64
  scEntries :: "ConstraintSetEntry list"
  scPos :: actionPosition

record minFeeChange =
  fcBlock :: u64
  fcFee :: bigint
  fcPos :: actionPosition

record legacyChange =
  lcBlock :: u64
  lcMethod :: string
  lcValue :: u64
  lcPos :: actionPosition

record batchCostChange =
  bcBlock :: u64
  bcPerBatchGas :: "i64 option"
  bcParentFloor :: "u64 option"

record scanOrigin =
  soBlock :: u64
  soMinBaseFee :: string
  soArchive :: bool
  soLegacy :: "LegacyParams option"
  soBatchCost :: "BatchPostingCostParams option"

record ConstraintSet =
  csID :: i64
  csChainID :: u64
  csEffectiveBlock :: u64
  csEffectiveAt :: gotime
  csConstraints :: "ConstraintSetEntry list option"
  csSource :: string

record db_OwnerAction =
  doChainID :: u64
  doBlockNumber :: u64
  doTxHash :: string
  doTxIndex :: "i64 option"
  doLogIndex :: i64
  doTS :: gotime
  doMethod :: string
  doSelector :: string
  doArgs :: "string \<Rightarrow> arg_value option"

record timeline =
  tlSets :: "setChange list"
  tlFees :: "minFeeChange list"
  tlLegacy :: "legacyChange list"
  tlOrigin :: "scanOrigin option"

definition methodSetGasPricingConstraints :: string where
  "methodSetGasPricingConstraints = ''setGasPricingConstraints''"
definition methodSetSpeedLimit :: string where
  "methodSetSpeedLimit = ''setSpeedLimit''"
definition methodSetL2GasPricingInertia :: string where
  "methodSetL2GasPricingInertia = ''setL2GasPricingInertia''"
definition methodSetL2GasBacklogTolerance :: string where
  "methodSetL2GasBacklogTolerance = ''setL2GasBacklogTolerance''"

definition replayFrom :: "scanOrigin option \<Rightarrow> u64" where
  "replayFrom o' = (case o' of None \<Rightarrow> 0 | Some s \<Rightarrow> soBlock s + 1)"

definition origin_block :: "scanOrigin option \<Rightarrow> u64" where
  "origin_block o' = (case o' of None \<Rightarrow> 0 | Some s \<Rightarrow> soBlock s)"

definition fullState :: "scanOrigin option \<Rightarrow> bool" where
  "fullState o' \<longleftrightarrow> (case o' of None \<Rightarrow> False | Some s \<Rightarrow> soArchive s \<and> soMinBaseFee s \<noteq> [])"

definition origin_fee :: "scanOrigin option \<Rightarrow> bigint option" where
  "origin_fee o' = (case o' of None \<Rightarrow> None | Some s \<Rightarrow> if soMinBaseFee s = [] then None else SetString10 (soMinBaseFee s))"

section \<open>Decoding recorded actions\<close>

text \<open>
  A pointer member of the struct the arguments are unmarshalled into: absent, read, or of the
  wrong type, which fails the whole document (\<open>None\<close>).
\<close>

definition uint_member :: "string \<Rightarrow> (string \<Rightarrow> arg_value option) \<Rightarrow> u64 option option" where
  "uint_member k args =
     (case args k of
        None \<Rightarrow> Some None
      | Some (AUint v) \<Rightarrow> Some (Some v)
      | Some (AInt v) \<Rightarrow> if 0 \<le> v then Some (Some (word_of_int v)) else None
      | _ \<Rightarrow> None)"

definition int_member :: "string \<Rightarrow> (string \<Rightarrow> arg_value option) \<Rightarrow> i64 option option" where
  "int_member k args =
     (case args k of
        None \<Rightarrow> Some None
      | Some (AInt v) \<Rightarrow> Some (Some v)
      | Some (AUint v) \<Rightarrow> if uint v \<le> MaxInt64 then Some (Some (uint v)) else None
      | _ \<Rightarrow> None)"

definition actionPositionOf :: "db_OwnerAction \<Rightarrow> actionPosition" where
  "actionPositionOf a =
     \<lparr>apTxHash = doTxHash a, apTxIndex = u64_of_i64 (max (case doTxIndex a of None \<Rightarrow> 0 | Some v \<Rightarrow> v) 0),
      apTxIndexKnown = (doTxIndex a \<noteq> None), apLogIndex = doLogIndex a\<rparr>"

definition pendingPositionOf :: "OwnerAction \<Rightarrow> actionPosition" where
  "pendingPositionOf a =
     \<lparr>apTxHash = oaTxHash a, apTxIndex = oaTxIndex a, apTxIndexKnown = True, apLogIndex = i64_of_u64 (oaLogIndex a)\<rparr>"

definition entriesOf :: "ConstraintParam list \<Rightarrow> ConstraintSetEntry list" where
  "entriesOf params =
     map (\<lambda>c. \<lparr>ceTarget = GasTargetPerSecond c, ceWindow = AdjustmentWindowSeconds c,
               ceStartingBacklog = StartingBacklog c\<rparr>) params"

definition setChangeOf :: "u64 \<Rightarrow> string \<Rightarrow> (string \<Rightarrow> arg_value option) \<Rightarrow> setChange option" where
  "setChangeOf block method args =
     (if method \<noteq> methodSetGasPricingConstraints then None
      else case args ''constraints'' of
             Some (AConstraints cs) \<Rightarrow> Some \<lparr>scBlock = block, scEntries = entriesOf cs, scPos = noPosition\<rparr>
           | _ \<Rightarrow> None)"

definition batchCostChangeOf :: "u64 \<Rightarrow> string \<Rightarrow> (string \<Rightarrow> arg_value option) \<Rightarrow> batchCostChange option" where
  "batchCostChangeOf block method args =
     (if method = ''setPerBatchGasCharge''
      then case int_member ''cost'' args of
             Some (Some v) \<Rightarrow> Some \<lparr>bcBlock = block, bcPerBatchGas = Some v, bcParentFloor = None\<rparr>
           | _ \<Rightarrow> None
      else if method = ''setParentGasFloorPerToken''
      then case uint_member ''gasFloorPerToken'' args of
             Some (Some v) \<Rightarrow> Some \<lparr>bcBlock = block, bcPerBatchGas = None, bcParentFloor = Some v\<rparr>
           | _ \<Rightarrow> None
      else None)"

definition minFeeChangeOf :: "u64 \<Rightarrow> string \<Rightarrow> (string \<Rightarrow> arg_value option) \<Rightarrow> minFeeChange option" where
  "minFeeChangeOf block method args =
     (if method \<noteq> methodSetMinimumL2BaseFee then None
      else case args ''priceInWei'' of
             Some (AString s) \<Rightarrow> map_option (\<lambda>fee. \<lparr>fcBlock = block, fcFee = fee, fcPos = noPosition\<rparr>) (SetString10 s)
           | _ \<Rightarrow> None)"

definition legacyChangeOf :: "u64 \<Rightarrow> string \<Rightarrow> (string \<Rightarrow> arg_value option) \<Rightarrow> legacyChange option" where
  "legacyChangeOf block method args =
     (case (uint_member ''limit'' args, uint_member ''sec'' args) of
        (Some limit, Some sec) \<Rightarrow>
          if method = methodSetSpeedLimit
          then map_option (\<lambda>v. \<lparr>lcBlock = block, lcMethod = method, lcValue = v, lcPos = noPosition\<rparr>) limit
          else if method = methodSetL2GasPricingInertia \<or> method = methodSetL2GasBacklogTolerance
          then map_option (\<lambda>v. \<lparr>lcBlock = block, lcMethod = method, lcValue = v, lcPos = noPosition\<rparr>) sec
          else None
      | _ \<Rightarrow> None)"

text \<open>The caches of a follower; the actions come newest first and are read oldest first.\<close>

record caches =
  chSets :: "ConstraintSet list"
  chSetChanges :: "setChange list"
  chMinFeeChanges :: "minFeeChange list"
  chLegacyChanges :: "legacyChange list"
  chBatchCostChanges :: "batchCostChange list"

definition applySetsLocked :: "ConstraintSet list \<Rightarrow> db_OwnerAction list \<Rightarrow> caches" where
  "applySetsLocked sets actions =
     (let acts = rev actions in
      \<lparr>chSets = sets,
       chSetChanges = List.map_filter (\<lambda>a. map_option (\<lambda>c. c\<lparr>scPos := actionPositionOf a\<rparr>)
         (setChangeOf (doBlockNumber a) (doMethod a) (doArgs a))) acts,
       chMinFeeChanges = List.map_filter (\<lambda>a. map_option (\<lambda>c. c\<lparr>fcPos := actionPositionOf a\<rparr>)
         (minFeeChangeOf (doBlockNumber a) (doMethod a) (doArgs a))) acts,
       chLegacyChanges = List.map_filter (\<lambda>a. map_option (\<lambda>c. c\<lparr>lcPos := actionPositionOf a\<rparr>)
         (legacyChangeOf (doBlockNumber a) (doMethod a) (doArgs a))) acts,
       chBatchCostChanges = List.map_filter (\<lambda>a. batchCostChangeOf (doBlockNumber a) (doMethod a) (doArgs a)) acts\<rparr>)"

section \<open>The timeline\<close>

definition changeLess :: "u64 \<Rightarrow> actionPosition \<Rightarrow> u64 \<Rightarrow> actionPosition \<Rightarrow> bool" where
  "changeLess aBlock a bBlock b \<longleftrightarrow>
     (if aBlock \<noteq> bBlock then aBlock < bBlock
      else if (apTxHash a = []) \<noteq> (apTxHash b = []) then apTxHash a = []
      else if apTxIndex a \<noteq> apTxIndex b then apTxIndex a < apTxIndex b
      else apLogIndex a < apLogIndex b)"

text \<open>The key \<open>changeLess\<close> orders by; a stable sort with it is a stable sort by the key.\<close>

definition change_key :: "u64 \<Rightarrow> actionPosition \<Rightarrow> u64 \<times> bool \<times> u64 \<times> i64" where
  "change_key b p = (b, apTxHash p \<noteq> [], apTxIndex p, apLogIndex p)"

definition sameAction :: "actionPosition \<Rightarrow> actionPosition \<Rightarrow> bool" where
  "sameAction a b \<longleftrightarrow> apTxHash a \<noteq> [] \<and> apTxHash a = apTxHash b \<and> apLogIndex a = apLogIndex b"

definition hasAction :: "timeline \<Rightarrow> actionPosition \<Rightarrow> bool" where
  "hasAction tml pos \<longleftrightarrow>
     (\<exists>c\<in>set (tlSets tml). sameAction (scPos c) pos) \<or> (\<exists>c\<in>set (tlFees tml). sameAction (fcPos c) pos)
     \<or> (\<exists>c\<in>set (tlLegacy tml). sameAction (lcPos c) pos)"

definition sameSets :: "ConstraintSetEntry list \<Rightarrow> ConstraintSetEntry list \<Rightarrow> bool" where
  "sameSets a b \<longleftrightarrow> map (\<lambda>e. (ceTarget e, ceWindow e)) a = map (\<lambda>e. (ceTarget e, ceWindow e)) b"

definition add_set :: "timeline \<Rightarrow> ConstraintSet \<Rightarrow> timeline" where
  "add_set tml cs =
     (case csConstraints cs of
        None \<Rightarrow> tml
      | Some entries \<Rightarrow>
          if \<exists>c\<in>set (tlSets tml). scBlock c = csEffectiveBlock cs \<and> sameSets (scEntries c) entries then tml
          else tml\<lparr>tlSets := tlSets tml @ [\<lparr>scBlock = csEffectiveBlock cs, scEntries = entries, scPos = noPosition\<rparr>]\<rparr>)"

text \<open>A pending action carries constraints exactly when its arguments hold them.\<close>

definition add_pending :: "timeline \<Rightarrow> OwnerAction \<Rightarrow> timeline" where
  "add_pending tml a =
     (let pos = pendingPositionOf a in
      if hasAction tml pos then tml
      else
        let tml = (case oaArgs a ''constraints'' of
                    Some (AConstraints cs) \<Rightarrow>
                      tml\<lparr>tlSets := tlSets tml @ [\<lparr>scBlock = oaBlockNumber a, scEntries = entriesOf cs, scPos = pos\<rparr>]\<rparr>
                  | _ \<Rightarrow> tml);
            tml = (case minFeeChangeOf (oaBlockNumber a) (oaMethod a) (oaArgs a) of
                    Some c \<Rightarrow> tml\<lparr>tlFees := tlFees tml @ [c\<lparr>fcPos := pos\<rparr>]\<rparr> | None \<Rightarrow> tml)
        in case legacyChangeOf (oaBlockNumber a) (oaMethod a) (oaArgs a) of
             Some c \<Rightarrow> tml\<lparr>tlLegacy := tlLegacy tml @ [c\<lparr>lcPos := pos\<rparr>]\<rparr> | None \<Rightarrow> tml)"

definition timelineLocked :: "caches \<Rightarrow> scanOrigin option \<Rightarrow> OwnerAction list \<Rightarrow> timeline" where
  "timelineLocked ch orig pending =
     (let tml = \<lparr>tlSets = chSetChanges ch, tlFees = chMinFeeChanges ch, tlLegacy = chLegacyChanges ch, tlOrigin = orig\<rparr>;
          tml = foldl add_set tml (chSets ch);
          tml = foldl add_pending tml pending
      in tml\<lparr>tlSets := sort_key (\<lambda>c. change_key (scBlock c) (scPos c)) (tlSets tml),
            tlFees := sort_key (\<lambda>c. change_key (fcBlock c) (fcPos c)) (tlFees tml),
            tlLegacy := sort_key (\<lambda>c. change_key (lcBlock c) (lcPos c)) (tlLegacy tml)\<rparr>)"

text \<open>Whether a change at a block has taken effect when that block is priced.\<close>

definition before_pricing :: "u64 \<Rightarrow> actionPosition \<Rightarrow> u64 \<Rightarrow> bool" where
  "before_pricing block pos number \<longleftrightarrow> block < number \<or> block = number \<and> apTxHash pos = []"

definition base_fee_at :: "timeline \<Rightarrow> u64 \<Rightarrow> bigint" where
  "base_fee_at tml number =
     (case (origin_fee (tlOrigin tml), tlOrigin tml) of
        (Some v, Some s) \<Rightarrow> if soBlock s \<le> number then v else InitialMinimumBaseFeeWei
      | _ \<Rightarrow> InitialMinimumBaseFeeWei)"

definition minFeeAt :: "timeline \<Rightarrow> u64 \<Rightarrow> bigint" where
  "minFeeAt tml number =
     foldl (\<lambda>fee c. if before_pricing (fcBlock c) (fcPos c) number then fcFee c else fee) (base_fee_at tml number) (tlFees tml)"

definition minFeeAfter :: "timeline \<Rightarrow> u64 \<Rightarrow> bigint" where
  "minFeeAfter tml number =
     foldl (\<lambda>fee c. if fcBlock c \<le> number then fcFee c else fee) (base_fee_at tml number) (tlFees tml)"

definition feeChangesInBlock :: "timeline \<Rightarrow> u64 \<Rightarrow> bool" where
  "feeChangesInBlock tml number \<longleftrightarrow> (\<exists>c\<in>set (tlFees tml). fcBlock c = number \<and> apTxHash (fcPos c) \<noteq> [])"

definition minFeeChangeBlock :: "timeline \<Rightarrow> u64 \<Rightarrow> u64" where
  "minFeeChangeBlock tml number =
     foldl (\<lambda>block c. if before_pricing (fcBlock c) (fcPos c) number then fcBlock c else block)
       (case (origin_fee (tlOrigin tml), tlOrigin tml) of
          (Some v, Some s) \<Rightarrow> if soBlock s \<le> number then soBlock s else 0
        | _ \<Rightarrow> 0) (tlFees tml)"

definition applyLegacy :: "Legacy \<Rightarrow> legacyChange \<Rightarrow> Legacy" where
  "applyLegacy l c =
     (if lcMethod c = methodSetSpeedLimit then l\<lparr>SpeedLimit := lcValue c\<rparr>
      else if lcMethod c = methodSetL2GasPricingInertia then l\<lparr>Inertia := lcValue c\<rparr>
      else if lcMethod c = methodSetL2GasBacklogTolerance then l\<lparr>Tolerance := lcValue c\<rparr>
      else l)"

definition legacyThrough :: "timeline \<Rightarrow> u64 \<Rightarrow> Legacy option \<Rightarrow> bool \<Rightarrow> Legacy option" where
  "legacyThrough tml number base includeBlock =
     (case base of
        None \<Rightarrow> None
      | Some b \<Rightarrow>
          let start = (case tlOrigin tml of
                         Some s \<Rightarrow> (case soLegacy s of
                                     Some lp \<Rightarrow> if soBlock s \<le> number
                                       then b\<lparr>SpeedLimit := lpSpeedLimit lp, Inertia := lpInertia lp, Tolerance := lpTolerance lp\<rparr>
                                       else b
                                   | None \<Rightarrow> b)
                       | None \<Rightarrow> b)
          in Some (foldl (\<lambda>l c. if lcBlock c < number \<or> lcBlock c = number \<and> (includeBlock \<or> apTxHash (lcPos c) = [])
                                then applyLegacy l c else l) start (tlLegacy tml)))"

definition legacyAt :: "timeline \<Rightarrow> u64 \<Rightarrow> Legacy option \<Rightarrow> Legacy option" where
  "legacyAt tml number base = legacyThrough tml number base True"

definition legacyBefore :: "timeline \<Rightarrow> u64 \<Rightarrow> Legacy option \<Rightarrow> Legacy option" where
  "legacyBefore tml number base = legacyThrough tml number base False"

text \<open>A \<open>pricingChange\<close> holds exactly one of the three kinds.\<close>

datatype pricingChange = SetChange setChange | FeeChange minFeeChange | LegacyChange legacyChange

fun change_pos :: "pricingChange \<Rightarrow> actionPosition" where
  "change_pos (SetChange c) = scPos c"
| "change_pos (FeeChange c) = fcPos c"
| "change_pos (LegacyChange c) = lcPos c"

fun setBlock :: "pricingChange \<Rightarrow> u64" where
  "setBlock (SetChange c) = scBlock c"
| "setBlock (FeeChange c) = fcBlock c"
| "setBlock (LegacyChange c) = lcBlock c"

definition changesAt :: "timeline \<Rightarrow> u64 \<Rightarrow> bool \<Rightarrow> pricingChange list" where
  "changesAt tml number transaction =
     sort_key (\<lambda>c. change_key number (change_pos c))
       (filter (\<lambda>c. setBlock c = number \<and> (apTxHash (change_pos c) \<noteq> []) = transaction)
         (map SetChange (tlSets tml) @ map FeeChange (tlFees tml) @ map LegacyChange (tlLegacy tml)))"

definition boundaryAt :: "timeline \<Rightarrow> u64 \<Rightarrow> bool" where
  "boundaryAt tml number \<longleftrightarrow>
     (\<exists>c\<in>set (tlSets tml). scBlock c = number) \<or> (\<exists>c\<in>set (tlFees tml). fcBlock c = number)
     \<or> (\<exists>c\<in>set (tlLegacy tml). lcBlock c = number)"

section \<open>Replay states\<close>

definition constraints_of_entries :: "ConstraintSetEntry list \<Rightarrow> Constraint list" where
  "constraints_of_entries entries =
     map (\<lambda>e. \<lparr>Target = ceTarget e, Window = ceWindow e, Backlog = ceStartingBacklog e\<rparr>) entries"

definition stateFromEntries :: "ConstraintSetEntry list \<Rightarrow> bigint \<Rightarrow> State" where
  "stateFromEntries entries minFee =
     \<lparr>Constraints = constraints_of_entries entries, LegacyParams = None, MinBaseFee = Some minFee\<rparr>"

definition legacy_of_params :: "LegacyParams \<Rightarrow> Legacy" where
  "legacy_of_params lp =
     \<lparr>SpeedLimit = lpSpeedLimit lp, Inertia = lpInertia lp, Tolerance = lpTolerance lp, LegacyBacklog = lpBacklog lp\<rparr>"

definition stateFromSample :: "Sample \<Rightarrow> State" where
  "stateFromSample s =
     (if sample_IsLegacy s
      then \<lparr>Constraints = [], LegacyParams = map_option legacy_of_params (smLegacy s), MinBaseFee = Some (smMinBaseFee s)\<rparr>
      else \<lparr>Constraints = map (\<lambda>c. \<lparr>Target = ncTarget c, Window = ncWindow c, Backlog = ncBacklog c\<rparr>) (smConstraints s),
            LegacyParams = None, MinBaseFee = Some (smMinBaseFee s)\<rparr>)"

definition sampleBacklogs :: "Sample \<Rightarrow> u64 list" where
  "sampleBacklogs s =
     (if sample_IsLegacy s then (case smLegacy s of None \<Rightarrow> [] | Some lp \<Rightarrow> [lpBacklog lp])
      else map ncBacklog (smConstraints s))"

definition sameShape :: "State option \<Rightarrow> Sample \<Rightarrow> bool" where
  "sameShape st s \<longleftrightarrow>
     (case st of
        None \<Rightarrow> False
      | Some st \<Rightarrow>
          if sample_IsLegacy s
          then IsLegacy st \<and>
            (case (State.LegacyParams st, smLegacy s) of
               (Some l, Some lp) \<Rightarrow> SpeedLimit l = lpSpeedLimit lp \<and> Inertia l = lpInertia lp \<and> Tolerance l = lpTolerance lp
             | _ \<Rightarrow> False)
          else map (\<lambda>c. (Target c, Window c)) (Constraints st) = map (\<lambda>c. (ncTarget c, ncWindow c)) (smConstraints s))"

definition sameEntries :: "ConstraintSetEntry list \<Rightarrow> nitro_constraint list \<Rightarrow> bool" where
  "sameEntries entries live \<longleftrightarrow>
     map (\<lambda>e. (ceTarget e, ceWindow e)) entries = map (\<lambda>c. (ncTarget c, ncWindow c)) live"

text \<open>
  A state without a floor makes the set case dereference nil; every state the collector builds
  carries one.
\<close>

definition applyPricingChange :: "State \<Rightarrow> pricingChange \<Rightarrow> State" where
  "applyPricingChange st change =
     (case change of
        SetChange c \<Rightarrow>
          let st = st\<lparr>Constraints := constraints_of_entries (scEntries c)\<rparr>
          in if Constraints st \<noteq> [] then st\<lparr>State.LegacyParams := None\<rparr> else st
      | FeeChange c \<Rightarrow> st\<lparr>MinBaseFee := Some (fcFee c)\<rparr>
      | LegacyChange c \<Rightarrow>
          (case State.LegacyParams st of
             None \<Rightarrow> st
           | Some l \<Rightarrow> st\<lparr>State.LegacyParams := Some (applyLegacy l c)\<rparr>))"

definition applyAt :: "timeline \<Rightarrow> State \<Rightarrow> u64 \<Rightarrow> State" where
  "applyAt tml st number =
     foldl applyPricingChange (foldl applyPricingChange st (changesAt tml number False)) (changesAt tml number True)"

definition setAt :: "ConstraintSet list \<Rightarrow> u64 \<Rightarrow> ConstraintSet option" where
  "setAt sets number = foldl (\<lambda>out cs. if csEffectiveBlock cs \<le> number then Some cs else out) None sets"

definition stateAtLocked :: "caches \<Rightarrow> scanOrigin option \<Rightarrow> u64 \<Rightarrow> Sample \<Rightarrow> State option" where
  "stateAtLocked ch orig number sample =
     (let sampled = (let st = stateFromSample sample
                     in (SetBacklogs st (replicate (length (Constraints st)) 0))\<lparr>MinBaseFee := Some 0\<rparr>)
      in if sample_IsLegacy sample
         then case smLegacy sample of
                None \<Rightarrow> None
              | Some lp \<Rightarrow>
                  let base = (legacy_of_params lp)\<lparr>LegacyBacklog := 0\<rparr>
                  in Some \<lparr>Constraints = [], LegacyParams = legacyAt (timelineLocked ch orig []) number (Some base),
                           MinBaseFee = Some 0\<rparr>
         else case setAt (chSets ch) number of
                None \<Rightarrow> Some sampled
              | Some cs \<Rightarrow>
                  (case csConstraints cs of
                     Some entries \<Rightarrow> Some (SetBacklogs (stateFromEntries entries 0) (replicate (length entries) 0))
                   | None \<Rightarrow> Some sampled))"

section \<open>The order of changes\<close>

lemma changeLess_key: "changeLess a p b q \<longleftrightarrow> change_key a p < change_key b q"
  by (auto simp: changeLess_def change_key_def)

lemma filter_sorted_split:
  assumes "sorted (map k xs)" and "\<And>x y. P x \<Longrightarrow> Q y \<Longrightarrow> k x < k y"
  shows "filter (\<lambda>x. P x \<or> Q x) xs = filter P xs @ filter Q xs"
  using assms(1)
proof (induction xs)
  case (Cons x xs)
  show ?case
  proof (cases "Q x")
    case True
    have "\<not> P y" if "y \<in> set (x # xs)" for y
      using assms(2) [OF _ True, of y] Cons.prems that by force
    then have "filter P (x # xs) = []" "filter (\<lambda>x. P x \<or> Q x) (x # xs) = filter Q (x # xs)"
      by (auto simp: filter_empty_conv intro!: filter_cong)
    then show ?thesis by simp
  qed (use Cons in auto)
qed simp

lemma le_next: "(m :: u64) < m + 1 \<Longrightarrow> b \<le> m \<longleftrightarrow> b < m + 1"
  using unat_next [of m "m + 1"] by (auto simp: word_le_nat_alt word_less_nat_alt)

section \<open>The floor a replay carries\<close>

definition last_fee :: "bigint \<Rightarrow> minFeeChange list \<Rightarrow> bigint" where
  "last_fee v cs = foldl (\<lambda>_ c. fcFee c) v cs"

lemma last_fee_append: "last_fee v (as @ bs) = last_fee (last_fee v as) bs"
  by (simp add: last_fee_def)

lemma foldl_last_fee: "foldl (\<lambda>fee c. if P c then fcFee c else fee) v cs = last_fee v (filter P cs)"
  by (induction cs arbitrary: v) (simp_all add: last_fee_def)

fun is_fee :: "pricingChange \<Rightarrow> bool" where
  "is_fee (FeeChange _) \<longleftrightarrow> True"
| "is_fee _ \<longleftrightarrow> False"

lemma apply_not_fee: "\<not> is_fee c \<Longrightarrow> MinBaseFee (applyPricingChange st c) = MinBaseFee st"
  by (cases c) (simp_all add: applyPricingChange_def Let_def split: option.split)

lemma apply_fee: "MinBaseFee (applyPricingChange st (FeeChange f)) = Some (fcFee f)"
  by (simp add: applyPricingChange_def)

lemma floor_after:
  assumes "MinBaseFee st = Some v" "filter is_fee cs = map FeeChange fs"
  shows "MinBaseFee (foldl applyPricingChange st cs) = Some (last_fee v fs)"
  using assms
proof (induction cs arbitrary: st v fs)
  case (Cons c cs)
  show ?case
  proof (cases "is_fee c")
    case True
    then obtain f fs' where "c = FeeChange f" "fs = f # fs'" "filter is_fee cs = map FeeChange fs'"
      using Cons.prems(2) by (cases fs) auto
    then show ?thesis using Cons.IH [of "applyPricingChange st c" "fcFee f" fs'] by (simp add: apply_fee last_fee_def)
  next
    case False
    then show ?thesis using Cons.IH [of "applyPricingChange st c" v fs] Cons.prems by (simp add: apply_not_fee)
  qed
qed (simp add: last_fee_def)

abbreviation sorted_fees :: "timeline \<Rightarrow> bool" where
  "sorted_fees tml \<equiv> sorted (map (\<lambda>c. change_key (fcBlock c) (fcPos c)) (tlFees tml))"

lemma timelineLocked_sorted: "sorted_fees (timelineLocked ch orig pending)"
  by (simp add: timelineLocked_def Let_def)

lemma fee_changesAt:
  assumes "sorted_fees tml"
  shows "filter is_fee (changesAt tml n t)
    = map FeeChange (filter (\<lambda>c. fcBlock c = n \<and> (apTxHash (fcPos c) \<noteq> []) = t) (tlFees tml))"
proof -
  let ?P = "\<lambda>c. setBlock c = n \<and> (apTxHash (change_pos c) \<noteq> []) = t"
  let ?R = "\<lambda>c. fcBlock c = n \<and> (apTxHash (fcPos c) \<noteq> []) = t"
  have n: "filter is_fee (filter ?P (map SetChange xs)) = []" "filter is_fee (filter ?P (map LegacyChange ys)) = []" for xs ys
    by (auto simp: filter_empty_conv)
  have f: "filter is_fee (filter ?P (map FeeChange xs)) = map FeeChange (filter ?R xs)" for xs
    by (simp add: filter_map comp_def)
  have s: "sorted (map (\<lambda>c. change_key n (fcPos c)) (filter ?R (tlFees tml)))"
  proof -
    have "sorted (map (\<lambda>c. change_key (fcBlock c) (fcPos c)) (filter ?R (tlFees tml)))"
      using assms by (rule sorted_filter)
    moreover have "map (\<lambda>c. change_key (fcBlock c) (fcPos c)) (filter ?R (tlFees tml))
        = map (\<lambda>c. change_key n (fcPos c)) (filter ?R (tlFees tml))" by (rule map_cong) auto
    ultimately show ?thesis by simp
  qed
  have "filter is_fee (changesAt tml n t) = sort_key (\<lambda>c. change_key n (change_pos c)) (map FeeChange (filter ?R (tlFees tml)))"
    by (simp only: changesAt_def filter_sort filter_append n f append_Nil append_Nil2)
  also have "\<dots> = map FeeChange (filter ?R (tlFees tml))"
    using s by (intro sort_key_id_if_sorted) (simp add: comp_def)
  finally show ?thesis .
qed

lemma split_fees:
  assumes "sorted_fees tml" "n = m + 1" "m < n"
  defines "early \<equiv> filter (\<lambda>c. fcBlock c \<le> m) (tlFees tml)"
    and "start \<equiv> filter (\<lambda>c. fcBlock c = n \<and> (apTxHash (fcPos c) \<noteq> []) = False) (tlFees tml)"
    and "acts \<equiv> filter (\<lambda>c. fcBlock c = n \<and> (apTxHash (fcPos c) \<noteq> []) = True) (tlFees tml)"
  shows "filter (\<lambda>c. before_pricing (fcBlock c) (fcPos c) n) (tlFees tml) = early @ start"
    "filter (\<lambda>c. fcBlock c \<le> n) (tlFees tml) = early @ start @ acts"
proof -
  have le: "b \<le> m \<longleftrightarrow> b < n" for b using assms(2,3) le_next by simp
  have "filter (\<lambda>c. before_pricing (fcBlock c) (fcPos c) n) (tlFees tml)
      = filter (\<lambda>c. fcBlock c \<le> m \<or> (fcBlock c = n \<and> (apTxHash (fcPos c) \<noteq> []) = False)) (tlFees tml)"
    by (rule filter_cong) (auto simp: before_pricing_def le)
  then show early_start: "filter (\<lambda>c. before_pricing (fcBlock c) (fcPos c) n) (tlFees tml) = early @ start"
    unfolding early_def start_def
    by (subst (asm) filter_sorted_split [OF assms(1)]) (auto simp: change_key_def le)
  have "filter (\<lambda>c. fcBlock c \<le> n) (tlFees tml)
      = filter (\<lambda>c. before_pricing (fcBlock c) (fcPos c) n \<or> (fcBlock c = n \<and> (apTxHash (fcPos c) \<noteq> []) = True)) (tlFees tml)"
    by (rule filter_cong) (auto simp: before_pricing_def order_le_less)
  also have "\<dots> = (early @ start) @ acts"
    unfolding early_start [symmetric] acts_def
    by (rule filter_sorted_split [OF assms(1)]) (auto simp: change_key_def before_pricing_def)
  finally show "filter (\<lambda>c. fcBlock c \<le> n) (tlFees tml) = early @ start @ acts" by simp
qed

text \<open>
  C25. A replay that carries the floor from block to block prices every block with the floor the
  recorded history says was in force. If the state entering block \<open>m + 1\<close> holds the floor at the end
  of block \<open>m\<close>, then the changes applied at the start of the block make it the floor the block is
  priced with, and the changes of its transactions make it the floor at its end, unless the scan
  origin itself lies at \<open>m + 1\<close>.
\<close>

theorem replay_carries_floor:
  assumes "tml = timelineLocked ch orig pending" "m < m + 1"
    and "MinBaseFee st = Some (minFeeAfter tml m)" "orig = None \<or> (\<exists>s. orig = Some s \<and> soBlock s \<noteq> m + 1)"
  shows "MinBaseFee (foldl applyPricingChange st (changesAt tml (m + 1) False)) = Some (minFeeAt tml (m + 1))
    \<and> MinBaseFee (applyAt tml st (m + 1)) = Some (minFeeAfter tml (m + 1))"
proof -
  have s: "sorted_fees tml" using assms(1) timelineLocked_sorted by simp
  have "tlOrigin tml = orig"
  proof -
    have a: "tlOrigin (foldl add_set t xs) = tlOrigin t" for t xs
      by (induction xs arbitrary: t) (simp_all add: add_set_def split: option.split)
    have "tlOrigin (add_pending t x) = tlOrigin t" for t x
      by (simp add: add_pending_def Let_def split: option.split arg_value.split)
    then have "tlOrigin (foldl add_pending t xs) = tlOrigin t" for t xs by (induction xs arbitrary: t) simp_all
    then show ?thesis using a assms(1) by (simp add: timelineLocked_def Let_def)
  qed
  moreover have "b \<le> m + 1 \<longleftrightarrow> b \<le> m" if "b \<noteq> m + 1" for b
    using that le_next [OF assms(2), of b] by auto
  ultimately have b: "base_fee_at tml (m + 1) = base_fee_at tml m"
    using assms(4) by (auto simp: base_fee_at_def split: option.split)
  note f = split_fees [OF s refl assms(2)]
  show ?thesis
    using floor_after [OF assms(3) fee_changesAt [OF s]]
      floor_after [OF floor_after [OF assms(3) fee_changesAt [OF s]] fee_changesAt [OF s]]
    by (simp add: applyAt_def minFeeAt_def minFeeAfter_def foldl_last_fee f b last_fee_append)
qed

definition floor_history :: caches where
  "floor_history = \<lparr>chSets = [], chSetChanges = [],
     chMinFeeChanges = [\<lparr>fcBlock = 5, fcFee = 30, fcPos = \<lparr>apTxHash = ''0x1'', apTxIndex = 2, apTxIndexKnown = True, apLogIndex = 0\<rparr>\<rparr>,
                        \<lparr>fcBlock = 3, fcFee = 20, fcPos = noPosition\<rparr>],
     chLegacyChanges = [], chBatchCostChanges = []\<rparr>"

definition floor_state :: State where
  "floor_state = \<lparr>Constraints = [], LegacyParams = None, MinBaseFee = Some 20\<rparr>"

lemma floor_history_at_4: "minFeeAfter (timelineLocked floor_history None []) 4 = 20"
  by (simp add: minFeeAfter_def foldl_last_fee timelineLocked_def floor_history_def last_fee_def base_fee_at_def
      change_key_def noPosition_def insort_key.simps)

theorem replay_carries_floor_witness:
  "MinBaseFee (foldl applyPricingChange floor_state (changesAt (timelineLocked floor_history None []) 5 False))
     = Some (minFeeAt (timelineLocked floor_history None []) 5)
   \<and> MinBaseFee (applyAt (timelineLocked floor_history None []) floor_state 5)
     = Some (minFeeAfter (timelineLocked floor_history None []) 5)"
  using replay_carries_floor [OF refl, of 4 floor_state floor_history None "[]"]
  by (simp add: floor_history_at_4) (simp add: floor_state_def)

end
