(* ===== verification/Replay_Rows.thy ===== *)
theory Replay_Rows
  imports Timeline
begin

text \<open>
  From headers to block rows (\<open>internal/collector/tick.go\<close>, \<open>actions.go\<close>, \<open>arbos.go\<close>): the checks on
  a run of headers, the boundaries of owner actions inside a block, the replay that splits a
  block's gas at them, the rows it yields, and the shift that moves each pricing group onto the
  block it prices.
\<close>

section \<open>Checks on a run of headers\<close>

definition hashMismatch :: "string \<Rightarrow> string \<Rightarrow> bool" where
  "hashMismatch a b \<longleftrightarrow> a \<noteq> [] \<and> b \<noteq> [] \<and> a \<noteq> b"

datatype collector_error =
    NotConsecutive u64 u64
  | NotLinked u64 u64
  | BadReceipt string string
  | BadBoundary u64 string
  | FetchFailed nitro_error

fun verifyChain :: "Header list \<Rightarrow> collector_error + unit" where
  "verifyChain (a # b # hs) =
     (if hNumber b \<noteq> hNumber a + 1 then Inl (NotConsecutive (hNumber a) (hNumber b))
      else if hashMismatch (hHash a) (hParentHash b) then Inl (NotLinked (hNumber a) (hNumber b))
      else verifyChain (b # hs))"
| "verifyChain _ = Inr ()"

definition unsupportedModel :: "State option \<Rightarrow> Header list \<Rightarrow> (u64 \<times> u64) option" where
  "unsupportedModel st headers =
     (case st of
        None \<Rightarrow> None
      | Some s \<Rightarrow>
          if IsLegacy s then None
          else foldl (\<lambda>found h.
                 if \<not> HasArbOSVersion h \<or> SupportsConstraints (hArbOSVersion h) then found
                 else case found of None \<Rightarrow> Some (hNumber h, hNumber h) | Some (from, _) \<Rightarrow> Some (from, hNumber h))
               None headers)"

fun spans_from :: "u64 option \<Rightarrow> Header list \<Rightarrow> u64 option" where
  "spans_from prev [] = None"
| "spans_from prev (h # hs) =
     (if \<not> HasArbOSVersion h then spans_from prev hs
      else case prev of
             Some v \<Rightarrow> if hArbOSVersion h \<noteq> v then Some (hNumber h) else spans_from (Some (hArbOSVersion h)) hs
           | None \<Rightarrow> spans_from (Some (hArbOSVersion h)) hs)"

definition spansArbOSUpgrade :: "Header list \<Rightarrow> u64 option" where
  "spansArbOSUpgrade headers = spans_from None headers"

section \<open>Owner actions inside a block\<close>

record actionBoundary =
  abTxIndex :: u64
  abGasBefore :: u64
  abChanges :: "pricingChange list"

type_synonym actionBlocks = "u64 \<Rightarrow> actionBoundary list"

definition lowercase :: "string \<Rightarrow> string" where
  "lowercase s = map lower_char s"

text \<open>The transactions with pricing actions, each once, in the order the headers name them.\<close>

definition action_changes :: "Header list \<Rightarrow> timeline \<Rightarrow> pricingChange list" where
  "action_changes headers tml = concat (map (\<lambda>h. changesAt tml (hNumber h) True) headers)"

fun first_hashes :: "string list \<Rightarrow> pricingChange list \<Rightarrow> string list" where
  "first_hashes seen [] = []"
| "first_hashes seen (c # cs) =
     (let key = lowercase (apTxHash (change_pos c))
      in if key \<in> set seen then first_hashes seen cs
         else apTxHash (change_pos c) # first_hashes (key # seen) cs)"

text \<open>The header a number maps to: a later header of the same number replaces an earlier one.\<close>

definition header_by_number :: "Header list \<Rightarrow> u64 \<Rightarrow> Header option" where
  "header_by_number headers n = map_of (rev (map (\<lambda>h. (hNumber h, h)) headers)) n"

definition action_boundary ::
  "Header list \<Rightarrow> pricingChange list \<Rightarrow> string \<Rightarrow> Receipt \<Rightarrow> collector_error + (u64 \<times> actionBoundary)" where
  "action_boundary headers all hash receipt =
     (if rcTxHash receipt = [] \<or> lowercase (rcTxHash receipt) \<noteq> lowercase hash
      then Inl (BadReceipt hash ''returned another transaction'')
      else let changes = filter (\<lambda>c. lowercase (apTxHash (change_pos c)) = lowercase hash) all in
        case changes of
          [] \<Rightarrow> Inl (BadReceipt hash ''has no pricing change'')
        | first # _ \<Rightarrow>
            let block = setBlock first in
            case header_by_number headers block of
              None \<Rightarrow> Inl (BadReceipt hash ''is in another block'')
            | Some header \<Rightarrow>
                if rcBlockNumber receipt \<noteq> block then Inl (BadReceipt hash ''is in another block'')
                else if 0 < hTxCount header \<and> word_of_int (hTxCount header) \<le> rcTxIndex receipt
                then Inl (BadReceipt hash ''has a transaction index outside the block'')
                else if rcCumulativeGasUsed receipt < rcGasUsed receipt
                then Inl (BadReceipt hash ''gas used exceeds cumulative gas'')
                else if hGasUsed header < rcCumulativeGasUsed receipt
                then Inl (BadReceipt hash ''cumulative gas exceeds block gas'')
                else if \<exists>c\<in>set changes. setBlock c \<noteq> block then Inl (BadReceipt hash ''spans blocks'')
                else if \<exists>c\<in>set changes. apTxIndexKnown (change_pos c) \<and> apTxIndex (change_pos c) \<noteq> rcTxIndex receipt
                then Inl (BadReceipt hash ''transaction index differs from the receipt'')
                else Inr (block, \<lparr>abTxIndex = rcTxIndex receipt, abGasBefore = rcCumulativeGasUsed receipt - rcGasUsed receipt,
                                  abChanges = sort_key (\<lambda>c. apLogIndex (change_pos c)) changes\<rparr>))"

fun boundaries_ok :: "actionBoundary list \<Rightarrow> bool" where
  "boundaries_ok (a # b # bs) \<longleftrightarrow>
     abTxIndex a \<noteq> abTxIndex b \<and> abGasBefore a \<le> abGasBefore b \<and> boundaries_ok (b # bs)"
| "boundaries_ok _ \<longleftrightarrow> True"

definition boundaries_of :: "(u64 \<times> actionBoundary) list \<Rightarrow> u64 \<Rightarrow> actionBoundary list" where
  "boundaries_of bs block = sort_key abTxIndex (map snd (filter (\<lambda>x. fst x = block) bs))"

definition resolveActionBlocks ::
  "(string list \<Rightarrow> nitro_error + Receipt list) \<Rightarrow> Header list \<Rightarrow> timeline \<Rightarrow> collector_error + actionBlocks" where
  "resolveActionBlocks receiptsOf headers tml =
     (let all = action_changes headers tml; hashes = first_hashes [] all in
      if hashes = [] then Inr (\<lambda>_. [])
      else case receiptsOf hashes of
             Inl e \<Rightarrow> Inl (FetchFailed e)
           | Inr receipts \<Rightarrow>
               if length receipts \<noteq> length hashes then Inl (BadReceipt [] ''wrong number of receipts'')
               else bind_err (each_err (\<lambda>(hash, receipt). action_boundary headers all hash receipt) (zip hashes receipts)) (\<lambda>bs.
                 case filter (\<lambda>block. \<not> boundaries_ok (boundaries_of bs block)) (map fst bs) of
                   [] \<Rightarrow> Inr (boundaries_of bs)
                 | block # _ \<Rightarrow> Inl (BadBoundary block ''different transactions or decreasing gas'')))"

fun action_gas :: "State \<Rightarrow> u64 \<Rightarrow> u64 \<Rightarrow> actionBoundary list \<Rightarrow> State" where
  "action_gas st gasUsed applied [] = AddGas st (gasUsed - applied)"
| "action_gas st gasUsed applied (b # bs) =
     (let gasBefore = min (abGasBefore b) gasUsed;
          st = AddGas st (gasBefore - applied);
          st = foldl applyPricingChange st (abChanges b)
      in action_gas st gasUsed gasBefore bs)"

definition applyActionGas :: "State \<Rightarrow> u64 \<Rightarrow> actionBoundary list \<Rightarrow> State" where
  "applyActionGas st gasUsed boundaries = action_gas st gasUsed 0 boundaries"

section \<open>Rows\<close>

definition arbOSVersionOf :: "Header \<Rightarrow> i64 option" where
  "arbOSVersionOf h = (if \<not> HasArbOSVersion h then None else Some (i64_of_u64 (hArbOSVersion h)))"

definition unix_time :: "i64 \<Rightarrow> gotime" where
  "unix_time s = (s + 62135596800) * Second"

definition block_row :: "u64 \<Rightarrow> (u64 \<Rightarrow> bigint option) \<Rightarrow> Header \<Rightarrow> Result \<Rightarrow> db_block" where
  "block_row chainID minFee h r =
     \<lparr>bChainID = chainID, bNumber = hNumber h, bHash = hHash h, bParentHash = hParentHash h,
      bTS = unix_time (i64_of_u64 (hTimestamp h)), bGasUsed = hGasUsed h,
      bPosterGas = map_option i64_of_u64 (hPosterGas h), bBaseFee = hBaseFee h, bL1Block = hL1BlockNumber h,
      bTxCount = hTxCount h, bBacklogs = rBacklogs r, bConstraintBips = rPerConstraint r,
      bExponentBips = rExponent r, bPredictedBaseFee = Some (rPredicted r), bMinBaseFee = minFee (hNumber h),
      bAnchored = rAnchored r, bPricingVersion = PricingFull, bArbOSVersion = arbOSVersionOf h\<rparr>"

text \<open>The loop reads one result per header and panics when they run out.\<close>

definition blockRows :: "u64 \<Rightarrow> Header list \<Rightarrow> Result list \<Rightarrow> (u64 \<Rightarrow> bigint option) \<Rightarrow> db_block list" where
  "blockRows chainID headers results minFee = map2 (block_row chainID minFee) headers results"

text \<open>The boundaries of a block in the unit of its compute gas, where the header knows it.\<close>

definition compute_boundaries :: "Header \<Rightarrow> actionBoundary list \<Rightarrow> actionBoundary list" where
  "compute_boundaries h bs =
     map (\<lambda>b. case ComputeGasBeforeTx h (abTxIndex b) of None \<Rightarrow> b | Some g \<Rightarrow> b\<lparr>abGasBefore := g\<rparr>) bs"

text \<open>One iteration of \<open>replayForward\<close>: the state after the block, its result and the fee recorded for it.\<close>

definition replay_header ::
  "timeline \<Rightarrow> Anchor \<Rightarrow> actionBlocks \<Rightarrow> State \<Rightarrow> u64 \<Rightarrow> Header \<Rightarrow> State \<times> Result \<times> bigint option" where
  "replay_header tml anchor actions st prev h =
     (let st = foldl applyPricingChange st (changesAt tml (hNumber h) False);
          fee = MinBaseFee st
      in case Step st (replay_dt prev (hTimestamp h)) of
           (st, predicted, exponent, per) \<Rightarrow>
             let st = applyActionGas st (ComputeGas h) (compute_boundaries h (actions (hNumber h)));
                 a = (case anchor of None \<Rightarrow> None | Some f \<Rightarrow> f (hNumber h));
                 st = (case a of None \<Rightarrow> st | Some backlogs \<Rightarrow> SetBacklogs st backlogs)
             in (st, \<lparr>rNumber = hNumber h, rBacklogs = Backlogs st, rExponent = exponent, rPerConstraint = per,
                      rPredicted = predicted, rAnchored = (a \<noteq> None)\<rparr>, fee))"

fun replay_headers ::
  "timeline \<Rightarrow> Anchor \<Rightarrow> actionBlocks \<Rightarrow> State \<Rightarrow> u64 \<Rightarrow> Header list
     \<Rightarrow> State \<times> Result list \<times> (u64 \<times> bigint option) list" where
  "replay_headers tml anchor actions st prev [] = (st, [], [])"
| "replay_headers tml anchor actions st prev (h # hs) =
     (case replay_header tml anchor actions st prev h of
        (st, r, fee) \<Rightarrow>
          case replay_headers tml anchor actions st (hTimestamp h) hs of
            (st, rs, fees) \<Rightarrow> (st, r # rs, (hNumber h, fee) # fees))"

definition replayForward ::
  "u64 \<Rightarrow> State \<Rightarrow> u64 \<Rightarrow> Header list \<Rightarrow> timeline \<Rightarrow> Anchor \<Rightarrow> actionBlocks \<Rightarrow> State \<times> db_block list \<times> Result list" where
  "replayForward chainID st prevTs headers tml anchor actions =
     (case replay_headers tml anchor actions st prevTs headers of
        (st, results, fees) \<Rightarrow>
          (st, blockRows chainID headers results (\<lambda>n. Option.bind (map_of (rev fees) n) id), results))"

definition head_anchor :: "Sample \<Rightarrow> Anchor" where
  "head_anchor sample = Some (\<lambda>n. if n = hNumber (smHeader sample) then Some (sampleBacklogs sample) else None)"

definition replayLive ::
  "u64 \<Rightarrow> State \<Rightarrow> u64 \<Rightarrow> Header list \<Rightarrow> Sample \<Rightarrow> timeline \<Rightarrow> actionBlocks
     \<Rightarrow> State \<times> (db_block list \<times> Result list) option" where
  "replayLive chainID st prevTs headers sample tml actions =
     (case replayForward chainID st prevTs headers tml (head_anchor sample) actions of
        (st, rows, results) \<Rightarrow>
          if \<not> sameShape (Some st) sample \<or> MinBaseFee st \<noteq> Some (smMinBaseFee sample) then (st, None)
          else (st, Some (rows, results)))"

section \<open>Predictions\<close>

record prediction =
  prFee :: "bigint option"
  prExponent :: i64
  prPerConstraint :: "i64 list"
  prKnown :: bool

definition noPrediction :: prediction where
  "noPrediction = \<lparr>prFee = None, prExponent = 0, prPerConstraint = [], prKnown = False\<rparr>"

definition encode_prediction :: "prediction \<Rightarrow> string \<times> i64 \<times> i64 list" where
  "encode_prediction p =
     (case prFee p of
        Some fee \<Rightarrow> if prKnown p then (big_String fee, prExponent p, prPerConstraint p) else ([], 0, [])
      | None \<Rightarrow> ([], 0, []))"

definition decodeCarry :: "string \<Rightarrow> i64 \<Rightarrow> i64 list \<Rightarrow> prediction" where
  "decodeCarry fee exponent bips =
     (case SetString10 fee of
        None \<Rightarrow> noPrediction
      | Some v \<Rightarrow> \<lparr>prFee = Some v, prExponent = exponent, prPerConstraint = bips, prKnown = True\<rparr>)"

definition predictionOf :: "Result \<Rightarrow> prediction" where
  "predictionOf r =
     \<lparr>prFee = Some (rPredicted r), prExponent = rExponent r, prPerConstraint = rPerConstraint r, prKnown = True\<rparr>"

definition carryLocked :: "Result option \<Rightarrow> u64 \<Rightarrow> u64 \<Rightarrow> prediction" where
  "carryLocked lastResult head first =
     (case lastResult of
        None \<Rightarrow> noPrediction
      | Some r \<Rightarrow> if head = 0 \<or> head + 1 \<noteq> first then noPrediction else predictionOf r)"

definition row_prediction :: "db_block \<Rightarrow> prediction" where
  "row_prediction r =
     \<lparr>prFee = Some (wei_of (bPredictedBaseFee r)), prExponent = bExponentBips r, prPerConstraint = bConstraintBips r,
      prKnown = (bPredictedBaseFee r \<noteq> None)\<rparr>"

definition set_prediction :: "prediction \<Rightarrow> db_block \<Rightarrow> db_block" where
  "set_prediction p r =
     (if prKnown p
      then r\<lparr>bPredictedBaseFee := prFee p, bExponentBips := prExponent p, bConstraintBips := prPerConstraint p\<rparr>
      else r\<lparr>bPredictedBaseFee := None, bExponentBips := 0, bConstraintBips := []\<rparr>)"

fun shift_rows :: "u64 option \<Rightarrow> prediction \<Rightarrow> db_block list \<Rightarrow> db_block list \<times> prediction" where
  "shift_rows prev carry [] = ([], carry)"
| "shift_rows prev carry (r # rs) =
     (let carry = (case prev of Some n \<Rightarrow> if bNumber r \<noteq> n + 1 then noPrediction else carry | None \<Rightarrow> carry)
      in case shift_rows (Some (bNumber r)) (row_prediction r) rs of
           (rs', final) \<Rightarrow> (set_prediction carry r # rs', final))"

definition shiftPredictions :: "db_block list \<Rightarrow> prediction \<Rightarrow> db_block list \<times> prediction" where
  "shiftPredictions rows carry = shift_rows None carry rows"

definition headRowError :: "db_block list \<Rightarrow> u64 \<Rightarrow> i64 \<Rightarrow> i64" where
  "headRowError rows head lastErrBips =
     (case filter (\<lambda>r. bNumber r = head) (rev rows) of
        [] \<Rightarrow> lastErrBips
      | r # _ \<Rightarrow> ReplayErrorBips r)"

definition multiplierBips :: "bigint option \<Rightarrow> bigint option \<Rightarrow> i64" where
  "multiplierBips baseFee minFee =
     (case (baseFee, minFee) of
        (Some b, Some m) \<Rightarrow>
          if m = 0 then 0
          else let v = big_Div (b * OneInBips) m in if \<not> IsInt64 v then MaxInt64 else v
      | _ \<Rightarrow> 0)"

definition bigOrZero :: "bigint option \<Rightarrow> bigint" where
  "bigOrZero v = (case v of None \<Rightarrow> 0 | Some x \<Rightarrow> x)"

definition timestampString :: "u64 \<Rightarrow> string" where
  "timestampString ts = (if ts = 0 then [] else RFC3339 (unix_time (i64_of_u64 ts)))"

section \<open>Without owner actions the replay is the pricer's\<close>

definition pricer_block_of :: "Header \<Rightarrow> pricer_block" where
  "pricer_block_of h = \<lparr>pbNumber = hNumber h, pbTimestamp = hTimestamp h, pbGasUsed = ComputeGas h\<rparr>"

definition quiet :: "timeline \<Rightarrow> actionBlocks \<Rightarrow> Header list \<Rightarrow> bool" where
  "quiet tml actions headers \<longleftrightarrow> (\<forall>h\<in>set headers. changesAt tml (hNumber h) False = [] \<and> actions (hNumber h) = [])"

lemma replay_header_quiet:
  assumes "changesAt tml (hNumber h) False = []" "actions (hNumber h) = []"
  shows "replay_header tml anchor actions st prev h
    = (case replay_block st prev (pricer_block_of h) anchor of (st', r) \<Rightarrow> (st', r, MinBaseFee st))"
  using assms
  by (cases anchor) (simp_all add: replay_header_def replay_block_def pricer_block_of_def compute_boundaries_def
      applyActionGas_def Let_def split: prod.split)

lemma replay_block_fee: "MinBaseFee (fst (replay_block st prev b anchor)) = MinBaseFee st"
proof -
  have "shape (fst (replay_block st prev b anchor)) = shape st" by (rule shape_replay_block)
  then show ?thesis by (simp add: shape_def)
qed

lemma replay_headers_quiet:
  assumes "quiet tml actions headers"
  shows "replay_headers tml anchor actions st prev headers
    = (case Replay st prev (map pricer_block_of headers) anchor of
         (st', rs) \<Rightarrow> (st', rs, map (\<lambda>h. (hNumber h, MinBaseFee st)) headers))"
  using assms
proof (induction headers arbitrary: st prev)
  case (Cons h hs)
  obtain s' r where b: "replay_block st prev (pricer_block_of h) anchor = (s', r)" by fastforce
  then have "MinBaseFee s' = MinBaseFee st" using replay_block_fee [of st prev "pricer_block_of h" anchor] by simp
  moreover have "quiet tml actions hs" "changesAt tml (hNumber h) False = []" "actions (hNumber h) = []"
    using Cons.prems by (simp_all add: quiet_def)
  moreover have "pbTimestamp (pricer_block_of h) = hTimestamp h" by (simp add: pricer_block_of_def)
  ultimately show ?case using b Cons.IH [of s' "hTimestamp h"]
    by (simp add: replay_header_quiet split: prod.split)
qed simp

lemma map_of_const: "map_of (rev (map (\<lambda>h. (f h, v)) xs)) n = (if n \<in> f ` set xs then Some v else None)"
proof -
  have "map_of (map (\<lambda>h. (f h, v)) ys) n = (if n \<in> f ` set ys then Some v else None)" for ys
    by (induction ys) auto
  from this [of "rev xs"] show ?thesis by (simp add: rev_map)
qed

lemma blockRows_cong:
  "(\<And>h. h \<in> set headers \<Longrightarrow> f (hNumber h) = g (hNumber h)) \<Longrightarrow> blockRows c headers rs f = blockRows c headers rs g"
proof (induction headers arbitrary: rs)
  case (Cons h hs)
  then show ?case by (cases rs) (simp_all add: blockRows_def block_row_def)
qed (simp add: blockRows_def)

text \<open>
  C26. Where the timeline holds no change and no owner action lies in the blocks, the collector's
  replay is the pricer's: \<open>replayForward\<close> returns the state and results of \<open>Replay\<close> on the blocks'
  compute gas, and the rows are the headers joined with those results under the floor the replay
  started with.
\<close>

theorem replayForward_is_Replay:
  assumes "quiet tml actions headers"
  shows "replayForward chainID st prevTs headers tml anchor actions
    = (case Replay st prevTs (map pricer_block_of headers) anchor of
         (st', results) \<Rightarrow> (st', blockRows chainID headers results (\<lambda>_. MinBaseFee st), results))"
proof -
  have "blockRows chainID headers rs (\<lambda>n. Option.bind (map_of (rev (map (\<lambda>h. (hNumber h, MinBaseFee st)) headers)) n) id)
      = blockRows chainID headers rs (\<lambda>_. MinBaseFee st)" for rs
    by (rule blockRows_cong) (simp add: map_of_const)
  then show ?thesis
    by (simp add: replayForward_def replay_headers_quiet [OF assms] split: prod.split)
qed

definition plain_header :: Header where
  "plain_header = \<lparr>hNumber = 5, hHash = ''0xb'', hParentHash = ''0xa'', hTimestamp = 100, hGasUsed = 21000, hGasLimit = 0,
     hBaseFee = 7, hL1BlockNumber = 1, hArbOSVersion = 51, hArbOSVersionKnown = True, hTxCount = 1, hTxHashes = [],
     hPosterGas = None, hComputeGasBefore = []\<rparr>"

definition no_changes :: timeline where
  "no_changes = \<lparr>tlSets = [], tlFees = [], tlLegacy = [], tlOrigin = None\<rparr>"

definition one_constraint :: State where
  "one_constraint = \<lparr>Constraints = [\<lparr>Target = 10, Window = 100, Backlog = 500\<rparr>], LegacyParams = None, MinBaseFee = Some 7\<rparr>"

theorem replayForward_is_Replay_witness:
  "replayForward 1 one_constraint 90 [plain_header] no_changes None (\<lambda>_. [])
    = (case Replay one_constraint 90 [pricer_block_of plain_header] None of
         (st', results) \<Rightarrow> (st', blockRows 1 [plain_header] results (\<lambda>_. Some 7), results))"
proof -
  have "quiet no_changes (\<lambda>_. []) [plain_header]" by (simp add: quiet_def changesAt_def no_changes_def)
  from replayForward_is_Replay [OF this, of 1 one_constraint 90 None] show ?thesis by (simp add: one_constraint_def)
qed

section \<open>Gas around owner actions\<close>

lemma SaturatingUAdd_add:
  assumes "unat a + unat b \<le> 18446744073709551615"
  shows "SaturatingUAdd (SaturatingUAdd x a) b = SaturatingUAdd x (a + b)"
proof -
  have "unat (a + b) = unat a + unat b" using assms by (simp add: unat_word_ariths)
  then have "SaturatingUAdd a b = a + b"
    using psat.uadd_exact [OF assms] by (simp add: word_unat_eq_iff)
  then show ?thesis by (simp add: psat.uadd_assoc)
qed

lemma AddGas_add:
  assumes "unat a + unat b \<le> 18446744073709551615"
  shows "AddGas (AddGas st a) b = AddGas st (a + b)"
  by (simp add: AddGas_def IsLegacy_def SaturatingUAdd_add [OF assms] comp_def split: option.split)

lemma AddGas_between:
  assumes "x \<le> y" "y \<le> (z :: u64)"
  shows "AddGas (AddGas st (y - x)) (z - y) = AddGas st (z - x)"
proof -
  have "unat (y - x) + unat (z - y) = unat z - unat x"
    using assms by (simp add: unat_sub word_le_nat_alt)
  then have "unat (y - x) + unat (z - y) \<le> 18446744073709551615" using u64_bound [of z] by simp
  from AddGas_add [OF this, of st] show ?thesis by simp
qed

lemma action_gas_quiet:
  assumes "\<forall>b\<in>set bs. abChanges b = []" "sorted (map abGasBefore bs)" "\<forall>b\<in>set bs. applied \<le> min (abGasBefore b) gas"
    and "applied \<le> gas"
  shows "action_gas st gas applied bs = AddGas st (gas - applied)"
  using assms
proof (induction bs arbitrary: st applied)
  case (Cons b bs)
  let ?g = "min (abGasBefore b) gas"
  have "action_gas (AddGas st (?g - applied)) gas ?g bs = AddGas (AddGas st (?g - applied)) (gas - ?g)"
    using Cons.prems by (intro Cons.IH) (auto simp: min_le_iff_disj)
  also have "\<dots> = AddGas st (gas - applied)"
    using Cons.prems by (intro AddGas_between) auto
  finally show ?case using Cons.prems by (simp add: Let_def)
qed simp

lemma action_gas_append:
  "\<exists>st' a. action_gas st gas applied (pre @ b # bs) = action_gas st' gas a (b # bs)"
proof (induction pre arbitrary: st applied)
  case (Cons x pre)
  show ?case unfolding append_Cons action_gas.simps(2) [of st gas applied x "pre @ b # bs"] Let_def by (rule Cons.IH)
qed auto

lemma applied_set:
  assumes "scEntries c \<noteq> []"
  shows "Constraints (AddGas (foldl applyPricingChange st (cs @ [SetChange c])) g)
    = Constraints (AddGas (stateFromEntries (scEntries c) 0) g)"
  using assms by (simp add: applyPricingChange_def Let_def stateFromEntries_def AddGas_def IsLegacy_def constraints_of_entries_def)



end
