(* ===== verification/Calendar.thy ===== *)
theory Calendar
  imports Holes
begin

text \<open>
  Times as text: the civil calendar behind \<open>Format\<close> and \<open>Parse\<close>, and the round trip of the formats the
  collector keeps its checkpoints in (\<open>time.RFC3339\<close>, and \<open>time.RFC3339Nano\<close> for the prune frontier).
\<close>

section \<open>Decimal numbers\<close>

lemma undigit_digit: "n < 10 \<Longrightarrow> undigit (char_of (48 + n)) = Some n"
  by (simp add: undigit_def of_char_of)

lemma decimal_digits_snoc:
  "decimal_digits acc (cs @ [c]) = Option.bind (decimal_digits acc cs) (\<lambda>n. map_option (\<lambda>d. 10 * n + d) (undigit c))"
  by (induction cs arbitrary: acc) (simp_all split: option.split)

lemma decimal_digits_dec: "decimal_digits 0 (dec_of_nat n) = Some n"
proof (induction n rule: dec_of_nat.induct)
  case (1 n)
  show ?case
  proof (cases "n < 10")
    case True
    then show ?thesis by (subst dec_of_nat.simps) (simp add: undigit_digit)
  next
    case False
    then show ?thesis using 1 by (subst dec_of_nat.simps) (simp add: decimal_digits_snoc undigit_digit)
  qed
qed

lemma dec_of_nat_first: "\<exists>(d :: nat) cs. dec_of_nat n = char_of (48 + d) # cs \<and> d < 10"
proof (induction n rule: dec_of_nat.induct)
  case (1 n)
  show ?case
  proof (cases "n < 10")
    case False
    then obtain d :: nat and cs where "dec_of_nat (n div 10) = char_of (48 + d) # cs" "d < 10" using 1 by blast
    then have "dec_of_nat n = char_of (48 + d) # cs @ [char_of (48 + n mod 10)] \<and> d < 10"
      using False by (subst dec_of_nat.simps) simp
    then show ?thesis by blast
  next
    case True
    then have "dec_of_nat n = char_of (48 + n) # [] \<and> n < 10" by (subst dec_of_nat.simps) simp
    then show ?thesis by blast
  qed
qed

lemma digit_not_sign:
  assumes "(d :: nat) < 10"
  shows "char_of (48 + d) \<noteq> CHR ''-''" "char_of (48 + d) \<noteq> CHR ''+''"
proof -
  have c: "(of_char (char_of (48 + d) :: char) :: nat) = 48 + d" using assms by (simp add: of_char_of)
  show "char_of (48 + d) \<noteq> CHR ''-''"
  proof
    assume "char_of (48 + d) = CHR ''-''"
    then have "48 + d = (of_char (CHR ''-'') :: nat)" using c by simp
    then show False by simp
  qed
  show "char_of (48 + d) \<noteq> CHR ''+''"
  proof
    assume "char_of (48 + d) = CHR ''+''"
    then have "48 + d = (of_char (CHR ''+'') :: nat)" using c by simp
    then show False by simp
  qed
qed

lemma SetString10_big_String: "SetString10 (big_String v) = Some v" "big_String v \<noteq> []"
proof -
  obtain d :: nat and cs where d: "dec_of_nat (nat \<bar>v\<bar>) = char_of (48 + d) # cs" "d < 10" using dec_of_nat_first by blast
  have n: "decimal_digits 0 (char_of (48 + d) # cs) = Some (nat \<bar>v\<bar>)" using decimal_digits_dec d(1) by metis
  have b: "big_String v = (if v < 0 then CHR ''-'' # char_of (48 + d) # cs else char_of (48 + d) # cs)"
    using d(1) by (auto simp: big_String_def)
  show "big_String v \<noteq> []" by (simp add: b)
  show "SetString10 (big_String v) = Some v"
    using d n digit_not_sign [OF d(2)] by (cases "v < 0") (simp_all add: b SetString10_def Let_def del: decimal_digits.simps)
qed

section \<open>The civil calendar\<close>

text \<open>
  The day of a 400-year era on which a year of the era starts (the years start in March), and the
  year a day of the era lies in, as \<open>civil\<close> computes it.
\<close>

definition year_start :: "int \<Rightarrow> int" where
  "year_start y = (if y = 400 then 146097 else 365 * y + y div 4 - y div 100)"

definition doe_count :: "int \<Rightarrow> int" where
  "doe_count doe = doe - doe div 1460 + doe div 36524 - doe div 146096"

definition year_of_era :: "int \<Rightarrow> int" where
  "year_of_era doe = doe_count doe div 365"

lemma div_step: "0 < k \<Longrightarrow> (d + 1) div k = d div k \<or> (d + 1) div k = d div k + (1 :: int)"
proof -
  assume k: "0 < k"
  have "d div k \<le> (d + 1) div k" using k by (intro zdiv_mono1) simp_all
  moreover have "(d + 1) div k \<le> (d + k) div k" using k by (intro zdiv_mono1) simp_all
  moreover have "(d + k) div k = d div k + 1" using k by simp
  ultimately show ?thesis by linarith
qed

lemma doe_count_step: "doe_count d \<le> doe_count (d + 1)"
proof -
  have q: "x div 146096 = x div 36524 div 4" for x :: int using zdiv_zmult2_eq [of 4 x 36524] by simp
  have "(d + 1) div 1460 \<le> d div 1460 + 1" using div_step [of 1460 d] by auto
  moreover have "d div 36524 - d div 36524 div 4 \<le> (d + 1) div 36524 - (d + 1) div 36524 div 4"
    using div_step [of 36524 d] div_step [of 4 "d div 36524"] by auto
  ultimately show ?thesis unfolding doe_count_def q by linarith
qed

lemma doe_count_mono: "d \<le> e \<Longrightarrow> doe_count d \<le> doe_count e"
proof (induction "nat (e - d)" arbitrary: e)
  case (Suc n)
  then have "doe_count d \<le> doe_count (e - 1)" by (intro Suc.hyps) auto
  then show ?case using doe_count_step [of "e - 1"] by simp
qed simp

lemma years_table:
  "list_all (\<lambda>y. year_start y < year_start (y + 1) \<and> year_of_era (year_start y) = y
     \<and> year_of_era (year_start (y + 1) - 1) = y
     \<and> (year_start (y + 1) - year_start y = (if (y + 1) mod 4 = 0 \<and> ((y + 1) mod 100 \<noteq> 0 \<or> (y + 1) mod 400 = 0)
          then 366 else 365))) [0..399]"
  by code_simp

lemma year_facts:
  assumes "0 \<le> y" "y < 400"
  shows "year_start y < year_start (y + 1)" "year_of_era (year_start y) = y" "year_of_era (year_start (y + 1) - 1) = y"
    "year_start (y + 1) - year_start y = (if (y + 1) mod 4 = 0 \<and> ((y + 1) mod 100 \<noteq> 0 \<or> (y + 1) mod 400 = 0) then 366 else 365)"
  using years_table assms by (simp_all add: list_all_iff)

lemma year_of_era_unique:
  assumes "0 \<le> y" "y < 400" "year_start y \<le> doe" "doe < year_start (y + 1)"
  shows "year_of_era doe = y"
proof -
  have "doe_count (year_start y) \<le> doe_count doe" "doe_count doe \<le> doe_count (year_start (y + 1) - 1)"
    using assms(3,4) by (auto intro: doe_count_mono)
  then have "year_of_era (year_start y) \<le> year_of_era doe" "year_of_era doe \<le> year_of_era (year_start (y + 1) - 1)"
    by (simp_all add: year_of_era_def zdiv_mono1)
  then show ?thesis using year_facts(2,3) [OF assms(1,2)] by simp
qed

lemma year_exists:
  assumes "0 \<le> doe" "doe < 146097"
  shows "\<exists>y. 0 \<le> y \<and> y < 400 \<and> year_start y \<le> doe \<and> doe < year_start (y + 1)"
proof -
  have "doe < year_start (int n) \<Longrightarrow> n \<le> 400 \<Longrightarrow> \<exists>y. 0 \<le> y \<and> y < int n \<and> year_start y \<le> doe \<and> doe < year_start (y + 1)" for n
  proof (induction n)
    case 0
    then show ?case using assms(1) by (simp add: year_start_def)
  next
    case (Suc n)
    show ?case
    proof (cases "doe < year_start (int n)")
      case True
      then show ?thesis using Suc by fastforce
    next
      case False
      then show ?thesis using Suc.prems by (intro exI [of _ "int n"]) (simp add: add.commute)
    qed
  qed
  from this [of 400] show ?thesis using assms(2) by (simp add: year_start_def)
qed

lemma year_of_era_bounds:
  assumes "0 \<le> doe" "doe < 146097"
  defines "y \<equiv> year_of_era doe"
  shows "0 \<le> y" "y < 400" "year_start y \<le> doe" "doe < year_start (y + 1)"
  using year_exists [OF assms(1,2)] year_of_era_unique by (auto simp: y_def)

text \<open>The months of a year that starts in March: day 306 is the first of January.\<close>

definition march_month :: "int \<Rightarrow> int" where
  "march_month doy = (let mp = (5 * doy + 2) div 153 in if mp < 10 then mp + 3 else mp - 9)"

definition march_day :: "int \<Rightarrow> int" where
  "march_day doy = doy - (153 * ((5 * doy + 2) div 153) + 2) div 5 + 1"

lemma months_table:
  "list_all (\<lambda>doy. let mon = march_month doy; d = march_day doy in
     1 \<le> mon \<and> mon \<le> 12 \<and> 1 \<le> d \<and> d \<le> 31 \<and> (mon \<le> 2 \<longleftrightarrow> 306 \<le> doy)
     \<and> (153 * (if 2 < mon then mon - 3 else mon + 9) + 2) div 5 + d - 1 = doy
     \<and> (if mon = 2 then if doy = 365 then d = 29 else d \<le> 28 else mon = 4 \<or> mon = 6 \<or> mon = 9 \<or> mon = 11 \<longrightarrow> d \<le> 30))
     [0..365]"
  by code_simp

lemma month_facts:
  assumes "0 \<le> doy" "doy \<le> 365"
  shows "1 \<le> march_month doy" "march_month doy \<le> 12" "1 \<le> march_day doy" "march_day doy \<le> 31"
    "march_month doy \<le> 2 \<longleftrightarrow> 306 \<le> doy"
    "(153 * (if 2 < march_month doy then march_month doy - 3 else march_month doy + 9) + 2) div 5 + march_day doy - 1 = doy"
    "march_month doy = 2 \<Longrightarrow> (if doy = 365 then march_day doy = 29 else march_day doy \<le> 28)"
    "march_month doy = 4 \<or> march_month doy = 6 \<or> march_month doy = 9 \<or> march_month doy = 11 \<Longrightarrow> march_day doy \<le> 30"
  using months_table assms by (auto simp: list_all_iff Let_def)

lemma civil_parts:
  fixes days :: int
  defines "era \<equiv> (days + 306) div 146097" and "doe \<equiv> (days + 306) mod 146097"
  defines "yoe \<equiv> year_of_era doe"
  defines "doy \<equiv> doe - year_start yoe"
  shows "civil days = (yoe + era * 400 + (if march_month doy \<le> 2 then 1 else 0), march_month doy, march_day doy)"
    "0 \<le> yoe" "yoe < 400" "0 \<le> doy" "doy \<le> 365"
    "doy = 365 \<Longrightarrow> (yoe + 1) mod 4 = 0 \<and> ((yoe + 1) mod 100 \<noteq> 0 \<or> (yoe + 1) mod 400 = 0)"
    "days + 306 = era * 146097 + (365 * yoe + yoe div 4 - yoe div 100) + doy"
proof -
  have d: "0 \<le> doe" "doe < 146097" by (simp_all add: doe_def)
  note y = year_of_era_bounds [OF d, folded yoe_def]
  show "0 \<le> yoe" "yoe < 400" using y by simp_all
  have start: "year_start yoe = 365 * yoe + yoe div 4 - yoe div 100" using y(2) by (simp add: year_start_def)
  have yo: "(doe - doe div 1460 + doe div 36524 - doe div 146096) div 365 = yoe"
    by (simp only: yoe_def year_of_era_def doe_count_def)
  show "civil days = (yoe + era * 400 + (if march_month doy \<le> 2 then 1 else 0), march_month doy, march_day doy)"
    by (simp only: civil_def Let_def era_def [symmetric] doe_def [symmetric] yo march_month_def march_day_def doy_def start)
  show "0 \<le> doy" using y(3) by (simp add: doy_def)
  have len: "year_start (yoe + 1) - year_start yoe \<le> 366" using year_facts(4) [OF y(1,2)] by auto
  show "doy \<le> 365" using y(4) len by (simp add: doy_def)
  show "(yoe + 1) mod 4 = 0 \<and> ((yoe + 1) mod 100 \<noteq> 0 \<or> (yoe + 1) mod 400 = 0)" if "doy = 365"
  proof (rule ccontr)
    assume "\<not> ?thesis"
    then have "year_start (yoe + 1) - year_start yoe = 365" using year_facts(4) [OF y(1,2)] by simp
    then show False using y(4) that by (simp add: doy_def)
  qed
  have "days + 306 = era * 146097 + doe" by (simp add: era_def doe_def)
  then show "days + 306 = era * 146097 + (365 * yoe + yoe div 4 - yoe div 100) + doy" by (simp add: doy_def start)
qed

lemma civil_inverse:
  assumes "civil days = (y, mon, d)"
  shows "days_of_civil y mon d = days" "1 \<le> mon" "mon \<le> 12" "1 \<le> d" "d \<le> 31"
    "0 \<le> y \<Longrightarrow> nat d \<le> daysIn (nat mon) (nat y)"
    "0 \<le> days \<Longrightarrow> 1 \<le> y" "days < 3652059 \<Longrightarrow> y \<le> 9999"
proof -
  define era where "era = (days + 306) div 146097"
  define yoe where "yoe = year_of_era ((days + 306) mod 146097)"
  define doy where "doy = (days + 306) mod 146097 - year_start yoe"
  note p = civil_parts [of days, folded era_def yoe_def, folded doy_def]
  note m = month_facts [OF p(4,5)]
  have e: "y = yoe + era * 400 + (if mon \<le> 2 then 1 else 0)" "mon = march_month doy" "d = march_day doy"
    using assms p(1) by auto
  show "1 \<le> mon" "mon \<le> 12" "1 \<le> d" "d \<le> 31" using m e by simp_all
  have y': "(if mon \<le> 2 then y - 1 else y) = yoe + era * 400" using e(1) by simp
  have era: "(yoe + era * 400) mod 400 = yoe" "(yoe + era * 400) div 400 = era" using p(2,3) by simp_all
  have "days_of_civil y mon d
      = era * 146097 + (yoe * 365 + yoe div 4 - yoe div 100 + ((153 * (if 2 < mon then mon - 3 else mon + 9) + 2) div 5 + d - 1)) - 306"
    by (simp only: days_of_civil_def Let_def y' era)
  then show "days_of_civil y mon d = days" using p(7) by (simp only: e(2,3) m(6))
  show "nat d \<le> daysIn (nat mon) (nat y)" if "0 \<le> y"
  proof (cases "mon = 2")
    case True
    have l: "nat y mod 4 = 0 \<and> (nat y mod 100 \<noteq> 0 \<or> nat y mod 400 = 0)" if "doy = 365"
    proof -
      have y: "y = (yoe + 1) + era * 400" using e(1) True by simp
      have "y mod 4 = (yoe + 1) mod 4" "y mod 100 = (yoe + 1) mod 100" "y mod 400 = (yoe + 1) mod 400"
        unfolding y using mod_mult_self1 [of "yoe + 1" "era * 100" 4] mod_mult_self1 [of "yoe + 1" "era * 4" 100]
          mod_mult_self1 [of "yoe + 1" era 400] by (simp_all only: mult.assoc) simp_all
      then have "y mod 4 = 0 \<and> (y mod 100 \<noteq> 0 \<or> y mod 400 = 0)" using p(6) [OF that] by simp
      moreover have "int (nat y) = y" using \<open>0 \<le> y\<close> by simp
      ultimately show ?thesis by (metis of_nat_eq_0_iff of_nat_numeral zmod_int)
    qed
    then show ?thesis using m(7) True e by (auto simp: daysIn_def split: if_splits)
  next
    case False
    have k: "nat mon = k \<longleftrightarrow> mon = int k" for k using m(1) e(2) by auto
    have d: "d \<le> 31" "mon = 4 \<or> mon = 6 \<or> mon = 9 \<or> mon = 11 \<Longrightarrow> d \<le> 30" using m(4,8) e by simp_all
    show ?thesis
    proof (cases "mon = 4 \<or> mon = 6 \<or> mon = 9 \<or> mon = 11")
      case True
      then show ?thesis using d(2) by (auto simp: daysIn_def k)
    next
      case other: False
      then show ?thesis using d(1) False by (simp add: daysIn_def k)
    qed
  qed
  show "1 \<le> y" if "0 \<le> days"
  proof -
    have "0 \<le> era" using that by (simp add: era_def)
    show ?thesis
    proof (cases "era = 0 \<and> yoe = 0")
      case True
      then have "306 \<le> doy" using p(7) that by simp
      then show ?thesis using m(5) e True by simp
    next
      case False
      then show ?thesis using \<open>0 \<le> era\<close> p(2) e(1) by (cases "era = 0") auto
    qed
  qed
  show "y \<le> 9999" if "days < 3652059"
  proof (rule ccontr)
    assume c: "\<not> y \<le> 9999"
    have "era \<le> 24" using that by (simp add: era_def zdiv_mono1 [of "days + 306" 3652364 146097, simplified])
    then have "era = 24" "yoe = 399" "mon \<le> 2" using c e(1) p(3) by (auto split: if_splits)
    then show False using p(7) m(5) e(2) that by simp
  qed
qed

section \<open>Fields\<close>

definition digit_char :: "nat \<Rightarrow> char" where
  "digit_char d = char_of (48 + d)"

lemma undigit_char: "d < 10 \<Longrightarrow> undigit (digit_char d) = Some d"
  by (simp add: digit_char_def undigit_digit)

lemma dec_small: "n < 10 \<Longrightarrow> dec_of_nat n = [digit_char n]"
  by (subst dec_of_nat.simps) (simp add: digit_char_def)

lemma dec_step: "10 \<le> n \<Longrightarrow> dec_of_nat n = dec_of_nat (n div 10) @ [digit_char (n mod 10)]"
  by (subst dec_of_nat.simps) (simp add: digit_char_def)

lemma zero_char: "CHR ''0'' = digit_char 0"
proof -
  have "(of_char (CHR ''0'') :: nat) = 48" by simp
  then show ?thesis by (metis char_of_char digit_char_def add_0_right)
qed

text \<open>The \<open>w\<close> decimal digits of a number below \<open>10 ^ w\<close>.\<close>

fun digits :: "nat \<Rightarrow> nat \<Rightarrow> string" where
  "digits 0 n = []"
| "digits (Suc w) n = digits w (n div 10) @ [digit_char (n mod 10)]"

lemma digits_length [simp]: "length (digits w n) = w"
  by (induction w arbitrary: n) simp_all

lemma digits_zero: "digits w 0 = replicate w (CHR ''0'')"
  by (induction w) (simp_all add: zero_char replicate_append_same)

lemma dec_length: "0 < w \<Longrightarrow> n < 10 ^ w \<Longrightarrow> length (dec_of_nat n) \<le> w"
proof (induction w arbitrary: n)
  case (Suc w)
  show ?case
  proof (cases "n < 10")
    case False
    then have "0 < w" "n div 10 < 10 ^ w" using Suc.prems by (auto intro!: Nat.gr0I simp: less_mult_imp_div_less)
    then show ?thesis using Suc.IH [of "n div 10"] False by (simp add: dec_step)
  qed (simp add: dec_small)
qed simp

lemma padded_digits: "0 < w \<Longrightarrow> n < 10 ^ w \<Longrightarrow> padded w (int n) = digits w n"
proof (induction w arbitrary: n)
  case (Suc w)
  show ?case
  proof (cases "n < 10")
    case True
    then show ?thesis by (simp add: padded_def dec_small digits_zero Let_def)
  next
    case False
    then have w: "0 < w" "n div 10 < 10 ^ w" using Suc.prems by (auto intro!: Nat.gr0I simp: less_mult_imp_div_less)
    then show ?thesis using Suc.IH [OF w] dec_length [OF w] False by (simp add: padded_def dec_step Let_def)
  qed
qed simp

lemma decimal_digits_append:
  "decimal_digits acc (xs @ ys) = Option.bind (decimal_digits acc xs) (\<lambda>n. decimal_digits n ys)"
  by (induction xs arbitrary: acc) (simp_all split: option.split)

lemma decimal_digits_digits: "n < 10 ^ w \<Longrightarrow> decimal_digits 0 (digits w n) = Some n"
proof (induction w arbitrary: n)
  case (Suc w)
  then have "n div 10 < 10 ^ w" by (simp add: less_mult_imp_div_less)
  then show ?case using Suc.IH [of "n div 10"] by (simp add: decimal_digits_append undigit_char)
qed simp

lemma digits_are_digits: "c \<in> set (digits w n) \<Longrightarrow> \<exists>d<10. c = digit_char d"
proof (induction w arbitrary: n)
  case (Suc w)
  show ?case
  proof (cases "c \<in> set (digits w (n div 10))")
    case False
    then have "c = digit_char (n mod 10)" using Suc.prems by simp
    moreover have "n mod 10 < 10" by simp
    ultimately show ?thesis by blast
  qed (rule Suc.IH)
qed simp

lemma two_digits: "n < 100 \<Longrightarrow> padded 2 (int n) = [digit_char (n div 10), digit_char (n mod 10)]"
  using padded_digits [of 2 n] by (simp add: numeral_2_eq_2)

lemma getnum_two: "n < 100 \<Longrightarrow> getnum fixed (padded 2 (int n) @ s) = Some (n, s)"
  by (simp add: two_digits getnum_def undigit_char)

lemma field_two: "lo \<le> n \<Longrightarrow> n \<le> hi \<Longrightarrow> n < 100 \<Longrightarrow> field fixed lo hi (padded 2 (int n) @ s) = Some (n, s)"
  by (simp add: field_def getnum_two)

lemma parse_year_four: "n < 10000 \<Longrightarrow> parse_year (padded 4 (int n) @ s) = Some (n, s)"
  using padded_digits [of 4 n] by (simp add: parse_year_def decimal_digits_digits)

section \<open>The fraction of a second\<close>

text \<open>
  What \<open>Format\<close> writes for the fraction \<open>.999999999\<close> of the layout: nothing for a whole second, else
  the nine digits without the zeros they end in.
\<close>

definition fraction :: "int \<Rightarrow> string" where
  "fraction ns = (if ns = 0 then [] else ''.'' @ rev (dropWhile (\<lambda>c. c = CHR ''0'') (rev (padded 9 ns))))"

definition RFC3339Nano :: "gotime \<Rightarrow> string" where
  "RFC3339Nano t = butlast (RFC3339 t) @ fraction (t mod Second) @ ''Z''"

lemma strip_zeros:
  "\<exists>k. ds = rev (dropWhile (\<lambda>c. c = z) (rev ds)) @ replicate k z"
proof (induction ds rule: rev_induct)
  case (snoc x xs)
  show ?case
  proof (cases "x = z")
    case True
    obtain k where "xs = rev (dropWhile (\<lambda>c. c = z) (rev xs)) @ replicate k z" using snoc by blast
    then show ?thesis using True by (intro exI [of _ "Suc k"]) (simp add: replicate_append_same [symmetric] flip: append_assoc)
  qed (auto intro: exI [of _ 0])
qed (auto intro: exI [of _ 0])

lemma decimal_zeros: "decimal_digits acc (replicate k (CHR ''0'')) = Some (acc * 10 ^ k)"
  by (induction k arbitrary: acc) (simp_all add: zero_char undigit_char)

lemma parse_fraction_Z: "parse_fraction ''Z'' = (0, ''Z'')"
  by (simp add: parse_fraction_def)

lemma parse_fraction_digits:
  assumes "0 < ns" "ns < Second"
  shows "parse_fraction (fraction ns @ ''Z'') = (ns, ''Z'')"
proof -
  define n where "n = nat ns"
  have n: "n < 10 ^ 9" "0 < n" "int n = ns" using assms by (simp_all add: n_def Second_def)
  define ds where "ds = rev (dropWhile (\<lambda>c. c = CHR ''0'') (rev (digits 9 n)))"
  obtain k where k: "digits 9 n = ds @ replicate k (CHR ''0'')" using strip_zeros [of "digits 9 n" "CHR ''0''"] by (auto simp: ds_def)
  have len: "length ds + k = 9" using arg_cong [OF k, of length] by simp
  have "Some n = decimal_digits 0 (ds @ replicate k (CHR ''0''))" using decimal_digits_digits [OF n(1)] k by simp
  then have "Option.bind (decimal_digits 0 ds) (\<lambda>v. Some (v * 10 ^ k)) = Some n"
    by (simp only: decimal_digits_append decimal_zeros)
  then obtain v where v: "decimal_digits 0 ds = Some v" "n = v * 10 ^ k" by (cases "decimal_digits 0 ds") auto
  have all: "\<forall>c\<in>set ds. undigit c \<noteq> None" using digits_are_digits [of _ 9 n] undigit_char by (force simp: k)
  have Z: "undigit (CHR ''Z'') = None" by (simp add: undigit_def of_char_of) 
  have "ds \<noteq> []" using v n(2) by auto
  then obtain d r where d: "ds = d # r" by (cases ds) auto
  have t: "takeWhile (\<lambda>x. undigit x \<noteq> None) (ds @ ''Z'') = ds" "dropWhile (\<lambda>x. undigit x \<noteq> None) (ds @ ''Z'') = ''Z''"
    using all Z by (simp_all add: takeWhile_append dropWhile_append)
  have "fraction ns = CHR ''.'' # ds"
    using padded_digits [of 9 n] n assms by (simp add: fraction_def ds_def)
  moreover have "9 - length ds = k" "take 9 ds = ds" using len by simp_all
  ultimately show ?thesis
    using all d t v n(3) by (simp add: parse_fraction_def del: takeWhile.simps dropWhile.simps)
qed

section \<open>The round trip\<close>

lemma expect_char: "expect c (c # s) = Some s"
  by (simp add: expect_def)

lemma parse_fields:
  assumes "civil (secs div 86400) = (y, mon, d)" "0 \<le> secs" "secs div 86400 < 3652059"
  shows "\<exists>y' mon' d' h' m' s'. y = int y' \<and> mon = int mon' \<and> d = int d' \<and> secs mod 86400 div 3600 = int h'
    \<and> secs mod 86400 div 60 mod 60 = int m' \<and> secs mod 86400 mod 60 = int s'
    \<and> y' < 10000 \<and> 1 \<le> mon' \<and> mon' \<le> 12 \<and> 1 \<le> d' \<and> d' \<le> daysIn mon' y' \<and> d' \<le> 31 \<and> h' \<le> 23 \<and> m' \<le> 59 \<and> s' \<le> 59"
proof -
  note c = civil_inverse [OF assms(1)]
  have days: "0 \<le> secs div 86400" using assms(2) by simp
  note y = c(7) [OF days] c(8) [OF assms(3)]
  have r: "0 \<le> secs mod 86400" "secs mod 86400 < 86400" by simp_all
  obtain y' where y': "y = int y'" "y' < 10000" using y by (intro that [of "nat y"]) auto
  obtain mon' where m': "mon = int mon'" "1 \<le> mon'" "mon' \<le> 12" using c(2,3) by (intro that [of "nat mon"]) auto
  obtain d' where d': "d = int d'" "1 \<le> d'" "d' \<le> 31" using c(4,5) by (intro that [of "nat d"]) auto
  obtain h' where h': "secs mod 86400 div 3600 = int h'" "h' \<le> 23"
    using r by (intro that [of "nat (secs mod 86400 div 3600)"]) auto
  obtain mi where mi: "secs mod 86400 div 60 mod 60 = int mi" "mi \<le> 59"
    by (intro that [of "nat (secs mod 86400 div 60 mod 60)"]) auto
  obtain s' where s': "secs mod 86400 mod 60 = int s'" "s' \<le> 59"
    by (intro that [of "nat (secs mod 86400 mod 60)"]) auto
  have "d' \<le> daysIn mon' y'" using c(6) y y' m' d' by simp
  then show ?thesis using y' m' d' h' mi s' by blast
qed

lemma parse_text:
  assumes "y < 10000" "1 \<le> mon" "mon \<le> 12" "1 \<le> d" "d \<le> daysIn mon y" "d \<le> 31" "h \<le> 23" "m \<le> 59" "s \<le> 59"
    and "parse_fraction rest = (ns, ''Z'')"
  shows "Parse (padded 4 (int y) @ ''-'' @ padded 2 (int mon) @ ''-'' @ padded 2 (int d) @ ''T'' @
      padded 2 (int h) @ '':'' @ padded 2 (int m) @ '':'' @ padded 2 (int s) @ rest)
    = Some ((days_of_civil (int y) (int mon) (int d) * 86400 + int h * 3600 + int m * 60 + int s) * Second + ns)"
  using assms by (simp add: Parse_def parse_year_four field_two expect_char parse_zone_def)

lemma seconds_split:
  fixes secs :: int
  shows "secs div 86400 * 86400 + secs mod 86400 div 3600 * 3600 + secs mod 86400 div 60 mod 60 * 60 + secs mod 86400 mod 60 = secs"
proof -
  define r where "r = secs mod 86400"
  have "r = r div 60 * 60 + r mod 60" "r div 60 = r div 60 div 60 * 60 + r div 60 mod 60" by simp_all
  moreover have "r div 60 div 60 = r div 3600" using zdiv_zmult2_eq [of 60 r 60] by simp
  moreover have "secs = secs div 86400 * 86400 + r" by (simp add: r_def)
  ultimately show ?thesis unfolding r_def [symmetric] by linarith
qed

lemma parse_written:
  assumes "0 \<le> t" "t < 3652059 * 86400 * Second" "parse_fraction rest = (ns, ''Z'')"
  shows "Parse (butlast (RFC3339 t) @ rest) = Some (t div Second * Second + ns)"
proof -
  define secs where "secs = t div Second"
  have s: "0 \<le> secs" "secs div 86400 < 3652059" using assms(1,2) by (simp_all add: secs_def Second_def)
  obtain y mon d where c: "civil (secs div 86400) = (y, mon, d)" using prod_cases3 by blast
  obtain y' mon' d' h m sec where f: "y = int y'" "mon = int mon'" "d = int d'" "secs mod 86400 div 3600 = int h"
      "secs mod 86400 div 60 mod 60 = int m" "secs mod 86400 mod 60 = int sec"
      "y' < 10000" "1 \<le> mon'" "mon' \<le> 12" "1 \<le> d'" "d' \<le> daysIn mon' y'" "d' \<le> 31" "h \<le> 23" "m \<le> 59" "sec \<le> 59"
    using parse_fields [OF c s] by blast
  have "butlast (RFC3339 t) @ rest = padded 4 (int y') @ ''-'' @ padded 2 (int mon') @ ''-'' @ padded 2 (int d') @ ''T'' @
      padded 2 (int h) @ '':'' @ padded 2 (int m) @ '':'' @ padded 2 (int sec) @ rest"
    using c by (simp add: RFC3339_def Let_def f(1-6) secs_def [symmetric] butlast_append)
  moreover have "days_of_civil y mon d * 86400 + int h * 3600 + int m * 60 + int sec = secs"
    using seconds_split [of secs] by (simp add: civil_inverse(1) [OF c] f(4-6))
  ultimately show ?thesis
    using parse_text [OF f(7-15) assms(3)] by (simp only: f(1-3) secs_def)
qed

lemma RFC3339_Z: "RFC3339 t = butlast (RFC3339 t) @ ''Z''"
  by (simp add: RFC3339_def Let_def split_def butlast_append)

lemma Parse_nano:
  assumes "0 \<le> t" "t < 3652059 * 86400 * Second"
  shows "Parse (RFC3339Nano t) = Some t"
proof -
  have r: "0 \<le> t mod Second" "t mod Second < Second" by (simp_all add: Second_def)
  have "parse_fraction (fraction (t mod Second) @ ''Z'') = (t mod Second, ''Z'')"
  proof (cases "t mod Second = 0")
    case True
    then show ?thesis by (simp add: fraction_def parse_fraction_Z)
  qed (use r in \<open>simp add: parse_fraction_digits\<close>)
  from parse_written [OF assms this] show ?thesis by (simp add: RFC3339Nano_def)
qed



end
