(* ===== verification/Store.thy ===== *)
theory Store
  imports Replay_Rows Calendar "HOL-Library.AList"
begin

text \<open>
  The store the collector and the API read and write, as \<open>internal/db/dbtest/memstore.go\<close> defines it:
  the in-memory \<open>db.Store\<close> that mirrors what callers rely on in Postgres (ordering, ranges, upserts,
  folds and rebuilds of buckets, the prune frontier, the order of the chain locks).

  A Go map is an association list with distinct keys; the formatted keys (\<open>chain/res/start\<close>) are the
  tuples they are formatted from, which the separators keep apart. A method listed in \<open>FailOn\<close> fails
  before it does anything. A write is a function from the store to an error or the new store, so a
  function that fails half way leaves nothing, as the rollback of Postgres does; the in-memory store
  keeps the writes before the failure, which only \<open>SetPosterGas\<close> makes visible here. The test hooks and
  the Go mutexes are not modelled: every method is one atomic step. JSON columns and the JSON
  checkpoints of \<open>collector_state\<close> are the values they decode to.
\<close>

section \<open>Rows\<close>

record Network =
  nChainID :: u64
  nName :: string
  nDisplayName :: string
  nExplorerURL :: string
  nEnabled :: bool
  nHeadBlock :: "i64 option"
  nHeadAt :: "gotime option"
  nLastSampleAt :: "gotime option"
  nLastError :: "string option"
  nUpdatedAt :: gotime

text \<open>
  In the documents of a sample the outer option is an absent document, the inner one a document
  that does not decode.
\<close>

record StateSample =
  ssChainID :: u64
  ssSampledAt :: gotime
  ssBlockNumber :: u64
  ssBaseFee :: bigint
  ssMinBaseFee :: bigint
  ssConstraints :: "model_constraint list option option"
  ssLegacy :: "LegacyParams option option"
  ssPrices :: "Prices option"
  ssL1 :: "string option"
  ssAccounts :: "string option"

record BatchReport =
  brChainID :: u64
  brBlockNumber :: u64
  brBatchNumber :: u64
  brBatchTS :: gotime
  brPoster :: string
  brCalldataLen :: u64
  brCalldataNonzero :: u64
  brExtraGas :: u64
  brL1BaseFee :: bigint
  brGasSpent :: u64
  brWeiSpent :: bigint
  brReportVersion :: int
  brArbOSVersion :: u64
  brPerBatchGasCharge :: i64
  brParentGasFloorPerToken :: u64
  brCostCalculationVersion :: int

record BatchBucket =
  bbT :: gotime
  bbBatches :: i64
  bbGasSpent :: u64
  bbWeiSpent :: bigint
  bbL1BaseFeeAvg :: bigint
  bbCalldataBytes :: u64

record RateSpread =
  rsStart :: gotime
  rsMinRate :: i64
  rsMaxRate :: i64
  rsUnits :: i64

record LiveSnapshot =
  lvChainID :: u64
  lvSampledAt :: string
  lvNumber :: u64
  lvTS :: u64
  lvGasUsed :: u64
  lvPosterGas :: "u64 option"
  lvBaseFee :: string
  lvTxCount :: int
  lvMinBaseFee :: string
  lvMultiplierBips :: i64
  lvExponentBips :: i64
  lvLegacyModel :: bool
  lvConstraints :: "model_constraint list"
  lvLegacy :: "LegacyParams option"
  lvPrices :: "Prices option"
  lvGasPerSecond :: "u64 \<times> u64"
  lvComputeGasPerSecond :: "u64 option \<times> u64 option"
  lvL1 :: "string option"
  lvAccounts :: "string option"
  lvReplayErrorBips :: i64
  lvArbOSVersion :: "u64 option"
  lvReplayFidelity :: string
  lvEthUsd :: "string option"

datatype payload = ActionPayload db_OwnerAction | LivePayload LiveSnapshot

record Notification =
  ntChannel :: string
  ntPayload :: payload

section \<open>Checkpoints\<close>

record liveStart =
  lsBlock :: u64
  lsTS :: i64

record backfillCursor =
  bfDone :: bool
  bfDepthStart :: u64
  bfDepthTarget :: u64
  bfTop :: u64
  bfActive :: bool
  bfVerified :: bool
  bfSegStart :: u64
  bfNext :: u64
  bfSkipFirst :: bool
  bfEnd :: u64
  bfEndParent :: string
  bfRunParent :: string
  bfPrevTs :: u64
  bfPrevHash :: string
  bfBacklogs :: "u64 list"
  bfSetID :: i64
  bfLastAnchor :: u64
  bfLastAnchorErrorBips :: i64
  bfAnchorMinFee :: string
  bfPendingFee :: string
  bfPendingExponent :: i64
  bfPendingBips :: "i64 list"

record posterGasCursor =
  pgNext :: u64
  pgDone :: bool
  pgSkipped :: "u64 list"
  pgSweeps :: int

text \<open>A value of \<open>collector_state\<close>: plain text, or one of the documents the collector keeps there.\<close>

datatype state_value =
    StateText string
  | StateOrigin scanOrigin
  | StateCursor backfillCursor
  | StateLive liveStart
  | StateRepair posterGasCursor
  | StateHoleList "hole list"

text \<open>The errors of the store and of the functions run inside its transactions.\<close>

datatype store_error =
    ErrInjected
  | UnknownResolution string
  | OutsideRange u64 u64
  | NoResolution duration
  | ErrLockOrder u64 u64
  | ErrNestedSnapshot
  | BadState string
  | StaleGeneration u64 u64
  | BadRanges fill_error
  | RpcFailed nitro_error
  | ReorgTooDeep
  | Refused collector_error
  | BatchRefused
  | TargetAfterHead
  | NoReplayState
  | CostsNotSampled
  | AboveAnchor u64 u64
  | CostUnreconstructable u64
  | CostFailed nitro_error

record MemStore =
  NetworkRows :: "(u64 \<times> Network) list"
  BlockRows :: "((u64 \<times> u64) \<times> db_block) list"
  BucketRows :: "((u64 \<times> string \<times> i64) \<times> Bucket) list"
  SampleRows :: "StateSample list"
  MissingRows :: "(u64 \<times> MissingRange list) list"
  ActionRows :: "((u64 \<times> string \<times> i64) \<times> db_OwnerAction) list"
  SetRows :: "ConstraintSet list"
  ReportRows :: "((u64 \<times> u64) \<times> BatchReport) list"
  StateRows :: "((u64 \<times> string) \<times> state_value) list"
  Notifications :: "Notification list"
  FailOn :: "string list"
  nextSet :: i64

definition mem_New :: MemStore where
  "mem_New = \<lparr>NetworkRows = [], BlockRows = [], BucketRows = [], SampleRows = [], MissingRows = [], ActionRows = [],
     SetRows = [], ReportRows = [], StateRows = [], Notifications = [], FailOn = [], nextSet = 0\<rparr>"

definition mem_fail :: "string \<Rightarrow> MemStore \<Rightarrow> 'a \<Rightarrow> store_error + 'a" where
  "mem_fail method m v = (if method \<in> set (FailOn m) then Inl ErrInjected else Inr v)"

definition SetFailure :: "string \<Rightarrow> bool \<Rightarrow> MemStore \<Rightarrow> MemStore" where
  "SetFailure method flag m =
     m\<lparr>FailOn := (if flag then List.insert method (FailOn m) else removeAll method (FailOn m))\<rparr>"

section \<open>Transactions\<close>

text \<open>
  A store function bound to a transaction sees the chain locks the transaction holds. \<open>None\<close> is the
  plain store. The in-memory store does not roll back.
\<close>

type_synonym locks = "u64 list option"

text \<open>The locks a transaction holds once \<open>WithChainTx\<close> has been granted a chain.\<close>

definition lock_request :: "u64 \<Rightarrow> locks \<Rightarrow> store_error + u64 list" where
  "lock_request chainID held =
     (case held of
        None \<Rightarrow> Inr [chainID]
      | Some locks \<Rightarrow>
          if chainID \<in> set locks then Inr locks
          else if locks \<noteq> [] \<and> chainID < Max (set locks) then Inl (ErrLockOrder chainID (Max (set locks)))
          else Inr (locks @ [chainID]))"

definition chain_WithChainTx :: "u64 \<Rightarrow> locks \<Rightarrow> (locks \<Rightarrow> MemStore \<Rightarrow> store_error + 'a) \<Rightarrow> MemStore \<Rightarrow> store_error + 'a" where
  "chain_WithChainTx chainID held fn m =
     bind_err (if held = None then mem_fail ''WithChainTx'' m () else Inr ()) (\<lambda>_.
     bind_err (lock_request chainID held) (\<lambda>locks. fn (Some locks) m))"

definition chain_WithTx :: "locks \<Rightarrow> (locks \<Rightarrow> MemStore \<Rightarrow> store_error + 'a) \<Rightarrow> MemStore \<Rightarrow> store_error + 'a" where
  "chain_WithTx held fn m =
     (case held of None \<Rightarrow> bind_err (mem_fail ''WithTx'' m ()) (\<lambda>_. fn None m) | Some _ \<Rightarrow> fn held m)"

definition chain_WithSnapshotTx :: "locks \<Rightarrow> (locks \<Rightarrow> MemStore \<Rightarrow> store_error + 'a) \<Rightarrow> MemStore \<Rightarrow> store_error + 'a" where
  "chain_WithSnapshotTx held fn m =
     (case held of
        None \<Rightarrow> bind_err (mem_fail ''WithSnapshotTx'' m ()) (\<lambda>_. fn None m)
      | Some _ \<Rightarrow> Inl ErrNestedSnapshot)"

section \<open>Missing ranges\<close>

definition MissingRanges :: "u64 \<Rightarrow> MemStore \<Rightarrow> store_error + MissingRange list" where
  "MissingRanges chainID m =
     mem_fail ''MissingRanges'' m (sort_key rFrom (case map_of (MissingRows m) chainID of None \<Rightarrow> [] | Some rs \<Rightarrow> rs))"

definition mem_ReplaceMissingRanges :: "u64 \<Rightarrow> MissingRange list \<Rightarrow> MemStore \<Rightarrow> store_error + MemStore" where
  "mem_ReplaceMissingRanges chainID ranges m =
     mem_fail ''ReplaceMissingRanges'' m
       (let out = map (\<lambda>r. r\<lparr>rChainID := chainID\<rparr>) ranges
        in if out = [] then m\<lparr>MissingRows := AList.delete chainID (MissingRows m)\<rparr>
           else m\<lparr>MissingRows := AList.update chainID out (MissingRows m)\<rparr>)"

section \<open>Networks\<close>

definition UpsertNetwork :: "Network \<Rightarrow> MemStore \<Rightarrow> store_error + MemStore" where
  "UpsertNetwork n m =
     mem_fail ''UpsertNetwork'' m
       (case map_of (NetworkRows m) (nChainID n) of
          Some old \<Rightarrow> m\<lparr>NetworkRows := AList.update (nChainID n)
            (old\<lparr>nName := nName n, nDisplayName := nDisplayName n, nExplorerURL := nExplorerURL n, nEnabled := nEnabled n\<rparr>)
            (NetworkRows m)\<rparr>
        | None \<Rightarrow> m\<lparr>NetworkRows := AList.update (nChainID n) n (NetworkRows m)\<rparr>)"

definition Networks :: "MemStore \<Rightarrow> store_error + Network list" where
  "Networks m = mem_fail ''Networks'' m (sort_key nChainID (map snd (NetworkRows m)))"

text \<open>\<open>strconv.ParseInt\<close> followed by the comparison with the formatted number accepts canonical decimals only.\<close>

definition ChainIDRef :: "string \<Rightarrow> i64 option" where
  "ChainIDRef ref =
     (case SetString10 ref of
        None \<Rightarrow> None
      | Some v \<Rightarrow> if \<not> is_i64 v \<or> v < 0 \<or> big_String v \<noteq> ref then None else Some v)"

definition NetworkByRef :: "string \<Rightarrow> MemStore \<Rightarrow> store_error + Network option" where
  "NetworkByRef ref m =
     mem_fail ''NetworkByRef'' m
       (List.find (\<lambda>n. case ChainIDRef ref of Some v \<Rightarrow> nChainID n = u64_of_i64 v | None \<Rightarrow> nName n = ref)
          (map snd (NetworkRows m)))"

definition network_zero :: Network where
  "network_zero = \<lparr>nChainID = 0, nName = [], nDisplayName = [], nExplorerURL = [], nEnabled = False, nHeadBlock = None,
     nHeadAt = None, nLastSampleAt = None, nLastError = None, nUpdatedAt = 0\<rparr>"

definition network_row :: "u64 \<Rightarrow> MemStore \<Rightarrow> Network" where
  "network_row chainID m = (case map_of (NetworkRows m) chainID of None \<Rightarrow> network_zero | Some n \<Rightarrow> n)\<lparr>nChainID := chainID\<rparr>"

definition UpdateNetworkHead :: "u64 \<Rightarrow> u64 \<Rightarrow> gotime \<Rightarrow> gotime \<Rightarrow> MemStore \<Rightarrow> store_error + MemStore" where
  "UpdateNetworkHead chainID headBlock headAt sampledAt m =
     mem_fail ''UpdateNetworkHead'' m
       (m\<lparr>NetworkRows := AList.update chainID
          ((network_row chainID m)\<lparr>nHeadBlock := Some (i64_of_u64 headBlock), nHeadAt := Some headAt,
                                   nLastSampleAt := Some sampledAt, nLastError := None\<rparr>) (NetworkRows m)\<rparr>)"

definition SetNetworkHead :: "u64 \<Rightarrow> u64 option \<Rightarrow> gotime option \<Rightarrow> gotime option \<Rightarrow> MemStore \<Rightarrow> store_error + MemStore" where
  "SetNetworkHead chainID headBlock headAt sampledAt m =
     mem_fail ''SetNetworkHead'' m
       (m\<lparr>NetworkRows := AList.update chainID
          ((network_row chainID m)\<lparr>nHeadBlock := map_option i64_of_u64 headBlock, nHeadAt := headAt,
                                   nLastSampleAt := sampledAt\<rparr>) (NetworkRows m)\<rparr>)"

definition SetNetworkError :: "u64 \<Rightarrow> string \<Rightarrow> MemStore \<Rightarrow> store_error + MemStore" where
  "SetNetworkError chainID msg m =
     mem_fail ''SetNetworkError'' m
       (m\<lparr>NetworkRows := AList.update chainID
          ((network_row chainID m)\<lparr>nLastError := (if msg = [] then None else Some msg)\<rparr>) (NetworkRows m)\<rparr>)"

section \<open>Blocks\<close>

definition UpsertBlocks :: "db_block list \<Rightarrow> MemStore \<Rightarrow> store_error + MemStore" where
  "UpsertBlocks blocks m =
     mem_fail ''UpsertBlocks'' m
       (m\<lparr>BlockRows := foldl (\<lambda>rows b. AList.update (bChainID b, bNumber b) b rows) (BlockRows m) blocks\<rparr>)"

definition chain_blocks :: "u64 \<Rightarrow> MemStore \<Rightarrow> db_block list" where
  "chain_blocks chainID m = map snd (filter (\<lambda>r. fst (fst r) = chainID) (BlockRows m))"

definition sortedBlocks :: "u64 \<Rightarrow> MemStore \<Rightarrow> db_block list" where
  "sortedBlocks chainID m = sort_key bNumber (chain_blocks chainID m)"

definition BlockByNumber :: "u64 \<Rightarrow> u64 \<Rightarrow> MemStore \<Rightarrow> store_error + db_block option" where
  "BlockByNumber chainID number m = mem_fail ''BlockByNumber'' m (map_of (BlockRows m) (chainID, number))"

definition DeleteBlocksAfter :: "u64 \<Rightarrow> u64 \<Rightarrow> MemStore \<Rightarrow> store_error + (db_block list \<times> MemStore)" where
  "DeleteBlocksAfter chainID after m =
     mem_fail ''DeleteBlocksAfter'' m
       (filter (\<lambda>b. after < bNumber b) (sortedBlocks chainID m),
        m\<lparr>BlockRows := filter (\<lambda>r. \<not> (fst (fst r) = chainID \<and> after < bNumber (snd r))) (BlockRows m)\<rparr>)"

definition LatestBlock :: "u64 \<Rightarrow> MemStore \<Rightarrow> store_error + db_block option" where
  "LatestBlock chainID m =
     mem_fail ''LatestBlock'' m (let bs = sortedBlocks chainID m in if bs = [] then None else Some (last bs))"

definition OldestBlock :: "u64 \<Rightarrow> MemStore \<Rightarrow> store_error + db_block option" where
  "OldestBlock chainID m =
     mem_fail ''OldestBlock'' m (let bs = sortedBlocks chainID m in if bs = [] then None else Some (hd bs))"

definition RecentBlocks :: "u64 \<Rightarrow> nat \<Rightarrow> MemStore \<Rightarrow> store_error + db_block list" where
  "RecentBlocks chainID limit m = mem_fail ''RecentBlocks'' m (take limit (rev (sortedBlocks chainID m)))"

definition BlocksAfter :: "u64 \<Rightarrow> u64 \<Rightarrow> nat \<Rightarrow> MemStore \<Rightarrow> store_error + db_block list" where
  "BlocksAfter chainID after limit m =
     mem_fail ''BlocksAfter'' m (take limit (filter (\<lambda>b. after < bNumber b) (sortedBlocks chainID m)))"

definition BlocksMissingPosterGas :: "u64 \<Rightarrow> u64 \<Rightarrow> nat \<Rightarrow> MemStore \<Rightarrow> store_error + db_block list" where
  "BlocksMissingPosterGas chainID from limit m =
     mem_fail ''BlocksMissingPosterGas'' m
       (take limit (filter (\<lambda>b. from \<le> bNumber b \<and> bPosterGas b = None) (sortedBlocks chainID m)))"

text \<open>
  The gas is a Go map, here the list of its entries in the order the loop meets them: the entries
  before a refused one are kept by the in-memory store.
\<close>

definition set_poster :: "u64 \<Rightarrow> u64 \<Rightarrow> u64 \<Rightarrow> MemStore \<Rightarrow> MemStore" where
  "set_poster chainID number g m =
     (case map_of (BlockRows m) (chainID, number) of
        None \<Rightarrow> m
      | Some b \<Rightarrow>
          if bPosterGas b \<noteq> None \<or> bGasUsed b < g then m
          else m\<lparr>BlockRows := AList.update (chainID, number) (b\<lparr>bPosterGas := Some (i64_of_u64 g)\<rparr>) (BlockRows m)\<rparr>)"

fun set_posters :: "u64 \<Rightarrow> (u64 \<times> u64) list \<Rightarrow> MemStore \<Rightarrow> store_error option \<times> MemStore" where
  "set_posters chainID [] m = (None, m)"
| "set_posters chainID ((number, g) # gas) m =
     (if MaxInt64 < uint number \<or> MaxInt64 < uint g then (Some (OutsideRange number g), m)
      else set_posters chainID gas (set_poster chainID number g m))"

definition SetPosterGas :: "u64 \<Rightarrow> (u64 \<times> u64) list \<Rightarrow> MemStore \<Rightarrow> store_error option \<times> MemStore" where
  "SetPosterGas chainID gas m =
     (case mem_fail ''SetPosterGas'' m () of Inl e \<Rightarrow> (Some e, m) | Inr u \<Rightarrow> set_posters chainID gas m)"

definition BlocksBetween :: "u64 \<Rightarrow> gotime \<Rightarrow> gotime \<Rightarrow> MemStore \<Rightarrow> store_error + db_block list" where
  "BlocksBetween chainID from to m =
     mem_fail ''BlocksBetween'' m (filter (\<lambda>b. from \<le> bTS b \<and> bTS b < to) (sortedBlocks chainID m))"

definition GasBetween :: "u64 \<Rightarrow> gotime \<Rightarrow> gotime \<Rightarrow> MemStore \<Rightarrow> store_error + (u64 \<times> u64 option)" where
  "GasBetween chainID from to m =
     mem_fail ''GasBetween'' m
       (let rows = filter (\<lambda>b. from < bTS b \<and> bTS b \<le> to) (chain_blocks chainID m)
        in (sum_list (map bGasUsed rows),
            if \<exists>b\<in>set rows. \<not> posterKnown b then None
            else Some (sum_list (map (\<lambda>b. bGasUsed b - posterGasOf b) rows))))"

definition TwoTxBlocks :: "u64 \<Rightarrow> u64 \<Rightarrow> nat \<Rightarrow> MemStore \<Rightarrow> store_error + u64 list" where
  "TwoTxBlocks chainID after limit m =
     mem_fail ''TwoTxBlocks'' m
       (take limit (map bNumber (filter (\<lambda>b. bTxCount b = 2 \<and> after < bNumber b) (sortedBlocks chainID m))))"

definition PruneBlocks :: "u64 \<Rightarrow> gotime \<Rightarrow> MemStore \<Rightarrow> store_error + (nat \<times> MemStore)" where
  "PruneBlocks chainID before m =
     mem_fail ''PruneBlocks'' m
       (let old = \<lambda>r. fst (fst r) = chainID \<and> bTS (snd r) < before
        in (length (filter old (BlockRows m)), m\<lparr>BlockRows := filter (\<lambda>r. \<not> old r) (BlockRows m)\<rparr>))"

section \<open>Buckets\<close>

definition bucketKey :: "u64 \<Rightarrow> string \<Rightarrow> gotime \<Rightarrow> u64 \<times> string \<times> i64" where
  "bucketKey chainID res start = (chainID, res, Unix start)"

definition bucket_key :: "Bucket \<Rightarrow> u64 \<times> string \<times> i64" where
  "bucket_key b = bucketKey (kChainID b) (kResolution b) (kBucketStart b)"

definition fold_bucket :: "((u64 \<times> string \<times> i64) \<times> Bucket) list \<Rightarrow> Bucket \<Rightarrow> ((u64 \<times> string \<times> i64) \<times> Bucket) list" where
  "fold_bucket rows b =
     (case map_of rows (bucket_key b) of
        None \<Rightarrow> AList.update (bucket_key b) b rows
      | Some old \<Rightarrow> AList.update (bucket_key b) (MergeBuckets old b) rows)"

definition FoldBuckets :: "Bucket list \<Rightarrow> MemStore \<Rightarrow> store_error + MemStore" where
  "FoldBuckets buckets m = mem_fail ''FoldBuckets'' m (m\<lparr>BucketRows := foldl fold_bucket (BucketRows m) buckets\<rparr>)"

text \<open>The size of a set document, -1 when it cannot be read.\<close>

definition setSize :: "ConstraintSet \<Rightarrow> int" where
  "setSize cs = (case csConstraints cs of None \<Rightarrow> -1 | Some entries \<Rightarrow> int (length entries))"

definition better_set :: "(i64 \<times> u64) option \<Rightarrow> ConstraintSet \<Rightarrow> (i64 \<times> u64) option" where
  "better_set out cs =
     (case out of
        None \<Rightarrow> Some (csID cs, csEffectiveBlock cs)
      | Some (best, block) \<Rightarrow>
          if block < csEffectiveBlock cs \<or> csEffectiveBlock cs = block \<and> best < csID cs
          then Some (csID cs, csEffectiveBlock cs) else out)"

definition setIDAtLocked :: "u64 \<Rightarrow> u64 \<Rightarrow> nat \<Rightarrow> MemStore \<Rightarrow> i64 option" where
  "setIDAtLocked chainID number backlogs m =
     map_option fst (foldl better_set None
       (filter (\<lambda>cs. csChainID cs = chainID \<and> csEffectiveBlock cs \<le> number \<and> setSize cs = int backlogs) (SetRows m)))"

definition StatePruneFrontier :: string where
  "StatePruneFrontier = ''prune_frontier''"

text \<open>The zero time when no frontier is recorded.\<close>

definition pruneFrontierLocked :: "u64 \<Rightarrow> MemStore \<Rightarrow> gotime" where
  "pruneFrontierLocked chainID m =
     (case map_of (StateRows m) (chainID, StatePruneFrontier) of
        Some (StateText raw) \<Rightarrow> (case Parse raw of None \<Rightarrow> 0 | Some t \<Rightarrow> t)
      | _ \<Rightarrow> 0)"

definition window_rows :: "u64 \<Rightarrow> gotime \<Rightarrow> duration \<Rightarrow> MemStore \<Rightarrow> db_block list" where
  "window_rows chainID start width m =
     filter (\<lambda>b. start \<le> bTS b \<and> bTS b < start + width) (sortedBlocks chainID m)"

definition rebuild_one :: "u64 \<Rightarrow> string \<Rightarrow> gotime \<Rightarrow> MemStore \<Rightarrow> MemStore" where
  "rebuild_one chainID resolution start m =
     (let acc = foldl (\<lambda>a b. Add a b (setIDAtLocked chainID (bNumber b) (length (bBacklogs b)) m))
                  (NewBucketBuilder chainID resolution start) (window_rows chainID start (Resolutions resolution) m);
          key = bucketKey chainID resolution start
      in if kBlocks acc = 0 then m\<lparr>BucketRows := AList.delete key (BucketRows m)\<rparr>
         else m\<lparr>BucketRows := AList.update key (builder_Bucket acc) (BucketRows m)\<rparr>)"

definition below_frontier :: "u64 \<Rightarrow> MemStore \<Rightarrow> gotime \<Rightarrow> bool" where
  "below_frontier chainID m start \<longleftrightarrow> pruneFrontierLocked chainID m \<noteq> 0 \<and> start < pruneFrontierLocked chainID m"

definition RebuildBuckets :: "u64 \<Rightarrow> string \<Rightarrow> gotime list \<Rightarrow> MemStore \<Rightarrow> store_error + MemStore" where
  "RebuildBuckets chainID resolution starts m =
     bind_err (mem_fail ''RebuildBuckets'' m ()) (\<lambda>_.
       if resolution \<notin> set ResolutionOrder then Inl (UnknownResolution resolution)
       else Inr (foldl (\<lambda>m start. if below_frontier chainID m start then m else rebuild_one chainID resolution start m) m starts))"

definition BelowFrontier :: "u64 \<Rightarrow> gotime list \<Rightarrow> MemStore \<Rightarrow> store_error + gotime list" where
  "BelowFrontier chainID starts m = mem_fail ''BelowFrontier'' m (filter (below_frontier chainID m) starts)"

definition DiscardBucketsBelowFrontier :: "u64 \<Rightarrow> string \<Rightarrow> gotime list \<Rightarrow> MemStore \<Rightarrow> store_error + MemStore" where
  "DiscardBucketsBelowFrontier chainID resolution starts m =
     bind_err (mem_fail ''DiscardBucketsBelowFrontier'' m ()) (\<lambda>_.
       if resolution \<notin> set ResolutionOrder then Inl (UnknownResolution resolution)
       else Inr (m\<lparr>BucketRows := foldl (\<lambda>rows start. AList.delete (bucketKey chainID resolution start) rows) (BucketRows m)
                     (filter (below_frontier chainID m) starts)\<rparr>))"

definition DeleteBucketsBefore :: "u64 \<Rightarrow> gotime \<Rightarrow> MemStore \<Rightarrow> store_error + (nat \<times> MemStore)" where
  "DeleteBucketsBefore chainID before m =
     mem_fail ''DeleteBucketsBefore'' m
       (let old = \<lambda>r. kChainID (snd r) = chainID \<and> kBucketStart (snd r) < before
        in (length (filter old (BucketRows m)), m\<lparr>BucketRows := filter (\<lambda>r. \<not> old r) (BucketRows m)\<rparr>))"

definition mem_Buckets :: "u64 \<Rightarrow> string \<Rightarrow> gotime \<Rightarrow> gotime \<Rightarrow> MemStore \<Rightarrow> store_error + Bucket list" where
  "mem_Buckets chainID resolution from to m =
     mem_fail ''Buckets'' m
       (sort_key kBucketStart (filter (\<lambda>b. kChainID b = chainID \<and> kResolution b = resolution
          \<and> from \<le> kBucketStart b \<and> kBucketStart b < to) (map snd (BucketRows m))))"

definition BucketCount :: "u64 \<Rightarrow> string \<Rightarrow> MemStore \<Rightarrow> nat" where
  "BucketCount chainID resolution m =
     length (filter (\<lambda>r. kChainID (snd r) = chainID \<and> kResolution (snd r) = resolution) (BucketRows m))"

section \<open>The spread of the compute rate\<close>

text \<open>
  The rate of every unit, \<open>None\<close> inside for one whose poster gas is not authoritative; a unit that
  became unknown stays so.
\<close>

definition add_rate :: "(gotime \<times> i64 option) list \<Rightarrow> db_block \<Rightarrow> (gotime \<times> i64 option) list" where
  "add_rate out b =
     (let t = Truncate (bTS b) Second;
          compute = i64_wrap (i64_of_u64 (bGasUsed b) - (case bPosterGas b of None \<Rightarrow> 0 | Some p \<Rightarrow> p))
      in case map_of out t of
           Some None \<Rightarrow> out
         | seen \<Rightarrow>
             if \<not> posterKnown b then AList.update t None out
             else case seen of
                    Some (Some rate) \<Rightarrow> AList.update t (Some (i64_wrap (rate + compute))) out
                  | _ \<Rightarrow> AList.update t (Some compute) out)"

definition bucket_rate :: "duration \<Rightarrow> Bucket \<Rightarrow> i64 option" where
  "bucket_rate unit b =
     (case kPosterGas b of
        None \<Rightarrow> None
      | Some p \<Rightarrow> if kGasUsed b < u64_of_i64 p then None
                  else Some (i64_wrap (i64_of_u64 (kGasUsed b) - p) sdiv (unit sdiv Second)))"

definition unitRates :: "u64 \<Rightarrow> gotime \<Rightarrow> gotime \<Rightarrow> duration \<Rightarrow> MemStore \<Rightarrow> store_error + (gotime \<times> i64 option) list" where
  "unitRates chainID from to unit m =
     (if unit = Second
      then Inr (foldl add_rate [] (filter (\<lambda>b. from \<le> bTS b \<and> bTS b < to) (sortedBlocks chainID m)))
      else case ResolutionOf unit of
             None \<Rightarrow> Inl (NoResolution unit)
           | Some resolution \<Rightarrow>
               Inr (foldl (\<lambda>out b. AList.update (kBucketStart b) (bucket_rate unit b) out) []
                 (filter (\<lambda>b. kChainID b = chainID \<and> kResolution b = resolution \<and> from \<le> kBucketStart b \<and> kBucketStart b < to)
                   (map snd (BucketRows m)))))"

definition window_start :: "duration \<Rightarrow> gotime \<Rightarrow> i64" where
  "window_start step t = Unix t sdiv (step sdiv Second) * (step sdiv Second)"

definition from_unix :: "i64 \<Rightarrow> gotime" where
  "from_unix s = (s + 62135596800) * Second"

definition add_window :: "duration \<Rightarrow> (i64 \<times> RateSpread) list \<Rightarrow> gotime \<times> i64 option \<Rightarrow> (i64 \<times> RateSpread) list" where
  "add_window step windows x =
     (case snd x of
        None \<Rightarrow> windows
      | Some rate \<Rightarrow>
          let start = window_start step (fst x) in
          case map_of windows start of
            None \<Rightarrow> AList.update start \<lparr>rsStart = from_unix start, rsMinRate = rate, rsMaxRate = rate, rsUnits = 1\<rparr> windows
          | Some w \<Rightarrow> AList.update start
              (w\<lparr>rsMinRate := min (rsMinRate w) rate, rsMaxRate := max (rsMaxRate w) rate, rsUnits := i64_wrap (rsUnits w + 1)\<rparr>) windows)"

definition ComputeRateSpread :: "u64 \<Rightarrow> gotime \<Rightarrow> gotime \<Rightarrow> duration \<Rightarrow> duration \<Rightarrow> MemStore \<Rightarrow> store_error + RateSpread list" where
  "ComputeRateSpread chainID from to step unit m =
     bind_err (mem_fail ''ComputeRateSpread'' m ()) (\<lambda>_.
       if step \<le> 0 \<or> unit \<le> 0 \<or> step \<le> unit \<or> to \<le> from then Inr []
       else bind_err (unitRates chainID from to unit m) (\<lambda>rates.
         let voided = map (\<lambda>x. window_start step (fst x)) (filter (\<lambda>x. snd x = None) rates)
         in Inr (sort_key rsStart (map snd (filter (\<lambda>w. fst w \<notin> set voided) (foldl (add_window step) [] rates))))))"

section \<open>State samples\<close>

fun put_sample :: "StateSample \<Rightarrow> StateSample list \<Rightarrow> StateSample list" where
  "put_sample s [] = [s]"
| "put_sample s (old # rows) =
     (if ssChainID old = ssChainID s \<and> ssSampledAt old = ssSampledAt s then s # rows else old # put_sample s rows)"

definition InsertStateSample :: "StateSample \<Rightarrow> MemStore \<Rightarrow> store_error + MemStore" where
  "InsertStateSample s m = mem_fail ''InsertStateSample'' m (m\<lparr>SampleRows := put_sample s (SampleRows m)\<rparr>)"

definition LatestStateSample :: "u64 \<Rightarrow> bool \<Rightarrow> MemStore \<Rightarrow> store_error + StateSample option" where
  "LatestStateSample chainID withL1 m =
     mem_fail ''LatestStateSample'' m
       (foldl (\<lambda>best s. case best of None \<Rightarrow> Some s | Some b \<Rightarrow> if ssSampledAt b < ssSampledAt s then Some s else best) None
          (filter (\<lambda>s. ssChainID s = chainID \<and> (withL1 \<longrightarrow> ssL1 s \<noteq> None)) (SampleRows m)))"

definition newer_sample :: "StateSample option \<Rightarrow> StateSample \<Rightarrow> StateSample option" where
  "newer_sample best s =
     (case best of
        None \<Rightarrow> Some s
      | Some b \<Rightarrow>
          if ssBlockNumber b < ssBlockNumber s \<or> ssBlockNumber s = ssBlockNumber b \<and> ssSampledAt b < ssSampledAt s
          then Some s else best)"

definition StateSampleAt :: "u64 \<Rightarrow> u64 \<Rightarrow> MemStore \<Rightarrow> store_error + StateSample option" where
  "StateSampleAt chainID block m =
     mem_fail ''StateSampleAt'' m
       (foldl newer_sample None (filter (\<lambda>s. ssChainID s = chainID \<and> ssBlockNumber s \<le> block) (SampleRows m)))"

fun one_per_step :: "i64 \<Rightarrow> i64 list \<Rightarrow> StateSample list \<Rightarrow> StateSample list" where
  "one_per_step secs seen [] = []"
| "one_per_step secs seen (s # rows) =
     (let k = Unix (ssSampledAt s) sdiv secs
      in if k \<in> set seen then one_per_step secs seen rows else s # one_per_step secs (k # seen) rows)"

definition L1Samples :: "u64 \<Rightarrow> gotime \<Rightarrow> gotime \<Rightarrow> duration \<Rightarrow> MemStore \<Rightarrow> store_error + StateSample list" where
  "L1Samples chainID from to step m =
     mem_fail ''L1Samples'' m
       (one_per_step (max (step sdiv Second) 1) []
         (sort_key ssSampledAt (filter (\<lambda>s. ssChainID s = chainID \<and> ssL1 s \<noteq> None \<and> from \<le> ssSampledAt s \<and> ssSampledAt s < to)
           (SampleRows m))))"

definition drop_samples :: "(StateSample \<Rightarrow> bool) \<Rightarrow> MemStore \<Rightarrow> nat \<times> MemStore" where
  "drop_samples gone m =
     (length (filter gone (SampleRows m)), m\<lparr>SampleRows := filter (\<lambda>s. \<not> gone s) (SampleRows m)\<rparr>)"

definition PruneStateSamples :: "u64 \<Rightarrow> gotime \<Rightarrow> MemStore \<Rightarrow> store_error + (nat \<times> MemStore)" where
  "PruneStateSamples chainID before m =
     mem_fail ''PruneStateSamples'' m (drop_samples (\<lambda>s. ssChainID s = chainID \<and> ssSampledAt s < before) m)"

definition DeleteStateSamplesAfter :: "u64 \<Rightarrow> u64 \<Rightarrow> MemStore \<Rightarrow> store_error + (nat \<times> MemStore)" where
  "DeleteStateSamplesAfter chainID block m =
     mem_fail ''DeleteStateSamplesAfter'' m (drop_samples (\<lambda>s. ssChainID s = chainID \<and> block < ssBlockNumber s) m)"

section \<open>Owner actions, constraint sets and batch reports\<close>

definition action_key :: "db_OwnerAction \<Rightarrow> u64 \<times> string \<times> i64" where
  "action_key a = (doChainID a, doTxHash a, doLogIndex a)"

definition insert_action ::
  "nat \<times> ((u64 \<times> string \<times> i64) \<times> db_OwnerAction) list \<Rightarrow> db_OwnerAction
     \<Rightarrow> nat \<times> ((u64 \<times> string \<times> i64) \<times> db_OwnerAction) list" where
  "insert_action acc a =
     (case map_of (snd acc) (action_key a) of
        Some old \<Rightarrow>
          if doTxIndex old = None \<and> doTxIndex a \<noteq> None
          then (fst acc, AList.update (action_key a) (old\<lparr>doTxIndex := doTxIndex a\<rparr>) (snd acc)) else acc
      | None \<Rightarrow> (Suc (fst acc), AList.update (action_key a) a (snd acc)))"

definition InsertOwnerActions :: "db_OwnerAction list \<Rightarrow> MemStore \<Rightarrow> store_error + (nat \<times> MemStore)" where
  "InsertOwnerActions actions m =
     mem_fail ''InsertOwnerActions'' m
       (case foldl insert_action (0, ActionRows m) actions of (n, rows) \<Rightarrow> (n, m\<lparr>ActionRows := rows\<rparr>))"

definition OwnerActions :: "u64 \<Rightarrow> gotime \<Rightarrow> gotime \<Rightarrow> nat \<Rightarrow> MemStore \<Rightarrow> store_error + db_OwnerAction list" where
  "OwnerActions chainID from to limit m =
     mem_fail ''OwnerActions'' m
       (let out = sort_key (\<lambda>a. (- uint (doBlockNumber a), - doLogIndex a))
              (filter (\<lambda>a. doChainID a = chainID \<and> (from = 0 \<or> from \<le> doTS a) \<and> (to = 0 \<or> doTS a < to))
                (map snd (ActionRows m)))
        in if 0 < limit then take limit out else out)"

definition OwnerActionsSince :: "u64 \<Rightarrow> u64 \<Rightarrow> MemStore \<Rightarrow> store_error + db_OwnerAction list" where
  "OwnerActionsSince chainID block m =
     mem_fail ''OwnerActionsSince'' m
       (sort_key (\<lambda>a. (doBlockNumber a, doLogIndex a))
         (filter (\<lambda>a. doChainID a = chainID \<and> block \<le> doBlockNumber a) (map snd (ActionRows m))))"

definition RewindAfter :: "u64 \<Rightarrow> u64 \<Rightarrow> MemStore \<Rightarrow> store_error + MemStore" where
  "RewindAfter chainID block m =
     mem_fail ''RewindAfter'' m
       (m\<lparr>ActionRows := filter (\<lambda>r. \<not> (doChainID (snd r) = chainID \<and> block < doBlockNumber (snd r))) (ActionRows m),
          SetRows := filter (\<lambda>cs. csChainID cs \<noteq> chainID \<or> csEffectiveBlock cs \<le> block) (SetRows m),
          ReportRows := filter (\<lambda>r. \<not> (brChainID (snd r) = chainID \<and> block < brBlockNumber (snd r))) (ReportRows m)\<rparr>)"

definition same_set :: "ConstraintSet \<Rightarrow> ConstraintSet \<Rightarrow> bool" where
  "same_set old cs \<longleftrightarrow>
     csChainID old = csChainID cs \<and> csEffectiveBlock old = csEffectiveBlock cs \<and> csSource old = csSource cs"

fun put_set :: "ConstraintSet \<Rightarrow> ConstraintSet list \<Rightarrow> (i64 \<times> ConstraintSet list) option" where
  "put_set cs [] = None"
| "put_set cs (old # rows) =
     (if same_set old cs then Some (csID old, cs\<lparr>csID := csID old\<rparr> # rows)
      else map_option (\<lambda>(i, rs). (i, old # rs)) (put_set cs rows))"

definition InsertConstraintSet :: "ConstraintSet \<Rightarrow> MemStore \<Rightarrow> store_error + (i64 \<times> MemStore)" where
  "InsertConstraintSet cs m =
     mem_fail ''InsertConstraintSet'' m
       (case put_set cs (SetRows m) of
          Some (i, rows) \<Rightarrow> (i, m\<lparr>SetRows := rows\<rparr>)
        | None \<Rightarrow> let i = i64_wrap (nextSet m + 1) in (i, m\<lparr>SetRows := SetRows m @ [cs\<lparr>csID := i\<rparr>], nextSet := i\<rparr>))"

fun replace_set :: "ConstraintSet \<Rightarrow> ConstraintSet list \<Rightarrow> ConstraintSet list" where
  "replace_set cs [] = []"
| "replace_set cs (old # rows) =
     (if csID old = csID cs \<and> csChainID old = csChainID cs then cs # rows else old # replace_set cs rows)"

definition UpdateConstraintSet :: "ConstraintSet \<Rightarrow> MemStore \<Rightarrow> store_error + MemStore" where
  "UpdateConstraintSet cs m = mem_fail ''UpdateConstraintSet'' m (m\<lparr>SetRows := replace_set cs (SetRows m)\<rparr>)"

definition mem_ConstraintSets :: "u64 \<Rightarrow> MemStore \<Rightarrow> store_error + ConstraintSet list" where
  "mem_ConstraintSets chainID m =
     mem_fail ''ConstraintSets'' m
       (sort_key (\<lambda>cs. (csEffectiveBlock cs, csID cs)) (filter (\<lambda>cs. csChainID cs = chainID) (SetRows m)))"

definition UpsertBatchReports :: "BatchReport list \<Rightarrow> MemStore \<Rightarrow> store_error + MemStore" where
  "UpsertBatchReports reports m =
     mem_fail ''UpsertBatchReports'' m
       (m\<lparr>ReportRows := foldl (\<lambda>rows r. AList.update (brChainID r, brBlockNumber r) r rows) (ReportRows m) reports\<rparr>)"

definition counted_reports :: "u64 \<Rightarrow> gotime \<Rightarrow> gotime \<Rightarrow> MemStore \<Rightarrow> BatchReport list" where
  "counted_reports chainID from to m =
     filter (\<lambda>r. brCostCalculationVersion r = 1 \<and> brChainID r = chainID \<and> from \<le> brBatchTS r \<and> brBatchTS r < to)
       (map snd (ReportRows m))"

definition BatchReports :: "u64 \<Rightarrow> gotime \<Rightarrow> gotime \<Rightarrow> MemStore \<Rightarrow> store_error + BatchReport list" where
  "BatchReports chainID from to m =
     mem_fail ''BatchReports'' m (sort_key (\<lambda>r. (brBatchTS r, brBlockNumber r)) (counted_reports chainID from to m))"

definition add_report :: "i64 \<Rightarrow> (i64 \<times> BatchBucket \<times> bigint) list \<Rightarrow> BatchReport \<Rightarrow> (i64 \<times> BatchBucket \<times> bigint) list" where
  "add_report secs agg r =
     (let k = Unix (brBatchTS r) sdiv secs * secs;
          cur = (case map_of agg k of
                   Some x \<Rightarrow> x
                 | None \<Rightarrow> (\<lparr>bbT = from_unix k, bbBatches = 0, bbGasSpent = 0, bbWeiSpent = 0, bbL1BaseFeeAvg = 0,
                             bbCalldataBytes = 0\<rparr>, 0))
      in case cur of
           (b, total_fee) \<Rightarrow> AList.update k
             (b\<lparr>bbBatches := i64_wrap (bbBatches b + 1), bbGasSpent := bbGasSpent b + brGasSpent r,
                bbWeiSpent := bbWeiSpent b + brWeiSpent r, bbCalldataBytes := bbCalldataBytes b + brCalldataLen r\<rparr>,
              total_fee + brL1BaseFee r) agg)"

definition BatchBuckets :: "u64 \<Rightarrow> gotime \<Rightarrow> gotime \<Rightarrow> duration \<Rightarrow> MemStore \<Rightarrow> store_error + BatchBucket list" where
  "BatchBuckets chainID from to step m =
     mem_fail ''BatchBuckets'' m
       (sort_key bbT (map (\<lambda>(k, b, total_fee). b\<lparr>bbL1BaseFeeAvg := big_Div total_fee (bbBatches b)\<rparr>)
         (foldl (add_report (max (step sdiv Second) 1)) [] (counted_reports chainID from to m))))"

section \<open>Collector state and notifications\<close>

definition GetState :: "u64 \<Rightarrow> string \<Rightarrow> MemStore \<Rightarrow> store_error + state_value option" where
  "GetState chainID key m = mem_fail ''GetState'' m (map_of (StateRows m) (chainID, key))"

definition SetState :: "u64 \<Rightarrow> string \<Rightarrow> state_value \<Rightarrow> MemStore \<Rightarrow> store_error + MemStore" where
  "SetState chainID key v m = mem_fail ''SetState'' m (m\<lparr>StateRows := AList.update (chainID, key) v (StateRows m)\<rparr>)"

definition DeleteState :: "u64 \<Rightarrow> string \<Rightarrow> MemStore \<Rightarrow> store_error + MemStore" where
  "DeleteState chainID key m = mem_fail ''DeleteState'' m (m\<lparr>StateRows := AList.delete (chainID, key) (StateRows m)\<rparr>)"

definition States :: "u64 \<Rightarrow> MemStore \<Rightarrow> store_error + (string \<times> state_value) list" where
  "States chainID m =
     mem_fail ''States'' m
       (map (\<lambda>r. (snd (fst r), snd r)) (filter (\<lambda>r. fst (fst r) = chainID \<and> snd (fst r) \<noteq> []) (StateRows m)))"

definition Notify :: "string \<Rightarrow> payload \<Rightarrow> MemStore \<Rightarrow> store_error + MemStore" where
  "Notify channel payload m =
     mem_fail ''Notify'' m (m\<lparr>Notifications := Notifications m @ [\<lparr>ntChannel = channel, ntPayload = payload\<rparr>]\<rparr>)"

definition LastNotification :: "string \<Rightarrow> MemStore \<Rightarrow> Notification option" where
  "LastNotification channel m = List.find (\<lambda>n. ntChannel n = channel) (rev (Notifications m))"

end
