(* ===== verification/Fill.thy ===== *)
theory Fill
  imports Replay_Rows Store
begin

text \<open>
  The gap filler (\<open>internal/collector/fill.go\<close>): the checkpoint a batch leaves in its range, the
  state a range can be replayed from, the choice of the next range, the size of a batch, the replay
  of one batch and the way its rows are split between the row-backed region and the additive folds.

  The store's reads are arguments of the definitions; a read that fails ends the step before
  anything is decided and is not part of them.
\<close>

datatype FillStatus = FillProgressed | FillIdle | FillNone

section \<open>Checkpoints\<close>

definition params_of_legacy :: "Legacy \<Rightarrow> LegacyParams" where
  "params_of_legacy l =
     \<lparr>lpSpeedLimit = SpeedLimit l, lpInertia = Inertia l, lpTolerance = Tolerance l, lpBacklog = LegacyBacklog l\<rparr>"

definition carriedFillState :: "HoleState \<Rightarrow> State option" where
  "carriedFillState s =
     (case (if hsMinBaseFee s = [] then Some 0 else SetString10 (hsMinBaseFee s)) of
        None \<Rightarrow> None
      | Some fee \<Rightarrow>
          (case hsLegacy s of
             Some lp \<Rightarrow> Some \<lparr>Constraints = [], LegacyParams = Some (legacy_of_params lp), MinBaseFee = Some fee\<rparr>
           | None \<Rightarrow>
               if hsConstraints s \<noteq> []
               then Some \<lparr>Constraints = map (\<lambda>c. \<lparr>Target = mcTarget c, Window = mcWindow c, Backlog = mcBacklog c\<rparr>) (hsConstraints s),
                          LegacyParams = None, MinBaseFee = Some fee\<rparr>
               else None))"

definition holeStateOf :: "State \<Rightarrow> Header \<Rightarrow> i64 \<Rightarrow> HoleState" where
  "holeStateOf st h setID =
     (let out = \<lparr>hsBlock = hNumber h, hsHash = hHash h, hsPrevTS = hTimestamp h,
                 hsMinBaseFee = (case MinBaseFee st of None \<Rightarrow> [] | Some v \<Rightarrow> big_String v),
                 hsConstraints = [], hsLegacy = None, hsSetID = setID, hsPendingFee = [], hsPendingExponent = 0,
                 hsPendingBips = []\<rparr>
      in case State.LegacyParams st of
           Some l \<Rightarrow> out\<lparr>hsLegacy := Some (params_of_legacy l)\<rparr>
         | None \<Rightarrow>
             out\<lparr>hsConstraints := map (\<lambda>c. \<lparr>mcTarget = Target c, mcWindow = Window c, mcBacklog = Backlog c,
                                            mcExponentBips = 0\<rparr>) (Constraints st)\<rparr>)"

definition carriedCarry :: "HoleState option \<Rightarrow> prediction" where
  "carriedCarry c =
     (case c of None \<Rightarrow> noPrediction | Some s \<Rightarrow> decodeCarry (hsPendingFee s) (hsPendingExponent s) (hsPendingBips s))"

definition pending_checkpoint :: "State \<Rightarrow> Header \<Rightarrow> i64 \<Rightarrow> prediction \<Rightarrow> HoleState" where
  "pending_checkpoint st h setID carry =
     (case encode_prediction carry of
        (fee, exponent, bips) \<Rightarrow>
          (holeStateOf st h setID)\<lparr>hsPendingFee := fee, hsPendingExponent := exponent, hsPendingBips := bips\<rparr>)"

definition headerOf :: "db_block \<Rightarrow> Header" where
  "headerOf b =
     \<lparr>hNumber = bNumber b, hHash = bHash b, hParentHash = bParentHash b, hTimestamp = u64_of_i64 (Unix (bTS b)),
      hGasUsed = bGasUsed b, hGasLimit = 0, hBaseFee = bBaseFee b, hL1BlockNumber = bL1Block b, hArbOSVersion = 0,
      hArbOSVersionKnown = False, hTxCount = bTxCount b, hTxHashes = [], hPosterGas = None, hComputeGasBefore = []\<rparr>"

definition sameConstraints :: "State \<Rightarrow> model_constraint list \<Rightarrow> bool" where
  "sameConstraints st cs \<longleftrightarrow>
     map (\<lambda>c. (Target c, Window c)) (Constraints st) = map (\<lambda>c. (mcTarget c, mcWindow c)) cs"

definition startAmong :: "gotime \<Rightarrow> gotime list \<Rightarrow> bool" where
  "startAmong start starts \<longleftrightarrow> start \<in> set starts"

section \<open>What a range can be replayed from\<close>

definition sampledConstraints :: "StateSample \<Rightarrow> model_constraint list option" where
  "sampledConstraints s =
     (case ssConstraints s of
        Some (Some (c # cs)) \<Rightarrow> Some (c # cs)
      | _ \<Rightarrow> None)"

definition shapeAtLocked :: "caches \<Rightarrow> scanOrigin option \<Rightarrow> u64 \<Rightarrow> StateSample option \<Rightarrow> State option" where
  "shapeAtLocked ch orig number sample =
     (let from_sample = (case sample of
          None \<Rightarrow> None
        | Some s \<Rightarrow> map_option (\<lambda>cs. \<lparr>Constraints = map (\<lambda>c. \<lparr>Target = mcTarget c, Window = mcWindow c, Backlog = 0\<rparr>) cs,
                                     LegacyParams = None, MinBaseFee = Some 0\<rparr>) (sampledConstraints s));
          from_set = (case setAt (chSets ch) number of
            None \<Rightarrow> from_sample
          | Some cs \<Rightarrow>
              (case csConstraints cs of
                 Some entries \<Rightarrow> Some (SetBacklogs (stateFromEntries entries 0) (replicate (length entries) 0))
               | None \<Rightarrow> from_sample))
      in case sample of
           None \<Rightarrow> from_set
         | Some s \<Rightarrow>
             (case ssLegacy s of
                None \<Rightarrow> from_set
              | Some None \<Rightarrow> None
              | Some (Some lp) \<Rightarrow>
                  let base = (legacy_of_params lp)\<lparr>LegacyBacklog := 0\<rparr>
                  in Some \<lparr>Constraints = [], LegacyParams = legacyAt (timelineLocked ch orig []) number (Some base),
                           MinBaseFee = Some 0\<rparr>))"

definition storedFillState :: "caches \<Rightarrow> scanOrigin option \<Rightarrow> db_block \<Rightarrow> StateSample option \<Rightarrow> State option" where
  "storedFillState ch orig prev sample =
     (case shapeAtLocked ch orig (bNumber prev) sample of
        None \<Rightarrow> None
      | Some st \<Rightarrow>
          if length (Backlogs st) \<noteq> length (bBacklogs prev) then None
          else Some ((SetBacklogs st (bBacklogs prev))\<lparr>MinBaseFee := Some (wei_of (bMinBaseFee prev))\<rparr>))"

record fillTarget =
  ftHole :: hole
  ftPrev :: u64
  ftHash :: string
  ftPrevTs :: u64
  ftState :: State
  ftCarry :: prediction

text \<open>
  \<open>targetFor\<close> with the two reads it makes already answered: the stored block before the range and
  the sample at or before it. The flag says that nothing is left to replay from.
\<close>

definition targetFor ::
  "caches \<Rightarrow> scanOrigin option \<Rightarrow> (u64 \<Rightarrow> db_block option) \<Rightarrow> (u64 \<Rightarrow> StateSample option) \<Rightarrow> hole
     \<Rightarrow> fillTarget option \<times> bool" where
  "targetFor ch orig blockBy sampleBy h =
     (let start = Start h in
      if start = 0 \<or> To h < start then (None, False)
      else
        let prev = blockBy (start - 1);
            carried = (case State h of None \<Rightarrow> None | Some c \<Rightarrow> if hsBlock c \<noteq> start - 1 then None else Some c);
            usable = (case prev of None \<Rightarrow> None | Some b \<Rightarrow> if Known b \<and> bBacklogs b \<noteq> [] then Some b else None);
            carried = (case (usable, carried) of
                         (Some b, Some c) \<Rightarrow> if hashMismatch (hsHash c) (bHash b) then None else Some c
                       | _ \<Rightarrow> carried);
            stored = (case usable of None \<Rightarrow> None
                      | Some b \<Rightarrow> map_option (\<lambda>st. \<lparr>ftHole = h, ftPrev = bNumber b, ftHash = bHash b,
                                                    ftPrevTs = u64_of_i64 (Unix (bTS b)), ftState = st,
                                                    ftCarry = carriedCarry carried\<rparr>)
                                  (storedFillState ch orig b (sampleBy (bNumber b))))
        in case stored of
             Some t \<Rightarrow> (Some t, False)
           | None \<Rightarrow>
               (case Option.bind carried (\<lambda>c. map_option (\<lambda>st. \<lparr>ftHole = h, ftPrev = hsBlock c, ftHash = hsHash c,
                                                               ftPrevTs = hsPrevTS c, ftState = st,
                                                               ftCarry = carriedCarry (Some c)\<rparr>) (carriedFillState c)) of
                  Some t \<Rightarrow> (Some t, False)
                | None \<Rightarrow> (None, prev = None)))"

definition SourceObserved :: string where
  "SourceObserved = ''observed''"

definition endsInKnownShape ::
  "ConstraintSet list \<Rightarrow> (u64 \<Rightarrow> db_block option) \<Rightarrow> (u64 \<Rightarrow> StateSample option) \<Rightarrow> hole \<Rightarrow> State \<Rightarrow> bool" where
  "endsInKnownShape sets blockBy sampleBy h st =
     (case blockBy (To h + 1) of
        None \<Rightarrow> True
      | Some nxt \<Rightarrow>
          if \<not> Known nxt \<or> bBacklogs nxt = [] then True
          else
            let final = foldl (\<lambda>st cs.
                  if csEffectiveBlock cs < Start h \<or> To h + 1 < csEffectiveBlock cs then st
                  else if csEffectiveBlock cs = To h + 1 \<and> csSource cs = SourceObserved then st
                  else case csConstraints cs of
                         None \<Rightarrow> st
                       | Some entries \<Rightarrow>
                           applyPricingChange st (SetChange \<lparr>scBlock = csEffectiveBlock cs, scEntries = entries, scPos = noPosition\<rparr>))
                (Clone st) sets;
                known = (case sampleBy (To h + 1) of
                           Some s \<Rightarrow> if ssBlockNumber s = To h + 1 then sampledConstraints s else None
                         | None \<Rightarrow> None)
            in case known of
                 Some cs \<Rightarrow> sameConstraints final cs
               | None \<Rightarrow> length (Backlogs final) = length (bBacklogs nxt))"

section \<open>Choosing a range\<close>

text \<open>Ranges already being filled come first, then the newest; the sort is stable.\<close>

definition pick_order :: "hole list \<Rightarrow> hole list" where
  "pick_order holes = sort_key (\<lambda>h. (Next h = 0, - uint (From h))) holes"

datatype pick_step = PickError fill_error | Skip | Strand string | Choose fillTarget

definition examine ::
  "gotime \<Rightarrow> (hole \<Rightarrow> fillTarget option \<times> bool) \<Rightarrow> (hole \<Rightarrow> State \<Rightarrow> bool) \<Rightarrow> bool \<Rightarrow> hole \<Rightarrow> pick_step" where
  "examine now target explained blocked h =
     (if (effectiveLifecycle h = rangeBlocked) \<noteq> blocked then Skip
      else if Reason h = reasonUnsupportedModel then Skip
      else
        let retry = (if effectiveLifecycle h = rangeRetrying \<and> NextRetryAt h \<noteq> []
                     then map_sum id (\<lambda>t. now < t) (requiredTime (NextRetryAt h) ''next retry at'') else Inr False)
        in case retry of
             Inl e \<Rightarrow> PickError e
           | Inr True \<Rightarrow> Skip
           | Inr False \<Rightarrow>
               (case target h of
                  (None, stranded) \<Rightarrow>
                    if stranded \<and> effectiveLifecycle h \<noteq> rangeBlocked then Strand reasonNoState else Skip
                | (Some t, _) \<Rightarrow>
                    if \<not> explained h (ftState t) then Strand reasonReplayDiscontinuity
                    else if effectiveLifecycle h = rangeBlocked
                    then Choose (t\<lparr>ftHole := (ftHole t)\<lparr>Reason := [], Lifecycle := rangePending\<rparr>\<rparr>)
                    else Choose t))"

fun pick_loop ::
  "(hole \<Rightarrow> pick_step) \<Rightarrow> (u64 \<Rightarrow> string option) \<Rightarrow> hole list
     \<Rightarrow> (fill_error + fillTarget option) \<times> (u64 \<Rightarrow> string option)" where
  "pick_loop look reasons [] = (Inr None, reasons)"
| "pick_loop look reasons (h # hs) =
     (case look h of
        PickError e \<Rightarrow> (Inl e, reasons)
      | Skip \<Rightarrow> pick_loop look reasons hs
      | Strand reason \<Rightarrow> pick_loop look (reasons(From h \<mapsto> reason)) hs
      | Choose t \<Rightarrow> (Inr (Some t), reasons))"

definition pickHole ::
  "gotime \<Rightarrow> (hole \<Rightarrow> fillTarget option \<times> bool) \<Rightarrow> (hole \<Rightarrow> State \<Rightarrow> bool) \<Rightarrow> hole list
     \<Rightarrow> (fill_error + fillTarget option) \<times> (u64 \<Rightarrow> string option)" where
  "pickHole now target explained holes =
     (case pick_loop (examine now target explained False) Map.empty (pick_order holes) of
        (Inr None, reasons) \<Rightarrow> pick_loop (examine now target explained True) reasons (pick_order holes)
      | res \<Rightarrow> res)"

section \<open>One batch\<close>

definition minBackfillBatch :: u64 where
  "minBackfillBatch = 5"

text \<open>How many headers \<open>fillBatch\<close> asks for, given the batch size and the spare budget.\<close>

definition fill_count :: "u64 \<Rightarrow> int \<Rightarrow> hole \<Rightarrow> u64" where
  "fill_count headerBatchSize available h =
     (let remaining = To h - Start h + 1;
          n = min headerBatchSize remaining;
          avail = word_of_int (max available 0) div 2
      in if avail < n then max avail (min minBackfillBatch remaining) else n)"

datatype batch_check = BatchOk | BatchRetry | BatchUnsupported

text \<open>The checks on a fetched batch before anything is replayed.\<close>

definition check_batch :: "fillTarget \<Rightarrow> u64 \<Rightarrow> Header list \<Rightarrow> batch_check" where
  "check_batch t from headers =
     (case headers of
        [] \<Rightarrow> BatchRetry
      | h # _ \<Rightarrow>
          if hNumber h \<noteq> from \<or> hashMismatch (ftHash t) (hParentHash h) then BatchRetry
          else case verifyChain headers of
                 Inl e \<Rightarrow> BatchRetry
               | Inr u \<Rightarrow> if unsupportedModel (Some (ftState t)) headers \<noteq> None then BatchUnsupported else BatchOk)"

definition replayHole ::
  "u64 \<Rightarrow> (u64 \<Rightarrow> i64) \<Rightarrow> fillTarget \<Rightarrow> Header list \<Rightarrow> db_block option \<Rightarrow> timeline \<Rightarrow> actionBlocks
     \<Rightarrow> db_block list \<times> db_block option \<times> HoleState" where
  "replayHole chainID setIDAt t headers tail tml actions =
     (case replayForward chainID (ftState t) (ftPrevTs t) headers tml None actions of
        (st, rows, _) \<Rightarrow>
          (case shiftPredictions rows (ftCarry t) of
             (rows, carry) \<Rightarrow>
               let lastHeader = last headers;
                   final = pending_checkpoint st lastHeader (setIDAt (hNumber lastHeader)) carry
               in case tail of
                    None \<Rightarrow> (rows, None, final)
                  | Some b \<Rightarrow>
                      if rows = [] \<or> \<not> prKnown carry \<or> length (bBacklogs b) \<noteq> length (bBacklogs (last rows))
                      then (rows, None, final)
                      else (rows, Some (b\<lparr>bPredictedBaseFee := prFee carry, bExponentBips := prExponent carry,
                                         bConstraintBips := prPerConstraint carry\<rparr>), final)))"

text \<open>
  Where \<open>commitFill\<close> puts the rows of a batch: row-backed from the boundary on (and foldable from
  the watermark on), folded additively below it, and skipped below the watermark.
\<close>

record fill_rows =
  frRowBacked :: "db_block list"
  frFoldable :: "db_block list"
  frAdditive :: "db_block list"
  frKept :: "db_block list"

definition split_fill :: "gotime option \<Rightarrow> u64 \<Rightarrow> db_block list \<Rightarrow> db_block option \<Rightarrow> fill_rows" where
  "split_fill boundary folded rows tail =
     (let above = (\<lambda>r. case boundary of None \<Rightarrow> False | Some t \<Rightarrow> t \<le> bTS r);
          tails = (case tail of None \<Rightarrow> [] | Some b \<Rightarrow> [b])
      in \<lparr>frRowBacked = filter above rows @ filter above tails,
          frFoldable = filter (\<lambda>r. above r \<and> folded \<le> bNumber r) rows,
          frAdditive = filter (\<lambda>r. \<not> above r \<and> \<not> bNumber r < folded) rows,
          frKept = filter (\<lambda>r. \<not> above r) tails\<rparr>)"

section \<open>Checkpoints restore the state\<close>

text \<open>A state a checkpoint can carry: it has a floor and exactly one of the two models.\<close>

definition one_model :: "State \<Rightarrow> bool" where
  "one_model st \<longleftrightarrow> MinBaseFee st \<noteq> None \<and> (Constraints st = []) = (State.LegacyParams st \<noteq> None)"

lemma carried_holeState:
  assumes "one_model st"
  shows "carriedFillState (holeStateOf st h i) = Some st"
proof (cases "State.LegacyParams st")
  case None
  then obtain v where "MinBaseFee st = Some v" "Constraints st \<noteq> []" using assms by (auto simp: one_model_def)
  then show ?thesis using None
    by (simp add: carriedFillState_def holeStateOf_def SetString10_big_String comp_def map_idI)
next
  case (Some l)
  then obtain v where "MinBaseFee st = Some v" "Constraints st = []" using assms by (auto simp: one_model_def)
  then show ?thesis using Some
    by (simp add: carriedFillState_def holeStateOf_def SetString10_big_String legacy_of_params_def params_of_legacy_def)
qed

lemma carriedFillState_pending:
  "carriedFillState (s\<lparr>hsPendingFee := a, hsPendingExponent := b, hsPendingBips := c\<rparr>) = carriedFillState s"
  by (simp add: carriedFillState_def split: option.split)

lemma decode_encode:
  assumes "prKnown p" "prFee p \<noteq> None" "encode_prediction p = (fee, e, bips)"
  shows "decodeCarry fee e bips = p"
  using assms by (auto simp: encode_prediction_def decodeCarry_def SetString10_big_String)

lemma pending_checkpoint_restores:
  assumes "one_model st" "prKnown carry" "prFee carry \<noteq> None"
  shows "carriedFillState (pending_checkpoint st h i carry) = Some st"
    "carriedCarry (Some (pending_checkpoint st h i carry)) = carry"
    "hsPrevTS (pending_checkpoint st h i carry) = hTimestamp h"
proof -
  obtain fee e bips where p: "encode_prediction carry = (fee, e, bips)" using prod_cases3 by blast
  show "carriedFillState (pending_checkpoint st h i carry) = Some st"
    by (simp add: pending_checkpoint_def p carriedFillState_pending carried_holeState [OF assms(1)])
  show "carriedCarry (Some (pending_checkpoint st h i carry)) = carry"
    using decode_encode [OF assms(2,3) p] by (simp add: pending_checkpoint_def p carriedCarry_def)
  show "hsPrevTS (pending_checkpoint st h i carry) = hTimestamp h"
    by (simp add: pending_checkpoint_def p holeStateOf_def Let_def split: option.split)
qed


section \<open>Batches\<close>

lemma replay_headers_append:
  "replay_headers tml anchor actions st prev (xs @ ys) =
     (case replay_headers tml anchor actions st prev xs of
        (st1, rs1, fs1) \<Rightarrow>
          case replay_headers tml anchor actions st1 (if xs = [] then prev else hTimestamp (last xs)) ys of
            (st2, rs2, fs2) \<Rightarrow> (st2, rs1 @ rs2, fs1 @ fs2))"
proof (induction xs arbitrary: st prev)
  case (Cons x xs)
  obtain s r f where "replay_header tml anchor actions st prev x = (s, r, f)" using prod_cases3 by blast
  then show ?case using Cons.IH [of s "hTimestamp x"] by (simp split: prod.split)
qed (simp split: prod.split)

lemma replay_headers_facts:
  assumes "replay_headers tml anchor actions st prev hs = (st', rs, fs)"
  shows "length rs = length hs \<and> map fst fs = map hNumber hs"
  using assms
proof (induction hs arbitrary: st prev st' rs fs)
  case (Cons h hs)
  obtain s r f where h: "replay_header tml anchor actions st prev h = (s, r, f)" using prod_cases3 by blast
  obtain s' rs' fs' where t: "replay_headers tml anchor actions s (hTimestamp h) hs = (s', rs', fs')"
    using prod_cases3 by blast
  show ?case using Cons.IH [OF t] Cons.prems h t by auto
qed simp

lemma blockRows_append:
  "length rs1 = length xs \<Longrightarrow> blockRows c (xs @ ys) (rs1 @ rs2) f = blockRows c xs rs1 f @ blockRows c ys rs2 f"
  by (simp add: blockRows_def)

lemma fees_left:
  "n \<in> fst ` set fs1 \<Longrightarrow> n \<notin> fst ` set fs2 \<Longrightarrow> map_of (rev (fs1 @ fs2)) n = map_of (rev fs1) n"
  by (simp add: map_add_def map_of_eq_None_iff [THEN iffD2] split: option.split)

lemma fees_right: "n \<in> fst ` set fs2 \<Longrightarrow> map_of (rev (fs1 @ fs2)) n = map_of (rev fs2) n"
proof -
  assume "n \<in> fst ` set fs2"
  then have "map_of (rev fs2) n \<noteq> None" by (simp add: map_of_eq_None_iff)
  then show ?thesis by (auto simp: map_add_def)
qed

lemma replayForward_append:
  assumes "replayForward c st prev xs tml anchor actions = (st1, rows1, rs1)"
    and "replayForward c st1 (hTimestamp (last xs)) ys tml anchor actions = (st2, rows2, rs2)"
    and "xs \<noteq> []" "distinct (map hNumber (xs @ ys))"
  shows "replayForward c st prev (xs @ ys) tml anchor actions = (st2, rows1 @ rows2, rs1 @ rs2)"
proof -
  obtain s1 q1 f1 where x: "replay_headers tml anchor actions st prev xs = (s1, q1, f1)" using prod_cases3 by blast
  then have r1: "s1 = st1" "q1 = rs1" "rows1 = blockRows c xs rs1 (\<lambda>n. Option.bind (map_of (rev f1) n) id)"
    using assms(1) by (auto simp: replayForward_def)
  obtain s2 q2 f2 where y: "replay_headers tml anchor actions st1 (hTimestamp (last xs)) ys = (s2, q2, f2)"
    using prod_cases3 by blast
  then have r2: "s2 = st2" "q2 = rs2" "rows2 = blockRows c ys rs2 (\<lambda>n. Option.bind (map_of (rev f2) n) id)"
    using assms(2) by (auto simp: replayForward_def)
  have f: "fst ` set f1 = hNumber ` set xs" "fst ` set f2 = hNumber ` set ys" "length rs1 = length xs"
    using replay_headers_facts [OF x] replay_headers_facts [OF y] r1(2) by (metis set_map)+
  let ?F = "\<lambda>n. Option.bind (map_of (rev (f1 @ f2)) n) id"
  have "blockRows c xs rs1 ?F = rows1" unfolding r1(3)
  proof (rule blockRows_cong)
    fix h assume "h \<in> set xs"
    then have "hNumber h \<in> fst ` set f1" "hNumber h \<notin> fst ` set f2" using assms(4) f by auto
    from fees_left [OF this] show "?F (hNumber h) = Option.bind (map_of (rev f1) (hNumber h)) id" by simp
  qed
  moreover have "blockRows c ys rs2 ?F = rows2" unfolding r2(3)
  proof (rule blockRows_cong)
    fix h assume "h \<in> set ys"
    then have "hNumber h \<in> fst ` set f2" using f by simp
    from fees_right [OF this] show "?F (hNumber h) = Option.bind (map_of (rev f2) (hNumber h)) id" by simp
  qed
  ultimately show ?thesis
    using x y r1(1,2) r2(1,2) assms(3) blockRows_append [OF f(3)] by (simp add: replayForward_def replay_headers_append)
qed

lemma shift_rows_append:
  "shift_rows prev carry (as @ bs) =
     (case shift_rows prev carry as of
        (as', c1) \<Rightarrow> case shift_rows (if as = [] then prev else Some (bNumber (last as))) c1 bs of
          (bs', c2) \<Rightarrow> (as' @ bs', c2))"
proof (induction as arbitrary: prev carry)
  case (Cons a as)
  then show ?case by (simp add: Let_def split: prod.split)
qed (simp split: prod.split)

lemma shift_rows_length: "length (fst (shift_rows prev carry rows)) = length rows"
proof (induction rows arbitrary: prev carry)
  case (Cons r rs)
  show ?case using Cons.IH [of "Some (bNumber r)" "row_prediction r"] by (auto simp: Let_def split: prod.split)
qed simp

lemma shift_rows_joined:
  assumes "bs \<noteq> [] \<longrightarrow> bNumber (hd bs) = n + 1"
  shows "shift_rows (Some n) carry bs = shift_rows None carry bs"
  using assms by (cases bs) simp_all

lemma verifyChain_join:
  "verifyChain (xs @ ys) = Inr u \<Longrightarrow> xs \<noteq> [] \<Longrightarrow> ys \<noteq> [] \<Longrightarrow> hNumber (hd ys) = hNumber (last xs) + 1"
proof (induction xs)
  case (Cons a xs)
  show ?case
  proof (cases xs)
    case Nil
    then show ?thesis using Cons.prems by (cases ys) (auto split: if_splits)
  next
    case (Cons b zs)
    then show ?thesis using Cons.prems Cons.IH by (auto split: if_splits)
  qed
qed simp

lemma shift_rows_carry:
  "rows \<noteq> [] \<Longrightarrow> snd (shift_rows prev carry rows) = row_prediction (last rows)"
proof (induction rows arbitrary: prev carry)
  case (Cons r rs)
  then show ?case by (cases rs) (auto simp: Let_def split: prod.split)
qed simp

lemma replayForward_rows:
  assumes "replayForward c st prev hs tml anchor actions = (st', rows, rs)"
  shows "length rows = length hs" "map bNumber rows = map hNumber hs" "\<forall>r\<in>set rows. bPredictedBaseFee r \<noteq> None"
proof -
  obtain s q f where x: "replay_headers tml anchor actions st prev hs = (s, q, f)" using prod_cases3 by blast
  then have rows: "rows = blockRows c hs q (\<lambda>n. Option.bind (map_of (rev f) n) id)"
    using assms by (auto simp: replayForward_def)
  have len: "length q = length hs" using replay_headers_facts [OF x] by simp
  show "length rows = length hs" using rows len by (simp add: blockRows_def)
  have "map (\<lambda>p. hNumber (fst p)) (zip hs q) = map hNumber hs" using len by (simp flip: map_map [unfolded comp_def, of hNumber fst])
  then show "map bNumber rows = map hNumber hs"
    using rows len by (simp add: blockRows_def block_row_def comp_def case_prod_unfold)
  show "\<forall>r\<in>set rows. bPredictedBaseFee r \<noteq> None" using rows by (auto simp: blockRows_def block_row_def)
qed

text \<open>The target a later batch replays from: the checkpoint the batch before it left.\<close>

definition resumed :: "fillTarget \<Rightarrow> HoleState \<Rightarrow> State \<Rightarrow> fillTarget" where
  "resumed t ck st = t\<lparr>ftPrev := hsBlock ck, ftHash := hsHash ck, ftPrevTs := hsPrevTS ck, ftState := st,
     ftCarry := carriedCarry (Some ck)\<rparr>"

text \<open>
  C28. A range filled in batches ends as if it had been filled at once. When one batch has replayed
  the headers \<open>xs\<close> and left its checkpoint, the checkpoint decodes to the very state the batch ended
  in, and replaying the headers \<open>ys\<close> from it yields, appended to the rows already written, the same
  rows, the same overlap row and the same checkpoint as one replay of \<open>xs @ ys\<close>: no pricing group is
  lost or misplaced at the seam.
\<close>

theorem fill_resumes:
  assumes "verifyChain (xs @ ys) = Inr ()" "distinct (map hNumber (xs @ ys))" "xs \<noteq> []" "ys \<noteq> []"
    and "replayForward c (ftState t) (ftPrevTs t) xs tml None actions = (st1, rows1, rs1)" "one_model st1"
    and "replayHole c setIDAt t xs None tml actions = (out1, w1, ck)"
  shows "carriedFillState ck = Some st1
    \<and> replayHole c setIDAt t (xs @ ys) tail tml actions
      = (case replayHole c setIDAt (resumed t ck st1) ys tail tml actions of
           (out2, w2, ck2) \<Rightarrow> (out1 @ out2, w2, ck2))"
proof -
  obtain st2 rows2 rs2 where r2: "replayForward c st1 (hTimestamp (last xs)) ys tml None actions = (st2, rows2, rs2)"
    using prod_cases3 by blast
  have all: "replayForward c (ftState t) (ftPrevTs t) (xs @ ys) tml None actions = (st2, rows1 @ rows2, rs1 @ rs2)"
    by (rule replayForward_append [OF assms(5) r2 assms(3,2)])
  note f1 = replayForward_rows [OF assms(5)] and f2 = replayForward_rows [OF r2]
  have ne: "rows1 \<noteq> []" "rows2 \<noteq> []" using f1(1) f2(1) assms(3,4) by auto
  obtain p1 carry1 where s1: "shift_rows None (ftCarry t) rows1 = (p1, carry1)" by fastforce
  obtain p2 carry2 where s2: "shift_rows None carry1 rows2 = (p2, carry2)" by fastforce
  have carry: "carry1 = row_prediction (last rows1)" using shift_rows_carry [OF ne(1), of None "ftCarry t"] s1 by simp
  have known: "prKnown carry1" "prFee carry1 \<noteq> None" using f1(3) ne(1) by (simp_all add: carry row_prediction_def)
  have ck: "ck = pending_checkpoint st1 (last xs) (setIDAt (hNumber (last xs))) carry1" and out: "out1 = p1"
    using assms(7) by (simp_all add: replayHole_def assms(5) shiftPredictions_def s1 Let_def)
  note restores = pending_checkpoint_restores [OF assms(6) known, of "last xs" "setIDAt (hNumber (last xs))", folded ck]
  have "bNumber (hd rows2) = bNumber (last rows1) + 1"
    using verifyChain_join [OF assms(1,3,4)] f1(2) f2(2) ne assms(3,4) by (metis hd_map last_map)
  then have "shift_rows (Some (bNumber (last rows1))) carry1 rows2 = (p2, carry2)"
    using s2 by (simp add: shift_rows_joined)
  then have joined: "shift_rows None (ftCarry t) (rows1 @ rows2) = (p1 @ p2, carry2)"
    using s1 ne(1) by (simp add: shift_rows_append)
  have p2: "p2 \<noteq> []" using shift_rows_length [of None carry1 rows2] s2 ne(2) by auto
  have "replayHole c setIDAt t (xs @ ys) tail tml actions
      = (case replayHole c setIDAt (resumed t ck st1) ys tail tml actions of (out2, w2, ck2) \<Rightarrow> (out1 @ out2, w2, ck2))"
    using p2 assms(4)
    by (simp add: replayHole_def resumed_def all restores(2,3) r2 shiftPredictions_def joined s2 out Let_def split: option.split)
  with restores(1) show ?thesis by blast
qed

definition next_header :: Header where
  "next_header = plain_header\<lparr>hNumber := 6, hHash := ''0xc'', hParentHash := ''0xb'', hTimestamp := 101\<rparr>"

definition sample_target :: fillTarget where
  "sample_target = \<lparr>ftHole = skipped_range, ftPrev = 4, ftHash = ''0xa'', ftPrevTs = 90, ftState = one_constraint, ftCarry = noPrediction\<rparr>"

definition sample_state :: State where
  "sample_state = fst (replayForward 1 one_constraint 90 [plain_header] no_changes None (\<lambda>_. []))"

definition sample_checkpoint :: HoleState where
  "sample_checkpoint = snd (snd (replayHole 1 (\<lambda>_. 0) sample_target [plain_header] None no_changes (\<lambda>_. [])))"

lemma sample_resumable: "one_model sample_state" "verifyChain [plain_header, next_header] = Inr ()"
  "hNumber plain_header \<noteq> hNumber next_header"
  by code_simp+

theorem fill_resumes_witness:
  "carriedFillState sample_checkpoint = Some sample_state
    \<and> replayHole 1 (\<lambda>_. 0) sample_target ([plain_header] @ [next_header]) None no_changes (\<lambda>_. [])
      = (case replayHole 1 (\<lambda>_. 0) (resumed sample_target sample_checkpoint sample_state) [next_header] None no_changes (\<lambda>_. []) of
           (out2, w2, ck2) \<Rightarrow>
             (fst (replayHole 1 (\<lambda>_. 0) sample_target [plain_header] None no_changes (\<lambda>_. [])) @ out2, w2, ck2))"
proof -
  obtain rows1 rs1 where
    r: "replayForward 1 (ftState sample_target) (ftPrevTs sample_target) [plain_header] no_changes None (\<lambda>_. [])
      = (sample_state, rows1, rs1)"
    by (metis sample_state_def sample_target_def fillTarget.select_convs prod.collapse)
  obtain w1 where
    h: "replayHole 1 (\<lambda>_. 0) sample_target [plain_header] None no_changes (\<lambda>_. [])
      = (fst (replayHole 1 (\<lambda>_. 0) sample_target [plain_header] None no_changes (\<lambda>_. [])), w1, sample_checkpoint)"
    by (metis sample_checkpoint_def prod.collapse)
  show ?thesis
    using fill_resumes [OF _ _ _ _ r sample_resumable(1) h, of "[next_header]" None] sample_resumable(2,3) by simp
qed

end
