(* ===== verification/Chain_Locks.thy ===== *)
theory Chain_Locks
  imports Store
begin

text \<open>
  The chain locks of concurrent transactions (\<open>WithChainTx\<close> of \<open>internal/db/postgres.go\<close> and of the
  in-memory store): a transaction that asks for a lock it does not hold waits until nobody holds it,
  keeps it until it ends, and is refused a chain below one it already holds. A transaction is a
  number; one that holds nothing has not begun or has ended.
\<close>

record lock_state =
  lkHeld :: "nat \<Rightarrow> u64 list"
  lkWaits :: "nat \<Rightarrow> u64 option"

definition held_by :: "lock_state \<Rightarrow> nat \<Rightarrow> locks" where
  "held_by s i = (if lkHeld s i = [] then None else Some (lkHeld s i))"

inductive lock_step :: "lock_state \<Rightarrow> lock_state \<Rightarrow> bool" where
  ask: "lkWaits s i = None \<Longrightarrow> lock_request c (held_by s i) = Inr locks \<Longrightarrow> c \<notin> set (lkHeld s i)
     \<Longrightarrow> lock_step s (s\<lparr>lkWaits := (lkWaits s)(i \<mapsto> c)\<rparr>)"
| grant: "lkWaits s i = Some c \<Longrightarrow> \<forall>j. c \<notin> set (lkHeld s j) \<Longrightarrow> lock_request c (held_by s i) = Inr locks
     \<Longrightarrow> lock_step s (s\<lparr>lkHeld := (lkHeld s)(i := locks), lkWaits := (lkWaits s)(i := None)\<rparr>)"
| finish: "lkWaits s i = None \<Longrightarrow> lock_step s (s\<lparr>lkHeld := (lkHeld s)(i := [])\<rparr>)"

inductive lock_reachable :: "lock_state \<Rightarrow> bool" where
  no_locks: "lock_reachable \<lparr>lkHeld = \<lambda>_. [], lkWaits = \<lambda>_. None\<rparr>"
| lock_steps: "lock_reachable s \<Longrightarrow> lock_step s s' \<Longrightarrow> lock_reachable s'"

inductive_cases lock_stepE: "lock_step s s'"

text \<open>A transaction that can move on: it waits for a free lock, or holds some and waits for none.\<close>

definition can_move :: "lock_state \<Rightarrow> nat \<Rightarrow> bool" where
  "can_move s i \<longleftrightarrow>
     (case lkWaits s i of None \<Rightarrow> lkHeld s i \<noteq> [] | Some c \<Rightarrow> \<forall>j. c \<notin> set (lkHeld s j))"

definition locks_ok :: "lock_state \<Rightarrow> bool" where
  "locks_ok s \<longleftrightarrow>
     (\<forall>i. sorted_wrt (<) (lkHeld s i)) \<and> (\<forall>i c. lkWaits s i = Some c \<longrightarrow> (\<forall>h\<in>set (lkHeld s i). h < c))
     \<and> (\<forall>i j. i \<noteq> j \<longrightarrow> set (lkHeld s i) \<inter> set (lkHeld s j) = {})"

lemma lock_request_fresh:
  assumes "lock_request c (held_by s i) = Inr locks" "c \<notin> set (lkHeld s i)"
  shows "locks = lkHeld s i @ [c]" "\<forall>h\<in>set (lkHeld s i). h < c"
proof -
  show "locks = lkHeld s i @ [c]"
    using assms by (auto simp: lock_request_def held_by_def split: if_splits)
  have top: "lkHeld s i = [] \<or> \<not> c < Max (set (lkHeld s i))"
    using assms unfolding lock_request_def held_by_def by (simp split: if_splits)
  show "\<forall>h\<in>set (lkHeld s i). h < c"
  proof (intro ballI)
    fix h assume h: "h \<in> set (lkHeld s i)"
    then have "h \<le> Max (set (lkHeld s i))" "lkHeld s i \<noteq> []" "h \<noteq> c" using assms(2) by auto
    then have "Max (set (lkHeld s i)) \<le> c" using top by (metis not_less)
    with \<open>h \<le> Max _\<close> have "h \<le> c" by (rule order_trans)
    then show "h < c" using \<open>h \<noteq> c\<close> by simp
  qed
qed

lemma locks_ok_step: "lock_step s s' \<Longrightarrow> locks_ok s \<Longrightarrow> locks_ok s'"
proof (induction rule: lock_step.induct)
  case (ask s i c locks)
  then show ?case using lock_request_fresh(2) [OF ask(2,3)] by (auto simp: locks_ok_def)
next
  case (grant s i c locks)
  have "locks = lkHeld s i @ [c]" "\<forall>h\<in>set (lkHeld s i). h < c"
    using lock_request_fresh [OF grant(3)] grant(2) by auto
  then show ?case using grant by (auto simp: locks_ok_def sorted_wrt_append)
next
  case (finish s i)
  then show ?case by (auto simp: locks_ok_def)
qed

lemma waiting_moves:
  assumes "locks_ok s" "lkWaits s i = Some c"
  shows "\<exists>j. can_move s j"
proof (rule ccontr)
  assume stuck: "\<nexists>j. can_move s j"
  let ?W = "{c. \<exists>i. lkWaits s i = Some c}"
  have W: "Max ?W \<in> ?W" by (rule Max_in) (use assms(2) in auto)
  then obtain j where j: "lkWaits s j = Some (Max ?W)" by blast
  have "\<not> can_move s j" using stuck by blast
  then obtain k where k: "Max ?W \<in> set (lkHeld s k)" unfolding can_move_def j option.case by blast
  have "\<not> can_move s k" using stuck by blast
  then obtain d where d: "lkWaits s k = Some d"
    using k by (cases "lkWaits s k") (auto simp: can_move_def)
  then have "Max ?W < d" using assms(1) k by (auto simp: locks_ok_def)
  moreover have "d \<le> Max ?W" by (rule Max_ge) (use d in auto)
  ultimately show False by simp
qed

text \<open>
  C30. Taking the chain locks in ascending order cannot deadlock. In every reachable state no chain is
  locked by two transactions, each transaction's locks are strictly ascending, and as long as any
  transaction waits there is one that can move: it holds locks and waits for none, or the lock it
  waits for is free.
\<close>

theorem chain_locks_safe:
  assumes "lock_reachable s"
  shows "(i \<noteq> j \<longrightarrow> set (lkHeld s i) \<inter> set (lkHeld s j) = {}) \<and> sorted_wrt (<) (lkHeld s i)
    \<and> (lkWaits s i = Some c \<longrightarrow> (\<exists>k. can_move s k))"
proof -
  have "locks_ok s" using assms
    by (induction rule: lock_reachable.induct) (auto simp: locks_ok_step, simp add: locks_ok_def)
  then show ?thesis using waiting_moves by (auto simp: locks_ok_def)
qed

definition crossed_locks :: lock_state where
  "crossed_locks = \<lparr>lkHeld = (\<lambda>_. [])(0 := [1], 1 := [2]), lkWaits = (\<lambda>_. None)(0 := Some 2)\<rparr>"

lemma crossed_locks_reachable: "lock_reachable crossed_locks"
proof -
  let ?s0 = "\<lparr>lkHeld = \<lambda>_. [], lkWaits = \<lambda>_. None\<rparr>"
  let ?s1 = "\<lparr>lkHeld = \<lambda>_. [], lkWaits = (\<lambda>_. None)(0 := Some 1)\<rparr>"
  let ?s2 = "\<lparr>lkHeld = (\<lambda>_. [])(0 := [1]), lkWaits = \<lambda>_. None\<rparr>"
  let ?s3 = "\<lparr>lkHeld = (\<lambda>_. [])(0 := [1]), lkWaits = (\<lambda>_. None)(1 := Some 2)\<rparr>"
  let ?s4 = "\<lparr>lkHeld = (\<lambda>_. [])(0 := [1], 1 := [2]), lkWaits = \<lambda>_. None\<rparr>"
  have "lock_step ?s0 ?s1" using ask [of ?s0 0 1 "[1]"] by (simp add: lock_request_def held_by_def)
  moreover have "lock_step ?s1 ?s2" using grant [of ?s1 0 1 "[1]"] by (simp add: lock_request_def held_by_def)
  moreover have "lock_step ?s2 ?s3" using ask [of ?s2 1 2 "[2]"] by (simp add: lock_request_def held_by_def)
  moreover have "lock_step ?s3 ?s4" using grant [of ?s3 1 2 "[2]"] by (simp add: lock_request_def held_by_def)
  moreover have "lock_step ?s4 crossed_locks"
    using ask [of ?s4 0 2 "[1, 2]"] by (simp add: lock_request_def held_by_def crossed_locks_def)
  ultimately show ?thesis by (metis no_locks lock_steps)
qed

theorem chain_locks_safe_witness:
  "lkWaits crossed_locks 0 = Some 2 \<and> set (lkHeld crossed_locks 0) \<inter> set (lkHeld crossed_locks 1) = {}
    \<and> sorted_wrt (<) (lkHeld crossed_locks 0) \<and> (\<exists>k. can_move crossed_locks k)"
proof -
  have "lkWaits crossed_locks 0 = Some 2" by (simp add: crossed_locks_def)
  with chain_locks_safe [OF crossed_locks_reachable, of 0 1 2] show ?thesis by simp
qed

end
