(* ===== verification/Store_Laws.thy ===== *)
theory Store_Laws
  imports Store
begin

text \<open>
  The laws of the store: every row stays filed under its own key through every write.
\<close>

section \<open>Tables of keyed rows\<close>

definition keyed :: "('v \<Rightarrow> 'k) \<Rightarrow> ('k \<times> 'v) list \<Rightarrow> bool" where
  "keyed key rows \<longleftrightarrow> distinct (map fst rows) \<and> (\<forall>r\<in>set rows. fst r = key (snd r))"

named_theorems keyed_rules "the operations that keep a table keyed"

lemma set_update_subset: "set (AList.update k v rows) \<subseteq> insert (k, v) (set rows)"
  by (induction rows) auto

lemma keyed_Nil [keyed_rules]: "keyed key []"
  by (simp add: keyed_def)

lemma keyed_update: "keyed key rows \<Longrightarrow> k = key v \<Longrightarrow> keyed key (AList.update k v rows)"
  using set_update_subset [of k v rows] unfolding keyed_def by (auto simp: AList.distinct_update)

lemma keyed_filter [keyed_rules]: "keyed key rows \<Longrightarrow> keyed key (filter P rows)"
  by (auto simp: keyed_def distinct_map_filter)

lemma keyed_delete [keyed_rules]: "keyed key rows \<Longrightarrow> keyed key (AList.delete k rows)"
  by (simp add: AList.delete_eq keyed_filter)

lemma keyed_foldl: "keyed key rows \<Longrightarrow> (\<And>rows x. keyed key rows \<Longrightarrow> keyed key (f rows x)) \<Longrightarrow> keyed key (foldl f rows xs)"
  by (induction xs arbitrary: rows) auto

lemma keyed_lookup: "keyed key rows \<Longrightarrow> map_of rows k = Some v \<longleftrightarrow> (k, v) \<in> set rows"
  by (simp add: keyed_def)

lemma keyed_lookup_key: "keyed key rows \<Longrightarrow> map_of rows k = Some v \<Longrightarrow> key v = k"
  by (force simp: keyed_lookup keyed_def)

lemma keyed_values_distinct: "keyed key rows \<Longrightarrow> distinct (map key (map snd rows))"
proof -
  assume k: "keyed key rows"
  then have "map key (map snd rows) = map fst rows" by (auto simp: keyed_def)
  then show ?thesis using k unfolding keyed_def by (simp only: comp_def)
qed

section \<open>Well-typed stores\<close>

definition block_key :: "db_block \<Rightarrow> u64 \<times> u64" where
  "block_key b = (bChainID b, bNumber b)"

definition report_key :: "BatchReport \<Rightarrow> u64 \<times> u64" where
  "report_key r = (brChainID r, brBlockNumber r)"

definition sample_key :: "StateSample \<Rightarrow> u64 \<times> gotime" where
  "sample_key s = (ssChainID s, ssSampledAt s)"

definition set_key :: "ConstraintSet \<Rightarrow> u64 \<times> u64 \<times> string" where
  "set_key cs = (csChainID cs, csEffectiveBlock cs, csSource cs)"

definition store_ok :: "MemStore \<Rightarrow> bool" where
  "store_ok m \<longleftrightarrow>
     keyed nChainID (NetworkRows m) \<and> keyed block_key (BlockRows m) \<and> keyed bucket_key (BucketRows m)
     \<and> keyed action_key (ActionRows m) \<and> keyed report_key (ReportRows m)
     \<and> distinct (map fst (StateRows m)) \<and> distinct (map fst (MissingRows m))
     \<and> (\<forall>r\<in>set (MissingRows m). snd r \<noteq> [] \<and> (\<forall>x\<in>set (snd r). rChainID x = fst r))
     \<and> distinct (map sample_key (SampleRows m))"

lemma mem_fail_Inr [simp]: "mem_fail method m v = Inr w \<longleftrightarrow> method \<notin> set (FailOn m) \<and> v = w"
  by (simp add: mem_fail_def)

lemma mem_New_ok: "store_ok mem_New"
  by (simp add: store_ok_def mem_New_def keyed_rules)

lemma MergeBuckets_key: "bucket_key (MergeBuckets old b) = bucket_key old"
  by (simp add: MergeBuckets_def bucket_key_def split: prod.split)

lemma keyed_fold_bucket: "keyed bucket_key rows \<Longrightarrow> keyed bucket_key (fold_bucket rows b)"
  using keyed_lookup_key [of bucket_key rows "bucket_key b"]
  by (auto simp: fold_bucket_def MergeBuckets_key intro!: keyed_update split: option.split)

lemma Add_bucket_key: "bucket_key (Add a b s) = bucket_key a"
  by (simp add: Add_def bucket_key_def)

lemma builder_key: "bucket_key (builder_Bucket a) = bucket_key a"
  by (simp add: builder_Bucket_def Let_def bucket_key_def)

lemma fold_Add_key: "bucket_key (foldl (\<lambda>a b. Add a b (f b)) a0 bs) = bucket_key a0"
  by (induction bs arbitrary: a0) (simp_all add: Add_bucket_key)

lemma New_key: "bucket_key (NewBucketBuilder c res start) = bucketKey c res start"
  by (simp add: NewBucketBuilder_def bucket_key_def)

lemma keyed_rebuild: "keyed bucket_key (BucketRows m) \<Longrightarrow> keyed bucket_key (BucketRows (rebuild_one c res start m))"
  by (simp add: rebuild_one_def Let_def keyed_delete keyed_update builder_key fold_Add_key New_key)

lemma insert_action_keyed:
  assumes "keyed action_key (snd acc)"
  shows "keyed action_key (snd (insert_action acc a))"
proof (cases "map_of (snd acc) (action_key a)")
  case None
  then show ?thesis using assms by (simp add: insert_action_def keyed_update)
next
  case (Some old)
  then have "action_key old = action_key a" by (rule keyed_lookup_key [OF assms])
  then have "action_key (old\<lparr>doTxIndex := v\<rparr>) = action_key a" for v by (simp add: action_key_def)
  then show ?thesis using Some assms by (simp add: insert_action_def keyed_update)
qed

lemma foldl_insert_action: "keyed action_key (snd acc) \<Longrightarrow> keyed action_key (snd (foldl insert_action acc as))"
  by (induction as arbitrary: acc) (simp_all add: insert_action_keyed)

lemma put_sample_keys: "sample_key ` set (put_sample s rows) = insert (sample_key s) (sample_key ` set rows)"
  by (induction rows) (auto simp: sample_key_def)

lemma put_sample_distinct: "distinct (map sample_key rows) \<Longrightarrow> distinct (map sample_key (put_sample s rows))"
proof (induction rows)
  case (Cons old rows)
  then show ?case using put_sample_keys [of s rows] by (auto simp: sample_key_def)
qed simp

text \<open>Every method that writes; a method that fails leaves the store as it was.\<close>

inductive store_write :: "MemStore \<Rightarrow> MemStore \<Rightarrow> bool" where
  w_network: "UpsertNetwork n m = Inr m' \<Longrightarrow> store_write m m'"
| w_head: "UpdateNetworkHead c b t1 t2 m = Inr m' \<Longrightarrow> store_write m m'"
| w_set_head: "SetNetworkHead c b' t1' t2' m = Inr m' \<Longrightarrow> store_write m m'"
| w_error: "SetNetworkError c msg m = Inr m' \<Longrightarrow> store_write m m'"
| w_blocks: "UpsertBlocks bs m = Inr m' \<Longrightarrow> store_write m m'"
| w_delete_blocks: "DeleteBlocksAfter c b m = Inr (removed, m') \<Longrightarrow> store_write m m'"
| w_poster: "SetPosterGas c gas m = (e, m') \<Longrightarrow> store_write m m'"
| w_prune_blocks: "PruneBlocks c t m = Inr (n', m') \<Longrightarrow> store_write m m'"
| w_fold: "FoldBuckets ks m = Inr m' \<Longrightarrow> store_write m m'"
| w_rebuild: "RebuildBuckets c res starts m = Inr m' \<Longrightarrow> store_write m m'"
| w_discard: "DiscardBucketsBelowFrontier c res starts m = Inr m' \<Longrightarrow> store_write m m'"
| w_delete_buckets: "DeleteBucketsBefore c t m = Inr (n', m') \<Longrightarrow> store_write m m'"
| w_sample: "InsertStateSample smp m = Inr m' \<Longrightarrow> store_write m m'"
| w_prune_samples: "PruneStateSamples c t m = Inr (n', m') \<Longrightarrow> store_write m m'"
| w_delete_samples: "DeleteStateSamplesAfter c b m = Inr (n', m') \<Longrightarrow> store_write m m'"
| w_ranges: "mem_ReplaceMissingRanges c ranges m = Inr m' \<Longrightarrow> store_write m m'"
| w_actions: "InsertOwnerActions as m = Inr (n', m') \<Longrightarrow> store_write m m'"
| w_rewind: "RewindAfter c b m = Inr m' \<Longrightarrow> store_write m m'"
| w_insert_set: "InsertConstraintSet cs m = Inr (i, m') \<Longrightarrow> store_write m m'"
| w_update_set: "UpdateConstraintSet cs m = Inr m' \<Longrightarrow> store_write m m'"
| w_reports: "UpsertBatchReports rs m = Inr m' \<Longrightarrow> store_write m m'"
| w_state: "SetState c k v m = Inr m' \<Longrightarrow> store_write m m'"
| w_delete_state: "DeleteState c k m = Inr m' \<Longrightarrow> store_write m m'"
| w_notify: "Notify ch p m = Inr m' \<Longrightarrow> store_write m m'"
| w_failure: "store_write m (SetFailure method flag m)"

inductive store_reachable :: "MemStore \<Rightarrow> bool" where
  store_empty: "store_reachable mem_New"
| store_writes: "store_reachable m \<Longrightarrow> store_write m m' \<Longrightarrow> store_reachable m'"

lemma set_poster_keyed: "keyed block_key (BlockRows m) \<Longrightarrow> keyed block_key (BlockRows (set_poster c n g m))"
  using keyed_lookup_key [of block_key "BlockRows m" "(c, n)"]
  by (auto simp: set_poster_def block_key_def intro!: keyed_update split: option.split)

lemma set_poster_frame: "\<exists>rows. set_poster c n g m = m\<lparr>BlockRows := rows\<rparr>"
  by (auto simp: set_poster_def intro: exI [of _ "BlockRows m"] split: option.split)

lemma set_posters_rows:
  "keyed block_key (BlockRows m) \<Longrightarrow>
     \<exists>rows. snd (set_posters c gas m) = m\<lparr>BlockRows := rows\<rparr> \<and> keyed block_key rows"
proof (induction gas arbitrary: m)
  case Nil
  then show ?case by (auto intro: exI [of _ "BlockRows m"])
next
  case (Cons x gas)
  obtain n g where x: "x = (n, g)" by fastforce
  obtain rows where r: "set_poster c n g m = m\<lparr>BlockRows := rows\<rparr>" using set_poster_frame by blast
  moreover have "keyed block_key rows" using set_poster_keyed [OF Cons.prems, of c n g] r by simp
  ultimately obtain rows' where "snd (set_posters c gas (m\<lparr>BlockRows := rows\<rparr>)) = m\<lparr>BlockRows := rows'\<rparr>" "keyed block_key rows'"
    using Cons.IH [of "m\<lparr>BlockRows := rows\<rparr>"] by auto
  then show ?case using Cons.prems r x by (auto intro: exI [of _ "BlockRows m"])
qed

lemma rebuild_one_frame: "\<exists>rows. rebuild_one c res start m = m\<lparr>BucketRows := rows\<rparr>"
  by (auto simp: rebuild_one_def Let_def)

lemma rebuild_all_keyed:
  assumes "keyed bucket_key (BucketRows m)"
  shows "\<exists>rows. foldl (\<lambda>m start. if skip m start then m else rebuild_one c res start m) m starts = m\<lparr>BucketRows := rows\<rparr>
    \<and> keyed bucket_key rows"
  using assms
proof (induction starts arbitrary: m)
  case Nil
  then show ?case by (auto intro: exI [of _ "BucketRows m"])
next
  case (Cons s starts)
  show ?case
  proof (cases "skip m s")
    case False
    obtain rows where r: "rebuild_one c res s m = m\<lparr>BucketRows := rows\<rparr>" using rebuild_one_frame by blast
    moreover have "keyed bucket_key rows" using keyed_rebuild [OF Cons.prems, of c res s] r by simp
    ultimately show ?thesis using False Cons.IH [of "m\<lparr>BucketRows := rows\<rparr>"] by auto
  qed (use Cons in auto)
qed

lemma network_row_key [simp]: "nChainID (network_row c m) = c"
  by (simp add: network_row_def)

lemma UpsertNetwork_keyed:
  assumes "keyed nChainID (NetworkRows m)" "UpsertNetwork n m = Inr m'"
  shows "\<exists>rows. m' = m\<lparr>NetworkRows := rows\<rparr> \<and> keyed nChainID rows"
proof (cases "map_of (NetworkRows m) (nChainID n)")
  case None
  then show ?thesis using assms by (auto simp: UpsertNetwork_def keyed_update)
next
  case (Some old)
  then have "nChainID old = nChainID n" by (rule keyed_lookup_key [OF assms(1)])
  then show ?thesis using Some assms by (auto simp: UpsertNetwork_def keyed_update)
qed

lemma RebuildBuckets_keyed:
  assumes "keyed bucket_key (BucketRows m)" "RebuildBuckets c res starts m = Inr m'"
  obtains rows where "m' = m\<lparr>BucketRows := rows\<rparr>" "keyed bucket_key rows"
proof -
  have "m' = foldl (\<lambda>m start. if below_frontier c m start then m else rebuild_one c res start m) m starts"
    using assms(2) by (auto simp: RebuildBuckets_def bind_err_eq_Inr split: if_splits)
  then show ?thesis using rebuild_all_keyed [OF assms(1), of "below_frontier c" c res starts] that by auto
qed

lemma store_write_ok: "store_write m m' \<Longrightarrow> store_ok m \<Longrightarrow> store_ok m'"
proof (induction rule: store_write.induct)
  case (w_network n m m')
  then show ?case using UpsertNetwork_keyed [of m n m'] by (auto simp: store_ok_def)
next
  case (w_poster c gas m e m')
  then show ?case using set_posters_rows [of m c gas]
    by (cases "mem_fail ''SetPosterGas'' m ()") (auto simp: SetPosterGas_def store_ok_def)
next
  case (w_rebuild c res starts m m')
  obtain rows where "m' = m\<lparr>BucketRows := rows\<rparr>" "keyed bucket_key rows"
    using w_rebuild RebuildBuckets_keyed [of m c res starts m'] by (auto simp: store_ok_def)
  then show ?case using w_rebuild.prems by (simp add: store_ok_def)
next
  case (w_discard c res starts m m')
  then show ?case
    by (auto simp: DiscardBucketsBelowFrontier_def bind_err_eq_Inr store_ok_def intro!: keyed_foldl keyed_delete split: if_splits)
next
  case (w_actions as m n' m')
  then show ?case using foldl_insert_action [of "(0, ActionRows m)" as]
    by (auto simp: InsertOwnerActions_def store_ok_def split: prod.splits)
next
  case (w_ranges c ranges m m')
  let ?rows = "map (\<lambda>r. r\<lparr>rChainID := c\<rparr>) ranges"
  have "set (AList.delete c (MissingRows m)) \<subseteq> set (MissingRows m)" by (auto simp: AList.delete_eq)
  moreover have "\<forall>r\<in>set (AList.update c ?rows (MissingRows m)). snd r \<noteq> [] \<and> (\<forall>x\<in>set (snd r). rChainID x = fst r)"
    if "ranges \<noteq> []"
  proof
    fix r assume "r \<in> set (AList.update c ?rows (MissingRows m))"
    then have "r = (c, ?rows) \<or> r \<in> set (MissingRows m)" using set_update_subset by fast
    then show "snd r \<noteq> [] \<and> (\<forall>x\<in>set (snd r). rChainID x = fst r)"
      using w_ranges.prems that by (auto simp: store_ok_def)
  qed
  moreover have "distinct (map fst (AList.delete c (MissingRows m)))" "distinct (map fst (AList.update c ?rows (MissingRows m)))"
    using w_ranges.prems by (simp_all add: store_ok_def AList.distinct_delete AList.distinct_update)
  moreover have "m' = m\<lparr>MissingRows := AList.delete c (MissingRows m)\<rparr> \<and> ranges = []
      \<or> m' = m\<lparr>MissingRows := AList.update c ?rows (MissingRows m)\<rparr> \<and> ranges \<noteq> []"
    using w_ranges.hyps by (auto simp: mem_ReplaceMissingRanges_def Let_def split: if_splits)
  ultimately show ?case using w_ranges.prems by (elim disjE conjE) (auto simp: store_ok_def)
next
  case (w_insert_set cs m i m')
  then show ?case by (auto simp: InsertConstraintSet_def store_ok_def Let_def split: option.splits prod.splits)
qed (auto simp: UpdateNetworkHead_def SetNetworkHead_def SetNetworkError_def UpsertBlocks_def DeleteBlocksAfter_def
    PruneBlocks_def FoldBuckets_def DeleteBucketsBefore_def InsertStateSample_def PruneStateSamples_def
    DeleteStateSamplesAfter_def drop_samples_def RewindAfter_def UpdateConstraintSet_def UpsertBatchReports_def
    SetState_def DeleteState_def Notify_def SetFailure_def store_ok_def Let_def keyed_rules put_sample_distinct distinct_map_filter
    keyed_fold_bucket block_key_def report_key_def AList.distinct_update AList.distinct_delete
    intro!: keyed_update keyed_foldl)

lemma chain_blocks_keyed:
  assumes "keyed block_key (BlockRows m)"
  shows "distinct (map bNumber (chain_blocks c m))" "b \<in> set (chain_blocks c m) \<longleftrightarrow> ((c, bNumber b), b) \<in> set (BlockRows m)"
proof -
  let ?rows = "filter (\<lambda>r. fst (fst r) = c) (BlockRows m)"
  have k: "\<forall>r\<in>set ?rows. fst r = (c, bNumber (snd r))" using assms by (auto simp: keyed_def block_key_def)
  have "distinct (map fst ?rows)" using assms by (simp add: keyed_def distinct_map_filter)
  moreover have "map fst ?rows = map (Pair c) (map bNumber (chain_blocks c m))"
    using k by (auto simp: chain_blocks_def)
  ultimately show "distinct (map bNumber (chain_blocks c m))" by (metis distinct_map)
  show "b \<in> set (chain_blocks c m) \<longleftrightarrow> ((c, bNumber b), b) \<in> set (BlockRows m)"
    using k by (force simp: chain_blocks_def)
qed

lemma sortedBlocks_strict:
  assumes "keyed block_key (BlockRows m)"
  shows "sorted_wrt (<) (map bNumber (sortedBlocks c m))"
proof -
  have "distinct (map bNumber (sortedBlocks c m))"
    using chain_blocks_keyed(1) [OF assms, of c] by (simp add: sortedBlocks_def distinct_map)
  then show ?thesis by (simp add: sortedBlocks_def strict_sorted_iff)
qed

text \<open>
  C29. Every store the methods can reach is well typed: each row is filed under the key its own fields
  give, no two rows share one, and the ranges of a chain carry its id. So the rows of a chain come
  out in strictly ascending block order, and a block read by number is the row of that chain and
  number and one of them.
\<close>

theorem store_well_typed:
  assumes "store_reachable m"
  shows "store_ok m \<and> sorted_wrt (<) (map bNumber (sortedBlocks c m))
    \<and> (BlockByNumber c n m = Inr (Some b) \<longrightarrow> bChainID b = c \<and> bNumber b = n \<and> b \<in> set (sortedBlocks c m))"
proof -
  have ok: "store_ok m" using assms
    by (induction rule: store_reachable.induct) (auto intro: mem_New_ok store_write_ok)
  then have k: "keyed block_key (BlockRows m)" by (simp add: store_ok_def)
  have "bChainID b = c \<and> bNumber b = n \<and> b \<in> set (sortedBlocks c m)" if "BlockByNumber c n m = Inr (Some b)"
  proof -
    have f: "map_of (BlockRows m) (c, n) = Some b" using that by (simp add: BlockByNumber_def)
    then have "block_key b = (c, n)" by (rule keyed_lookup_key [OF k])
    then show ?thesis using f chain_blocks_keyed(2) [OF k, of b c] keyed_lookup [OF k]
      by (auto simp: sortedBlocks_def block_key_def)
  qed
  then show ?thesis using ok sortedBlocks_strict [OF k] by blast
qed

definition stored_row :: db_block where
  "stored_row = \<lparr>bChainID = 7, bNumber = 5, bHash = ''0xb'', bParentHash = ''0xa'', bTS = 63900000000000000000, bGasUsed = 100,
     bPosterGas = Some 10, bBaseFee = 20, bL1Block = 1, bTxCount = 2, bBacklogs = [3], bConstraintBips = [4],
     bExponentBips = 4, bPredictedBaseFee = None, bMinBaseFee = Some 10, bAnchored = False, bPricingVersion = 1,
     bArbOSVersion = None\<rparr>"

definition one_row_store :: MemStore where
  "one_row_store = mem_New\<lparr>BlockRows := [((7, 5), stored_row)]\<rparr>"

lemma one_row_store_reachable: "store_reachable one_row_store"
proof -
  have "UpsertBlocks [stored_row] mem_New = Inr one_row_store"
    by (simp add: UpsertBlocks_def one_row_store_def mem_fail_def mem_New_def stored_row_def)
  from store_writes [OF store_empty w_blocks [OF this]] show ?thesis .
qed

theorem store_well_typed_witness:
  "store_ok one_row_store \<and> sorted_wrt (<) (map bNumber (sortedBlocks 7 one_row_store))
    \<and> BlockByNumber 7 5 one_row_store = Inr (Some stored_row)
    \<and> bChainID stored_row = 7 \<and> bNumber stored_row = 5 \<and> stored_row \<in> set (sortedBlocks 7 one_row_store)"
proof -
  have "BlockByNumber 7 5 one_row_store = Inr (Some stored_row)"
    by (simp add: BlockByNumber_def one_row_store_def mem_fail_def mem_New_def)
  with store_well_typed [OF one_row_store_reachable, of 7 5 stored_row] show ?thesis by blast
qed

end
