(* ===== verification/Live_Buckets.thy ===== *)
theory Live_Buckets
  imports Store_Laws
begin

text \<open>
  The buckets as a materialized view of the block rows. A window is a resolution and an aligned start;
  its source is what the builder makes of the rows inside it, its view the stored bucket. The
  constraint set a bucket names is left out of both, since sets are recorded after the rows.
\<close>

section \<open>Materialized views\<close>

locale materialized =
  fixes source view :: "'s \<Rightarrow> 'w \<Rightarrow> 'v"
    and rebuild :: "'w \<Rightarrow> 's \<Rightarrow> 's"
    and window :: "'w \<Rightarrow> bool"
  assumes rebuild_view: "window w \<Longrightarrow> window v \<Longrightarrow> view (rebuild w s) v = (if v = w then source s w else view s v)"
    and rebuild_source: "source (rebuild w s) v = source s v"
begin

definition current :: "'w set \<Rightarrow> 's \<Rightarrow> bool" where
  "current V s \<longleftrightarrow> (\<forall>w\<in>V. window w \<longrightarrow> view s w = source s w)"

lemma source_rebuilds: "source (foldl (\<lambda>s w. rebuild w s) s ws) v = source s v"
  by (induction ws arbitrary: s) (simp_all add: rebuild_source)

lemma view_rebuilds:
  assumes "\<forall>w\<in>set ws. window w" "window v"
  shows "view (foldl (\<lambda>s w. rebuild w s) s ws) v = (if v \<in> set ws then source s v else view s v)"
  using assms(1)
proof (induction ws arbitrary: s)
  case (Cons w ws)
  then show ?case using rebuild_view [of w v s] assms(2) by (auto simp: rebuild_source)
qed simp

lemma refresh:
  assumes "current V s" "\<forall>w\<in>V - set ws. source s' w = source s w" "\<forall>w\<in>V - set ws. view s' w = view s w"
    and "\<forall>w\<in>set ws. window w"
  shows "current V (foldl (\<lambda>s w. rebuild w s) s' ws)"
  using assms by (auto simp: current_def view_rebuilds source_rebuilds)

lemma current_same: "current V s \<Longrightarrow> V' \<subseteq> V \<Longrightarrow> \<forall>w\<in>V'. source s' w = source s w \<and> view s' w = view s w \<Longrightarrow> current V' s'"
  by (auto simp: current_def)

end

section \<open>Buckets over the block rows\<close>

type_synonym window = "string \<times> gotime"

definition aligned :: "window \<Rightarrow> bool" where
  "aligned w \<longleftrightarrow> fst w \<in> set ResolutionOrder \<and> snd w mod Resolutions (fst w) = 0"

definition forget_set :: "Bucket \<Rightarrow> Bucket" where
  "forget_set b = b\<lparr>kConstraintSetID := None\<rparr>"

definition bucket_of_rows :: "u64 \<Rightarrow> window \<Rightarrow> db_block list \<Rightarrow> Bucket option" where
  "bucket_of_rows c w rows =
     (let acc = foldl (\<lambda>a b. Add a b None) (NewBucketBuilder c (fst w) (snd w)) rows
      in if kBlocks acc = 0 then None else Some (forget_set (builder_Bucket acc)))"

definition rows_in :: "u64 \<Rightarrow> window \<Rightarrow> MemStore \<Rightarrow> db_block list" where
  "rows_in c w m = window_rows c (snd w) (Resolutions (fst w)) m"

definition live_source :: "u64 \<Rightarrow> MemStore \<Rightarrow> window \<Rightarrow> Bucket option" where
  "live_source c m w = bucket_of_rows c w (rows_in c w m)"

definition live_view :: "u64 \<Rightarrow> MemStore \<Rightarrow> window \<Rightarrow> Bucket option" where
  "live_view c m w = map_option forget_set (map_of (BucketRows m) (bucketKey c (fst w) (snd w)))"

definition rebuild_window :: "u64 \<Rightarrow> window \<Rightarrow> MemStore \<Rightarrow> MemStore" where
  "rebuild_window c w m = rebuild_one c (fst w) (snd w) m"

lemma forget_stages:
  "add_pricing b (forget_set a) = forget_set (add_pricing b a)"
  "add_min b (forget_set a) = forget_set (add_min b a)"
  "add_max b (forget_set a) = forget_set (add_max b a)"
  "add_totals b (forget_set a) = forget_set (add_totals b a)"
  "add_poster b (forget_set a) = forget_set (add_poster b a)"
  "add_destinations b (forget_set a) = forget_set (add_destinations b a)"
  "add_backlogs b (forget_set a) = forget_set (add_backlogs b a)"
  "add_error b (forget_set a) = forget_set (add_error b a)"
  "forget_set (add_ends b s (forget_set a)) = forget_set (add_ends b s' a)"
  "builder_Bucket (forget_set a) = forget_set (builder_Bucket a)"
  "kBlocks (forget_set a) = kBlocks a"
  by (simp_all add: forget_set_def add_pricing_def add_min_def add_max_def add_totals_def add_poster_def
      add_destinations_def add_backlogs_def add_error_def add_ends_def builder_Bucket_def Let_def)

lemma forget_arbos: "add_arbos b (forget_set a) = forget_set (add_arbos b a)"
  by (simp add: forget_set_def add_arbos_def extendArbOSRange_def split: option.split prod.split)

lemma forget_Add: "forget_set (Add a b s) = forget_set (Add (forget_set a) b s')"
proof -
  let ?x = "add_destinations b (add_poster b (add_totals b (add_max b (add_min b (add_pricing b a)))))"
  have "forget_set (Add a b s) = add_arbos b (add_error b (add_backlogs b (forget_set (add_ends b s ?x))))"
    by (simp add: Add_def forget_stages(1-8) forget_arbos)
  also have "forget_set (add_ends b s ?x) = forget_set (add_ends b s' (forget_set ?x))"
    by (rule forget_stages(9) [symmetric])
  finally show ?thesis by (simp add: Add_def forget_stages(1-8) forget_arbos)
qed

lemma forget_fold:
  "forget_set a = forget_set a' \<Longrightarrow>
     forget_set (foldl (\<lambda>a b. Add a b (f b)) a rows) = forget_set (foldl (\<lambda>a b. Add a b (g b)) a' rows)"
proof (induction rows arbitrary: a a')
  case (Cons r rows)
  have "forget_set (Add a r (f r)) = forget_set (Add a' r (g r))"
    using Cons.prems forget_Add [of a r "f r" None] forget_Add [of a' r "g r" None] by simp
  from Cons.IH [OF this] show ?case by simp
qed simp

lemma fold_kBlocks: "kBlocks (foldl (\<lambda>a b. Add a b (f b)) a rows) = kBlocks (foldl (\<lambda>a b. Add a b (g b)) a rows)"
  using forget_fold [of a a f rows g] forget_stages(11) by metis

section \<open>Rebuilding a window\<close>

lemma Second_dvd_window: "aligned w \<Longrightarrow> Second dvd snd w"
proof -
  assume a: "aligned w"
  then have "Second dvd Resolutions (fst w)"
    by (auto simp: aligned_def ResolutionOrder_def Resolutions_def)
  moreover have "Resolutions (fst w) dvd snd w" using a by (simp add: aligned_def mod_eq_0_iff_dvd)
  ultimately show ?thesis by (rule dvd_trans)
qed

lemma bucketKey_inject:
  assumes "aligned v" "aligned w"
  shows "bucketKey c (fst v) (snd v) = bucketKey c (fst w) (snd w) \<longleftrightarrow> v = w"
proof -
  obtain k l where "snd v = Second * k" "snd w = Second * l" using assms [THEN Second_dvd_window] by (auto elim!: dvdE)
  moreover have "Second \<noteq> 0" by (simp add: Second_def)
  ultimately have "Unix (snd v) = Unix (snd w) \<longleftrightarrow> snd v = snd w" by (simp add: Unix_def)
  then show ?thesis by (auto simp: bucketKey_def prod_eq_iff)
qed

lemma rebuilt_bucket:
  "map_option forget_set (if kBlocks acc = 0 then None else Some (builder_Bucket acc)) = live_source c m w"
  if "acc = foldl (\<lambda>a b. Add a b (ids b)) (NewBucketBuilder c (fst w) (snd w)) (rows_in c w m)"
proof -
  let ?plain = "foldl (\<lambda>a b. Add a b None) (NewBucketBuilder c (fst w) (snd w)) (rows_in c w m)"
  have "forget_set acc = forget_set ?plain" unfolding that by (rule forget_fold) simp
  then have "kBlocks acc = kBlocks ?plain" "forget_set (builder_Bucket acc) = forget_set (builder_Bucket ?plain)"
    by (metis forget_stages(11), metis forget_stages(10))
  then show ?thesis by (simp add: live_source_def bucket_of_rows_def Let_def)
qed

lemma rebuild_window_view:
  assumes "aligned w" "aligned v"
  shows "live_view c (rebuild_window c w m) v = (if v = w then live_source c m w else live_view c m v)"
proof -
  let ?acc = "foldl (\<lambda>a b. Add a b (setIDAtLocked c (bNumber b) (length (bBacklogs b)) m))
      (NewBucketBuilder c (fst w) (snd w)) (rows_in c w m)"
  have "map_of (BucketRows (rebuild_window c w m)) k
      = (if k = bucketKey c (fst w) (snd w) then (if kBlocks ?acc = 0 then None else Some (builder_Bucket ?acc))
         else map_of (BucketRows m) k)" for k
    by (simp add: rebuild_window_def rebuild_one_def rows_in_def Let_def AList.update_conv' AList.delete_conv')
  then show ?thesis
    using rebuilt_bucket [OF refl, of "\<lambda>b. setIDAtLocked c (bNumber b) (length (bBacklogs b)) m" c w m]
      bucketKey_inject [OF assms(2,1), of c]
    by (simp add: live_view_def)
qed

lemma rows_in_BucketRows [simp]: "rows_in c w (m\<lparr>BucketRows := ks\<rparr>) = rows_in c w m"
  by (simp add: rows_in_def window_rows_def sortedBlocks_def chain_blocks_def)

lemma rebuild_window_source: "live_source c (rebuild_window c w m) v = live_source c m v"
  using rebuild_one_frame [of c "fst w" "snd w" m] by (auto simp: rebuild_window_def live_source_def)

interpretation live: materialized "live_source c" "live_view c" "rebuild_window c" aligned for c
  by unfold_locales (simp_all add: rebuild_window_view rebuild_window_source)

section \<open>The windows a write touches\<close>

definition window_of :: "string \<Rightarrow> db_block \<Rightarrow> window" where
  "window_of res b = (res, Truncate (bTS b) (Resolutions res))"

definition windows_of :: "db_block list \<Rightarrow> window list" where
  "windows_of rows = concat (map (\<lambda>res. map (Pair res) (BucketStarts rows res)) ResolutionOrder)"

lemma resolution_width: "res \<in> set ResolutionOrder \<Longrightarrow> 0 < Resolutions res" "res \<in> set ResolutionOrder \<Longrightarrow> Second dvd Resolutions res"
  by (auto simp: ResolutionOrder_def Resolutions_def Second_def)

lemma bucket_starts_complete:
  assumes "0 < w" "Second dvd w"
  shows "set (bucket_starts w seen rows) \<subseteq> (\<lambda>b. Truncate (bTS b) w) ` set rows"
    "b \<in> set rows \<Longrightarrow> Unix (Truncate (bTS b) w) \<in> set seen \<or> Truncate (bTS b) w \<in> set (bucket_starts w seen rows)"
proof -
  show "set (bucket_starts w seen rows) \<subseteq> (\<lambda>b. Truncate (bTS b) w) ` set rows"
    by (induction rows arbitrary: seen) (auto simp: Let_def split: if_splits)
  show "b \<in> set rows \<Longrightarrow> Unix (Truncate (bTS b) w) \<in> set seen \<or> Truncate (bTS b) w \<in> set (bucket_starts w seen rows)"
  proof (induction rows arbitrary: seen)
    case (Cons r rows)
    show ?case
    proof (cases "b = r")
      case False
      then have "b \<in> set rows" using Cons.prems by simp
      from Cons.IH [OF this, of seen] Cons.IH [OF this, of "Unix (Truncate (bTS r) w) # seen"] show ?thesis
        using Unix_Truncate_inj [OF assms, of "bTS b" "bTS r"] by (auto simp: Let_def)
    qed (auto simp: Let_def)
  qed simp
qed

lemma set_BucketStarts:
  assumes "res \<in> set ResolutionOrder"
  shows "set (BucketStarts rows res) = (\<lambda>b. Truncate (bTS b) (Resolutions res)) ` set rows"
  using bucket_starts_complete(1) [OF resolution_width [OF assms], of "[]" rows]
    bucket_starts_complete(2) [OF resolution_width [OF assms], of _ rows "[]"] by (auto simp: BucketStarts_def)

lemma set_windows_of: "w \<in> set (windows_of rows) \<longleftrightarrow> (\<exists>b\<in>set rows. fst w \<in> set ResolutionOrder \<and> w = window_of (fst w) b)"
  by (cases w) (auto simp: windows_of_def window_of_def set_BucketStarts)

lemma windows_of_aligned: "\<forall>w\<in>set (windows_of rows). aligned w"
  by (auto simp: set_windows_of aligned_def window_of_def Truncate_def resolution_width)
    (metis dvd_imp_mod_0 dvd_minus_mod prod.sel(1) resolution_width(1) snd_conv window_of_def Truncate_def not_le)

lemma in_window:
  assumes "aligned w"
  shows "snd w \<le> bTS b \<and> bTS b < snd w + Resolutions (fst w) \<longleftrightarrow> w = window_of (fst w) b"
proof -
  let ?d = "Resolutions (fst w)"
  have d: "0 < ?d" using assms by (simp add: aligned_def resolution_width)
  have "snd w mod ?d = 0" using assms by (simp add: aligned_def)
  then have "snd w \<le> bTS b \<and> bTS b < snd w + ?d \<longleftrightarrow> snd w = Truncate (bTS b) ?d"
  proof (intro iffI)
    assume m: "snd w mod ?d = 0" and h: "snd w \<le> bTS b \<and> bTS b < snd w + ?d"
    obtain k where k: "snd w = ?d * k" using m by (auto simp: mod_eq_0_iff_dvd)
    then have "bTS b = ?d * k + (bTS b - snd w)" "0 \<le> bTS b - snd w" "bTS b - snd w < ?d" using h by auto
    then have "bTS b mod ?d = bTS b - snd w" by (metis mod_mult_self4 mod_pos_pos_trivial)
    then show "snd w = Truncate (bTS b) ?d" using d by (simp add: Truncate_def)
  next
    assume "snd w = Truncate (bTS b) ?d"
    then show "snd w \<le> bTS b \<and> bTS b < snd w + ?d" using Truncate_bounds [OF d] by simp
  qed
  then show ?thesis by (auto simp: window_of_def prod_eq_iff)
qed

lemma rows_in_eq:
  assumes "aligned w"
  shows "rows_in c w m = sort_key bNumber (filter (\<lambda>b. w = window_of (fst w) b) (chain_blocks c m))"
  by (simp add: rows_in_def window_rows_def sortedBlocks_def filter_sort in_window [OF assms])

lemma filter_update:
  assumes "distinct (map fst rows)" "\<not> (Q k \<and> P v)" "\<And>old. map_of rows k = Some old \<Longrightarrow> \<not> (Q k \<and> P old)"
  shows "filter P (map snd (filter (\<lambda>r. Q (fst r)) (AList.update k v rows))) = filter P (map snd (filter (\<lambda>r. Q (fst r)) rows))"
  using assms
proof (induction rows)
  case (Cons r rows)
  obtain k' v' where r: "r = (k', v')" by fastforce
  show ?case
  proof (cases "k' = k")
    case True
    then show ?thesis using Cons.prems r by auto
  next
    case False
    then show ?thesis using Cons r by auto
  qed
qed auto

lemma rows_in_upsert:
  assumes "keyed block_key (BlockRows m)" "aligned w" "distinct (map bNumber bs)" "\<forall>b\<in>set bs. bChainID b = c"
    and "\<forall>b\<in>set bs. \<forall>old. map_of (BlockRows m) (c, bNumber b) = Some old \<longrightarrow> bTS old = bTS b"
    and "\<forall>b\<in>set bs. w \<noteq> window_of (fst w) b"
  shows "rows_in c w (m\<lparr>BlockRows := foldl (\<lambda>rows b. AList.update (bChainID b, bNumber b) b rows) (BlockRows m) bs\<rparr>) = rows_in c w m"
  using assms
proof (induction bs arbitrary: m)
  case (Cons b bs)
  let ?m = "m\<lparr>BlockRows := AList.update (c, bNumber b) b (BlockRows m)\<rparr>"
  let ?P = "\<lambda>b. w = window_of (fst w) b"
  have b: "bChainID b = c" "\<not> ?P b" using Cons.prems by auto
  have "keyed block_key (AList.update (c, bNumber b) b (BlockRows m))"
    by (rule keyed_update [OF Cons.prems(1)]) (simp add: block_key_def b)
  then have "keyed block_key (BlockRows ?m)" by simp
  moreover have "\<forall>x\<in>set bs. \<forall>old. map_of (BlockRows ?m) (c, bNumber x) = Some old \<longrightarrow> bTS old = bTS x"
  proof (intro ballI allI impI)
    fix x old assume x: "x \<in> set bs" "map_of (BlockRows ?m) (c, bNumber x) = Some old"
    then have "bNumber x \<noteq> bNumber b" using Cons.prems(3) by (auto simp: image_iff)
    then show "bTS old = bTS x" using x Cons.prems(5) by (simp add: AList.update_conv')
  qed
  ultimately have "rows_in c w (?m\<lparr>BlockRows := foldl (\<lambda>rows b. AList.update (bChainID b, bNumber b) b rows) (BlockRows ?m) bs\<rparr>)
      = rows_in c w ?m"
    using Cons.prems by (intro Cons.IH) auto
  moreover have "\<not> ?P old" if "map_of (BlockRows m) (c, bNumber b) = Some old" for old
    using that Cons.prems(5) b(2) by (auto simp: window_of_def)
  then have "filter ?P (chain_blocks c ?m) = filter ?P (chain_blocks c m)"
    unfolding chain_blocks_def using Cons.prems(1) b(2)
    by (simp add: keyed_def) (rule filter_update [where Q = "\<lambda>k. fst k = c"], auto)
  then have "rows_in c w ?m = rows_in c w m" by (simp add: rows_in_eq [OF Cons.prems(2)])
  ultimately show ?case using b(1) by simp
qed simp

section \<open>Rebuilding the windows of rows\<close>

text \<open>The loop over the resolutions that every writer of rows runs, from the finest to the widest.\<close>

fun rebuild_each :: "u64 \<Rightarrow> db_block list \<Rightarrow> string list \<Rightarrow> MemStore \<Rightarrow> store_error + MemStore" where
  "rebuild_each c rows [] m = Inr m"
| "rebuild_each c rows (res # rs) m =
     bind_err (RebuildBuckets c res (BucketStarts rows res) m) (rebuild_each c rows rs)"

definition rebuild_rows :: "u64 \<Rightarrow> db_block list \<Rightarrow> MemStore \<Rightarrow> store_error + MemStore" where
  "rebuild_rows c rows m = rebuild_each c rows ResolutionOrder m"

lemma rebuild_windows_frame: "\<exists>ks. foldl (\<lambda>m w. rebuild_window c w m) m ws = m\<lparr>BucketRows := ks\<rparr>"
proof (induction ws arbitrary: m)
  case Nil
  then show ?case by (auto intro: exI [of _ "BucketRows m"])
next
  case (Cons w ws)
  obtain ks where "rebuild_window c w m = m\<lparr>BucketRows := ks\<rparr>"
    using rebuild_one_frame [of c "fst w" "snd w" m] by (auto simp: rebuild_window_def)
  then show ?case using Cons.IH [of "m\<lparr>BucketRows := ks\<rparr>"] by auto
qed

lemma below_frontier_BucketRows [simp]: "below_frontier c (m\<lparr>BucketRows := ks\<rparr>) = below_frontier c m"
  by (auto simp: below_frontier_def pruneFrontierLocked_def)

lemma below_frontier_rebuild [simp]: "below_frontier c (rebuild_window c w m) = below_frontier c m"
  using rebuild_one_frame [of c "fst w" "snd w" m] by (auto simp: rebuild_window_def)

lemma below_frontier_rebuilds [simp]: "below_frontier c (foldl (\<lambda>m w. rebuild_window c w m) m ws) = below_frontier c m"
  by (induction ws arbitrary: m) simp_all

lemma RebuildBuckets_windows:
  assumes "RebuildBuckets c res starts m = Inr m'"
  shows "m' = foldl (\<lambda>m w. rebuild_window c w m) m (filter (\<lambda>w. \<not> below_frontier c m (snd w)) (map (Pair res) starts))"
proof -
  have "foldl (\<lambda>m start. if below_frontier c m start then m else rebuild_one c res start m) m starts
      = foldl (\<lambda>m w. rebuild_window c w m) m (filter (\<lambda>w. \<not> below_frontier c m (snd w)) (map (Pair res) starts))" for m
  proof (induction starts arbitrary: m)
    case (Cons s starts)
    have "rebuild_one c res s m = rebuild_window c (res, s) m" by (simp add: rebuild_window_def)
    then show ?case using Cons.IH [of m] Cons.IH [of "rebuild_window c (res, s) m"] by simp
  qed simp
  then show ?thesis using assms by (auto simp: RebuildBuckets_def bind_err_eq_Inr split: if_splits)
qed

lemma rebuild_each_windows:
  assumes "rebuild_each c rows rs m = Inr m'"
  shows "m' = foldl (\<lambda>m w. rebuild_window c w m) m
    (filter (\<lambda>w. \<not> below_frontier c m (snd w)) (concat (map (\<lambda>res. map (Pair res) (BucketStarts rows res)) rs)))"
  using assms
proof (induction rs arbitrary: m)
  case (Cons res rs)
  then obtain m1 where m1: "RebuildBuckets c res (BucketStarts rows res) m = Inr m1" "rebuild_each c rows rs m1 = Inr m'"
    by (auto simp: bind_err_eq_Inr)
  then show ?case using Cons.IH [OF m1(2)] RebuildBuckets_windows [OF m1(1)] by simp
qed simp

lemma rebuild_rows_windows:
  "rebuild_rows c rows m = Inr m' \<Longrightarrow>
     m' = foldl (\<lambda>m w. rebuild_window c w m) m (filter (\<lambda>w. \<not> below_frontier c m (snd w)) (windows_of rows))"
  by (simp add: rebuild_rows_def windows_of_def rebuild_each_windows)

text \<open>
  The buckets from \<open>lo\<close> on whose window still has all its rows agree with those rows.
\<close>

definition live_current :: "u64 \<Rightarrow> gotime \<Rightarrow> MemStore \<Rightarrow> bool" where
  "live_current c lo m \<longleftrightarrow>
     (\<forall>w. aligned w \<and> lo \<le> snd w \<and> \<not> below_frontier c m (snd w) \<longrightarrow> live_view c m w = live_source c m w)"

definition live_windows :: "u64 \<Rightarrow> gotime \<Rightarrow> MemStore \<Rightarrow> window set" where
  "live_windows c lo m = {w. aligned w \<and> lo \<le> snd w \<and> \<not> below_frontier c m (snd w)}"

lemma live_current_iff: "live_current c lo m \<longleftrightarrow> live.current c (live_windows c lo m) m"
  by (auto simp: live_current_def live.current_def live_windows_def)

lemma live_refresh:
  assumes "live_current c lo m" "rebuild_rows c rows s = Inr m'" "below_frontier c s = below_frontier c m"
    and "\<And>w. aligned w \<Longrightarrow> lo \<le> snd w \<Longrightarrow> w \<notin> set (windows_of rows)
      \<Longrightarrow> live_source c s w = live_source c m w \<and> live_view c s w = live_view c m w"
  shows "live_current c lo m'"
proof -
  let ?ws = "filter (\<lambda>w. \<not> below_frontier c s (snd w)) (windows_of rows)"
  have m': "m' = foldl (\<lambda>m w. rebuild_window c w m) s ?ws" by (rule rebuild_rows_windows [OF assms(2)])
  have "live.current c (live_windows c lo m) m'" unfolding m'
  proof (rule live.refresh)
    show "live.current c (live_windows c lo m) m" using assms(1) by (simp add: live_current_iff)
    show "\<forall>w\<in>set ?ws. aligned w" using windows_of_aligned by auto
    show "\<forall>w\<in>live_windows c lo m - set ?ws. live_source c s w = live_source c m w"
      using assms(3,4) by (auto simp: live_windows_def)
    show "\<forall>w\<in>live_windows c lo m - set ?ws. live_view c s w = live_view c m w"
      using assms(3,4) by (auto simp: live_windows_def)
  qed
  moreover have "live_windows c lo m' = live_windows c lo m" using assms(3) by (simp add: live_windows_def m')
  ultimately show ?thesis by (simp add: live_current_iff)
qed

lemma live_view_cong: "BucketRows s = BucketRows m \<Longrightarrow> live_view c s w = live_view c m w"
  by (simp add: live_view_def)

lemma live_source_cong: "rows_in c w s = rows_in c w m \<Longrightarrow> live_source c s w = live_source c m w"
  by (simp add: live_source_def)

lemma below_frontier_cong: "StateRows s = StateRows m \<Longrightarrow> below_frontier c s = below_frontier c m"
  by (simp add: below_frontier_def pruneFrontierLocked_def fun_eq_iff)

lemma live_current_cong:
  "BlockRows s = BlockRows m \<Longrightarrow> BucketRows s = BucketRows m \<Longrightarrow> below_frontier c s = below_frontier c m
     \<Longrightarrow> live_current c lo m \<Longrightarrow> live_current c lo s"
  by (simp add: live_current_def live_view_def live_source_def rows_in_def window_rows_def sortedBlocks_def chain_blocks_def)

text \<open>Rows that may be stored: of the chain, one per number, and at the time of the row they replace.\<close>

definition storable :: "u64 \<Rightarrow> MemStore \<Rightarrow> db_block list \<Rightarrow> bool" where
  "storable c m bs \<longleftrightarrow> distinct (map bNumber bs) \<and> (\<forall>b\<in>set bs. bChainID b = c)
     \<and> (\<forall>b\<in>set bs. \<forall>old. map_of (BlockRows m) (c, bNumber b) = Some old \<longrightarrow> bTS old = bTS b)"

lemma upsert_rebuild_current:
  assumes "live_current c lo m" "keyed block_key (BlockRows m)" "storable c m bs"
    and "UpsertBlocks bs m = Inr s" "rebuild_rows c rows s = Inr m'"
    and "\<And>w. aligned w \<Longrightarrow> lo \<le> snd w \<Longrightarrow> w \<in> set (windows_of bs) \<Longrightarrow> w \<in> set (windows_of rows)"
  shows "live_current c lo m'"
proof (rule live_refresh [OF assms(1,5)])
  have s: "s = m\<lparr>BlockRows := foldl (\<lambda>rows b. AList.update (bChainID b, bNumber b) b rows) (BlockRows m) bs\<rparr>"
    using assms(4) by (simp add: UpsertBlocks_def)
  show "below_frontier c s = below_frontier c m" by (rule below_frontier_cong) (simp add: s)
  show "live_source c s w = live_source c m w \<and> live_view c s w = live_view c m w"
    if "aligned w" "lo \<le> snd w" "w \<notin> set (windows_of rows)" for w
  proof
    have "\<forall>b\<in>set bs. w \<noteq> window_of (fst w) b"
      using that assms(6) by (metis aligned_def set_windows_of)
    then show "live_source c s w = live_source c m w" unfolding s using assms(2,3) that(1)
      by (intro live_source_cong rows_in_upsert) (auto simp: storable_def)
    show "live_view c s w = live_view c m w" by (rule live_view_cong) (simp add: s)
  qed
qed

lemma rows_in_delete:
  assumes "aligned w" "keyed block_key (BlockRows m)"
    and "\<forall>r\<in>set (BlockRows m). gone r \<longrightarrow> fst (fst r) = c \<longrightarrow> w \<noteq> window_of (fst w) (snd r)"
  shows "rows_in c w (m\<lparr>BlockRows := filter (\<lambda>r. \<not> gone r) (BlockRows m)\<rparr>) = rows_in c w m"
proof -
  have "filter (\<lambda>b. w = window_of (fst w) b) (chain_blocks c (m\<lparr>BlockRows := filter (\<lambda>r. \<not> gone r) (BlockRows m)\<rparr>))
      = filter (\<lambda>b. w = window_of (fst w) b) (chain_blocks c m)"
    using assms(3) by (auto simp: chain_blocks_def filter_map comp_def conj_commute intro!: arg_cong [of _ _ "map snd"] filter_cong)
  then show ?thesis by (simp add: rows_in_eq [OF assms(1)])
qed

lemma delete_rebuild_current:
  assumes "live_current c lo m" "keyed block_key (BlockRows m)"
    and "DeleteBlocksAfter c a m = Inr (removed, s)" "rebuild_rows c removed s = Inr m'"
  shows "live_current c lo m'"
proof (rule live_refresh [OF assms(1,4)])
  let ?gone = "\<lambda>r. fst (fst r) = c \<and> a < bNumber (snd r)"
  have s: "s = m\<lparr>BlockRows := filter (\<lambda>r. \<not> ?gone r) (BlockRows m)\<rparr>"
    and removed: "removed = filter (\<lambda>b. a < bNumber b) (sortedBlocks c m)"
    using assms(3) by (auto simp: DeleteBlocksAfter_def)
  show "below_frontier c s = below_frontier c m" by (rule below_frontier_cong) (simp add: s)
  show "live_source c s w = live_source c m w \<and> live_view c s w = live_view c m w"
    if "aligned w" "lo \<le> snd w" "w \<notin> set (windows_of removed)" for w
  proof
    have "\<forall>r\<in>set (BlockRows m). ?gone r \<longrightarrow> fst (fst r) = c \<longrightarrow> w \<noteq> window_of (fst w) (snd r)"
      using that by (force simp: set_windows_of aligned_def removed sortedBlocks_def chain_blocks_def)
    then show "live_source c s w = live_source c m w" unfolding s
      by (intro live_source_cong rows_in_delete that(1) assms(2))
    show "live_view c s w = live_view c m w" by (rule live_view_cong) (simp add: s)
  qed
qed

end
