(* ===== verification/Chain_State.thy ===== *)
theory Chain_State
  imports Fill Live_Buckets
begin

text \<open>
  What a follower keeps in memory and in \<open>collector_state\<close>, and the plumbing every chain transaction of
  the collector uses: the numeric checkpoints, the rewind generation that discards work fetched from a
  dead fork, the turns history work yields to the live loop, the boundary of the row-backed history, the
  cursors, and the queue of missing ranges inside a transaction.
\<close>

section \<open>The follower\<close>

text \<open>
  The configuration a follower reads. A backfill depth is a duration, or one of two negative words.
\<close>

type_synonym Depth = duration

definition Genesis :: Depth where "Genesis = -1"
definition Hold :: Depth where "Hold = -2"

definition IsGenesis :: "Depth \<Rightarrow> bool" where "IsGenesis d \<longleftrightarrow> d = Genesis"
definition IsHold :: "Depth \<Rightarrow> bool" where "IsHold d \<longleftrightarrow> d = Hold"

record follower_config =
  cfChainID :: u64
  cfHeaderBatchSize :: int
  cfMaxCatchUpBatches :: int
  cfBlockRetention :: duration
  cfSampleRetention :: duration
  cfBackfillDepth :: Depth
  cfBackfillWindow :: int
  cfBackfillAnchorInterval :: int
  cfHistoryEpoch :: i64

text \<open>
  The state under \<open>f.mu\<close> that the transactions read and publish. The snapshot, the slow samples, the
  instruments and the log are left out.
\<close>

record Follower =
  fHead :: u64
  fHeadHash :: string
  fPrevTs :: u64
  fState :: "State option"
  fLastSample :: "Sample option"
  fLastResult :: "Result option"
  fLastErrBips :: i64
  fCaches :: caches
  fLiveStart :: "liveStart option"
  fOwnerScanThrough :: u64
  fScanOrigin :: "scanOrigin option"
  fScanExtended :: bool
  fCursorChecked :: bool
  fDepthResolved :: bool
  fRepairNarrow :: int
  fRepairBlock :: u64
  fRepairAttempts :: int
  fRewinding :: bool
  fBehind :: u64
  fRecoveryDeferrals :: u64
  fRepairDeferrals :: u64
  fBackfillDeferrals :: u64
  fOwnerScanDeferrals :: u64

text \<open>
  The node as a follower sees it during one step: what each call of the \<open>RPC\<close> interface answers, and the
  archive endpoint when there is one.
\<close>

record RPC =
  HeadersByNumbers :: "u64 list \<Rightarrow> nitro_error + Header list"
  HeaderByNumber :: "u64 \<Rightarrow> nitro_error + Header"
  PosterGasByNumbers :: "ReceiptTarget list \<Rightarrow> nitro_error + (u64 \<times> u64) list"
  TransactionReceipts :: "string list \<Rightarrow> nitro_error + Receipt list"
  OwnerActsLogs :: "u64 \<Rightarrow> u64 \<Rightarrow> nitro_error + Log list"
  BlockNumber :: "nitro_error + u64"
  Available_calls :: int
  ArchiveSampleAt :: "(u64 \<Rightarrow> nitro_error + Sample) option"

section \<open>Numeric checkpoints\<close>

definition FormatUint :: "u64 \<Rightarrow> string" where
  "FormatUint n = dec_of_nat (unat n)"

definition ParseUint :: "string \<Rightarrow> u64 option" where
  "ParseUint raw =
     (if raw = [] then None
      else case decimal_digits 0 raw of
             None \<Rightarrow> None
           | Some v \<Rightarrow> if v < 18446744073709551616 then Some (of_nat v) else None)"

definition Atoi :: "string \<Rightarrow> i64 option" where
  "Atoi raw = (case SetString10 raw of None \<Rightarrow> None | Some v \<Rightarrow> if is_i64 v then Some v else None)"

definition StateHead :: string where "StateHead = ''head''"
definition StateBackfillCursor :: string where "StateBackfillCursor = ''backfill_cursor''"
definition StateOwnerLogCursor :: string where "StateOwnerLogCursor = ''owner_log_cursor''"
definition StateBatchScanCursor :: string where "StateBatchScanCursor = ''batch_scan_cursor_v2''"
definition StateRPCCapacity :: string where "StateRPCCapacity = ''rpc_capacity''"
definition StateLiveStart :: string where "StateLiveStart = ''live_start''"
definition StateHoles :: string where "StateHoles = ''holes''"
definition StateOwnerScanThrough :: string where "StateOwnerScanThrough = ''owner_scan_through''"
definition StateGeneration :: string where "StateGeneration = ''generation''"
definition StateOwnerScanOrigin :: string where "StateOwnerScanOrigin = ''owner_scan_origin''"
definition StateHistoryEpoch :: string where "StateHistoryEpoch = ''history_epoch''"
definition StatePosterGasRepair :: string where "StatePosterGasRepair = ''poster_gas_repair''"

lemmas state_keys = StateHead_def StateBackfillCursor_def StateOwnerLogCursor_def StateBatchScanCursor_def
  StateRPCCapacity_def StateLiveStart_def StateHoles_def StateOwnerScanThrough_def StateGeneration_def
  StateOwnerScanOrigin_def StateHistoryEpoch_def StatePosterGasRepair_def StatePruneFrontier_def

text \<open>\<open>rewindCursor\<close> lowers a numeric checkpoint to a block when it is beyond it.\<close>

definition rewindCursor :: "u64 \<Rightarrow> string \<Rightarrow> u64 \<Rightarrow> MemStore \<Rightarrow> store_error + MemStore" where
  "rewindCursor chainID key block m =
     bind_err (GetState chainID key m) (\<lambda>v.
       case v of
         None \<Rightarrow> Inr m
       | Some (StateText raw) \<Rightarrow>
           (case ParseUint raw of
              None \<Rightarrow> Inl (BadState key)
            | Some cur \<Rightarrow> if cur \<le> block then Inr m else SetState chainID key (StateText (FormatUint block)) m)
       | Some _ \<Rightarrow> Inl (BadState key))"

section \<open>Generations\<close>

definition generation :: "u64 \<Rightarrow> MemStore \<Rightarrow> store_error + u64" where
  "generation chainID m =
     bind_err (GetState chainID StateGeneration m) (\<lambda>v.
       case v of
         None \<Rightarrow> Inr 0
       | Some (StateText raw) \<Rightarrow>
           (case ParseUint raw of None \<Rightarrow> Inl (BadState StateGeneration) | Some gen \<Rightarrow> Inr gen)
       | Some _ \<Rightarrow> Inl (BadState StateGeneration))"

definition bumpGeneration :: "u64 \<Rightarrow> MemStore \<Rightarrow> store_error + MemStore" where
  "bumpGeneration chainID m =
     bind_err (generation chainID m) (\<lambda>gen. SetState chainID StateGeneration (StateText (FormatUint (gen + 1))) m)"

definition withGeneration :: "u64 \<Rightarrow> u64 \<Rightarrow> (MemStore \<Rightarrow> store_error + 'a) \<Rightarrow> MemStore \<Rightarrow> store_error + 'a" where
  "withGeneration chainID gen fn =
     chain_WithChainTx chainID None (\<lambda>_ m.
       bind_err (generation chainID m) (\<lambda>cur. if cur \<noteq> gen then Inl (StaleGeneration gen cur) else fn m))"

section \<open>Turns\<close>

text \<open>
  \<open>deferredWait\<close> on one of the counters of consecutive deferrals: the answer and the counter.
\<close>

definition maxRecoveryDeferrals :: u64 where
  "maxRecoveryDeferrals = 30"

definition fastLoopBusy :: "follower_config \<Rightarrow> Follower \<Rightarrow> bool" where
  "fastLoopBusy cfg f \<longleftrightarrow> fRewinding f \<or> of_int (cfHeaderBatchSize cfg) < fBehind f"

definition deferredWait :: "bool \<Rightarrow> u64 \<Rightarrow> bool \<times> u64" where
  "deferredWait busy deferrals =
     (if \<not> busy then (False, 0)
      else if deferrals + 1 < maxRecoveryDeferrals then (True, deferrals + 1) else (False, 0))"

definition recoveryMustWait :: "follower_config \<Rightarrow> Follower \<Rightarrow> bool \<times> Follower" where
  "recoveryMustWait cfg f =
     map_prod id (\<lambda>n. f\<lparr>fRecoveryDeferrals := n\<rparr>) (deferredWait (fastLoopBusy cfg f) (fRecoveryDeferrals f))"

definition repairMustWait :: "follower_config \<Rightarrow> Follower \<Rightarrow> bool \<times> Follower" where
  "repairMustWait cfg f =
     map_prod id (\<lambda>n. f\<lparr>fRepairDeferrals := n\<rparr>) (deferredWait (fastLoopBusy cfg f) (fRepairDeferrals f))"

definition backfillMustWait :: "follower_config \<Rightarrow> Follower \<Rightarrow> bool \<times> Follower" where
  "backfillMustWait cfg f =
     map_prod id (\<lambda>n. f\<lparr>fBackfillDeferrals := n\<rparr>) (deferredWait (fastLoopBusy cfg f) (fBackfillDeferrals f))"

definition ownerScanMustWait :: "follower_config \<Rightarrow> Follower \<Rightarrow> bool \<times> Follower" where
  "ownerScanMustWait cfg f =
     map_prod id (\<lambda>n. f\<lparr>fOwnerScanDeferrals := n\<rparr>) (deferredWait (fastLoopBusy cfg f) (fOwnerScanDeferrals f))"

text \<open>A sequence of attempts of one kind of history work, with what the live loop is at each.\<close>

fun turns :: "bool list \<Rightarrow> u64 \<Rightarrow> bool list" where
  "turns [] deferrals = []"
| "turns (busy # rest) deferrals =
     (case deferredWait busy deferrals of (wait, deferrals) \<Rightarrow> (\<not> wait) # turns rest deferrals)"

lemma deferredWait_bound: "snd (deferredWait busy d) < maxRecoveryDeferrals"
  by (auto simp: deferredWait_def maxRecoveryDeferrals_def)

lemma deferredWait_waits:
  assumes "d < maxRecoveryDeferrals" "fst (deferredWait busy d)"
  shows "unat (snd (deferredWait busy d)) = Suc (unat d)"
proof -
  have "unat (d + 1) = Suc (unat d)" using assms(1) by (rule unat_next)
  then show ?thesis using assms(2) by (auto simp: deferredWait_def split: if_splits)
qed

lemma turns_waiting:
  "d < maxRecoveryDeferrals \<Longrightarrow> True \<notin> set (turns flags d) \<Longrightarrow> unat d + length flags < 30"
proof (induction flags arbitrary: d)
  case Nil
  then show ?case by (simp add: maxRecoveryDeferrals_def word_less_nat_alt)
next
  case (Cons busy flags)
  let ?d = "snd (deferredWait busy d)"
  have w: "fst (deferredWait busy d)" "True \<notin> set (turns flags ?d)" using Cons.prems(2) by (auto simp: split_def)
  show ?case using Cons.IH [OF deferredWait_bound w(2)] deferredWait_waits [OF Cons.prems(1) w(1)] by simp
qed

text \<open>
  C33. History work always gets its turn: however busy the live loop is, of any thirty consecutive attempts
  of one kind of work at least one goes ahead, so the gap filler, the repair, the backfill and the owner
  scan are delayed but never starved. The counter the next thirty start from is again one this holds for.
\<close>

theorem history_gets_turns:
  assumes "deferrals < maxRecoveryDeferrals" "30 \<le> length flags"
  shows "(\<exists>i<30. turns flags deferrals ! i) \<and> snd (deferredWait busy deferrals) < maxRecoveryDeferrals"
proof -
  have take: "turns (take n fs) d = take n (turns fs d)" for n fs d
    by (induction fs d arbitrary: n rule: turns.induct) (auto simp: take_Cons split: nat.split prod.split)
  have len: "length (turns fs d) = length fs" for fs d
    by (induction fs d rule: turns.induct) (auto split: prod.split)
  have "True \<in> set (turns (take 30 flags) deferrals)"
    using turns_waiting [OF assms(1), of "take 30 flags"] assms(2) by auto
  then have "True \<in> set (take 30 (turns flags deferrals))" by (simp add: take)
  then obtain i where "i < length (take 30 (turns flags deferrals))" "take 30 (turns flags deferrals) ! i"
    by (auto simp: in_set_conv_nth)
  then show ?thesis using assms(2) deferredWait_bound by (auto simp: len intro!: exI [of _ i])
qed

theorem history_gets_turns_witness:
  "(\<exists>i<30. turns (replicate 30 True) 0 ! i) \<and> snd (deferredWait True 0) < maxRecoveryDeferrals"
  by (rule history_gets_turns) (simp_all add: maxRecoveryDeferrals_def)

section \<open>The live start\<close>

definition boundaryWidth :: duration where
  "boundaryWidth = 3600 * Second"

definition boundaryOf :: "liveStart \<Rightarrow> gotime" where
  "boundaryOf ls = Truncate (from_unix (lsTS ls)) boundaryWidth"

definition boundaryLocked :: "Follower \<Rightarrow> gotime option" where
  "boundaryLocked f = map_option boundaryOf (fLiveStart f)"

definition saveLiveStart :: "u64 \<Rightarrow> liveStart \<Rightarrow> MemStore \<Rightarrow> store_error + MemStore" where
  "saveLiveStart chainID ls = SetState chainID StateLiveStart (StateLive ls)"

definition liveStartFrom :: "u64 \<Rightarrow> MemStore \<Rightarrow> store_error + liveStart option" where
  "liveStartFrom chainID m =
     bind_err (GetState chainID StateLiveStart m) (\<lambda>v.
       case v of
         None \<Rightarrow> Inr None
       | Some (StateLive ls) \<Rightarrow> Inr (Some ls)
       | Some _ \<Rightarrow> Inl (BadState StateLiveStart))"

definition loadLiveStartLocked :: "u64 \<Rightarrow> Follower \<Rightarrow> MemStore \<Rightarrow> store_error + (Follower \<times> MemStore)" where
  "loadLiveStartLocked chainID f m =
     bind_err (liveStartFrom chainID m) (\<lambda>v.
       case v of
         Some ls \<Rightarrow> Inr (f\<lparr>fLiveStart := Some ls\<rparr>, m)
       | None \<Rightarrow>
           bind_err (OldestBlock chainID m) (\<lambda>oldest.
             case oldest of
               None \<Rightarrow> Inr (f, m)
             | Some b \<Rightarrow>
                 let ls = \<lparr>lsBlock = bNumber b, lsTS = Unix (bTS b)\<rparr>
                 in bind_err (saveLiveStart chainID ls m) (\<lambda>m. Inr (f\<lparr>fLiveStart := Some ls\<rparr>, m))))"

section \<open>Cursors\<close>

definition no_cursor :: backfillCursor where
  "no_cursor = \<lparr>bfDone = False, bfDepthStart = 0, bfDepthTarget = 0, bfTop = 0, bfActive = False, bfVerified = False,
     bfSegStart = 0, bfNext = 0, bfSkipFirst = False, bfEnd = 0, bfEndParent = [], bfRunParent = [], bfPrevTs = 0,
     bfPrevHash = [], bfBacklogs = [], bfSetID = 0, bfLastAnchor = 0, bfLastAnchorErrorBips = 0, bfAnchorMinFee = [],
     bfPendingFee = [], bfPendingExponent = 0, bfPendingBips = []\<rparr>"

definition loadCursorFrom :: "u64 \<Rightarrow> MemStore \<Rightarrow> store_error + backfillCursor" where
  "loadCursorFrom chainID m =
     bind_err (GetState chainID StateBackfillCursor m) (\<lambda>v.
       case v of
         None \<Rightarrow> Inr no_cursor
       | Some (StateCursor c) \<Rightarrow> Inr c
       | Some _ \<Rightarrow> Inl (BadState StateBackfillCursor))"

definition saveCursor :: "u64 \<Rightarrow> backfillCursor \<Rightarrow> MemStore \<Rightarrow> store_error + MemStore" where
  "saveCursor chainID c = SetState chainID StateBackfillCursor (StateCursor c)"

definition recordedTarget :: "backfillCursor \<Rightarrow> u64" where
  "recordedTarget c = (if bfDepthTarget c \<noteq> 0 then bfDepthTarget c else bfDepthStart c)"

definition resetTarget :: "follower_config \<Rightarrow> backfillCursor \<Rightarrow> u64" where
  "resetTarget cfg c = (if \<not> IsHold (cfBackfillDepth cfg) \<or> bfEnd c = 0 then recordedTarget c else bfEnd c)"

definition no_repair :: posterGasCursor where
  "no_repair = \<lparr>pgNext = 0, pgDone = False, pgSkipped = [], pgSweeps = 0\<rparr>"

text \<open>An unreadable cursor starts the repair over.\<close>

definition loadPosterGasCursorFrom :: "u64 \<Rightarrow> MemStore \<Rightarrow> store_error + posterGasCursor" where
  "loadPosterGasCursorFrom chainID m =
     bind_err (GetState chainID StatePosterGasRepair m) (\<lambda>v.
       case v of Some (StateRepair c) \<Rightarrow> Inr c | _ \<Rightarrow> Inr no_repair)"

definition savePosterGasCursor :: "u64 \<Rightarrow> posterGasCursor \<Rightarrow> MemStore \<Rightarrow> store_error + MemStore" where
  "savePosterGasCursor chainID c = SetState chainID StatePosterGasRepair (StateRepair c)"

section \<open>Missing ranges inside a transaction\<close>

text \<open>
  An operation on the queue reads the rows and replaces them; one that leaves them as they are writes
  nothing.
\<close>

definition on_ranges ::
  "u64 \<Rightarrow> (MissingRange list \<Rightarrow> fill_error + MissingRange list) \<Rightarrow> MemStore \<Rightarrow> store_error + MemStore" where
  "on_ranges chainID f m =
     bind_err (MissingRanges chainID m) (\<lambda>rows.
       case f rows of
         Inl e \<Rightarrow> Inl (BadRanges e)
       | Inr out \<Rightarrow> if out = rows then Inr m else mem_ReplaceMissingRanges chainID out m)"

definition import_holes_tx :: "u64 \<Rightarrow> gotime \<Rightarrow> MemStore \<Rightarrow> store_error + MemStore" where
  "import_holes_tx chainID now =
     chain_WithChainTx chainID None (\<lambda>_ m.
       bind_err (GetState chainID StateHoles m) (\<lambda>v.
         case v of
           None \<Rightarrow> Inr m
         | Some (StateHoleList legacy) \<Rightarrow>
             bind_err (on_ranges chainID (importLegacyHoles chainID now legacy) m) (DeleteState chainID StateHoles)
         | Some _ \<Rightarrow> Inl (BadState StateHoles)))"

section \<open>The head in memory\<close>

definition loadSets :: "u64 \<Rightarrow> MemStore \<Rightarrow> store_error + (ConstraintSet list \<times> db_OwnerAction list)" where
  "loadSets chainID m =
     bind_err (mem_ConstraintSets chainID m) (\<lambda>sets.
     bind_err (OwnerActions chainID 0 0 0 m) (\<lambda>actions. Inr (sets, actions)))"

definition reloadSetsLocked :: "u64 \<Rightarrow> MemStore \<Rightarrow> Follower \<Rightarrow> store_error + Follower" where
  "reloadSetsLocked chainID m f =
     bind_err (loadSets chainID m) (\<lambda>(sets, actions). Inr (f\<lparr>fCaches := applySetsLocked sets actions\<rparr>))"

text \<open>The head that was loaded stays known by its result only when it is the one in memory.\<close>

definition reloadHeadLocked :: "u64 \<Rightarrow> MemStore \<Rightarrow> Follower \<Rightarrow> store_error + Follower" where
  "reloadHeadLocked chainID m f =
     bind_err (LatestBlock chainID m) (\<lambda>latest.
       let same = (case latest of
                     None \<Rightarrow> False
                   | Some b \<Rightarrow> fHead f \<noteq> 0 \<and> bNumber b = fHead f \<and> \<not> hashMismatch (bHash b) (fHeadHash f));
           f = (if same then f else f\<lparr>fLastResult := None, fLastErrBips := 0\<rparr>);
           f = f\<lparr>fHead := 0, fHeadHash := [], fPrevTs := 0, fState := None\<rparr>
       in Inr (case latest of
                 None \<Rightarrow> f
               | Some b \<Rightarrow>
                   f\<lparr>fHead := bNumber b, fHeadHash := bHash b, fPrevTs := u64_of_i64 (Unix (bTS b)),
                     fLastErrBips := (if same then fLastErrBips f else ReplayErrorBips b)\<rparr>))"

definition headHashOf :: "Follower \<Rightarrow> u64 \<Rightarrow> string" where
  "headHashOf f number = (if fHead f = number then fHeadHash f else [])"

definition clearHeadStateLocked :: "Follower \<Rightarrow> Follower" where
  "clearHeadStateLocked f = f\<lparr>fLastSample := None\<rparr>"

definition loadScanStateLocked :: "u64 \<Rightarrow> MemStore \<Rightarrow> Follower \<Rightarrow> store_error + Follower" where
  "loadScanStateLocked chainID m f =
     bind_err (GetState chainID StateOwnerScanThrough m) (\<lambda>v.
     bind_err (case v of
                 None \<Rightarrow> Inr 0
               | Some (StateText raw) \<Rightarrow>
                   (case ParseUint raw of None \<Rightarrow> Inl (BadState StateOwnerScanThrough) | Some n \<Rightarrow> Inr n)
               | Some _ \<Rightarrow> Inl (BadState StateOwnerScanThrough)) (\<lambda>through.
     bind_err (GetState chainID StateOwnerScanOrigin m) (\<lambda>v.
     bind_err (case v of
                 None \<Rightarrow> Inr None
               | Some (StateOrigin orig) \<Rightarrow> Inr (Some orig)
               | Some _ \<Rightarrow> Inl (BadState StateOwnerScanOrigin)) (\<lambda>orig.
       Inr (f\<lparr>fOwnerScanThrough := through, fScanOrigin := orig\<rparr>)))))"

end
