(* ===== verification/Chain_Tx.thy ===== *)
theory Chain_Tx
  imports Chain_State
begin

text \<open>
  Two chain transactions of the collector over the store: the rewind of a reorg (\<open>tick.go\<close>) and the
  commit of a gap batch (\<open>fill.go\<close>). The reads that precede a transaction are arguments where they go
  to the node, and calls on the store where they go to the store.
\<close>

section \<open>Rewind\<close>

definition maxReorgDepth :: nat where
  "maxReorgDepth = 128"

text \<open>The stored row and the node's header describe the same block.\<close>

definition same_block :: "db_block \<Rightarrow> Header \<Rightarrow> bool" where
  "same_block row h \<longleftrightarrow>
     (if bHash row = [] then hTimestamp h = u64_of_i64 (Unix (bTS row)) \<and> hGasUsed h = bGasUsed row \<and> hBaseFee h = bBaseFee row
      else hHash h = bHash row)"

fun ancestor_walk ::
  "(u64 \<Rightarrow> nitro_error + Header) \<Rightarrow> (u64 \<Rightarrow> db_block option) \<Rightarrow> nat \<Rightarrow> u64 \<Rightarrow> store_error + u64" where
  "ancestor_walk header byNumber 0 n = Inl ReorgTooDeep"
| "ancestor_walk header byNumber (Suc k) n =
     (if n = 0 then Inr 0
      else case byNumber n of
             None \<Rightarrow> Inr n
           | Some row \<Rightarrow>
               (case header n of
                  Inl e \<Rightarrow> Inl (RpcFailed e)
                | Inr h \<Rightarrow> if same_block row h then Inr n else ancestor_walk header byNumber k (n - 1)))"

definition findAncestor :: "u64 \<Rightarrow> (u64 \<Rightarrow> nitro_error + Header) \<Rightarrow> u64 \<Rightarrow> MemStore \<Rightarrow> store_error + u64" where
  "findAncestor chainID header from m =
     bind_err (RecentBlocks chainID (maxReorgDepth + 1) m) (\<lambda>rows.
       ancestor_walk header (\<lambda>n. List.find (\<lambda>r. bNumber r = n) rows) maxReorgDepth from)"

fun rebuild_discard :: "u64 \<Rightarrow> db_block list \<Rightarrow> string list \<Rightarrow> MemStore \<Rightarrow> store_error + MemStore" where
  "rebuild_discard chainID removed [] m = Inr m"
| "rebuild_discard chainID removed (res # rs) m =
     bind_err (RebuildBuckets chainID res (BucketStarts removed res) m) (\<lambda>m.
     bind_err (DiscardBucketsBelowFrontier chainID res (BucketStarts removed res) m) (rebuild_discard chainID removed rs))"

fun delete_states :: "u64 \<Rightarrow> string list \<Rightarrow> MemStore \<Rightarrow> store_error + MemStore" where
  "delete_states chainID [] m = Inr m"
| "delete_states chainID (key # keys) m = bind_err (DeleteState chainID key m) (delete_states chainID keys)"

text \<open>The flag says that the owner scan starts over.\<close>

definition rewindOwnerScan :: "u64 \<Rightarrow> u64 \<Rightarrow> MemStore \<Rightarrow> store_error + (bool \<times> MemStore)" where
  "rewindOwnerScan chainID ancestor m =
     bind_err (GetState chainID StateOwnerScanOrigin m) (\<lambda>v.
     bind_err (case v of
                 None \<Rightarrow> Inr False
               | Some (StateOrigin orig) \<Rightarrow> Inr (ancestor < soBlock orig)
               | Some _ \<Rightarrow> Inl (BadState StateOwnerScanOrigin)) (\<lambda>reset.
       if reset
       then bind_err (delete_states chainID [StateOwnerScanOrigin, StateOwnerLogCursor, StateOwnerScanThrough] m)
              (\<lambda>m. Inr (True, m))
       else bind_err (rewindCursor chainID StateOwnerLogCursor ancestor m) (\<lambda>m.
            bind_err (rewindCursor chainID StateOwnerScanThrough ancestor m) (\<lambda>m. Inr (False, m)))))"

text \<open>The flag says that the additive buckets were deleted.\<close>

definition rewindBackfill ::
  "follower_config \<Rightarrow> u64 \<Rightarrow> gotime option \<Rightarrow> MemStore \<Rightarrow> store_error + (bool \<times> MemStore)" where
  "rewindBackfill cfg ancestor boundary m =
     bind_err (GetState (cfChainID cfg) StateBackfillCursor m) (\<lambda>v.
       case v of
         None \<Rightarrow> Inr (False, m)
       | Some (StateCursor c) \<Rightarrow>
           if bfTop c = 0 \<or> bfTop c - 1 \<le> ancestor then Inr (False, m)
           else
             bind_err (case boundary of
                         None \<Rightarrow> Inr (False, m)
                       | Some t \<Rightarrow> bind_err (DeleteBucketsBefore (cfChainID cfg) t m) (\<lambda>(n, m). Inr (True, m)))
               (\<lambda>(cleared, m).
             bind_err (saveCursor (cfChainID cfg) (no_cursor\<lparr>bfDepthTarget := resetTarget cfg c\<rparr>) m)
               (\<lambda>m. Inr (cleared, m)))
       | Some _ \<Rightarrow> Inl (BadState StateBackfillCursor))"

definition rewindNetworkHead :: "u64 \<Rightarrow> u64 \<Rightarrow> MemStore \<Rightarrow> store_error + MemStore" where
  "rewindNetworkHead chainID ancestor m =
     bind_err (if 0 < ancestor then BlockByNumber chainID ancestor m else Inr None) (\<lambda>row.
     bind_err (LatestStateSample chainID False m) (\<lambda>sample.
       SetNetworkHead chainID (map_option (\<lambda>_. ancestor) row) (map_option bTS row) (map_option ssSampledAt sample) m))"

definition rewind_live_start :: "u64 \<Rightarrow> u64 \<Rightarrow> liveStart option \<Rightarrow> MemStore \<Rightarrow> store_error + (bool \<times> MemStore)" where
  "rewind_live_start chainID ancestor ls m =
     (case ls of
        None \<Rightarrow> Inr (False, m)
      | Some l \<Rightarrow>
          if ancestor < lsBlock l
          then bind_err (DeleteState chainID StateLiveStart m) (\<lambda>m. Inr (True, m)) else Inr (False, m))"

text \<open>
  The transaction of \<open>rewindToAncestor\<close>: whether it cleared the live start, whether it restarted the
  owner scan, and the store.
\<close>

definition rewind_body ::
  "follower_config \<Rightarrow> gotime \<Rightarrow> liveStart option \<Rightarrow> u64 \<Rightarrow> MemStore \<Rightarrow> store_error + (bool \<times> bool \<times> MemStore)" where
  "rewind_body cfg now ls ancestor m =
     (let c = cfChainID cfg in
      bind_err (bumpGeneration c m) (\<lambda>m.
      bind_err (DeleteBlocksAfter c ancestor m) (\<lambda>(removed, m).
      bind_err (rebuild_discard c removed ResolutionOrder m) (\<lambda>m.
      bind_err (RewindAfter c ancestor m) (\<lambda>m.
      bind_err (DeleteStateSamplesAfter c ancestor m) (\<lambda>(n, m).
      bind_err (rewindOwnerScan c ancestor m) (\<lambda>(reset, m).
      bind_err (rewindCursor c StateBatchScanCursor ancestor m) (\<lambda>m.
      bind_err (rewindBackfill cfg ancestor (map_option boundaryOf ls) m) (\<lambda>(cleared, m).
      bind_err (on_ranges c (rewindHoles c now ancestor cleared) m) (\<lambda>m.
      bind_err (rewind_live_start c ancestor ls m) (\<lambda>(clearedStart, m).
      bind_err (rewindNetworkHead c ancestor m) (\<lambda>m.
      bind_err (SetState c StateHead (StateText (FormatUint ancestor)) m) (\<lambda>m.
        Inr (clearedStart, reset, m))))))))))))))"

definition rewind_tx ::
  "follower_config \<Rightarrow> gotime \<Rightarrow> liveStart option \<Rightarrow> u64 \<Rightarrow> MemStore \<Rightarrow> store_error + (bool \<times> bool \<times> MemStore)" where
  "rewind_tx cfg now ls ancestor = chain_WithChainTx (cfChainID cfg) None (\<lambda>_. rewind_body cfg now ls ancestor)"

text \<open>What the follower forgets once the rewind has committed.\<close>

definition rewound_follower :: "u64 \<Rightarrow> bool \<Rightarrow> bool \<Rightarrow> Follower \<Rightarrow> Follower" where
  "rewound_follower ancestor clearedStart reset f =
     (let f = (if clearedStart then f\<lparr>fLiveStart := None\<rparr> else f);
          f = (if reset then f\<lparr>fScanOrigin := None, fOwnerScanThrough := 0, fScanExtended := False\<rparr>
               else f\<lparr>fOwnerScanThrough := min (fOwnerScanThrough f) ancestor\<rparr>)
      in clearHeadStateLocked f)"

text \<open>A failure after the commit is reported with the memory as far as it got.\<close>

definition rewindToAncestor ::
  "follower_config \<Rightarrow> gotime \<Rightarrow> RPC \<Rightarrow> u64 \<Rightarrow> Follower \<Rightarrow> MemStore
     \<Rightarrow> (store_error + u64) \<times> Follower \<times> MemStore" where
  "rewindToAncestor cfg now rpc from f m =
     (case findAncestor (cfChainID cfg) (HeaderByNumber rpc) from m of
        Inl e \<Rightarrow> (Inl e, f, m)
      | Inr ancestor \<Rightarrow>
          (case rewind_tx cfg now (fLiveStart f) ancestor m of
             Inl e \<Rightarrow> (Inl e, f, m)
           | Inr (clearedStart, reset, m) \<Rightarrow>
               let f = rewound_follower ancestor clearedStart reset f
               in (case reloadHeadLocked (cfChainID cfg) m f of
                     Inl e \<Rightarrow> (Inl e, f, m)
                   | Inr f \<Rightarrow>
                       (case reloadSetsLocked (cfChainID cfg) m f of
                          Inl e \<Rightarrow> (Inl e, f, m)
                        | Inr f \<Rightarrow> (Inr (fHead f), f, m)))))"

section \<open>Gap batches\<close>

text \<open>\<open>holeTail\<close>: the stored block after a range, refused when it does not build on the last header.\<close>

definition holeTail :: "u64 \<Rightarrow> hole \<Rightarrow> Header \<Rightarrow> MemStore \<Rightarrow> store_error + db_block option" where
  "holeTail chainID h prevHeader m =
     bind_err (BlockByNumber chainID (To h + 1) m) (\<lambda>row.
       case row of
         None \<Rightarrow> Inr None
       | Some r \<Rightarrow> if hashMismatch (bParentHash r) (hHash prevHeader) then Inl (Refused (NotLinked (hNumber prevHeader) (bNumber r))) else Inr (Some r))"

text \<open>The folds of the windows the store declined to rebuild, into the buckets that are still there.\<close>

fun declined_folds ::
  "u64 \<Rightarrow> string \<Rightarrow> gotime list \<Rightarrow> Bucket list \<Rightarrow> MemStore \<Rightarrow> store_error + Bucket list" where
  "declined_folds chainID res declined [] m = Inr []"
| "declined_folds chainID res declined (b # bs) m =
     (if kResolution b \<noteq> res \<or> \<not> startAmong (kBucketStart b) declined then declined_folds chainID res declined bs m
      else bind_err (mem_Buckets chainID res (kBucketStart b) (kBucketStart b + Resolutions res) m) (\<lambda>existing.
           bind_err (declined_folds chainID res declined bs m) (\<lambda>rest.
             Inr (if existing = [] then rest else b # rest))))"

fun rebuild_declined ::
  "u64 \<Rightarrow> db_block list \<Rightarrow> Bucket list \<Rightarrow> string list \<Rightarrow> Bucket list \<Rightarrow> MemStore \<Rightarrow> store_error + (Bucket list \<times> MemStore)" where
  "rebuild_declined chainID rows rowFolds [] toFold m = Inr (toFold, m)"
| "rebuild_declined chainID rows rowFolds (res # rs) toFold m =
     (let starts = BucketStarts rows res in
      bind_err (RebuildBuckets chainID res starts m) (\<lambda>m.
      bind_err (BelowFrontier chainID starts m) (\<lambda>declined.
      bind_err (declined_folds chainID res declined rowFolds m) (\<lambda>more.
        rebuild_declined chainID rows rowFolds rs (toFold @ more) m))))"

definition fill_buckets ::
  "u64 \<Rightarrow> (u64 \<Rightarrow> i64 option) \<Rightarrow> fill_rows \<Rightarrow> MemStore \<Rightarrow> store_error + MemStore" where
  "fill_buckets chainID setID split m =
     bind_err (if frRowBacked split @ frKept split = [] then Inr m
               else UpsertBlocks (frRowBacked split @ frKept split) m) (\<lambda>m.
     bind_err (if frRowBacked split = [] then Inr (FoldBlocks (frAdditive split) setID, m)
               else rebuild_declined chainID (frRowBacked split) (FoldBlocks (frFoldable split) setID) ResolutionOrder
                      (FoldBlocks (frAdditive split) setID) m) (\<lambda>(toFold, m).
       FoldBuckets toFold m))"

definition commitFill ::
  "u64 \<Rightarrow> gotime \<Rightarrow> gotime option \<Rightarrow> ConstraintSet list \<Rightarrow> u64 \<Rightarrow> hole \<Rightarrow> db_block list \<Rightarrow> db_block option \<Rightarrow> bool
     \<Rightarrow> MemStore \<Rightarrow> store_error + MemStore" where
  "commitFill chainID now boundary sets gen h rows tail done =
     (let setID = (\<lambda>n. map_option csID (setAt sets n));
          split = split_fill boundary (Folded h) rows tail;
          h = h\<lparr>Folded := max (Folded h) (Next h)\<rparr>
      in withGeneration chainID gen (\<lambda>m.
           bind_err (fill_buckets chainID setID split m) (on_ranges chainID (advanceHole chainID now h done))))"

definition mark_holes_tx ::
  "u64 \<Rightarrow> gotime \<Rightarrow> u64 \<Rightarrow> (u64 \<Rightarrow> string option) \<Rightarrow> MemStore \<Rightarrow> store_error + MemStore" where
  "mark_holes_tx chainID now gen reasons = withGeneration chainID gen (on_ranges chainID (markHoles chainID now reasons))"

text \<open>The head's replay error is published again when the fill gave the head its prediction.\<close>

definition noteFilledHead :: "db_block option \<Rightarrow> Follower \<Rightarrow> Follower" where
  "noteFilledHead filled f =
     (case filled of
        None \<Rightarrow> f
      | Some b \<Rightarrow> if bNumber b = fHead f then f\<lparr>fLastErrBips := ReplayErrorBips b\<rparr> else f)"


text \<open>
  One batch of a range: the headers the node returns are checked, replayed from the state before the
  range and committed. The status says whether the step used its turn.
\<close>

definition batchHole :: "hole \<Rightarrow> u64 \<Rightarrow> HoleState \<Rightarrow> string \<Rightarrow> hole" where
  "batchHole h next st cursorAt =
     h\<lparr>Next := next, State := Some st, CursorAt := cursorAt, Lifecycle := rangePending, NextRetryAt := [], LastError := []\<rparr>"

type_synonym fill_outcome = "(FillStatus \<times> store_error option) \<times> Follower \<times> MemStore"

definition fillBatch ::
  "follower_config \<Rightarrow> gotime \<Rightarrow> RPC \<Rightarrow> u64 \<Rightarrow> fillTarget \<Rightarrow> Follower \<Rightarrow> MemStore \<Rightarrow> fill_outcome" where
  "fillBatch cfg now rpc gen t f m =
     (let c = cfChainID cfg; h = ftHole t; from = Start h;
          n = fill_count (of_int (cfHeaderBatchSize cfg)) (Available_calls rpc) h;
          stop = (\<lambda>e. ((FillIdle, Some e), f, m))
      in case HeadersByNumbers rpc (map (\<lambda>i. from + of_nat i) [0..<unat n]) of
           Inl e \<Rightarrow> stop (RpcFailed e)
         | Inr headers \<Rightarrow>
             (case check_batch t from headers of
                BatchRetry \<Rightarrow> stop BatchRefused
              | BatchUnsupported \<Rightarrow>
                  (case mark_holes_tx c now gen [From h \<mapsto> reasonUnsupportedModel] m of
                     Inl e \<Rightarrow> ((FillNone, Some e), f, m)
                   | Inr m' \<Rightarrow> ((FillNone, None), f, m'))
              | BatchOk \<Rightarrow>
                  let next = from + of_nat (length headers); lastHeader = last headers in
                  case (if next - 1 = To h then holeTail c h lastHeader m else Inr None) of
                    Inl e \<Rightarrow> stop e
                  | Inr tail \<Rightarrow>
                      let tml = timelineLocked (fCaches f) (fScanOrigin f) [];
                          tails = (case tail of None \<Rightarrow> [] | Some b \<Rightarrow> [headerOf b])
                      in case resolveActionBlocks (TransactionReceipts rpc) (headers @ tails) tml of
                           Inl e \<Rightarrow> stop (Refused e)
                         | Inr actions \<Rightarrow>
                             (case replayHole c (\<lambda>k. case setAt (chSets (fCaches f)) k of None \<Rightarrow> 0 | Some cs \<Rightarrow> csID cs)
                                     t headers tail tml actions of
                                (rows, filled, end_state) \<Rightarrow>
                                  let h' = batchHole h next end_state (RFC3339 (unix_time (i64_of_u64 (hTimestamp lastHeader)))) in
                                  case commitFill c now (boundaryLocked f) (chSets (fCaches f)) gen h' rows filled (To h' < Next h') m of
                                    Inl e \<Rightarrow> ((FillProgressed, Some e), f, m)
                                  | Inr m' \<Rightarrow> ((FillProgressed, None), noteFilledHead filled f, m'))))"

definition record_failure_tx :: "u64 \<Rightarrow> gotime \<Rightarrow> hole \<Rightarrow> string \<Rightarrow> MemStore \<Rightarrow> store_error + MemStore" where
  "record_failure_tx chainID now attempted cause =
     chain_WithChainTx chainID None (\<lambda>_. on_ranges chainID (recordFillFailure chainID now attempted cause))"

text \<open>
  The reads \<open>pickHole\<close> makes of the store; one that fails ends the step as if nothing was there.
\<close>

definition stored_block :: "u64 \<Rightarrow> MemStore \<Rightarrow> u64 \<Rightarrow> db_block option" where
  "stored_block chainID m n = (case BlockByNumber chainID n m of Inl e \<Rightarrow> None | Inr b \<Rightarrow> b)"

definition stored_sample :: "u64 \<Rightarrow> MemStore \<Rightarrow> u64 \<Rightarrow> StateSample option" where
  "stored_sample chainID m n = (case StateSampleAt chainID n m of Inl e \<Rightarrow> None | Inr s \<Rightarrow> s)"

definition pick_from_store ::
  "u64 \<Rightarrow> gotime \<Rightarrow> Follower \<Rightarrow> MemStore \<Rightarrow> hole list
     \<Rightarrow> (store_error + fillTarget option) \<times> (u64 \<Rightarrow> string option)" where
  "pick_from_store chainID now f m holes =
     (if mem_fail ''BlockByNumber'' m () = Inl ErrInjected \<or> mem_fail ''StateSampleAt'' m () = Inl ErrInjected
      then (Inl ErrInjected, Map.empty)
      else map_prod (map_sum BadRanges id) id
             (pickHole now (targetFor (fCaches f) (fScanOrigin f) (stored_block chainID m) (stored_sample chainID m))
               (endsInKnownShape (chSets (fCaches f)) (stored_block chainID m) (stored_sample chainID m)) holes))"

text \<open>\<open>cause\<close> renders the error that a failed attempt is recorded with.\<close>

definition fillStep ::
  "follower_config \<Rightarrow> gotime \<Rightarrow> RPC \<Rightarrow> (store_error \<Rightarrow> string) \<Rightarrow> Follower \<Rightarrow> MemStore \<Rightarrow> fill_outcome" where
  "fillStep cfg now rpc cause f m =
     (let c = cfChainID cfg; stop = (\<lambda>e. ((FillNone, Some e), f, m)) in
      case generation c m of
        Inl e \<Rightarrow> stop e
      | Inr gen \<Rightarrow>
          (case bind_err (MissingRanges c m) (\<lambda>rows. map_sum BadRanges id (loadHoles rows)) of
             Inl e \<Rightarrow> stop e
           | Inr holes \<Rightarrow>
               if holes = [] then ((FillNone, None), f, m)
               else
                 (case pick_from_store c now f m holes of
                    (Inl e, reasons) \<Rightarrow> stop e
                  | (Inr target, reasons) \<Rightarrow>
                      (case (if reasons = Map.empty then Inr m
                             else chain_WithChainTx c None (\<lambda>_. on_ranges c (markHoles c now reasons)) m) of
                         Inl e \<Rightarrow> stop e
                       | Inr m \<Rightarrow>
                           (case target of
                              None \<Rightarrow> ((FillNone, None), f, m)
                            | Some t \<Rightarrow>
                                (case recoveryMustWait cfg f of
                                   (True, f) \<Rightarrow> ((FillIdle, None), f, m)
                                 | (False, f) \<Rightarrow>
                                     (case fillBatch cfg now rpc gen t f m of
                                        ((status, None), f, m) \<Rightarrow> ((status, None), f, m)
                                      | ((status, Some (StaleGeneration g cur)), f, m) \<Rightarrow>
                                          ((status, Some (StaleGeneration g cur)), f, m)
                                      | ((status, Some e), f, m) \<Rightarrow>
                                          (case record_failure_tx c now (ftHole t) (cause e) m of
                                             Inl e' \<Rightarrow> ((status, Some e), f, m)
                                           | Inr m \<Rightarrow> ((status, Some e), f, m)))))))))"

text \<open>A step that a rewind discarded is not an error.\<close>

definition FillStep ::
  "follower_config \<Rightarrow> gotime \<Rightarrow> RPC \<Rightarrow> (store_error \<Rightarrow> string) \<Rightarrow> Follower \<Rightarrow> MemStore \<Rightarrow> fill_outcome" where
  "FillStep cfg now rpc cause f m =
     (case fillStep cfg now rpc cause f m of
        ((status, Some (StaleGeneration g cur)), f, m) \<Rightarrow> ((FillIdle, None), f, m)
      | out \<Rightarrow> out)"

end
