(* ===== verification/Upkeep.thy ===== *)
theory Upkeep
  imports Chain_Tx
begin

text \<open>
  What keeps the stored history in shape: the prune of old rows and the frontier it records
  (\<open>slow.go\<close>), the repair of the poster gas (\<open>postergas.go\<close>) and the rebuild of the reconstructed history
  at a raised epoch (\<open>history.go\<close>).
\<close>

section \<open>Prune\<close>

text \<open>The time block rows are dropped below; the zero time when nothing is stored.\<close>

definition pruneCutoff ::
  "follower_config \<Rightarrow> gotime \<Rightarrow> bool \<Rightarrow> MemStore \<Rightarrow> store_error + gotime" where
  "pruneCutoff cfg boundary pinRepair m =
     bind_err (LatestBlock (cfChainID cfg) m) (\<lambda>latest.
       case latest of
         None \<Rightarrow> Inr 0
       | Some b \<Rightarrow>
           let before = bTS b - cfBlockRetention cfg in
           bind_err (loadCursorFrom (cfChainID cfg) m) (\<lambda>backfill.
           bind_err (if pinRepair then map_sum id (\<lambda>c. \<not> pgDone c) (loadPosterGasCursorFrom (cfChainID cfg) m) else Inr False)
             (\<lambda>repairing.
               Inr (if (\<not> bfDone backfill \<or> repairing) \<and> boundary < before then boundary else before))))"

text \<open>The frontier only moves forward; an unreadable one is recorded over.\<close>

definition recordPruneFrontier :: "u64 \<Rightarrow> gotime \<Rightarrow> MemStore \<Rightarrow> store_error + MemStore" where
  "recordPruneFrontier chainID before m =
     bind_err (GetState chainID StatePruneFrontier m) (\<lambda>v.
       let record = SetState chainID StatePruneFrontier (StateText (RFC3339Nano before)) m
       in case v of
            Some (StateText raw) \<Rightarrow>
              (case Parse raw of None \<Rightarrow> record | Some prev \<Rightarrow> if \<not> prev < before then Inr m else record)
          | _ \<Rightarrow> record)"

definition pruneFrontier :: "u64 \<Rightarrow> MemStore \<Rightarrow> store_error + gotime" where
  "pruneFrontier chainID m = bind_err (GetState chainID StatePruneFrontier m) (\<lambda>_. Inr (pruneFrontierLocked chainID m))"

definition prune_blocks :: "follower_config \<Rightarrow> MemStore \<Rightarrow> store_error + MemStore" where
  "prune_blocks cfg m =
     bind_err (liveStartFrom (cfChainID cfg) m) (\<lambda>ls.
       case ls of
         None \<Rightarrow> Inr m
       | Some l \<Rightarrow>
           bind_err (pruneCutoff cfg (boundaryOf l) True m) (\<lambda>before.
             if before = 0 then Inr m
             else bind_err (PruneBlocks (cfChainID cfg) before m) (\<lambda>(n, m).
                    recordPruneFrontier (cfChainID cfg) before m)))"

definition prune :: "follower_config \<Rightarrow> gotime \<Rightarrow> MemStore \<Rightarrow> store_error + MemStore" where
  "prune cfg now =
     chain_WithChainTx (cfChainID cfg) None (\<lambda>_ m.
       bind_err (prune_blocks cfg m) (\<lambda>m.
       bind_err (PruneStateSamples (cfChainID cfg) (now - cfSampleRetention cfg) m) (\<lambda>(n, m). Inr m)))"

text \<open>
  The one-time seed of the frontier for a database that was pruned before it was recorded.
\<close>

definition seedPruneFrontierLocked :: "follower_config \<Rightarrow> gotime \<Rightarrow> MemStore \<Rightarrow> store_error + MemStore" where
  "seedPruneFrontierLocked cfg now =
     chain_WithChainTx (cfChainID cfg) None (\<lambda>_ m.
       bind_err (GetState (cfChainID cfg) StatePruneFrontier m) (\<lambda>v.
         let readable = (case v of Some (StateText raw) \<Rightarrow> Parse raw \<noteq> None | _ \<Rightarrow> False)
         in if readable then Inr m
            else bind_err (liveStartFrom (cfChainID cfg) m) (\<lambda>ls.
                   case ls of
                     None \<Rightarrow> Inr m
                   | Some l \<Rightarrow> recordPruneFrontier (cfChainID cfg) (now - cfBlockRetention cfg) m)))"

section \<open>Poster gas repair\<close>

datatype RepairStatus = RepairProgressed | RepairIdle | RepairNone

definition maxRepairAttempts :: int where "maxRepairAttempts = 3"
definition maxRepairSweeps :: int where "maxRepairSweeps = 3"
definition maxRepairSkipped :: nat where "maxRepairSkipped = 10000"

definition repairBatchFor :: "follower_config \<Rightarrow> int \<Rightarrow> int \<Rightarrow> int" where
  "repairBatchFor cfg available narrowed =
     (let n = cfHeaderBatchSize cfg; avail = max available 0;
          n = (if avail < n then max avail (uint minBackfillBatch) else n);
          n = (if 0 < narrowed \<and> narrowed < n then narrowed else n)
      in max n 1)"

definition widenRepair :: "Follower \<Rightarrow> Follower" where
  "widenRepair f = f\<lparr>fRepairNarrow := 0, fRepairBlock := 0, fRepairAttempts := 0\<rparr>"

text \<open>The rows worth a call: from the boundary on, and with a finest bucket the frontier left whole.\<close>

definition repairable_rows :: "gotime \<Rightarrow> gotime \<Rightarrow> db_block list \<Rightarrow> db_block list" where
  "repairable_rows boundary frontier rows =
     filter (\<lambda>b. \<not> bTS b < boundary \<and> \<not> Truncate (bTS b) (Resolutions (hd ResolutionOrder)) < frontier) rows"

definition repair_target :: "db_block \<Rightarrow> ReceiptTarget" where
  "repair_target b =
     \<lparr>tNumber = bNumber b, tHash = bHash b, tTxCount = bTxCount b, tGasUsed = bGasUsed b, tTxHashes = [], tHashesKnown = False\<rparr>"

definition set_poster_gas :: "u64 \<Rightarrow> (u64 \<times> u64) list \<Rightarrow> MemStore \<Rightarrow> store_error + MemStore" where
  "set_poster_gas chainID gas m =
     (case SetPosterGas chainID gas m of (Some e, _) \<Rightarrow> Inl e | (None, m) \<Rightarrow> Inr m)"

definition repair_commit ::
  "u64 \<Rightarrow> u64 \<Rightarrow> (u64 \<times> u64) list \<Rightarrow> db_block list \<Rightarrow> posterGasCursor \<Rightarrow> MemStore \<Rightarrow> store_error + MemStore" where
  "repair_commit chainID gen gas repairable cursor =
     withGeneration chainID gen (\<lambda>m.
       bind_err (set_poster_gas chainID gas m) (\<lambda>m.
       bind_err (rebuild_rows chainID repairable m) (savePosterGasCursor chainID cursor)))"

type_synonym repair_outcome = "(RepairStatus \<times> store_error option) \<times> Follower \<times> MemStore"

definition save_repair :: "RepairStatus \<Rightarrow> u64 \<Rightarrow> posterGasCursor \<Rightarrow> Follower \<Rightarrow> MemStore \<Rightarrow> repair_outcome" where
  "save_repair status chainID c f m =
     (case savePosterGasCursor chainID c m of
        Inl e \<Rightarrow> ((status, Some e), f, m)
      | Inr m \<Rightarrow> ((status, None), f, m))"

definition repairFailed ::
  "u64 \<Rightarrow> posterGasCursor \<Rightarrow> db_block list \<Rightarrow> nitro_error \<Rightarrow> Follower \<Rightarrow> MemStore \<Rightarrow> repair_outcome" where
  "repairFailed chainID c targets e f m =
     (let first = bNumber (hd targets) in
      if 1 < length targets
      then ((RepairIdle, Some (RpcFailed e)), f\<lparr>fRepairNarrow := int (length targets div 2)\<rparr>, m)
      else
        let f = (if fRepairBlock f \<noteq> first then f\<lparr>fRepairBlock := first, fRepairAttempts := 0\<rparr> else f);
            f = f\<lparr>fRepairAttempts := fRepairAttempts f + 1\<rparr>
        in if fRepairAttempts f < maxRepairAttempts then ((RepairIdle, Some (RpcFailed e)), f, m)
           else save_repair RepairProgressed chainID
                  (c\<lparr>pgNext := first + 1,
                     pgSkipped := (if length (pgSkipped c) < maxRepairSkipped then pgSkipped c @ [first] else pgSkipped c)\<rparr>) f m)"

definition repairSwept :: "u64 \<Rightarrow> posterGasCursor \<Rightarrow> Follower \<Rightarrow> MemStore \<Rightarrow> repair_outcome" where
  "repairSwept chainID c f m =
     (if pgSkipped c = [] \<or> maxRepairSweeps \<le> pgSweeps c + 1
      then save_repair RepairNone chainID (c\<lparr>pgDone := True\<rparr>) f m
      else save_repair RepairProgressed chainID
             (c\<lparr>pgNext := Min (set (pgSkipped c)), pgSkipped := [], pgSweeps := pgSweeps c + 1\<rparr>) (widenRepair f) m)"

definition repair_batch ::
  "follower_config \<Rightarrow> RPC \<Rightarrow> u64 \<Rightarrow> gotime \<Rightarrow> posterGasCursor \<Rightarrow> db_block list \<Rightarrow> Follower \<Rightarrow> MemStore \<Rightarrow> repair_outcome" where
  "repair_batch cfg rpc gen boundary c rows f m =
     (case pruneFrontier (cfChainID cfg) m of
        Inl e \<Rightarrow> ((RepairIdle, Some e), f, m)
      | Inr frontier \<Rightarrow>
          let repairable = repairable_rows boundary frontier rows;
              next = c\<lparr>pgNext := bNumber (last rows) + 1\<rparr>
          in if repairable = [] then save_repair RepairProgressed (cfChainID cfg) next f m
             else
               (case PosterGasByNumbers rpc (map repair_target repairable) of
                  Inl e \<Rightarrow> repairFailed (cfChainID cfg) c repairable e f m
                | Inr gas \<Rightarrow>
                    (case repair_commit (cfChainID cfg) gen gas repairable next m of
                       Inl e \<Rightarrow> ((RepairIdle, Some e), widenRepair f, m)
                     | Inr m \<Rightarrow> ((RepairProgressed, None), widenRepair f, m))))"

definition repairStep :: "follower_config \<Rightarrow> RPC \<Rightarrow> Follower \<Rightarrow> MemStore \<Rightarrow> repair_outcome" where
  "repairStep cfg rpc f m =
     (let chainID = cfChainID cfg; stop = (\<lambda>e. ((RepairIdle, Some e), f, m)) in
      case generation chainID m of
        Inl e \<Rightarrow> stop e
      | Inr gen \<Rightarrow>
          (case loadPosterGasCursorFrom chainID m of
             Inl e \<Rightarrow> stop e
           | Inr c \<Rightarrow>
               if pgDone c then ((RepairNone, None), f, m)
               else
                 (case boundaryLocked f of
                    None \<Rightarrow> ((RepairNone, None), f, m)
                  | Some boundary \<Rightarrow>
                      (case repairMustWait cfg f of
                         (True, f) \<Rightarrow> ((RepairIdle, None), f, m)
                       | (False, f) \<Rightarrow>
                           (case BlocksMissingPosterGas chainID (pgNext c)
                                   (nat (repairBatchFor cfg (Available_calls rpc) (fRepairNarrow f))) m of
                              Inl e \<Rightarrow> ((RepairIdle, Some e), f, m)
                            | Inr rows \<Rightarrow>
                                if rows = [] then repairSwept chainID c f m
                                else repair_batch cfg rpc gen boundary c rows f m)))))"

definition RepairStep :: "follower_config \<Rightarrow> RPC \<Rightarrow> Follower \<Rightarrow> MemStore \<Rightarrow> repair_outcome" where
  "RepairStep cfg rpc f m =
     (case repairStep cfg rpc f m of
        ((status, Some (StaleGeneration g cur)), f, m) \<Rightarrow> ((RepairIdle, None), f, m)
      | out \<Rightarrow> out)"

section \<open>The epoch of the reconstructed history\<close>

definition historyEpoch :: "u64 \<Rightarrow> MemStore \<Rightarrow> store_error + i64" where
  "historyEpoch chainID m =
     bind_err (GetState chainID StateHistoryEpoch m) (\<lambda>v.
       Inr (case v of
              Some (StateText raw) \<Rightarrow> (case Atoi raw of None \<Rightarrow> 0 | Some e \<Rightarrow> e)
            | _ \<Rightarrow> 0))"

text \<open>The flag says that this writer rebuilt the history.\<close>

definition history_tx ::
  "follower_config \<Rightarrow> gotime \<Rightarrow> gotime option \<Rightarrow> MemStore \<Rightarrow> store_error + (bool \<times> MemStore)" where
  "history_tx cfg now boundary =
     (let c = cfChainID cfg; want = cfHistoryEpoch cfg in
      chain_WithChainTx c None (\<lambda>_ m.
        bind_err (historyEpoch c m) (\<lambda>current.
          if want \<le> current then Inr (False, m)
          else
            bind_err (bumpGeneration c m) (\<lambda>m.
            bind_err (case boundary of None \<Rightarrow> Inr (0, m) | Some t \<Rightarrow> DeleteBucketsBefore c t m) (\<lambda>(deleted, m).
            bind_err (saveCursor c no_cursor m) (\<lambda>m.
            bind_err (delete_states c [StateOwnerScanOrigin, StateOwnerLogCursor, StateOwnerScanThrough] m) (\<lambda>m.
            bind_err (on_ranges c (resetHistoryHoles c now (0 < deleted)) m) (\<lambda>m.
            bind_err (SetState c StateHistoryEpoch (StateText (big_String want)) m) (\<lambda>m. Inr (True, m))))))))))"

definition applyHistoryEpochLocked ::
  "follower_config \<Rightarrow> gotime \<Rightarrow> Follower \<Rightarrow> MemStore \<Rightarrow> store_error + (Follower \<times> MemStore)" where
  "applyHistoryEpochLocked cfg now f m =
     (if cfHistoryEpoch cfg \<le> 0 then Inr (f, m)
      else bind_err (historyEpoch (cfChainID cfg) m) (\<lambda>have_epoch.
             if cfHistoryEpoch cfg \<le> have_epoch then Inr (f, m)
             else bind_err (history_tx cfg now (boundaryLocked f) m) (\<lambda>(rebuilt, m).
                    Inr (if rebuilt then f\<lparr>fScanOrigin := None, fOwnerScanThrough := 0\<rparr> else f, m))))"

end
