(* ===== verification/Tick.thy ===== *)
theory Tick
  imports Upkeep
begin

text \<open>
  The live loop (\<open>tick.go\<close>, with the owner actions it records from \<open>slow.go\<close>): one tick samples the
  head, fetches the headers after the stored one, rewinds a reorg, replays and writes everything in one
  transaction, and publishes it once that has committed.

  Block numbers stay below \<open>2 ^ 64 - 100000\<close>, so the counters of the loops over them do not wrap.
\<close>

section \<open>Owner actions\<close>

definition ownerLogChunk :: nat where
  "ownerLogChunk = 100000"

definition genesisBlockLimit :: u64 where
  "genesisBlockLimit = 1000"

definition SourceGenesis :: string where "SourceGenesis = ''genesis''"
definition SourceOwnerAction :: string where "SourceOwnerAction = ''owner_action''"

definition ChannelLive :: string where "ChannelLive = ''gascurve_live''"
definition ChannelOwnerAction :: string where "ChannelOwnerAction = ''gascurve_owner_action''"

definition decode_action :: "(bytes \<Rightarrow> bytes) \<Rightarrow> RPC \<Rightarrow> Log \<Rightarrow> nitro_error + OwnerAction" where
  "decode_action keccak rpc l =
     bind_err (DecodeOwnerActs keccak l) (\<lambda>a.
       if oaTimestamp a = 0
       then bind_err (HeaderByNumber rpc (oaBlockNumber a)) (\<lambda>h. Inr (a\<lparr>oaTimestamp := hTimestamp h\<rparr>))
       else Inr a)"

definition fetchOwnerActions :: "(bytes \<Rightarrow> bytes) \<Rightarrow> RPC \<Rightarrow> u64 \<Rightarrow> u64 \<Rightarrow> nitro_error + OwnerAction list" where
  "fetchOwnerActions keccak rpc from to = bind_err (OwnerActsLogs rpc from to) (each_err (decode_action keccak rpc))"

text \<open>The ranges of at most \<open>width\<close> blocks that cover \<open>[from, to]\<close>.\<close>

definition chunks :: "nat \<Rightarrow> u64 \<Rightarrow> u64 \<Rightarrow> (u64 \<times> u64) list" where
  "chunks width from to =
     (if to < from then []
      else map (\<lambda>i. let start = unat from + width * i in (of_nat start, of_nat (min (start + width - 1) (unat to))))
             [0..<(unat to - unat from) div width + 1])"

definition fetchOwnerRange :: "(bytes \<Rightarrow> bytes) \<Rightarrow> RPC \<Rightarrow> u64 \<Rightarrow> u64 \<Rightarrow> nitro_error + OwnerAction list" where
  "fetchOwnerRange keccak rpc from to =
     map_sum id concat (each_err (\<lambda>(a, b). fetchOwnerActions keccak rpc a b) (chunks ownerLogChunk from to))"

definition action_row :: "u64 \<Rightarrow> OwnerAction \<Rightarrow> db_OwnerAction" where
  "action_row chainID a =
     \<lparr>doChainID = chainID, doBlockNumber = oaBlockNumber a, doTxHash = oaTxHash a,
      doTxIndex = Some (i64_of_u64 (oaTxIndex a)), doLogIndex = i64_of_u64 (oaLogIndex a),
      doTS = unix_time (i64_of_u64 (oaTimestamp a)), doMethod = oaMethod a, doSelector = oaSelector a, doArgs = oaArgs a\<rparr>"

text \<open>The constraints an action carries; an action without any has none.\<close>

definition action_constraints :: "OwnerAction \<Rightarrow> ConstraintParam list option" where
  "action_constraints a = (case oaArgs a ''constraints'' of Some (AConstraints cs) \<Rightarrow> Some cs | _ \<Rightarrow> None)"

definition observedToReplace ::
  "ConstraintSet list \<Rightarrow> u64 \<Rightarrow> string \<Rightarrow> ConstraintSetEntry list \<Rightarrow> ConstraintSet option" where
  "observedToReplace sets block source entries =
     (if \<exists>cs\<in>set sets. csEffectiveBlock cs = block \<and> csSource cs = source then None
      else case List.find (\<lambda>cs. block \<le> csEffectiveBlock cs) sets of
             None \<Rightarrow> None
           | Some first \<Rightarrow>
               if csSource first \<noteq> SourceObserved then None
               else case csConstraints first of
                      None \<Rightarrow> None
                    | Some have_entries \<Rightarrow> if sameSets have_entries entries then Some first else None)"

definition record_set :: "u64 \<Rightarrow> OwnerAction \<Rightarrow> MemStore \<Rightarrow> store_error + MemStore" where
  "record_set chainID a m =
     (case action_constraints a of
        None \<Rightarrow> Inr m
      | Some cs \<Rightarrow>
          let entries = entriesOf cs;
              source = (if oaBlockNumber a \<le> genesisBlockLimit then SourceGenesis else SourceOwnerAction);
              row = \<lparr>csID = 0, csChainID = chainID, csEffectiveBlock = oaBlockNumber a,
                     csEffectiveAt = unix_time (i64_of_u64 (oaTimestamp a)), csConstraints = Some entries, csSource = source\<rparr>
          in bind_err (mem_ConstraintSets chainID m) (\<lambda>sets.
               case observedToReplace sets (oaBlockNumber a) source entries of
                 Some old \<Rightarrow> UpdateConstraintSet (row\<lparr>csID := csID old\<rparr>) m
               | None \<Rightarrow> bind_err (InsertConstraintSet row m) (\<lambda>(i, m). Inr m)))"

definition recordAction :: "u64 \<Rightarrow> OwnerAction \<Rightarrow> MemStore \<Rightarrow> store_error + (bool \<times> MemStore)" where
  "recordAction chainID a m =
     bind_err (InsertOwnerActions [action_row chainID a] m) (\<lambda>(n, m).
       if n = 0 then Inr (False, m)
       else bind_err (record_set chainID a m) (\<lambda>m.
            bind_err (Notify ChannelOwnerAction (ActionPayload (action_row chainID a)) m) (\<lambda>m. Inr (True, m))))"

fun storeOwnerActions :: "u64 \<Rightarrow> OwnerAction list \<Rightarrow> MemStore \<Rightarrow> store_error + (bool \<times> MemStore)" where
  "storeOwnerActions chainID [] m = Inr (False, m)"
| "storeOwnerActions chainID (a # as) m =
     bind_err (recordAction chainID a m) (\<lambda>(c, m).
     bind_err (storeOwnerActions chainID as m) (\<lambda>(c', m). Inr (c \<or> c', m)))"

section \<open>The snapshot\<close>

definition FidelityUnknown :: string where "FidelityUnknown = ''unknown''"
definition FidelityVerified :: string where "FidelityVerified = ''verified''"
definition FidelityBoundary :: string where "FidelityBoundary = ''boundary''"
definition FidelityUnverified :: string where "FidelityUnverified = ''unverified''"

definition ReplayFidelity :: "u64 option \<Rightarrow> u64 option \<Rightarrow> (u64 \<Rightarrow> u64 \<Rightarrow> bool) \<Rightarrow> string" where
  "ReplayFidelity minVersion maxVersion verified =
     (case (minVersion, maxVersion) of
        (Some low, Some high) \<Rightarrow>
          if verified low high then FidelityVerified
          else if low \<noteq> high then FidelityBoundary else FidelityUnverified
      | _ \<Rightarrow> FidelityUnknown)"

definition liveArbOSVersion :: "Header \<Rightarrow> u64 option" where
  "liveArbOSVersion h = (if HasArbOSVersion h then Some (hArbOSVersion h) else None)"

definition liveFidelity :: "Header \<Rightarrow> Model \<Rightarrow> string" where
  "liveFidelity h mdl = ReplayFidelity (liveArbOSVersion h) (liveArbOSVersion h) (VerifiedRange mdl)"

text \<open>The documents the slow loop left for the tick, the rendered rate estimate and the pool's error.\<close>

record tick_docs =
  tdL1 :: "string option"
  tdAccounts :: "string option"
  tdEthUsd :: "string option"
  tdIncludeSlow :: bool
  tdEndpointError :: string
  tdCapacity :: string

definition snapshot_head :: "u64 \<Rightarrow> Sample \<Rightarrow> i64 \<Rightarrow> tick_docs \<Rightarrow> LiveSnapshot" where
  "snapshot_head chainID sample replayErrorBips docs =
     (let h = smHeader sample; legacy = sample_IsLegacy sample in
      \<lparr>lvChainID = chainID, lvSampledAt = RFC3339 (smSampledAt sample), lvNumber = hNumber h, lvTS = hTimestamp h,
       lvGasUsed = hGasUsed h, lvPosterGas = hPosterGas h, lvBaseFee = big_String (hBaseFee h), lvTxCount = hTxCount h,
       lvMinBaseFee = big_String (smMinBaseFee sample),
       lvMultiplierBips = multiplierBips (Some (hBaseFee h)) (Some (smMinBaseFee sample)),
       lvExponentBips = 0, lvLegacyModel = legacy, lvConstraints = [],
       lvLegacy = (if legacy then smLegacy sample else None), lvPrices = smPrices sample,
       lvGasPerSecond = (0, 0), lvComputeGasPerSecond = (None, None), lvL1 = tdL1 docs, lvAccounts = tdAccounts docs,
       lvReplayErrorBips = replayErrorBips, lvArbOSVersion = liveArbOSVersion h,
       lvReplayFidelity = liveFidelity h (if legacy then ModelLegacy else ModelConstraints), lvEthUsd = tdEthUsd docs\<rparr>)"

definition buildSnapshot ::
  "u64 \<Rightarrow> Sample \<Rightarrow> i64 \<Rightarrow> u64 \<times> u64 \<Rightarrow> u64 option \<times> u64 option \<Rightarrow> tick_docs \<Rightarrow> LiveSnapshot" where
  "buildSnapshot chainID sample replayErrorBips gps computeGPS docs =
     (case Step (stateFromSample sample) 0 of
        (live, fee, exponent, per) \<Rightarrow>
          (snapshot_head chainID sample replayErrorBips docs)
            \<lparr>lvExponentBips := exponent,
             lvConstraints := map (\<lambda>(c, bips). \<lparr>mcTarget = ncTarget c, mcWindow = ncWindow c, mcBacklog = ncBacklog c, mcExponentBips = bips\<rparr>)
                                (zip (smConstraints sample) per),
             lvGasPerSecond := gps, lvComputeGasPerSecond := computeGPS\<rparr>)"

definition sampleRow :: "u64 \<Rightarrow> Sample \<Rightarrow> LiveSnapshot \<Rightarrow> bool \<Rightarrow> StateSample" where
  "sampleRow chainID sample snap includeSlow =
     \<lparr>ssChainID = chainID, ssSampledAt = smSampledAt sample, ssBlockNumber = hNumber (smHeader sample),
      ssBaseFee = hBaseFee (smHeader sample), ssMinBaseFee = smMinBaseFee sample,
      ssConstraints = Some (Some (lvConstraints snap)), ssLegacy = map_option Some (lvLegacy snap),
      ssPrices = lvPrices snap, ssL1 = (if includeSlow then lvL1 snap else None),
      ssAccounts = (if includeSlow then lvAccounts snap else None)\<rparr>"

section \<open>Writing a tick\<close>

definition entriesFromSample :: "Sample \<Rightarrow> ConstraintSetEntry list" where
  "entriesFromSample s = map (\<lambda>c. \<lparr>ceTarget = ncTarget c, ceWindow = ncWindow c, ceStartingBacklog = ncBacklog c\<rparr>) (smConstraints s)"

definition observedSetLocked :: "u64 \<Rightarrow> caches \<Rightarrow> Sample \<Rightarrow> OwnerAction list \<Rightarrow> ConstraintSet option" where
  "observedSetLocked chainID ch sample pending =
     (if sample_IsLegacy sample then None
      else
        let observed = Some \<lparr>csID = 0, csChainID = chainID, csEffectiveBlock = hNumber (smHeader sample),
              csEffectiveAt = unix_time (i64_of_u64 (hTimestamp (smHeader sample))),
              csConstraints = Some (entriesFromSample sample), csSource = SourceObserved\<rparr>;
            carried = List.map_filter action_constraints pending;
            check = (\<lambda>known. if map_option (\<lambda>latest. sameEntries latest (smConstraints sample)) known = Some True
                             then None else observed);
            latest = (\<lambda>known. if carried = [] then known else Some (entriesOf (last carried)))
        in if chSets ch = [] then check (latest None)
           else case csConstraints (last (chSets ch)) of
                  None \<Rightarrow> None
                | Some entries \<Rightarrow> check (latest (Some entries)))"

definition upsert_rebuild :: "u64 \<Rightarrow> db_block list \<Rightarrow> MemStore \<Rightarrow> store_error + MemStore" where
  "upsert_rebuild chainID rows m =
     (if rows = [] then Inr m else bind_err (UpsertBlocks rows m) (rebuild_rows chainID rows))"

definition gas_per_second :: "u64 \<Rightarrow> gotime \<Rightarrow> duration \<Rightarrow> u64 \<Rightarrow> MemStore \<Rightarrow> store_error + (u64 \<times> u64 option)" where
  "gas_per_second chainID headAt width seconds m =
     map_sum id (\<lambda>(total_gas, compute). (total_gas div seconds, map_option (\<lambda>v. v div seconds) compute))
       (GasBetween chainID (headAt - width) headAt m)"

definition record_sets :: "u64 \<Rightarrow> OwnerAction list \<Rightarrow> ConstraintSet option \<Rightarrow> MemStore \<Rightarrow> store_error + (bool \<times> MemStore)" where
  "record_sets chainID pending observed m =
     bind_err (storeOwnerActions chainID pending m) (\<lambda>(recorded, m).
       case observed of
         None \<Rightarrow> Inr (recorded, m)
       | Some cs \<Rightarrow> bind_err (InsertConstraintSet cs m) (\<lambda>(i, m). Inr (True, m)))"

definition write_head ::
  "u64 \<Rightarrow> Sample \<Rightarrow> LiveSnapshot \<Rightarrow> tick_docs \<Rightarrow> bool \<Rightarrow> MemStore \<Rightarrow> store_error + MemStore" where
  "write_head c sample snap docs first m =
     (let h = smHeader sample; headAt = unix_time (i64_of_u64 (hTimestamp h)) in
      bind_err (InsertStateSample (sampleRow c sample snap (tdIncludeSlow docs)) m) (\<lambda>m.
      bind_err (UpdateNetworkHead c (hNumber h) headAt (smSampledAt sample) m) (\<lambda>m.
      bind_err (if tdEndpointError docs = [] then Inr m else SetNetworkError c (tdEndpointError docs) m) (\<lambda>m.
      bind_err (SetState c StateHead (StateText (FormatUint (hNumber h))) m) (\<lambda>m.
      bind_err (SetState c StateRPCCapacity (StateText (tdCapacity docs)) m) (\<lambda>m.
        if first then saveLiveStart c \<lparr>lsBlock = hNumber h, lsTS = i64_of_u64 (hTimestamp h)\<rparr> m else Inr m))))))"

text \<open>
  The transaction of \<open>persist\<close>: whether the caches have to be reloaded, and the store.
\<close>

definition persist_body ::
  "follower_config \<Rightarrow> gotime \<Rightarrow> tick_docs \<Rightarrow> Sample \<Rightarrow> db_block list \<Rightarrow> hole option \<Rightarrow> OwnerAction list \<Rightarrow> Follower
     \<Rightarrow> MemStore \<Rightarrow> store_error + (bool \<times> MemStore)" where
  "persist_body cfg now docs sample rows h pending f m =
     (let c = cfChainID cfg; headAt = unix_time (i64_of_u64 (hTimestamp (smHeader sample)));
          replayError = headRowError rows (hNumber (smHeader sample)) (fLastErrBips f)
      in bind_err (record_sets c pending (observedSetLocked c (fCaches f) sample pending) m) (\<lambda>(reload, m).
         bind_err (upsert_rebuild c rows m) (\<lambda>m.
         bind_err (gas_per_second c headAt (10 * Second) 10 m) (\<lambda>(g10, c10).
         bind_err (gas_per_second c headAt (60 * Second) 60 m) (\<lambda>(g60, c60).
         let snap = buildSnapshot c sample replayError (g10, g60) (c10, c60) docs in
         bind_err (write_head c sample snap docs (fLiveStart f = None) m) (\<lambda>m.
         bind_err (case h of None \<Rightarrow> Inr m | Some r \<Rightarrow> on_ranges c (recordHole c now r) m) (\<lambda>m.
         bind_err (Notify ChannelLive (LivePayload snap) m) (\<lambda>m. Inr (reload, m)))))))))"

type_synonym tick_outcome = "store_error option \<times> Follower \<times> MemStore"

definition persist ::
  "follower_config \<Rightarrow> gotime \<Rightarrow> tick_docs \<Rightarrow> Sample \<Rightarrow> db_block list \<Rightarrow> hole option \<Rightarrow> OwnerAction list \<Rightarrow> Follower
     \<Rightarrow> MemStore \<Rightarrow> tick_outcome" where
  "persist cfg now docs sample rows h pending f m =
     (case chain_WithChainTx (cfChainID cfg) None (\<lambda>_. persist_body cfg now docs sample rows h pending f) m of
        Inl e \<Rightarrow> (Some e, f, m)
      | Inr (reload, m) \<Rightarrow>
          if reload
          then (case reloadSetsLocked (cfChainID cfg) m f of Inl e \<Rightarrow> (Some e, f, m) | Inr f \<Rightarrow> (None, f, m))
          else (None, f, m))"

text \<open>A published result without a prediction is \<open>None\<close>.\<close>

definition publish :: "Sample \<Rightarrow> State \<Rightarrow> Result option \<Rightarrow> i64 \<Rightarrow> Follower \<Rightarrow> Follower" where
  "publish sample st headResult errBips f =
     f\<lparr>fHead := hNumber (smHeader sample), fHeadHash := hHash (smHeader sample), fPrevTs := hTimestamp (smHeader sample),
       fState := Some st, fLastSample := Some sample, fLastResult := headResult, fLastErrBips := errBips,
       fLiveStart := (case fLiveStart f of
                        None \<Rightarrow> Some \<lparr>lsBlock = hNumber (smHeader sample), lsTS = i64_of_u64 (hTimestamp (smHeader sample))\<rparr>
                      | ls \<Rightarrow> ls)\<rparr>"

text \<open>\<open>fail\<close> records the error and reloads the head; \<open>cause\<close> renders the error.\<close>

definition fail_tick ::
  "follower_config \<Rightarrow> (store_error \<Rightarrow> string) \<Rightarrow> store_error \<Rightarrow> Follower \<Rightarrow> MemStore \<Rightarrow> tick_outcome" where
  "fail_tick cfg cause e f m =
     (let m = (case SetNetworkError (cfChainID cfg) (cause e) m of Inl e' \<Rightarrow> m | Inr m \<Rightarrow> m);
          f = (case reloadHeadLocked (cfChainID cfg) m f of Inl e' \<Rightarrow> f | Inr f \<Rightarrow> f)
      in (Some e, f, m))"

definition commit_tick ::
  "follower_config \<Rightarrow> gotime \<Rightarrow> (store_error \<Rightarrow> string) \<Rightarrow> tick_docs \<Rightarrow> Sample \<Rightarrow> db_block list \<Rightarrow> hole option
     \<Rightarrow> OwnerAction list \<Rightarrow> State \<Rightarrow> Result option \<Rightarrow> Follower \<Rightarrow> MemStore \<Rightarrow> tick_outcome" where
  "commit_tick cfg now cause docs sample rows h pending st headResult f m =
     (case persist cfg now docs sample rows h pending f m of
        (Some e, f, m) \<Rightarrow> fail_tick cfg cause e f m
      | (None, f, m) \<Rightarrow>
          (None, publish sample st headResult (headRowError rows (hNumber (smHeader sample)) (fLastErrBips f)) f, m))"

section \<open>Replaying up to the head\<close>

definition seed_rows :: "u64 \<Rightarrow> Sample \<Rightarrow> (db_block list \<times> Result) option" where
  "seed_rows chainID sample =
     (let st = stateFromSample sample; hdr = smHeader sample;
          start = SetBacklogs st (map (\<lambda>b. SaturatingUSub b (ComputeGas hdr)) (Backlogs st))
      in case Replay start 0 [\<lparr>pbNumber = hNumber hdr, pbTimestamp = hTimestamp hdr, pbGasUsed = ComputeGas hdr\<rparr>]
                (Some (\<lambda>_. Some (sampleBacklogs sample))) of
           (_, r # _) \<Rightarrow>
             Some (fst (shiftPredictions (blockRows chainID [hdr] [r] (\<lambda>_. MinBaseFee st)) noPrediction), r)
         | (_, []) \<Rightarrow> None)"

definition seed ::
  "follower_config \<Rightarrow> gotime \<Rightarrow> (store_error \<Rightarrow> string) \<Rightarrow> tick_docs \<Rightarrow> Sample \<Rightarrow> hole option \<Rightarrow> OwnerAction list
     \<Rightarrow> Follower \<Rightarrow> MemStore \<Rightarrow> tick_outcome" where
  "seed cfg now cause docs sample h pending f m =
     (case seed_rows (cfChainID cfg) sample of
        None \<Rightarrow> (None, f, m)
      | Some (rows, r) \<Rightarrow> commit_tick cfg now cause docs sample rows h pending (stateFromSample sample) (Some r) f m)"

text \<open>
  The state the replay of the missing headers starts from, with the time of the block before them.
\<close>

definition stored_floor :: "timeline \<Rightarrow> db_block \<Rightarrow> Sample \<Rightarrow> bigint" where
  "stored_floor tml stored sample =
     (if feeChangesInBlock tml (bNumber stored) then minFeeAfter tml (bNumber stored)
      else if minFeeChangeBlock tml (bNumber stored) = 0 then smMinBaseFee sample
      else case bMinBaseFee stored of
             Some fee \<Rightarrow> if 0 < fee then fee else minFeeAt tml (bNumber stored)
           | None \<Rightarrow> minFeeAt tml (bNumber stored))"

definition replayStateLocked :: "u64 \<Rightarrow> Follower \<Rightarrow> MemStore \<Rightarrow> Sample \<Rightarrow> store_error + (State \<times> u64) option" where
  "replayStateLocked chainID f m sample =
     (case fState f of
        Some st \<Rightarrow> Inr (Some (Clone st, fPrevTs f))
      | None \<Rightarrow>
          if fHead f = 0 then Inr None
          else bind_err (BlockByNumber chainID (fHead f) m) (\<lambda>row.
                 case row of
                   None \<Rightarrow> Inr None
                 | Some b \<Rightarrow>
                     (case stateAtLocked (fCaches f) (fScanOrigin f) (bNumber b) sample of
                        None \<Rightarrow> Inr None
                      | Some st \<Rightarrow>
                          if length (Backlogs st) \<noteq> length (bBacklogs b) then Inr None
                          else Inr (Some ((SetBacklogs st (bBacklogs b))
                                 \<lparr>MinBaseFee := Some (stored_floor (timelineLocked (fCaches f) (fScanOrigin f) []) b sample)\<rparr>,
                                 u64_of_i64 (Unix (bTS b)))))))"

definition skipped_hole :: "u64 \<Rightarrow> u64 \<Rightarrow> string \<Rightarrow> string \<Rightarrow> string \<Rightarrow> string \<Rightarrow> hole" where
  "skipped_hole from to lifecycle reason predecessor successor =
     \<lparr>From = from, To = to, At = [], Lifecycle = lifecycle, Next = 0, State = None, Folded = 0, Reason = reason,
      RetryCount = 0, LastAttemptAt = [], NextRetryAt = [], LastError = [], PredecessorAt = predecessor,
      SuccessorAt = successor, CursorAt = []\<rparr>"

definition process_replay ::
  "follower_config \<Rightarrow> gotime \<Rightarrow> RPC \<Rightarrow> (store_error \<Rightarrow> string) \<Rightarrow> tick_docs \<Rightarrow> Sample \<Rightarrow> Header list \<Rightarrow> State \<Rightarrow> u64
     \<Rightarrow> OwnerAction list \<Rightarrow> Follower \<Rightarrow> MemStore \<Rightarrow> tick_outcome" where
  "process_replay cfg now rpc cause docs sample headers st prevTs pending f m =
     (let c = cfChainID cfg; head = hNumber (smHeader sample); first = hNumber (hd headers);
          successor = timestampString (hTimestamp (smHeader sample));
          tml = timelineLocked (fCaches f) (fScanOrigin f) pending
      in case unsupportedModel (Some st) headers of
           Some _ \<Rightarrow>
             seed cfg now cause docs sample
               (if first < head then Some (skipped_hole first (head - 1) rangeBlocked reasonUnsupportedModel [] successor) else None)
               pending f m
         | None \<Rightarrow>
             (case resolveActionBlocks (TransactionReceipts rpc) headers tml of
                Inl e \<Rightarrow> fail_tick cfg cause (Refused e) f m
              | Inr actions \<Rightarrow>
                  (case replayLive c st prevTs headers sample tml actions of
                     (st, None) \<Rightarrow>
                       seed cfg now cause docs sample
                         (Some (skipped_hole first (head - 1) rangePending reasonReplayDiscontinuity (timestampString prevTs) successor))
                         pending f m
                   | (st, Some (rows, results)) \<Rightarrow>
                       commit_tick cfg now cause docs sample
                         (fst (shiftPredictions rows (carryLocked (fLastResult f) (fHead f) first)))
                         None pending st (Some (last results)) f m)))"

definition process ::
  "(bytes \<Rightarrow> bytes) \<Rightarrow> follower_config \<Rightarrow> gotime \<Rightarrow> RPC \<Rightarrow> (store_error \<Rightarrow> string) \<Rightarrow> tick_docs \<Rightarrow> Sample \<Rightarrow> Header list
     \<Rightarrow> Follower \<Rightarrow> MemStore \<Rightarrow> tick_outcome" where
  "process keccak cfg now rpc cause docs sample headers f m =
     (let head = hNumber (smHeader sample); first = hNumber (hd headers) in
      case replayStateLocked (cfChainID cfg) f m sample of
        Inl e \<Rightarrow> fail_tick cfg cause e f m
      | Inr None \<Rightarrow>
          seed cfg now cause docs sample
            (Some (skipped_hole first (head - 1) rangeBlocked reasonNoState [] (timestampString (hTimestamp (smHeader sample)))))
            [] f m
      | Inr (Some (st, prevTs)) \<Rightarrow>
          (case fetchOwnerActions keccak rpc first head of
             Inl e \<Rightarrow> fail_tick cfg cause (RpcFailed e) f m
           | Inr pending \<Rightarrow> process_replay cfg now rpc cause docs sample headers st prevTs pending f m))"

text \<open>A tick without a new block: the replay state is anchored again.\<close>

definition sample_state :: "State option \<Rightarrow> Sample \<Rightarrow> State" where
  "sample_state st sample =
     (case st of
        Some s \<Rightarrow>
          if sameShape (Some (Clone s)) sample
          then (SetBacklogs (Clone s) (sampleBacklogs sample))\<lparr>MinBaseFee := Some (smMinBaseFee sample)\<rparr>
          else stateFromSample sample
      | None \<Rightarrow> stateFromSample sample)"

definition sampleOnly ::
  "follower_config \<Rightarrow> gotime \<Rightarrow> (store_error \<Rightarrow> string) \<Rightarrow> tick_docs \<Rightarrow> Sample \<Rightarrow> Follower \<Rightarrow> MemStore \<Rightarrow> tick_outcome" where
  "sampleOnly cfg now cause docs sample f m =
     commit_tick cfg now cause docs sample [] None [] (sample_state (fState f) sample)
       (fLastResult f) f m"

section \<open>Catching up\<close>

text \<open>
  The headers of a range in batches; \<open>recheck\<close> answers before every batch after the first whether the
  fetch is to be given up.
\<close>

fun fetch_batches ::
  "RPC \<Rightarrow> (u64 \<Rightarrow> bool) \<Rightarrow> bool \<Rightarrow> (u64 \<times> u64) list \<Rightarrow> nitro_error + Header list option" where
  "fetch_batches rpc recheck first [] = Inr (Some [])"
| "fetch_batches rpc recheck first ((start, stop) # ranges) =
     (if \<not> first \<and> recheck start then Inr None
      else bind_err (HeadersByNumbers rpc (map of_nat [unat start..<Suc (unat stop)])) (\<lambda>hs.
           bind_err (fetch_batches rpc recheck False ranges) (\<lambda>rest. Inr (map_option (append hs) rest))))"

definition fetchHeaders :: "follower_config \<Rightarrow> RPC \<Rightarrow> (u64 \<Rightarrow> bool) \<Rightarrow> u64 \<Rightarrow> u64 \<Rightarrow> nitro_error + Header list option" where
  "fetchHeaders cfg rpc recheck from to = fetch_batches rpc recheck True (chunks (nat (cfHeaderBatchSize cfg)) from to)"

text \<open>
  The headers after the stored block, or the outcome of a tick that skipped the gap. \<open>unlimited\<close> is the
  policy of the endpoint, \<open>paced\<close> whether a batch finds it replaced by one that is not.
\<close>

datatype catch_up = CaughtUp "Header list" | SkippedTo tick_outcome | CatchUpFailed store_error

definition skip_gap ::
  "(bytes \<Rightarrow> bytes) \<Rightarrow> follower_config \<Rightarrow> gotime \<Rightarrow> RPC \<Rightarrow> (store_error \<Rightarrow> string) \<Rightarrow> tick_docs \<Rightarrow> Sample \<Rightarrow> u64
     \<Rightarrow> Follower \<Rightarrow> MemStore \<Rightarrow> catch_up" where
  "skip_gap keccak cfg now rpc cause docs sample from f m =
     (let head = hNumber (smHeader sample) in
      case fetchOwnerRange keccak rpc from head of
        Inl e \<Rightarrow> CatchUpFailed (RpcFailed e)
      | Inr pending \<Rightarrow>
          SkippedTo (seed cfg now cause docs sample
            (Some (skipped_hole from (head - 1) rangePending reasonCatchUpLimit (timestampString (fPrevTs f))
                     (timestampString (hTimestamp (smHeader sample))))) pending f m))"

definition catchUp ::
  "(bytes \<Rightarrow> bytes) \<Rightarrow> follower_config \<Rightarrow> gotime \<Rightarrow> RPC \<Rightarrow> (store_error \<Rightarrow> string) \<Rightarrow> tick_docs \<Rightarrow> bool \<Rightarrow> (u64 \<Rightarrow> bool)
     \<Rightarrow> Sample \<Rightarrow> u64 \<Rightarrow> Follower \<Rightarrow> MemStore \<Rightarrow> catch_up" where
  "catchUp keccak cfg now rpc cause docs unlimited paced sample stored f m =
     (let head = hNumber (smHeader sample); from = stored + 1; gap = head - stored;
          maxGap = of_int (cfHeaderBatchSize cfg) * of_int (cfMaxCatchUpBatches cfg);
          skip = skip_gap keccak cfg now rpc cause docs sample from f m
      in if stored = 0 then SkippedTo (seed cfg now cause docs sample None [] f m)
         else if \<not> unlimited \<and> maxGap < gap then skip
         else case fetchHeaders cfg rpc (\<lambda>start. paced start \<and> \<not> gap \<le> maxGap) from (head - 1) of
                Inl e \<Rightarrow> CatchUpFailed (RpcFailed e)
              | Inr None \<Rightarrow> skip
              | Inr (Some headers) \<Rightarrow> CaughtUp (headers @ [smHeader sample]))"

section \<open>The tick\<close>

definition with_headers ::
  "(bytes \<Rightarrow> bytes) \<Rightarrow> follower_config \<Rightarrow> gotime \<Rightarrow> RPC \<Rightarrow> (store_error \<Rightarrow> string) \<Rightarrow> tick_docs \<Rightarrow> Sample \<Rightarrow> Header list
     \<Rightarrow> Follower \<Rightarrow> MemStore \<Rightarrow> tick_outcome" where
  "with_headers keccak cfg now rpc cause docs sample headers f m =
     (case verifyChain headers of
        Inl e \<Rightarrow> fail_tick cfg cause (Refused e) f m
      | Inr u \<Rightarrow> process keccak cfg now rpc cause docs sample headers f m)"

text \<open>The flag of the rewinding tick is lowered when it returns.\<close>

definition rewinding :: "bool \<Rightarrow> Follower \<Rightarrow> Follower" where
  "rewinding b f = f\<lparr>fRewinding := b\<rparr>"

definition after_rewind :: "tick_outcome \<Rightarrow> tick_outcome" where
  "after_rewind out = (case out of (e, f, m) \<Rightarrow> (e, rewinding False f, m))"

text \<open>A seed that failed has reported its error once; the tick reports it again.\<close>

definition skipped_tick :: "follower_config \<Rightarrow> (store_error \<Rightarrow> string) \<Rightarrow> tick_outcome \<Rightarrow> tick_outcome" where
  "skipped_tick cfg cause out =
     (case out of (Some e, f, m) \<Rightarrow> fail_tick cfg cause e f m | (None, f, m) \<Rightarrow> (None, f, m))"

definition catch_up_tick ::
  "(bytes \<Rightarrow> bytes) \<Rightarrow> follower_config \<Rightarrow> gotime \<Rightarrow> RPC \<Rightarrow> (store_error \<Rightarrow> string) \<Rightarrow> tick_docs \<Rightarrow> bool \<Rightarrow> (u64 \<Rightarrow> bool)
     \<Rightarrow> Sample \<Rightarrow> u64 \<Rightarrow> Follower \<Rightarrow> MemStore \<Rightarrow> tick_outcome" where
  "catch_up_tick keccak cfg now rpc cause docs unlimited paced sample stored f m =
     (case catchUp keccak cfg now rpc cause docs unlimited paced sample stored f m of
        CatchUpFailed e \<Rightarrow> fail_tick cfg cause e f m
      | SkippedTo out \<Rightarrow> skipped_tick cfg cause out
      | CaughtUp headers \<Rightarrow>
          if hashMismatch (headHashOf f stored) (hParentHash (hd headers))
          then after_rewind
                 (case rewindToAncestor cfg now rpc (stored - 1) (rewinding True f) m of
                    (Inl e, f, m) \<Rightarrow> fail_tick cfg cause e f m
                  | (Inr ancestor, f, m) \<Rightarrow>
                      (case catchUp keccak cfg now rpc cause docs unlimited paced sample ancestor f m of
                         CatchUpFailed e \<Rightarrow> fail_tick cfg cause e f m
                       | SkippedTo out \<Rightarrow> skipped_tick cfg cause out
                       | CaughtUp headers \<Rightarrow> with_headers keccak cfg now rpc cause docs sample headers f m))
          else with_headers keccak cfg now rpc cause docs sample headers f m)"

definition headBehind ::
  "follower_config \<Rightarrow> gotime \<Rightarrow> RPC \<Rightarrow> (store_error \<Rightarrow> string) \<Rightarrow> Sample \<Rightarrow> Follower \<Rightarrow> MemStore \<Rightarrow> tick_outcome" where
  "headBehind cfg now rpc cause sample f m =
     (let head = hNumber (smHeader sample) in
      case BlockByNumber (cfChainID cfg) head m of
        Inl e \<Rightarrow> fail_tick cfg cause e f m
      | Inr None \<Rightarrow> (None, f, m)
      | Inr (Some row) \<Rightarrow>
          if \<not> hashMismatch (bHash row) (hHash (smHeader sample)) then (None, f, m)
          else after_rewind
                 (case rewindToAncestor cfg now rpc head (rewinding True f) m of
                    (Inl e, f, m) \<Rightarrow> fail_tick cfg cause e f m
                  | (Inr ancestor, f, m) \<Rightarrow> (None, f, m)))"

text \<open>\<open>tickWith\<close> once the follower is initialized; the sample is the answer of the fast lane.\<close>

definition tick_at_head ::
  "(bytes \<Rightarrow> bytes) \<Rightarrow> follower_config \<Rightarrow> gotime \<Rightarrow> RPC \<Rightarrow> (store_error \<Rightarrow> string) \<Rightarrow> tick_docs \<Rightarrow> bool \<Rightarrow> (u64 \<Rightarrow> bool)
     \<Rightarrow> Sample \<Rightarrow> Follower \<Rightarrow> MemStore \<Rightarrow> tick_outcome" where
  "tick_at_head keccak cfg now rpc cause docs unlimited paced sample f m =
     (let head = hNumber (smHeader sample); stored = fHead f;
          f = (if stored \<le> head then f\<lparr>fBehind := head - stored\<rparr> else f)
      in if stored = 0 then seed cfg now cause docs sample None [] f m
         else if head < stored then headBehind cfg now rpc cause sample f m
         else if head = stored \<and> \<not> hashMismatch (fHeadHash f) (hHash (smHeader sample))
         then sampleOnly cfg now cause docs sample f m
         else if head = stored
         then after_rewind
                (case rewindToAncestor cfg now rpc (stored - 1) (rewinding True f) m of
                   (Inl e, f, m) \<Rightarrow> fail_tick cfg cause e f m
                 | (Inr ancestor, f, m) \<Rightarrow>
                     catch_up_tick keccak cfg now rpc cause docs unlimited paced sample ancestor f m)
         else catch_up_tick keccak cfg now rpc cause docs unlimited paced sample stored f m)"

definition tickWith ::
  "(bytes \<Rightarrow> bytes) \<Rightarrow> follower_config \<Rightarrow> gotime \<Rightarrow> RPC \<Rightarrow> (store_error \<Rightarrow> string) \<Rightarrow> tick_docs \<Rightarrow> bool \<Rightarrow> (u64 \<Rightarrow> bool)
     \<Rightarrow> nitro_error + Sample \<Rightarrow> Follower \<Rightarrow> MemStore \<Rightarrow> tick_outcome" where
  "tickWith keccak cfg now rpc cause docs unlimited paced sampled f m =
     (case sampled of
        Inl e \<Rightarrow> fail_tick cfg cause (RpcFailed e) f m
      | Inr sample \<Rightarrow>
          (case tick_at_head keccak cfg now rpc cause docs unlimited paced sample f m of
             (None, f, m) \<Rightarrow> (None, f\<lparr>fBehind := 0\<rparr>, m)
           | out \<Rightarrow> out))"

end
