(* ===== verification/Backfill.thy ===== *)
theory Backfill
  imports Tick
begin

text \<open>
  The backfill (\<open>backfill.go\<close>): the floor it walks down to, the run it replays next, the search for the
  block at a time, the replay of one batch split at the recorded changes and anchored at archive state,
  and the commit of its rows.
\<close>

datatype BackfillStatus = BackfillProgressed | BackfillIdle | BackfillDone

type_synonym backfill_outcome = "(BackfillStatus \<times> store_error option) \<times> Follower \<times> MemStore"

section \<open>The floor\<close>

definition carry :: "backfillCursor \<Rightarrow> prediction" where
  "carry c = decodeCarry (bfPendingFee c) (bfPendingExponent c) (bfPendingBips c)"

definition setCarry :: "prediction \<Rightarrow> backfillCursor \<Rightarrow> backfillCursor" where
  "setCarry p c =
     (case encode_prediction p of
        (fee, exponent, bips) \<Rightarrow> c\<lparr>bfPendingFee := fee, bfPendingExponent := exponent, bfPendingBips := bips\<rparr>)"

definition cursorFloor :: "backfillCursor \<Rightarrow> u64" where
  "cursorFloor c = (if bfActive c \<and> 0 < bfSegStart c then bfSegStart c else bfEnd c)"

definition heldFloor :: "Follower \<Rightarrow> backfillCursor \<Rightarrow> u64" where
  "heldFloor f c =
     (if 0 < cursorFloor c then cursorFloor c
      else if 0 < bfDepthTarget c then 0
      else case fLiveStart f of None \<Rightarrow> 0 | Some ls \<Rightarrow> lsBlock ls)"

definition holdDepthTarget :: "Follower \<Rightarrow> backfillCursor \<Rightarrow> backfillCursor" where
  "holdDepthTarget f c =
     (let floor = heldFloor f c in if bfDepthTarget c < floor then c\<lparr>bfDepthTarget := floor\<rparr> else c)"

definition historyReady :: "Follower \<Rightarrow> bool" where
  "historyReady f \<longleftrightarrow>
     0 < fOwnerScanThrough f
     \<and> (case fLiveStart f of None \<Rightarrow> False | Some ls \<Rightarrow> lsBlock ls \<le> fOwnerScanThrough f + 1)"

section \<open>The block at a time\<close>

definition maxHistoryDepth :: duration where
  "maxHistoryDepth = 100 * 365 * 24 * 3600 * Second"

definition historyDepth :: "duration \<Rightarrow> duration" where
  "historyDepth d = (if d \<le> 0 then 0 else if maxHistoryDepth < d then maxHistoryDepth else d)"

lemma search_mid:
  assumes "lo < (hi :: u64)"
  shows "unat (lo + (hi - lo) div 2) = unat lo + (unat hi - unat lo) div 2"
proof -
  have d: "unat (hi - lo) = unat hi - unat lo" using assms by (simp add: unat_sub)
  have "unat ((hi - lo) div 2) = (unat hi - unat lo) div 2" by (simp add: unat_div d)
  moreover have "unat lo + (unat hi - unat lo) div 2 < 2 ^ 64" using u64_bound [of hi] assms by (simp add: word_less_nat_alt)
  ultimately show ?thesis by (simp add: unat_word_ariths)
qed

lemma search_mid_bounds: "lo < (hi :: u64) \<Longrightarrow> lo \<le> lo + (hi - lo) div 2" "lo < (hi :: u64) \<Longrightarrow> lo + (hi - lo) div 2 < hi"
  by (auto simp: word_le_nat_alt word_less_nat_alt search_mid)

text \<open>
  The binary search of \<open>blockAt\<close> over the timestamps the node answers with. \<open>None\<close> in the result of
  the whole search is a target after the head.
\<close>

function search_block :: "(u64 \<Rightarrow> nitro_error + u64) \<Rightarrow> u64 \<Rightarrow> u64 \<Rightarrow> u64 \<Rightarrow> nitro_error + u64" where
  "search_block ts target lo hi =
     (if lo < hi
      then let mid = lo + (hi - lo) div 2 in
           bind_err (ts mid) (\<lambda>t.
             if t < target then search_block ts target (mid + 1) hi else search_block ts target lo mid)
      else Inr lo)"
  by pat_completeness auto
termination
  by (relation "measure (\<lambda>(_, _, lo, hi). unat hi - unat lo)")
    (auto simp: unat_next [OF search_mid_bounds(2)] search_mid word_less_nat_alt)

declare search_block.simps [simp del]

definition blockAt :: "(u64 \<Rightarrow> nitro_error + u64) \<Rightarrow> u64 \<Rightarrow> u64 \<Rightarrow> i64 \<Rightarrow> nitro_error + u64 option" where
  "blockAt ts head topTS t =
     (let target = u64_of_i64 (max t 0); hi = max head 1 in
      if topTS < target then Inr None
      else if hi \<le> 1 then Inr (Some 1)
      else bind_err (ts 1) (\<lambda>first.
             if target \<le> first then Inr (Some 1)
             else map_sum id Some (search_block ts target 2 hi)))"

text \<open>The search returns the first block whose time is at or after the target.\<close>

definition first_at :: "(u64 \<Rightarrow> u64) \<Rightarrow> u64 \<Rightarrow> u64 \<Rightarrow> u64 \<Rightarrow> bool" where
  "first_at T target lo r \<longleftrightarrow> target \<le> T r \<and> (\<forall>n. lo \<le> n \<longrightarrow> n < r \<longrightarrow> T n < target)"

lemma search_block_first:
  assumes "lo \<le> hi" "\<forall>n. base \<le> n \<longrightarrow> n \<le> hi \<longrightarrow> ts n = Inr (T n)" "base \<le> lo"
    and "\<forall>a b. base \<le> a \<longrightarrow> a \<le> b \<longrightarrow> b \<le> hi \<longrightarrow> T a \<le> T b"
    and "\<forall>n. base \<le> n \<longrightarrow> n < lo \<longrightarrow> T n < target" "target \<le> T hi"
  shows "\<exists>r. search_block ts target lo hi = Inr r \<and> lo \<le> r \<and> r \<le> hi \<and> first_at T target base r"
  using assms
proof (induction ts target lo hi rule: search_block.induct)
  case (1 ts target lo hi)
  show ?case
  proof (cases "lo < hi")
    case False
    then have "lo = hi" using 1(3) by simp
    then show ?thesis using 1(7,8) by (simp add: search_block.simps [of ts target hi hi] first_at_def)
  next
    case True
    define mid where "mid = lo + (hi - lo) div 2"
    have m: "lo \<le> mid" "mid < hi" using search_mid_bounds [OF True] by (simp_all add: mid_def)
    then have b: "base \<le> mid" "mid \<le> hi" using 1(5) by auto
    have t: "ts mid = Inr (T mid)" using 1(4) b by blast
    have s: "search_block ts target lo hi
        = (if T mid < target then search_block ts target (mid + 1) hi else search_block ts target lo mid)"
      using True t by (subst search_block.simps) (simp add: mid_def [symmetric] Let_def)
    show ?thesis
    proof (cases "T mid < target")
      case True
      have n: "unat (mid + 1) = Suc (unat mid)" by (rule unat_next [OF m(2)])
      have le: "mid + 1 \<le> hi" "base \<le> mid + 1" "lo \<le> mid + 1" using m b by (auto simp: word_le_nat_alt word_less_nat_alt n)
      have below: "T k < target" if "base \<le> k" "k < mid + 1" for k
      proof -
        have "k \<le> mid" using that(2) n by (simp add: word_le_nat_alt word_less_nat_alt)
        then have "T k \<le> T mid" using 1(6) that(1) b(2) by blast
        then show ?thesis using True by simp
      qed
      then have "\<exists>r. search_block ts target (mid + 1) hi = Inr r \<and> mid + 1 \<le> r \<and> r \<le> hi \<and> first_at T target base r"
        using 1(1) [OF \<open>lo < hi\<close> mid_def True] 1(4,6,8) le by blast
      then show ?thesis using True s le(3) by (metis order_trans)
    next
      case False
      then have f: "\<not> T mid < target" "target \<le> T mid" by auto
      have "\<exists>r. search_block ts target lo mid = Inr r \<and> lo \<le> r \<and> r \<le> mid \<and> first_at T target base r"
      proof (rule 1(2) [OF \<open>lo < hi\<close> mid_def f(1) m(1) _ 1(5) _ 1(7) f(2)])
        show "\<forall>n. base \<le> n \<longrightarrow> n \<le> mid \<longrightarrow> ts n = Inr (T n)" using 1(4) b(2) by (meson order_trans)
        show "\<forall>a c. base \<le> a \<longrightarrow> a \<le> c \<longrightarrow> c \<le> mid \<longrightarrow> T a \<le> T c" using 1(6) b(2) by (meson order_trans)
      qed
      then show ?thesis using False s b(2) by (metis order_trans)
    qed
  qed
qed

text \<open>
  C31. The search for the block at a time ends and answers with the first block at or after it: on a
  chain whose timestamps do not decrease, for every head and every target the head has reached, it
  reads only headers of the chain and returns the least block number from 1 on whose timestamp is at
  least the target.
\<close>

theorem blockAt_first:
  assumes "0 < head" "\<forall>n. 1 \<le> n \<longrightarrow> n \<le> head \<longrightarrow> ts n = Inr (T n)"
    and "\<forall>a b. 1 \<le> a \<longrightarrow> a \<le> b \<longrightarrow> b \<le> head \<longrightarrow> T a \<le> T b" "u64_of_i64 (max t 0) \<le> T head"
  shows "\<exists>r. blockAt ts head (T head) t = Inr (Some r) \<and> 1 \<le> r \<and> r \<le> head
    \<and> first_at T (u64_of_i64 (max t 0)) 1 r"
proof -
  define target where "target = u64_of_i64 (max t 0)"
  have h: "1 \<le> head" "max head 1 = head" using assms(1) by (auto simp: word_less_nat_alt word_le_nat_alt)
  have none: "\<not> T head < target" using assms(4) by (simp add: target_def)
  have low: "\<not> (1 \<le> n \<and> n < (1 :: u64))" for n by auto
  show ?thesis
  proof (cases "head \<le> 1 \<or> target \<le> T 1")
    case True
    have "blockAt ts head (T head) t = Inr (Some 1)"
      using True none h assms(2) by (auto simp: blockAt_def Let_def target_def [symmetric])
    moreover have "target \<le> T 1" using True assms(4) h by (auto simp: target_def dest: antisym)
    ultimately show ?thesis using h(1) low unfolding target_def [symmetric] first_at_def by blast
  next
    case False
    then have f: "T 1 < target" "1 < head" by auto
    have two: "2 \<le> head" using f(2) by (simp add: word_less_nat_alt word_le_nat_alt)
    have one: "n = 1" if "1 \<le> n" "n < (2 :: u64)" for n
    proof -
      have "unat n = 1" using that by (simp add: word_less_nat_alt word_le_nat_alt)
      then show ?thesis by (simp add: word_unat_eq_iff)
    qed
    have lower: "\<forall>n. 1 \<le> n \<longrightarrow> n < 2 \<longrightarrow> T n < target" using one f(1) by auto
    have "(1 :: u64) \<le> 2" by simp
    from search_block_first [OF two assms(2) this assms(3) lower assms(4) [folded target_def]]
    obtain r where r: "search_block ts target 2 head = Inr r" "2 \<le> r" "r \<le> head" "first_at T target 1 r" by blast
    have "blockAt ts head (T head) t = Inr (Some r)"
      using False none h assms(2) r(1) by (auto simp: blockAt_def Let_def target_def [symmetric])
    moreover have "1 \<le> r" using r(2) by (simp add: word_le_nat_alt)
    ultimately show ?thesis using r(3,4) unfolding target_def [symmetric] by blast
  qed
qed

lemma blockAt_first_witness:
  "\<exists>r. blockAt (\<lambda>n. Inr (10 * n)) 5 50 31 = Inr (Some r) \<and> 1 \<le> r \<and> r \<le> 5
    \<and> first_at ((*) 10) (u64_of_i64 (max 31 0)) 1 r"
proof -
  have mono: "10 * a \<le> 10 * b" if "1 \<le> a" "a \<le> b" "b \<le> (5 :: u64)" for a b
  proof -
    have "unat a \<le> unat b" "unat b \<le> 5" using that by (simp_all add: word_le_nat_alt)
    then show ?thesis by (simp add: word_le_nat_alt unat_word_ariths)
  qed
  have "u64_of_i64 (max 31 0) \<le> (10 * 5 :: u64)" by (simp add: u64_of_i64_def)
  then show ?thesis using blockAt_first [of 5 "\<lambda>n. Inr (10 * n)" "(*) 10" 31] mono by simp
qed

section \<open>The depth\<close>

definition originMargin :: duration where
  "originMargin = 10 * 60 * Second"

definition currentHead :: "RPC \<Rightarrow> Follower \<Rightarrow> store_error + u64" where
  "currentHead rpc f = (if 0 < fHead f then Inr (fHead f) else map_sum RpcFailed id (BlockNumber rpc))"

definition historyStart :: "RPC \<Rightarrow> u64 \<Rightarrow> duration \<Rightarrow> store_error + u64" where
  "historyStart rpc head depth =
     bind_err (map_sum RpcFailed id (HeaderByNumber rpc head)) (\<lambda>top_header.
     bind_err (map_sum RpcFailed id
         (blockAt (\<lambda>n. map_sum id hTimestamp (HeaderByNumber rpc n)) head (hTimestamp top_header)
            (Unix (unix_time (i64_of_u64 (hTimestamp top_header)) - depth)))) (\<lambda>found.
       case found of None \<Rightarrow> Inl TargetAfterHead | Some n \<Rightarrow> Inr n))"

definition depthCutoff :: "follower_config \<Rightarrow> RPC \<Rightarrow> u64 \<Rightarrow> duration \<Rightarrow> store_error + u64" where
  "depthCutoff cfg rpc head margin =
     (if IsGenesis (cfBackfillDepth cfg) then Inr 0
      else historyStart rpc head (historyDepth (cfBackfillDepth cfg) + margin))"

definition findDepthCutoff :: "follower_config \<Rightarrow> RPC \<Rightarrow> Follower \<Rightarrow> duration \<Rightarrow> store_error + u64" where
  "findDepthCutoff cfg rpc f margin =
     (if IsGenesis (cfBackfillDepth cfg) then Inr 0
      else bind_err (currentHead rpc f) (\<lambda>head. depthCutoff cfg rpc head margin))"

definition resolveDepthTarget :: "follower_config \<Rightarrow> RPC \<Rightarrow> Follower \<Rightarrow> backfillCursor \<Rightarrow> store_error + backfillCursor" where
  "resolveDepthTarget cfg rpc f c =
     (let c = c\<lparr>bfDepthTarget := recordedTarget c\<rparr> in
      if IsHold (cfBackfillDepth cfg) then Inr (holdDepthTarget f c)
      else bind_err (findDepthCutoff cfg rpc f 0) (\<lambda>start.
             let want = max start 1
             in Inr (if bfDepthTarget c = 0 \<or> want < bfDepthTarget c then c\<lparr>bfDepthTarget := want\<rparr> else c)))"

text \<open>The floor the target and the scan origin give, and a finished walk it re-opens.\<close>

definition settle_floor :: "Follower \<Rightarrow> backfillCursor \<Rightarrow> backfillCursor" where
  "settle_floor f c =
     (let floor = max (max (bfDepthTarget c) 1) (replayFrom (fScanOrigin f)); c = c\<lparr>bfDepthStart := floor\<rparr>
      in if bfDone c \<and> floor < bfEnd c then c\<lparr>bfDone := False\<rparr> else c)"

definition resolveDepth ::
  "follower_config \<Rightarrow> RPC \<Rightarrow> u64 \<Rightarrow> backfillCursor \<Rightarrow> Follower \<Rightarrow> MemStore
     \<Rightarrow> store_error + (backfillCursor \<times> Follower \<times> MemStore)" where
  "resolveDepth cfg rpc gen c f m =
     (let resolve = (\<not> fDepthResolved f \<or> bfDepthTarget c = 0 \<or> cursorFloor c = 0) in
      bind_err (if resolve then resolveDepthTarget cfg rpc f c else Inr c) (\<lambda>c1.
        let c2 = settle_floor f c1 in
        bind_err (if bfDepthTarget c2 \<noteq> bfDepthTarget c \<or> bfDepthStart c2 \<noteq> bfDepthStart c \<or> bfDone c2 \<noteq> bfDone c
                  then withGeneration (cfChainID cfg) gen (saveCursor (cfChainID cfg) c2) m else Inr m) (\<lambda>m.
          Inr (c2, if resolve then f\<lparr>fDepthResolved := True\<rparr> else f, m))))"

text \<open>An unverified segment of an older collector is discarded with the buckets it folded.\<close>

definition checkCursor ::
  "follower_config \<Rightarrow> u64 \<Rightarrow> backfillCursor \<Rightarrow> Follower \<Rightarrow> MemStore \<Rightarrow> store_error + (backfillCursor \<times> Follower \<times> MemStore)" where
  "checkCursor cfg gen c f m =
     (if fCursorChecked f then Inr (c, f, m)
      else if \<not> bfActive c \<or> bfSetID c \<noteq> 0 \<or> bfVerified c then Inr (c, f\<lparr>fCursorChecked := True\<rparr>, m)
      else
        let fresh = no_cursor\<lparr>bfDepthTarget := resetTarget cfg c\<rparr> in
        bind_err (withGeneration (cfChainID cfg) gen (\<lambda>m.
            bind_err (case boundaryLocked f of
                        None \<Rightarrow> Inr m
                      | Some t \<Rightarrow> map_sum id snd (DeleteBucketsBefore (cfChainID cfg) t m))
              (saveCursor (cfChainID cfg) fresh)) m) (\<lambda>m.
          Inr (fresh, f\<lparr>fCursorChecked := True\<rparr>, m)))"

section \<open>The state of a segment\<close>

definition find_set :: "i64 \<Rightarrow> ConstraintSet list \<Rightarrow> ConstraintSet option" where
  "find_set i sets = List.find (\<lambda>cs. csID cs = i) (rev sets)"

definition state_of_set :: "backfillCursor \<Rightarrow> ConstraintSet \<Rightarrow> store_error + (State \<times> i64 option)" where
  "state_of_set c cs =
     (case csConstraints cs of
        None \<Rightarrow> Inl NoReplayState
      | Some entries \<Rightarrow>
          Inr (SetBacklogs \<lparr>Constraints = map (\<lambda>e. \<lparr>Target = ceTarget e, Window = ceWindow e, Backlog = 0\<rparr>) entries,
                            LegacyParams = None, MinBaseFee = Some 0\<rparr> (bfBacklogs c), Some (bfSetID c)))"

definition segmentState ::
  "follower_config \<Rightarrow> backfillCursor \<Rightarrow> Follower \<Rightarrow> MemStore \<Rightarrow> store_error + ((State \<times> i64 option) \<times> Follower)" where
  "segmentState cfg c f m =
     (if bfSetID c \<noteq> 0
      then bind_err (if find_set (bfSetID c) (chSets (fCaches f)) = None then reloadSetsLocked (cfChainID cfg) m f else Inr f)
             (\<lambda>f. case find_set (bfSetID c) (chSets (fCaches f)) of
                    None \<Rightarrow> Inl NoReplayState
                  | Some cs \<Rightarrow> map_sum id (\<lambda>r. (r, f)) (state_of_set c cs))
      else case fScanOrigin f of
             None \<Rightarrow> Inl NoReplayState
           | Some orig \<Rightarrow>
               (case soLegacy orig of
                  None \<Rightarrow> Inl NoReplayState
                | Some lp \<Rightarrow>
                    Inr ((SetBacklogs \<lparr>Constraints = [], LegacyParams = Some ((legacy_of_params lp)\<lparr>LegacyBacklog := 0\<rparr>),
                                       MinBaseFee = Some 0\<rparr> (bfBacklogs c), None), f)))"

definition applyLegacyParams :: "State \<Rightarrow> Legacy option \<Rightarrow> State" where
  "applyLegacyParams st l =
     (case (State.LegacyParams st, l) of
        (Some own, Some p) \<Rightarrow>
          st\<lparr>LegacyParams := Some (own\<lparr>SpeedLimit := SpeedLimit p, Inertia := Inertia p, Tolerance := Tolerance p\<rparr>)\<rparr>
      | _ \<Rightarrow> st)"

definition sameLegacyParams :: "Legacy option \<Rightarrow> Legacy option \<Rightarrow> bool" where
  "sameLegacyParams a b \<longleftrightarrow>
     (case (a, b) of
        (Some p, Some q) \<Rightarrow> SpeedLimit p = SpeedLimit q \<and> Inertia p = Inertia q \<and> Tolerance p = Tolerance q
      | _ \<Rightarrow> a = None \<and> b = None)"

section \<open>Anchors\<close>

text \<open>A sampled anchor: its block, its backlogs and its floor. An anchor of another model is skipped.\<close>

definition read_anchor ::
  "(u64 \<Rightarrow> nitro_error + Sample) \<Rightarrow> State \<Rightarrow> Header \<Rightarrow> store_error + (u64 \<times> u64 list \<times> bigint) option" where
  "read_anchor archiveAt st h =
     (case archiveAt (hNumber h) of
        Inl e \<Rightarrow> Inl (RpcFailed e)
      | Inr s \<Rightarrow>
          if hashMismatch (hHash h) (hHash (smHeader s)) then Inl BatchRefused
          else if \<not> sameShape (Some st) s then Inr None
          else Inr (Some (hNumber h, sampleBacklogs s, smMinBaseFee s)))"

definition backfillAnchors ::
  "follower_config \<Rightarrow> RPC \<Rightarrow> State \<Rightarrow> Header list \<Rightarrow> store_error + (u64 \<times> u64 list \<times> bigint) list" where
  "backfillAnchors cfg rpc st headers =
     (case ArchiveSampleAt rpc of
        None \<Rightarrow> Inr []
      | Some archiveAt \<Rightarrow>
          map_sum id (List.map_filter id)
            (each_err (read_anchor archiveAt st)
              (filter (\<lambda>h. hNumber h mod of_int (cfBackfillAnchorInterval cfg) = 0) headers)))"

definition anchor_of :: "(u64 \<times> u64 list \<times> bigint) list \<Rightarrow> Anchor" where
  "anchor_of anchors = (if anchors = [] then None else Some (\<lambda>n. map_option fst (map_of anchors n)))"

definition anchor_fee :: "(u64 \<times> u64 list \<times> bigint) list \<Rightarrow> u64 \<Rightarrow> bigint option" where
  "anchor_fee anchors n = map_option snd (map_of anchors n)"

fun fees_from ::
  "timeline \<Rightarrow> (u64 \<Rightarrow> bigint option) \<Rightarrow> u64 \<Rightarrow> bigint option \<Rightarrow> Header list \<Rightarrow> bigint list" where
  "fees_from tml sampled lastAnchor anchorFee [] = []"
| "fees_from tml sampled lastAnchor anchorFee (h # hs) =
     (let fee = (case anchorFee of
                   Some v \<Rightarrow> if lastAnchor < hNumber h \<and> minFeeChangeBlock tml (hNumber h) \<le> lastAnchor then v
                             else minFeeAt tml (hNumber h)
                 | None \<Rightarrow> minFeeAt tml (hNumber h))
      in fee # (case sampled (hNumber h) of
                  Some v \<Rightarrow> fees_from tml sampled (hNumber h) (Some v) hs
                | None \<Rightarrow> fees_from tml sampled lastAnchor anchorFee hs))"

definition backfillFees :: "timeline \<Rightarrow> backfillCursor \<Rightarrow> Header list \<Rightarrow> (u64 \<Rightarrow> bigint option) \<Rightarrow> bigint list" where
  "backfillFees tml c headers sampled =
     fees_from tml sampled (bfLastAnchor c) (if bfAnchorMinFee c = [] then None else SetString10 (bfAnchorMinFee c)) headers"

section \<open>The replay of a batch\<close>

function replay_chunks ::
  "u64 \<Rightarrow> State \<Rightarrow> u64 \<Rightarrow> timeline \<Rightarrow> Anchor \<Rightarrow> actionBlocks \<Rightarrow> (Header \<times> bigint \<times> Legacy option) list
     \<Rightarrow> State \<times> db_block list" where
  "replay_chunks chainID st prevTs tml anchor actions [] = (st, [])"
| "replay_chunks chainID st prevTs tml anchor actions ((h, fee, legacy) # items) =
     (let same = takeWhile (\<lambda>(h', fee', legacy'). fee' = fee \<and> sameLegacyParams legacy' legacy) items;
          chunk = h # map fst same
      in case replayForward chainID (applyLegacyParams (st\<lparr>MinBaseFee := Some fee\<rparr>) legacy) prevTs chunk tml anchor actions of
           (st, rows, results) \<Rightarrow>
             (case replay_chunks chainID st (hTimestamp (last chunk)) tml anchor actions (drop (length same) items) of
                (st, further) \<Rightarrow> (st, rows @ further)))"
  by pat_completeness auto
termination
  by (relation "measure (\<lambda>(_, _, _, _, _, _, items). length items)") auto

definition replaySegment ::
  "u64 \<Rightarrow> RPC \<Rightarrow> Follower \<Rightarrow> State \<Rightarrow> backfillCursor \<Rightarrow> Header list \<Rightarrow> (u64 \<times> u64 list \<times> bigint) list
     \<Rightarrow> store_error + (State \<times> db_block list \<times> backfillCursor)" where
  "replaySegment chainID rpc f st c headers anchors =
     (let tml = timelineLocked (fCaches f) (fScanOrigin f) [] in
      bind_err (map_sum Refused id (resolveActionBlocks (TransactionReceipts rpc) headers tml)) (\<lambda>actions.
        let fees = backfillFees tml c headers (anchor_fee anchors);
            legacies = map (\<lambda>h. case State.LegacyParams st of None \<Rightarrow> None | Some base \<Rightarrow> legacyBefore tml (hNumber h) (Some base)) headers
        in case replay_chunks chainID st (bfPrevTs c) tml (anchor_of anchors) actions (zip headers (zip fees legacies)) of
             (st, rows) \<Rightarrow>
               (case shiftPredictions rows (carry c) of (rows, p) \<Rightarrow> Inr (st, rows, setCarry p c))))"

section \<open>Choosing a run\<close>

text \<open>The backfill ends at its floor, with the rest recorded as one range that cannot be filled.\<close>

definition stopped_cursor :: "backfillCursor \<Rightarrow> backfillCursor" where
  "stopped_cursor c = c\<lparr>bfDone := True, bfActive := False, bfEnd := bfDepthStart c, bfEndParent := [], bfRunParent := []\<rparr>"

definition stopWithHole ::
  "follower_config \<Rightarrow> gotime \<Rightarrow> u64 \<Rightarrow> string \<Rightarrow> backfillCursor \<Rightarrow> Follower \<Rightarrow> MemStore \<Rightarrow> backfill_outcome" where
  "stopWithHole cfg now gen reason c f m =
     (case withGeneration (cfChainID cfg) gen (\<lambda>m.
             bind_err (on_ranges (cfChainID cfg)
                 (recordHole (cfChainID cfg) now (skipped_hole (bfDepthStart c) (bfEnd c - 1) [] reason [] [])) m)
               (saveCursor (cfChainID cfg) (stopped_cursor c))) m of
        Inl e \<Rightarrow> ((BackfillIdle, Some e), f, m)
      | Inr m \<Rightarrow> ((BackfillDone, None), f, m))"

definition holeToDepth ::
  "follower_config \<Rightarrow> gotime \<Rightarrow> u64 \<Rightarrow> backfillCursor \<Rightarrow> Follower \<Rightarrow> MemStore \<Rightarrow> backfill_outcome" where
  "holeToDepth cfg now gen = stopWithHole cfg now gen reasonNoState"

text \<open>
  The first block of the window below the unfilled top; \<open>None\<close> when the run stays at the segment floor.
\<close>

definition window_first :: "follower_config \<Rightarrow> backfillCursor \<Rightarrow> u64 option" where
  "window_first cfg c =
     (let window = of_int (max (cfBackfillWindow cfg) 0);
          first = (if window < SaturatingUSub (bfEnd c) (bfDepthStart c) then bfEnd c - window else bfDepthStart c)
      in if window = 0 \<or> first < bfSegStart c + 2 then None else Some first)"

definition seeded_cursor :: "u64 \<Rightarrow> Sample \<Rightarrow> backfillCursor \<Rightarrow> backfillCursor" where
  "seeded_cursor first sample c =
     c\<lparr>bfSegStart := first, bfNext := first - 1, bfSkipFirst := True, bfBacklogs := sampleBacklogs sample,
       bfPrevTs := hTimestamp (smHeader sample), bfPrevHash := hHash (smHeader sample), bfLastAnchor := first - 2,
       bfAnchorMinFee := big_String (smMinBaseFee sample)\<rparr>"

definition seedWindow ::
  "follower_config \<Rightarrow> RPC \<Rightarrow> backfillCursor \<Rightarrow> Follower \<Rightarrow> MemStore \<Rightarrow> store_error + (backfillCursor \<times> Follower)" where
  "seedWindow cfg rpc c f m =
     (case (ArchiveSampleAt rpc, window_first cfg c) of
        (Some archiveAt, Some first) \<Rightarrow>
          bind_err (map_sum RpcFailed id (archiveAt (first - 2))) (\<lambda>sample.
          bind_err (segmentState cfg c f m) (\<lambda>((st, setID), f).
            let st = (case State.LegacyParams st of
                        None \<Rightarrow> st
                      | Some base \<Rightarrow>
                          applyLegacyParams st
                            (legacyBefore (timelineLocked (fCaches f) (fScanOrigin f) []) (first - 1) (Some base)))
            in Inr (if sameShape (Some st) sample then seeded_cursor first sample c else c, f)))
      | _ \<Rightarrow> Inr (c, f))"

text \<open>The bottom of the run below the unfilled top: a recorded set, or the sampled scan origin.\<close>

definition choose_floor :: "Follower \<Rightarrow> backfillCursor \<Rightarrow> store_error + backfillCursor option" where
  "choose_floor f c =
     (case filter (\<lambda>cs. csEffectiveBlock cs < bfEnd c) (chSets (fCaches f)) of
        [] \<Rightarrow>
          (case (fScanOrigin f, Option.bind (fScanOrigin f) soLegacy) of
             (Some orig, Some lp) \<Rightarrow>
               if fullState (Some orig) \<and> replayFrom (Some orig) < bfEnd c
               then Inr (Some (c\<lparr>bfSegStart := replayFrom (Some orig), bfSetID := 0, bfBacklogs := [lpBacklog lp]\<rparr>))
               else Inr None
           | _ \<Rightarrow> Inr None)
      | sets \<Rightarrow>
          (case csConstraints (last sets) of
             None \<Rightarrow> Inl NoReplayState
           | Some entries \<Rightarrow>
               Inr (Some (c\<lparr>bfSegStart := max (csEffectiveBlock (last sets)) 1, bfSetID := csID (last sets),
                            bfBacklogs := map ceStartingBacklog entries\<rparr>))))"

definition opened_run :: "backfillCursor \<Rightarrow> backfillCursor" where
  "opened_run c =
     setCarry noPrediction (c\<lparr>bfActive := True, bfVerified := True, bfNext := bfSegStart c, bfPrevTs := 0, bfPrevHash := [],
       bfSkipFirst := False, bfLastAnchor := 0, bfLastAnchorErrorBips := 0, bfAnchorMinFee := []\<rparr>)"

text \<open>The cursor of a walk that starts: the oldest stored block is its top.\<close>

definition start_walk :: "u64 \<Rightarrow> backfillCursor \<Rightarrow> MemStore \<Rightarrow> store_error + backfillCursor option" where
  "start_walk chainID c m =
     (if bfEnd c \<noteq> 0 then Inr (Some c)
      else map_sum id (map_option (\<lambda>b. c\<lparr>bfEnd := bNumber b, bfEndParent := bParentHash b, bfTop := bNumber b\<rparr>))
             (OldestBlock chainID m))"

text \<open>A run that was started is handed on with its cursor.\<close>

datatype started = Started backfillCursor Follower MemStore | NotStarted backfill_outcome

definition startSegment ::
  "follower_config \<Rightarrow> gotime \<Rightarrow> RPC \<Rightarrow> u64 \<Rightarrow> backfillCursor \<Rightarrow> Follower \<Rightarrow> MemStore \<Rightarrow> started" where
  "startSegment cfg now rpc gen c f m =
     (let chainID = cfChainID cfg; stop = (\<lambda>e. NotStarted ((BackfillIdle, Some e), f, m)) in
      if \<not> historyReady f then NotStarted ((BackfillIdle, None), f, m)
      else case start_walk chainID c m of
             Inl e \<Rightarrow> stop e
           | Inr None \<Rightarrow> NotStarted ((BackfillIdle, None), f, m)
           | Inr (Some c) \<Rightarrow>
               if bfEnd c \<le> bfDepthStart c
               then (case withGeneration chainID gen (saveCursor chainID (c\<lparr>bfDone := True\<rparr>)) m of
                       Inl e \<Rightarrow> NotStarted ((BackfillDone, Some e), f, m)
                     | Inr m \<Rightarrow> NotStarted ((BackfillDone, None), f, m))
               else
                 (case choose_floor f c of
                    Inl e \<Rightarrow> stop e
                  | Inr None \<Rightarrow> NotStarted (holeToDepth cfg now gen c f m)
                  | Inr (Some c) \<Rightarrow>
                      (case seedWindow cfg rpc (opened_run c) f m of
                         Inl e \<Rightarrow> stop e
                       | Inr (c, f) \<Rightarrow>
                           (case withGeneration chainID gen (saveCursor chainID c) m of
                              Inl e \<Rightarrow> NotStarted ((BackfillProgressed, Some e), f, m)
                            | Inr m \<Rightarrow> Started c f m))))"

section \<open>One step\<close>

definition backfill_count :: "follower_config \<Rightarrow> RPC \<Rightarrow> backfillCursor \<Rightarrow> u64" where
  "backfill_count cfg rpc c =
     (let remaining = bfEnd c - bfNext c;
          n = min (of_int (cfHeaderBatchSize cfg)) remaining;
          avail = word_of_int (max (Available_calls rpc) 0) div 2
      in if avail < n then max avail (min minBackfillBatch remaining) else n)"

text \<open>The checks on a fetched batch: complete, contiguous, and linked to what is above and below it.\<close>

definition batch_links :: "backfillCursor \<Rightarrow> u64 \<Rightarrow> Header list \<Rightarrow> store_error + unit" where
  "batch_links c n headers =
     (if length headers \<noteq> unat n \<or> headers = [] \<or> hNumber (hd headers) \<noteq> bfNext c then Inl BatchRefused
      else case verifyChain headers of
             Inl e \<Rightarrow> Inl (Refused e)
           | Inr u \<Rightarrow>
               if hashMismatch (bfPrevHash c) (hParentHash (hd headers))
                  \<or> hNumber (last headers) + 1 = bfEnd c \<and> hashMismatch (bfEndParent c) (hHash (last headers))
               then Inl BatchRefused else Inr ())"

definition note_parent :: "Header list \<Rightarrow> backfillCursor \<Rightarrow> backfillCursor" where
  "note_parent headers c =
     (if bfNext c \<le> bfSegStart c \<and> unat (bfSegStart c - bfNext c) < length headers
      then c\<lparr>bfRunParent := hParentHash (headers ! unat (bfSegStart c - bfNext c))\<rparr> else c)"

definition note_anchor :: "(u64 \<Rightarrow> bigint option) \<Rightarrow> backfillCursor \<Rightarrow> db_block \<Rightarrow> backfillCursor" where
  "note_anchor sampled c r =
     (if \<not> bAnchored r then c
      else (c\<lparr>bfLastAnchor := bNumber r, bfLastAnchorErrorBips := ReplayErrorBips r,
              bfAnchorMinFee := (case sampled (bNumber r) of None \<Rightarrow> bfAnchorMinFee c | Some fee \<Rightarrow> big_String fee)\<rparr>))"

definition advance_cursor :: "u64 \<Rightarrow> Header \<Rightarrow> State \<Rightarrow> backfillCursor \<Rightarrow> backfillCursor" where
  "advance_cursor n lastHeader st c =
     (let c = c\<lparr>bfNext := bfNext c + n, bfPrevTs := hTimestamp lastHeader, bfPrevHash := hHash lastHeader,
                bfBacklogs := Backlogs st\<rparr>
      in if bfEnd c \<le> bfNext c
         then c\<lparr>bfActive := False, bfEnd := bfSegStart c, bfEndParent := bfRunParent c, bfRunParent := []\<rparr> else c)"

definition backfill_commit ::
  "u64 \<Rightarrow> u64 \<Rightarrow> gotime option \<Rightarrow> i64 option \<Rightarrow> db_block list \<Rightarrow> backfillCursor \<Rightarrow> MemStore \<Rightarrow> store_error + MemStore" where
  "backfill_commit chainID gen boundary setID rows c =
     (let above = (\<lambda>r. case boundary of None \<Rightarrow> False | Some t \<Rightarrow> \<not> bTS r < t) in
      withGeneration chainID gen (\<lambda>m.
        bind_err (upsert_rebuild chainID (filter above rows) m) (\<lambda>m.
        bind_err (FoldBuckets (FoldBlocks (filter (\<lambda>r. \<not> above r) rows) (\<lambda>_. setID)) m) (saveCursor chainID c))))"

definition backfill_batch ::
  "follower_config \<Rightarrow> gotime \<Rightarrow> RPC \<Rightarrow> u64 \<Rightarrow> backfillCursor \<Rightarrow> Header list \<Rightarrow> Follower \<Rightarrow> MemStore \<Rightarrow> backfill_outcome" where
  "backfill_batch cfg now rpc gen c headers f m =
     (let stop = (\<lambda>e f. ((BackfillIdle, Some e), f, m)); c = note_parent headers c in
      case segmentState cfg c f m of
        Inl e \<Rightarrow> stop e f
      | Inr ((st, setID), f) \<Rightarrow>
          (case backfillAnchors cfg rpc st headers of
             Inl e \<Rightarrow> stop e f
           | Inr anchors \<Rightarrow>
               if unsupportedModel (Some st) headers \<noteq> None
               then stopWithHole cfg now gen reasonUnsupportedModel c f m
               else
                 (case replaySegment (cfChainID cfg) rpc f st c headers anchors of
                    Inl e \<Rightarrow> stop e f
                  | Inr (st, rows, c) \<Rightarrow>
                      let skip = bfSkipFirst c \<and> rows \<noteq> [];
                          rows = (if skip then tl rows else rows);
                          c = (if skip then c\<lparr>bfSkipFirst := False\<rparr> else c);
                          c = foldl (note_anchor (anchor_fee anchors)) c rows;
                          c = advance_cursor (of_nat (length headers)) (last headers) st c
                      in case backfill_commit (cfChainID cfg) gen (boundaryLocked f) setID rows c m of
                           Inl e \<Rightarrow> stop e f
                         | Inr m \<Rightarrow> ((BackfillProgressed, None), f, m))))"

definition backfill_fetch ::
  "follower_config \<Rightarrow> gotime \<Rightarrow> RPC \<Rightarrow> u64 \<Rightarrow> backfillCursor \<Rightarrow> Follower \<Rightarrow> MemStore \<Rightarrow> backfill_outcome" where
  "backfill_fetch cfg now rpc gen c f m =
     (case backfillMustWait cfg f of
        (True, f) \<Rightarrow> ((BackfillIdle, None), f, m)
      | (False, f) \<Rightarrow>
          let n = backfill_count cfg rpc c in
          (case HeadersByNumbers rpc (map (\<lambda>i. bfNext c + of_nat i) [0..<unat n]) of
             Inl e \<Rightarrow> ((BackfillIdle, Some (RpcFailed e)), f, m)
           | Inr headers \<Rightarrow>
               (case batch_links c n headers of
                  Inl e \<Rightarrow> ((BackfillIdle, Some e), f, m)
                | Inr u \<Rightarrow> backfill_batch cfg now rpc gen c headers f m)))"

definition backfillStep ::
  "follower_config \<Rightarrow> gotime \<Rightarrow> RPC \<Rightarrow> Follower \<Rightarrow> MemStore \<Rightarrow> backfill_outcome" where
  "backfillStep cfg now rpc f m =
     (case bind_err (generation (cfChainID cfg) m) (\<lambda>gen.
             bind_err (loadCursorFrom (cfChainID cfg) m) (\<lambda>c.
             bind_err (checkCursor cfg gen c f m) (\<lambda>r. Inr (gen, r)))) of
        Inl e \<Rightarrow> ((BackfillIdle, Some e), f, m)
      | Inr (gen, c, f, m) \<Rightarrow>
          (case (if historyReady f then resolveDepth cfg rpc gen c f m else Inr (c, f, m)) of
             Inl e \<Rightarrow> ((BackfillIdle, Some e), f, m)
           | Inr (c, f, m) \<Rightarrow>
               if bfDone c then ((BackfillDone, None), f, m)
               else if bfActive c then backfill_fetch cfg now rpc gen c f m
               else case startSegment cfg now rpc gen c f m of
                      NotStarted out \<Rightarrow> out
                    | Started c f m \<Rightarrow> backfill_fetch cfg now rpc gen c f m))"

definition BackfillStep ::
  "follower_config \<Rightarrow> gotime \<Rightarrow> RPC \<Rightarrow> Follower \<Rightarrow> MemStore \<Rightarrow> backfill_outcome" where
  "BackfillStep cfg now rpc f m =
     (case backfillStep cfg now rpc f m of
        ((status, Some (StaleGeneration g cur)), f, m) \<Rightarrow> ((BackfillIdle, None), f, m)
      | out \<Rightarrow> out)"

end
