(* ===== verification/Chain_Runs.thy ===== *)
theory Chain_Runs
  imports Backfill
begin

text \<open>
  Runs of the chain transactions: what every interleaving of the live loop, the gap filler, the backfill,
  the repair, the prune and the rewind keeps. Each transaction is one step; the work between two
  transactions of a loop only reads, so a run is any order in which they commit.
\<close>

section \<open>Transactions that leave the history alone\<close>

text \<open>
  The injected failures and the rewind generations, which only a rewind and a rebuild of the history
  move; with the rows, the buckets and the prune frontiers of all chains they are what the invariants
  below speak of.
\<close>

definition gen_of :: "MemStore \<Rightarrow> string list \<times> (u64 \<Rightarrow> state_value option)" where
  "gen_of m = (FailOn m, \<lambda>c. map_of (StateRows m) (c, StateGeneration))"

definition history_of ::
  "MemStore \<Rightarrow> ((u64 \<times> u64) \<times> db_block) list \<times> ((u64 \<times> string \<times> i64) \<times> Bucket) list
     \<times> (u64 \<Rightarrow> state_value option) \<times> string list \<times> (u64 \<Rightarrow> state_value option)" where
  "history_of m = (BlockRows m, BucketRows m, \<lambda>c. map_of (StateRows m) (c, StatePruneFrontier), gen_of m)"

definition checkpoint_key :: "string \<Rightarrow> bool" where
  "checkpoint_key k \<longleftrightarrow> k \<noteq> StatePruneFrontier \<and> k \<noteq> StateGeneration"

lemma bind_errE: "bind_err x f = Inr y \<Longrightarrow> (\<And>v. x = Inr v \<Longrightarrow> f v = Inr y \<Longrightarrow> P) \<Longrightarrow> P"
  by (auto simp: bind_err_eq_Inr)

named_theorems history_rules "the writes that leave rows, buckets and the prune frontier alone"

lemma history_of_live:
  assumes "history_of m' = history_of m"
  shows "BlockRows m' = BlockRows m" "BucketRows m' = BucketRows m" "below_frontier c m' = below_frontier c m"
    "live_current c lo m' \<longleftrightarrow> live_current c lo m"
proof -
  show r: "BlockRows m' = BlockRows m" "BucketRows m' = BucketRows m" using assms by (simp_all add: history_of_def)
  show b: "below_frontier c m' = below_frontier c m"
    using assms by (simp add: history_of_def below_frontier_def pruneFrontierLocked_def fun_eq_iff)
  show "live_current c lo m' \<longleftrightarrow> live_current c lo m"
    using live_current_cong [of m' m c lo] live_current_cong [of m m' c lo] r b by auto
qed

lemma history_state [history_rules]:
  "SetState c' k v m = Inr m' \<Longrightarrow> checkpoint_key k \<Longrightarrow> history_of m' = history_of m"
  "DeleteState c' k m = Inr m' \<Longrightarrow> checkpoint_key k \<Longrightarrow> history_of m' = history_of m"
  by (auto simp: SetState_def DeleteState_def history_of_def gen_of_def checkpoint_key_def AList.update_conv' AList.delete_conv')

lemma history_writes [history_rules]:
  "UpdateNetworkHead c' b t1 t2 m = Inr m' \<Longrightarrow> history_of m' = history_of m"
  "SetNetworkHead c' b' t1' t2' m = Inr m' \<Longrightarrow> history_of m' = history_of m"
  "SetNetworkError c' msg m = Inr m' \<Longrightarrow> history_of m' = history_of m"
  "InsertStateSample smp m = Inr m' \<Longrightarrow> history_of m' = history_of m"
  "PruneStateSamples c' t m = Inr (n', m') \<Longrightarrow> history_of m' = history_of m"
  "DeleteStateSamplesAfter c' b m = Inr (n', m') \<Longrightarrow> history_of m' = history_of m"
  "mem_ReplaceMissingRanges c' ranges m = Inr m' \<Longrightarrow> history_of m' = history_of m"
  "InsertOwnerActions as m = Inr (k', m') \<Longrightarrow> history_of m' = history_of m"
  "RewindAfter c' b m = Inr m' \<Longrightarrow> history_of m' = history_of m"
  "InsertConstraintSet cs m = Inr (i, m') \<Longrightarrow> history_of m' = history_of m"
  "UpdateConstraintSet cs m = Inr m' \<Longrightarrow> history_of m' = history_of m"
  "Notify ch p m = Inr m' \<Longrightarrow> history_of m' = history_of m"
  by (auto simp: UpdateNetworkHead_def SetNetworkHead_def SetNetworkError_def InsertStateSample_def PruneStateSamples_def
      DeleteStateSamplesAfter_def drop_samples_def mem_ReplaceMissingRanges_def InsertOwnerActions_def RewindAfter_def
      InsertConstraintSet_def UpdateConstraintSet_def Notify_def history_of_def gen_of_def Let_def split: if_splits option.splits prod.splits)

lemma checkpoint_keys [simp]:
  "checkpoint_key StateHead" "checkpoint_key StateBackfillCursor" "checkpoint_key StateOwnerLogCursor"
  "checkpoint_key StateBatchScanCursor" "checkpoint_key StateRPCCapacity" "checkpoint_key StateLiveStart"
  "checkpoint_key StateHoles" "checkpoint_key StateOwnerScanThrough" "checkpoint_key StateOwnerScanOrigin"
  "checkpoint_key StateHistoryEpoch" "checkpoint_key StatePosterGasRepair"
  by (simp_all add: checkpoint_key_def state_keys)

lemma history_ranges [history_rules]: "on_ranges c' f m = Inr m' \<Longrightarrow> history_of m' = history_of m"
  by (auto simp: on_ranges_def elim!: bind_errE dest!: history_rules split: sum.split_asm if_split_asm)

lemma history_cursors [history_rules]:
  "saveCursor c' cur m = Inr m' \<Longrightarrow> history_of m' = history_of m"
  "savePosterGasCursor c' pg m = Inr m' \<Longrightarrow> history_of m' = history_of m"
  "saveLiveStart c' ls m = Inr m' \<Longrightarrow> history_of m' = history_of m"
  by (auto simp: saveCursor_def savePosterGasCursor_def saveLiveStart_def dest!: history_rules)

lemma history_rewindCursor [history_rules]:
  "rewindCursor c' k b m = Inr m' \<Longrightarrow> checkpoint_key k \<Longrightarrow> history_of m' = history_of m"
  by (auto simp: rewindCursor_def elim!: bind_errE dest!: history_rules split: option.split_asm state_value.split_asm if_split_asm)

lemma history_delete_states [history_rules]:
  "delete_states c' keys m = Inr m' \<Longrightarrow> list_all checkpoint_key keys \<Longrightarrow> history_of m' = history_of m"
proof (induction keys arbitrary: m)
  case (Cons k keys)
  then obtain m1 where "DeleteState c' k m = Inr m1" "delete_states c' keys m1 = Inr m'" by (auto simp: bind_err_eq_Inr)
  then show ?case using Cons.IH Cons.prems(2) history_state(2) by (metis list.pred_inject(2))
qed simp

lemma withGeneration_Inr:
  "withGeneration c gen fn m = Inr r \<longleftrightarrow>
     ''WithChainTx'' \<notin> set (FailOn m) \<and> generation c m = Inr gen \<and> fn m = Inr r"
  by (auto simp: withGeneration_def chain_WithChainTx_def bind_err_eq_Inr lock_request_def split: if_splits)

lemma chain_tx_Inr:
  "chain_WithChainTx c None (\<lambda>_. fn) m = Inr r \<longleftrightarrow> ''WithChainTx'' \<notin> set (FailOn m) \<and> fn m = Inr r"
  by (auto simp: chain_WithChainTx_def bind_err_eq_Inr lock_request_def)

lemma history_insert_set: "record_set c' a m = Inr m' \<Longrightarrow> history_of m' = history_of m"
  by (auto simp: record_set_def Let_def elim!: bind_errE dest!: history_rules split: option.split_asm)

lemma history_record: "recordAction c' a m = Inr (b, m') \<Longrightarrow> history_of m' = history_of m"
  by (auto simp: recordAction_def elim!: bind_errE dest!: history_rules history_insert_set split: if_split_asm)

lemma history_store_actions [history_rules]: "storeOwnerActions c' as m = Inr (b, m') \<Longrightarrow> history_of m' = history_of m"
proof (induction as arbitrary: m b)
  case (Cons a as)
  then show ?case by (auto elim!: bind_errE dest!: history_record)
qed simp

lemma history_record_sets: "record_sets c' pending observed m = Inr (b, m') \<Longrightarrow> history_of m' = history_of m"
  by (auto simp: record_sets_def elim!: bind_errE dest!: history_rules split: option.split_asm)

lemma history_write_head: "write_head c' sample snap docs first m = Inr m' \<Longrightarrow> history_of m' = history_of m"
  unfolding write_head_def Let_def
  by (elim bind_errE) (auto dest!: history_rules split: if_split_asm)


section \<open>Rebuilding and folding\<close>

text \<open>A step that brings the windows \<open>W\<close> up to date with the rows and leaves the other live ones alone.\<close>

definition refreshed :: "u64 \<Rightarrow> window set \<Rightarrow> MemStore \<Rightarrow> MemStore \<Rightarrow> bool" where
  "refreshed c W m m' \<longleftrightarrow>
     BlockRows m' = BlockRows m \<and> below_frontier c m' = below_frontier c m
     \<and> (keyed bucket_key (BucketRows m) \<longrightarrow> keyed bucket_key (BucketRows m'))
     \<and> (\<forall>w. aligned w \<longrightarrow> \<not> below_frontier c m (snd w)
            \<longrightarrow> live_view c m' w = (if w \<in> W then live_source c m w else live_view c m w))"

lemma refreshedI:
  assumes "BlockRows m' = BlockRows m" "below_frontier c m' = below_frontier c m"
    and "keyed bucket_key (BucketRows m) \<Longrightarrow> keyed bucket_key (BucketRows m')"
    and "\<And>w. aligned w \<Longrightarrow> \<not> below_frontier c m (snd w)
      \<Longrightarrow> live_view c m' w = (if w \<in> W then live_source c m w else live_view c m w)"
  shows "refreshed c W m m'"
  using assms unfolding refreshed_def by blast

lemma refreshedD:
  assumes "refreshed c W m m'"
  shows "BlockRows m' = BlockRows m" "below_frontier c m' = below_frontier c m"
    "keyed bucket_key (BucketRows m) \<Longrightarrow> keyed bucket_key (BucketRows m')"
    "aligned w \<Longrightarrow> \<not> below_frontier c m (snd w)
      \<Longrightarrow> live_view c m' w = (if w \<in> W then live_source c m w else live_view c m w)"
  using assms unfolding refreshed_def by blast+

lemma source_of_rows: "BlockRows m' = BlockRows m \<Longrightarrow> live_source c m' w = live_source c m w"
  by (simp add: live_source_def rows_in_def window_rows_def sortedBlocks_def chain_blocks_def)

lemma refreshed_refl: "refreshed c {} m m"
  by (rule refreshedI) simp_all

lemma refreshed_trans:
  assumes "refreshed c W m m'" "refreshed c V m' m''"
  shows "refreshed c (W \<union> V) m m''"
proof (rule refreshedI)
  show "BlockRows m'' = BlockRows m" "below_frontier c m'' = below_frontier c m"
    using refreshedD(1,2) [OF assms(1)] refreshedD(1,2) [OF assms(2)] by simp_all
  show "keyed bucket_key (BucketRows m'')" if "keyed bucket_key (BucketRows m)"
    using refreshedD(3) [OF assms(2) refreshedD(3) [OF assms(1) that]] .
  fix w assume w: "aligned w" "\<not> below_frontier c m (snd w)"
  then have w': "\<not> below_frontier c m' (snd w)" using refreshedD(2) [OF assms(1)] by simp
  show "live_view c m'' w = (if w \<in> W \<union> V then live_source c m w else live_view c m w)"
    using refreshedD(4) [OF assms(1) w] refreshedD(4) [OF assms(2) w(1) w'] source_of_rows [OF refreshedD(1) [OF assms(1)], of c w]
    by simp
qed

lemma BucketStarts_aligned:
  "res \<in> set ResolutionOrder \<Longrightarrow> start \<in> set (BucketStarts rows res) \<Longrightarrow> aligned (res, start)"
  using windows_of_aligned [of rows] by (auto simp: windows_of_def)

lemma RebuildBuckets_refreshed:
  assumes "RebuildBuckets c res (BucketStarts rows res) m = Inr m'"
  shows "refreshed c (Pair res ` set (BucketStarts rows res)) m m'"
proof -
  have r: "res \<in> set ResolutionOrder" using assms by (auto simp: RebuildBuckets_def elim!: bind_errE split: if_split_asm)
  let ?ws = "filter (\<lambda>w. \<not> below_frontier c m (snd w)) (map (Pair res) (BucketStarts rows res))"
  have m': "m' = foldl (\<lambda>m w. rebuild_window c w m) m ?ws" by (rule RebuildBuckets_windows [OF assms])
  have "\<forall>w\<in>set ?ws. aligned w" using BucketStarts_aligned [OF r] by auto
  note views = live.view_rebuilds [OF this, of _ c m, folded m']
  show ?thesis
  proof (rule refreshedI)
    show "BlockRows m' = BlockRows m" using rebuild_windows_frame [of c m ?ws] m' by auto
    show "below_frontier c m' = below_frontier c m" unfolding m' by simp
    show "keyed bucket_key (BucketRows m')" if "keyed bucket_key (BucketRows m)"
      by (rule RebuildBuckets_keyed [OF that assms]) simp
    fix w assume w: "aligned w" "\<not> below_frontier c m (snd w)"
    then have "w \<in> set ?ws \<longleftrightarrow> w \<in> Pair res ` set (BucketStarts rows res)" by auto
    then show "live_view c m' w = (if w \<in> Pair res ` set (BucketStarts rows res) then live_source c m w else live_view c m w)"
      using views [OF w(1)] by simp
  qed
qed

lemma key_of_window:
  assumes "aligned v" "aligned w" "bucketKey c (fst v) (snd v) = bucketKey c (fst w) (snd w)"
  shows "v = w"
  using assms bucketKey_inject by blast

lemma deleted_view:
  "live_view c (m\<lparr>BucketRows := foldl (\<lambda>rows start. AList.delete (bucketKey c res start) rows) (BucketRows m) starts\<rparr>) w
     = (if bucketKey c (fst w) (snd w) \<in> bucketKey c res ` set starts then None else live_view c m w)"
proof (induction starts arbitrary: m)
  case (Cons s starts)
  show ?case using Cons.IH [of "m\<lparr>BucketRows := AList.delete (bucketKey c res s) (BucketRows m)\<rparr>"]
    by (auto simp: live_view_def AList.delete_conv' split: if_splits)
qed simp

lemma Discard_refreshed:
  assumes "DiscardBucketsBelowFrontier c res (BucketStarts rows res) m = Inr m'"
  shows "refreshed c {} m m'"
proof -
  let ?gone = "filter (below_frontier c m) (BucketStarts rows res)"
  have r: "res \<in> set ResolutionOrder"
    and m': "m' = m\<lparr>BucketRows := foldl (\<lambda>rows start. AList.delete (bucketKey c res start) rows) (BucketRows m) ?gone\<rparr>"
    using assms by (auto simp: DiscardBucketsBelowFrontier_def elim!: bind_errE split: if_split_asm)
  have "live_view c m' w = live_view c m w" if w: "aligned w" "\<not> below_frontier c m (snd w)" for w
  proof -
    have "bucketKey c (fst w) (snd w) \<notin> bucketKey c res ` set ?gone"
      using key_of_window [OF w(1) BucketStarts_aligned [OF r], of _ rows c] w(2) by auto
    then show ?thesis unfolding m' by (simp add: deleted_view)
  qed
  moreover have "keyed bucket_key (BucketRows m')" if "keyed bucket_key (BucketRows m)"
    unfolding m' using that by (auto intro!: keyed_foldl keyed_delete)
  ultimately show ?thesis using m' by (intro refreshedI) simp_all
qed

lemma rebuild_each_refreshed:
  "rebuild_each c rows rs m = Inr m' \<Longrightarrow> refreshed c (\<Union>res\<in>set rs. Pair res ` set (BucketStarts rows res)) m m'"
proof (induction rs arbitrary: m)
  case (Cons res rs)
  then obtain m1 where "RebuildBuckets c res (BucketStarts rows res) m = Inr m1" "rebuild_each c rows rs m1 = Inr m'"
    by (auto elim: bind_errE)
  then show ?case using refreshed_trans [OF RebuildBuckets_refreshed Cons.IH] by simp
qed (simp add: refreshed_refl)

lemma rebuild_discard_refreshed:
  "rebuild_discard c rows rs m = Inr m' \<Longrightarrow> refreshed c (\<Union>res\<in>set rs. Pair res ` set (BucketStarts rows res)) m m'"
proof (induction rs arbitrary: m)
  case (Cons res rs)
  then obtain m1 m2 where "RebuildBuckets c res (BucketStarts rows res) m = Inr m1"
      "DiscardBucketsBelowFrontier c res (BucketStarts rows res) m1 = Inr m2" "rebuild_discard c rows rs m2 = Inr m'"
    by (auto elim!: bind_errE)
  then show ?case
    using refreshed_trans [OF refreshed_trans [OF RebuildBuckets_refreshed Discard_refreshed] Cons.IH] by simp
qed (simp add: refreshed_refl)

lemma windows_of_set: "set (windows_of rows) = (\<Union>res\<in>set ResolutionOrder. Pair res ` set (BucketStarts rows res))"
  by (auto simp: windows_of_def)

text \<open>Buckets under keys that are not live: folding into them leaves the live views alone.\<close>

definition dead_bucket :: "u64 \<Rightarrow> gotime \<Rightarrow> MemStore \<Rightarrow> Bucket \<Rightarrow> bool" where
  "dead_bucket c lo m b \<longleftrightarrow> kChainID b = c \<and> aligned (kResolution b, kBucketStart b)
     \<and> (kBucketStart b < lo \<or> below_frontier c m (kBucketStart b))"

lemma fold_bucket_lookup: "k \<notin> bucket_key ` set bs \<Longrightarrow> map_of (foldl fold_bucket rows bs) k = map_of rows k"
  by (induction bs arbitrary: rows) (auto simp: fold_bucket_def AList.update_conv' split: option.split)

lemma FoldBuckets_live:
  assumes "FoldBuckets bs m = Inr m'" "\<forall>b\<in>set bs. dead_bucket c lo m b" "aligned w" "lo \<le> snd w" "\<not> below_frontier c m (snd w)"
  shows "live_view c m' w = live_view c m w"
proof -
  have m': "m' = m\<lparr>BucketRows := foldl fold_bucket (BucketRows m) bs\<rparr>" using assms(1) by (simp add: FoldBuckets_def)
  have "bucketKey c (fst w) (snd w) \<notin> bucket_key ` set bs"
  proof
    assume "bucketKey c (fst w) (snd w) \<in> bucket_key ` set bs"
    then obtain b where b: "b \<in> set bs" "bucketKey c (fst w) (snd w) = bucket_key b" by blast
    then have "w = (kResolution b, kBucketStart b)"
      using assms(2,3) by (intro key_of_window) (auto simp: dead_bucket_def bucket_key_def)
    then show False using assms(2,4,5) b(1) by (auto simp: dead_bucket_def)
  qed
  then show ?thesis unfolding m' by (simp add: live_view_def fold_bucket_lookup)
qed

lemma FoldBlocks_windows:
  assumes "k \<in> set (FoldBlocks rows f)"
  shows "\<exists>b\<in>set rows. kChainID k = bChainID b \<and> kResolution k \<in> set ResolutionOrder \<and> (kResolution k, kBucketStart k) = window_of (kResolution k) b"
proof -
  obtain res g where g: "res \<in> set ResolutionOrder" "g \<in> set (groups (Resolutions res) rows)" "k = group_bucket res f g"
    using assms by (auto simp: FoldBlocks_def fold_rows_spec)
  then have "g \<noteq> []" using groups_window [of "Resolutions res" rows] by (auto simp: list_all_iff oneWindow_def)
  then have "hd g \<in> set rows" using g(2) groups_concat [of "Resolutions res" rows] by (metis hd_in_set UN_I set_concat)
  then show ?thesis using g by (auto simp: group_bucket_def window_of_def)
qed

lemma window_of_aligned: "res \<in> set ResolutionOrder \<Longrightarrow> aligned (window_of res b)"
  using windows_of_aligned [of "[b]"] by (auto simp: set_windows_of window_of_def)

lemma window_of_start: "res \<in> set ResolutionOrder \<Longrightarrow> snd (window_of res b) \<le> bTS b"
  by (simp add: window_of_def Truncate_bounds resolution_width)

lemma FoldBlocks_dead:
  assumes "\<forall>b\<in>set rows. bChainID b = c \<and> bTS b < lo" "k \<in> set (FoldBlocks rows f)"
  shows "dead_bucket c lo m k"
proof -
  obtain b where b: "b \<in> set rows" "kChainID k = bChainID b" "kResolution k \<in> set ResolutionOrder"
      "(kResolution k, kBucketStart k) = window_of (kResolution k) b"
    using FoldBlocks_windows [OF assms(2)] by blast
  have "kBucketStart k \<le> bTS b" using window_of_start [OF b(3), of b] b(4) by (metis snd_conv)
  moreover have "bChainID b = c" "bTS b < lo" using assms(1) b(1) by auto
  ultimately show ?thesis using window_of_aligned [OF b(3), of b] b(2,4) by (simp add: dead_bucket_def)
qed


section \<open>The invariant\<close>

definition history_ok :: "u64 \<Rightarrow> gotime \<Rightarrow> MemStore \<Rightarrow> bool" where
  "history_ok c lo m \<longleftrightarrow> keyed block_key (BlockRows m) \<and> keyed bucket_key (BucketRows m) \<and> live_current c lo m"

lemma history_ok_quiet: "history_of m' = history_of m \<Longrightarrow> history_ok c lo m \<Longrightarrow> history_ok c lo m'"
  using history_of_live [of m' m] by (simp add: history_ok_def)

text \<open>A change of the rows followed by a refresh of the windows it touched.\<close>

lemma history_ok_refresh:
  assumes "history_ok c lo m" "keyed block_key (BlockRows s)" "BucketRows s = BucketRows m"
    and "\<And>t. below_frontier c m t \<Longrightarrow> below_frontier c s t"
    and "refreshed c W s m'"
    and "\<And>w. aligned w \<Longrightarrow> lo \<le> snd w \<Longrightarrow> \<not> below_frontier c s (snd w) \<Longrightarrow> w \<notin> W \<Longrightarrow> rows_in c w s = rows_in c w m"
  shows "history_ok c lo m'"
proof -
  note r = refreshedD [OF assms(5)]
  have "live_view c m' w = live_source c m' w" if w: "aligned w" "lo \<le> snd w" "\<not> below_frontier c m' (snd w)" for w
  proof -
    have b: "\<not> below_frontier c s (snd w)" using w(3) r(2) by simp
    have src: "live_source c m' w = live_source c s w" by (rule source_of_rows [OF r(1)])
    show ?thesis
    proof (cases "w \<in> W")
      case False
      have "live_view c m' w = live_view c m w"
        using r(4) [OF w(1) b] False live_view_cong [OF assms(3)] by simp
      also have "\<dots> = live_source c m w" using assms(1,4) b w unfolding history_ok_def live_current_def by blast
      also have "\<dots> = live_source c s w" by (rule live_source_cong [symmetric]) (rule assms(6) [OF w(1,2) b False])
      finally show ?thesis by (simp add: src)
    qed (simp add: r(4) [OF w(1) b] src)
  qed
  moreover have "keyed bucket_key (BucketRows m')" using r(3) assms(1,3) by (simp add: history_ok_def)
  ultimately show ?thesis using assms(2) r(1) unfolding history_ok_def live_current_def by simp
qed

text \<open>A change of buckets that are not live.\<close>

lemma history_ok_buckets:
  assumes "history_ok c lo m" "BlockRows m' = BlockRows m" "StateRows m' = StateRows m" "keyed bucket_key (BucketRows m')"
    and "\<And>w. aligned w \<Longrightarrow> lo \<le> snd w \<Longrightarrow> \<not> below_frontier c m (snd w) \<Longrightarrow> live_view c m' w = live_view c m w"
  shows "history_ok c lo m'"
  using assms below_frontier_cong [OF assms(3), of c] source_of_rows [OF assms(2), of c]
  unfolding history_ok_def live_current_def by simp

lemma FoldBuckets_ok:
  assumes "history_ok c lo m" "FoldBuckets bs m = Inr m'" "\<forall>b\<in>set bs. dead_bucket c lo m b"
  shows "history_ok c lo m'"
proof (rule history_ok_buckets [OF assms(1)])
  show "BlockRows m' = BlockRows m" "StateRows m' = StateRows m" using assms(2) by (auto simp: FoldBuckets_def)
  have "keyed bucket_key (foldl fold_bucket (BucketRows m) bs)"
    using assms(1) by (intro keyed_foldl) (auto simp: history_ok_def keyed_fold_bucket)
  then show "keyed bucket_key (BucketRows m')" using assms(2) by (auto simp: FoldBuckets_def)
qed (rule FoldBuckets_live [OF assms(2,3)])

lemma bucket_start_second:
  assumes "aligned w" "kChainID b = c'" "bucket_key b = bucketKey c (fst w) (snd w)"
  shows "snd w \<le> kBucketStart b"
proof -
  have "kBucketStart b div Second = snd w div Second"
    using assms(3) by (simp add: bucket_key_def bucketKey_def Unix_def)
  moreover have "Second dvd snd w" by (rule Second_dvd_window [OF assms(1)])
  moreover have "kBucketStart b div Second * Second \<le> kBucketStart b" by (simp add: Second_def)
  ultimately show ?thesis by simp
qed

lemma map_of_filter_kept:
  "distinct (map fst xs) \<Longrightarrow> (\<And>v. map_of xs k = Some v \<Longrightarrow> P (k, v)) \<Longrightarrow> map_of (filter P xs) k = map_of xs k"
  by (induction xs) (auto simp: map_of_eq_None_iff split: if_splits)

lemma DeleteBucketsBefore_ok:
  assumes "history_ok c lo m" "DeleteBucketsBefore c t m = Inr (n, m')" "t \<le> lo"
  shows "history_ok c lo m'"
proof (rule history_ok_buckets [OF assms(1)])
  let ?kept = "\<lambda>r. \<not> (kChainID (snd r) = c \<and> kBucketStart (snd r) < t)"
  have m': "m' = m\<lparr>BucketRows := filter ?kept (BucketRows m)\<rparr>"
    using assms(2) by (simp add: DeleteBucketsBefore_def)
  have k: "keyed bucket_key (BucketRows m)" using assms(1) by (simp add: history_ok_def)
  show "BlockRows m' = BlockRows m" "StateRows m' = StateRows m" by (simp_all add: m')
  show "keyed bucket_key (BucketRows m')" by (simp add: m' keyed_filter [OF k])
  fix w assume w: "aligned w" "lo \<le> snd w"
  have "map_of (filter ?kept (BucketRows m)) (bucketKey c (fst w) (snd w)) = map_of (BucketRows m) (bucketKey c (fst w) (snd w))"
  proof (rule map_of_filter_kept)
    show "distinct (map fst (BucketRows m))" using k by (simp add: keyed_def)
    fix b assume "map_of (BucketRows m) (bucketKey c (fst w) (snd w)) = Some b"
    then have "snd w \<le> kBucketStart b" by (intro bucket_start_second [OF w(1) refl] keyed_lookup_key [OF k])
    then show "?kept (bucketKey c (fst w) (snd w), b)" using w(2) assms(3) by simp
  qed
  then show "live_view c m' w = live_view c m w" by (simp add: live_view_def m')
qed

lemma UpsertBlocks_keyed:
  "UpsertBlocks bs m = Inr s \<Longrightarrow> keyed block_key (BlockRows m) \<Longrightarrow> keyed block_key (BlockRows s)"
  by (auto simp: UpsertBlocks_def block_key_def intro!: keyed_foldl keyed_update)

lemma UpsertBlocks_refresh:
  assumes "history_ok c lo m" "storable c m bs" "UpsertBlocks bs m = Inr s" "refreshed c W s m'"
    and "\<And>b res. b \<in> set bs \<Longrightarrow> res \<in> set ResolutionOrder \<Longrightarrow> lo \<le> snd (window_of res b) \<Longrightarrow> window_of res b \<in> W"
  shows "history_ok c lo m'"
proof (rule history_ok_refresh [OF assms(1) _ _ _ assms(4)])
  have k: "keyed block_key (BlockRows m)" using assms(1) by (simp add: history_ok_def)
  have s: "s = m\<lparr>BlockRows := foldl (\<lambda>rows b. AList.update (bChainID b, bNumber b) b rows) (BlockRows m) bs\<rparr>"
    using assms(3) by (simp add: UpsertBlocks_def)
  show "keyed block_key (BlockRows s)" by (rule UpsertBlocks_keyed [OF assms(3) k])
  show "BucketRows s = BucketRows m" by (simp add: s)
  show "below_frontier c s t" if "below_frontier c m t" for t
    using that below_frontier_cong [of s m c] by (simp add: s)
  fix w assume w: "aligned w" "lo \<le> snd w" "w \<notin> W"
  have "\<forall>b\<in>set bs. w \<noteq> window_of (fst w) b" using assms(5) w unfolding aligned_def by metis
  then show "rows_in c w s = rows_in c w m" unfolding s using assms(2)
    by (intro rows_in_upsert [OF k w(1)]) (auto simp: storable_def)
qed


section \<open>Each transaction keeps the invariant\<close>

lemma storable_cong: "BlockRows s = BlockRows m \<Longrightarrow> storable c s bs = storable c m bs"
  by (simp add: storable_def)

lemma rebuild_rows_refreshed: "rebuild_rows c rows m = Inr m' \<Longrightarrow> refreshed c (set (windows_of rows)) m m'"
  by (simp add: rebuild_rows_def windows_of_set rebuild_each_refreshed)

lemma window_of_in: "b \<in> set rows \<Longrightarrow> res \<in> set ResolutionOrder \<Longrightarrow> window_of res b \<in> set (windows_of rows)"
  by (auto simp: set_windows_of window_of_def)

lemma upsert_rebuild_ok:
  assumes "history_ok c lo m" "storable c m rows" "upsert_rebuild c rows m = Inr m'"
  shows "history_ok c lo m'"
proof (cases "rows = []")
  case False
  then obtain s where "UpsertBlocks rows m = Inr s" "rebuild_rows c rows s = Inr m'"
    using assms(3) by (auto simp: upsert_rebuild_def elim: bind_errE)
  then show ?thesis
    using UpsertBlocks_refresh [OF assms(1,2) _ rebuild_rows_refreshed] window_of_in by blast
qed (use assms in \<open>simp add: upsert_rebuild_def\<close>)

lemma persist_ok:
  assumes "history_ok c lo m" "cfChainID cfg = c" "storable c m rows"
    and "persist_body cfg now docs sample rows h pending f m = Inr (reload, m')"
  shows "history_ok c lo m'"
proof -
  obtain m1 m2 snap m3 m4 where
      m1: "record_sets c pending (observedSetLocked c (fCaches f) sample pending) m = Inr (reload, m1)"
    and m2: "upsert_rebuild c rows m1 = Inr m2"
    and m3: "write_head c sample snap docs (fLiveStart f = None) m2 = Inr m3"
    and m4: "(case h of None \<Rightarrow> Inr m3 | Some r \<Rightarrow> on_ranges c (recordHole c now r) m3) = Inr m4"
    and m5: "Notify ChannelLive (LivePayload snap) m4 = Inr m'"
    using assms(4) unfolding persist_body_def Let_def assms(2) by (fastforce elim!: bind_errE)
  note q1 = history_record_sets [OF m1]
  have "history_ok c lo m1" by (rule history_ok_quiet [OF q1 assms(1)])
  then have ok2: "history_ok c lo m2"
    using upsert_rebuild_ok [OF _ _ m2] assms(3) storable_cong [OF history_of_live(1) [OF q1], of c rows] by simp
  have "history_of m4 = history_of m3" using m4 by (auto split: option.split_asm dest!: history_rules)
  then have "history_of m' = history_of m2" using m5 history_write_head [OF m3] by (auto dest!: history_rules)
  then show ?thesis by (rule history_ok_quiet [OF _ ok2])
qed

lemma DeleteBlocks_refresh:
  assumes "history_ok c lo m" "DeleteBlocksAfter c a m = Inr (removed, s)" "refreshed c (set (windows_of removed)) s m'"
  shows "history_ok c lo m'"
proof (rule history_ok_refresh [OF assms(1) _ _ _ assms(3)])
  let ?gone = "\<lambda>r. fst (fst r) = c \<and> a < bNumber (snd r)"
  have k: "keyed block_key (BlockRows m)" using assms(1) by (simp add: history_ok_def)
  have s: "s = m\<lparr>BlockRows := filter (\<lambda>r. \<not> ?gone r) (BlockRows m)\<rparr>"
    and removed: "removed = filter (\<lambda>b. a < bNumber b) (sortedBlocks c m)"
    using assms(2) by (auto simp: DeleteBlocksAfter_def)
  show "keyed block_key (BlockRows s)" by (simp add: s keyed_filter [OF k])
  show "BucketRows s = BucketRows m" by (simp add: s)
  show "below_frontier c s t" if "below_frontier c m t" for t
    using that below_frontier_cong [of s m c] by (simp add: s)
  fix w assume w: "aligned w" "w \<notin> set (windows_of removed)"
  have "\<forall>r\<in>set (BlockRows m). ?gone r \<longrightarrow> fst (fst r) = c \<longrightarrow> w \<noteq> window_of (fst w) (snd r)"
    using w by (force simp: set_windows_of aligned_def removed sortedBlocks_def chain_blocks_def)
  then show "rows_in c w s = rows_in c w m" unfolding s by (intro rows_in_delete w(1) k)
qed

lemma rewindOwnerScan_quiet [history_rules]:
  "rewindOwnerScan c' a m = Inr (r, m') \<Longrightarrow> history_of m' = history_of m"
  unfolding rewindOwnerScan_def
  by (elim bind_errE) (auto elim!: bind_errE dest!: history_rules split: if_split_asm)

lemma rewindNetworkHead_quiet [history_rules]: "rewindNetworkHead c' a m = Inr m' \<Longrightarrow> history_of m' = history_of m"
  unfolding rewindNetworkHead_def by (elim bind_errE) (auto dest!: history_rules)

lemma rewind_live_start_quiet [history_rules]:
  "rewind_live_start c' a ls m = Inr (r, m') \<Longrightarrow> history_of m' = history_of m"
  by (auto simp: rewind_live_start_def elim!: bind_errE dest!: history_rules split: option.split_asm if_split_asm)

text \<open>A boundary that is not above \<open>lo\<close>, when there is one.\<close>

definition bounded_by :: "gotime \<Rightarrow> gotime option \<Rightarrow> bool" where
  "bounded_by lo boundary \<longleftrightarrow> (case boundary of None \<Rightarrow> True | Some t \<Rightarrow> t \<le> lo)"

lemma rewindBackfill_ok:
  assumes "history_ok (cfChainID cfg) lo m" "bounded_by lo boundary" "rewindBackfill cfg a boundary m = Inr (r, m')"
  shows "history_ok (cfChainID cfg) lo m'"
proof -
  have "history_of m' = history_of m \<or>
     (\<exists>t n s. boundary = Some t \<and> DeleteBucketsBefore (cfChainID cfg) t m = Inr (n, s) \<and> history_of m' = history_of s)"
    using assms(3) unfolding rewindBackfill_def
    by (auto elim!: bind_errE dest!: history_rules split: option.split_asm state_value.split_asm if_split_asm)
  then show ?thesis
  proof (elim disjE exE conjE)
    assume "history_of m' = history_of m"
    then show ?thesis by (rule history_ok_quiet [OF _ assms(1)])
  next
    fix t n s assume d: "boundary = Some t" "DeleteBucketsBefore (cfChainID cfg) t m = Inr (n, s)" "history_of m' = history_of s"
    then have "history_ok (cfChainID cfg) lo s"
      using assms(2) by (intro DeleteBucketsBefore_ok [OF assms(1) d(2)]) (simp add: bounded_by_def)
    then show ?thesis by (rule history_ok_quiet [OF d(3)])
  qed
qed

lemma bumpGeneration_frame:
  assumes "bumpGeneration c m = Inr m'"
  obtains g where "generation c m = Inr g"
    "m' = m\<lparr>StateRows := AList.update (c, StateGeneration) (StateText (FormatUint (g + 1))) (StateRows m)\<rparr>"
  using assms by (auto simp: bumpGeneration_def SetState_def elim!: bind_errE)

lemma bumpGeneration_ok:
  assumes "history_ok c lo m" "bumpGeneration c' m = Inr m'"
  shows "history_ok c lo m'"
proof -
  obtain v where m': "m' = m\<lparr>StateRows := AList.update (c', StateGeneration) v (StateRows m)\<rparr>"
    using assms(2) by (auto elim: bumpGeneration_frame)
  have "StateGeneration \<noteq> StatePruneFrontier" by (simp add: state_keys)
  then have "below_frontier c m' = below_frontier c m"
    by (simp add: m' below_frontier_def pruneFrontierLocked_def AList.update_conv' fun_eq_iff)
  then show ?thesis
    using assms(1) live_current_cong [of m' m c lo] by (simp add: history_ok_def m')
qed

lemma rewind_ok:
  assumes "history_ok c lo m" "cfChainID cfg = c" "bounded_by lo (map_option boundaryOf ls)"
    and "rewind_body cfg now ls ancestor m = Inr (cs, reset, m')"
  shows "history_ok c lo m'"
proof -
  obtain m1 removed m2 m3 m4 n m5 m6 m7 cleared m8 m9 m10 m11 where
      m1: "bumpGeneration c m = Inr m1" and m2: "DeleteBlocksAfter c ancestor m1 = Inr (removed, m2)"
    and m3: "rebuild_discard c removed ResolutionOrder m2 = Inr m3" and m4: "RewindAfter c ancestor m3 = Inr m4"
    and m5: "DeleteStateSamplesAfter c ancestor m4 = Inr (n, m5)" and m6: "rewindOwnerScan c ancestor m5 = Inr (reset, m6)"
    and m7: "rewindCursor c StateBatchScanCursor ancestor m6 = Inr m7"
    and m8: "rewindBackfill cfg ancestor (map_option boundaryOf ls) m7 = Inr (cleared, m8)"
    and m9: "on_ranges c (rewindHoles c now ancestor cleared) m8 = Inr m9"
    and m10: "rewind_live_start c ancestor ls m9 = Inr (cs, m10)" and m11: "rewindNetworkHead c ancestor m10 = Inr m11"
    and m12: "SetState c StateHead (StateText (FormatUint ancestor)) m11 = Inr m'"
    using assms(4) unfolding rewind_body_def Let_def assms(2) by (fastforce elim!: bind_errE)
  have "history_ok c lo m1" by (rule bumpGeneration_ok [OF assms(1) m1])
  moreover have "refreshed c (set (windows_of removed)) m2 m3"
    using rebuild_discard_refreshed [OF m3] by (simp add: windows_of_set)
  ultimately have ok3: "history_ok c lo m3" by (rule DeleteBlocks_refresh [OF _ m2])
  have "history_of m7 = history_of m3" using m4 m5 m6 m7 by (auto dest!: history_rules)
  then have "history_ok c lo m7" by (rule history_ok_quiet [OF _ ok3])
  then have ok8: "history_ok c lo m8" using rewindBackfill_ok [OF _ assms(3) m8] assms(2) by simp
  have "history_of m' = history_of m8" using m9 m10 m11 m12 by (auto dest!: history_rules)
  then show ?thesis by (rule history_ok_quiet [OF _ ok8])
qed


text \<open>The folds that \<open>commitFill\<close> keeps for declined windows are those below the frontier.\<close>

lemma declined_folds_set:
  "declined_folds c res declined bs m = Inr out \<Longrightarrow> set out \<subseteq> {b \<in> set bs. kBucketStart b \<in> set declined}"
proof (induction bs arbitrary: out)
  case (Cons b bs)
  then show ?case
    by (fastforce simp: startAmong_def elim!: bind_errE split: if_split_asm)
qed simp

lemma rebuild_declined_refreshed:
  "rebuild_declined c rows rowFolds rs toFold m = Inr (out, m')
     \<Longrightarrow> refreshed c (\<Union>res\<in>set rs. Pair res ` set (BucketStarts rows res)) m m'
        \<and> set out \<subseteq> set toFold \<union> {b \<in> set rowFolds. below_frontier c m (kBucketStart b)}"
proof (induction rs arbitrary: toFold m)
  case Nil
  then show ?case by (simp add: refreshed_refl)
next
  case (Cons res rs)
  then obtain m1 declined more where
      m1: "RebuildBuckets c res (BucketStarts rows res) m = Inr m1" and d: "BelowFrontier c (BucketStarts rows res) m1 = Inr declined"
    and more: "declined_folds c res declined rowFolds m1 = Inr more"
    and rest: "rebuild_declined c rows rowFolds rs (toFold @ more) m1 = Inr (out, m')"
    by (auto simp: Let_def elim!: bind_errE)
  note r = RebuildBuckets_refreshed [OF m1]
  have "set declined \<subseteq> {t. below_frontier c m t}" using d refreshedD(2) [OF r] by (auto simp: BelowFrontier_def)
  then have "set more \<subseteq> {b \<in> set rowFolds. below_frontier c m (kBucketStart b)}" using declined_folds_set [OF more] by auto
  then show ?case
    using Cons.IH [OF rest] refreshed_trans [OF r, of _ m'] refreshedD(2) [OF r] by auto
qed

text \<open>The rows of a batch are of the chain, and what is stored of them may be stored.\<close>

definition fill_storable :: "u64 \<Rightarrow> MemStore \<Rightarrow> fill_rows \<Rightarrow> bool" where
  "fill_storable c m split \<longleftrightarrow> storable c m (frRowBacked split @ frKept split)
     \<and> (\<forall>b\<in>set (frAdditive split @ frFoldable split). bChainID b = c)"

lemma split_fill_sides:
  "b \<in> set (frAdditive (split_fill (Some t) folded rows tail)) \<Longrightarrow> bTS b < t"
  "b \<in> set (frKept (split_fill (Some t) folded rows tail)) \<Longrightarrow> bTS b < t"
  by (auto simp: split_fill_def Let_def)

lemma FoldBlocks_below_dead:
  assumes "\<forall>b\<in>set rows. bChainID b = c" "k \<in> set (FoldBlocks rows f)" "below_frontier c m (kBucketStart k)"
  shows "dead_bucket c lo m k"
proof -
  obtain b where b: "b \<in> set rows" "kChainID k = bChainID b" "kResolution k \<in> set ResolutionOrder"
      "(kResolution k, kBucketStart k) = window_of (kResolution k) b"
    using FoldBlocks_windows [OF assms(2)] by blast
  then show ?thesis using window_of_aligned [OF b(3), of b] assms(1,3) by (simp add: dead_bucket_def)
qed

lemma kept_window_low:
  assumes "b \<in> set (frKept (split_fill (Some t) folded rows tail))" "res \<in> set ResolutionOrder" "t \<le> lo"
  shows "\<not> lo \<le> snd (window_of res b)"
  using split_fill_sides(2) [OF assms(1)] window_of_start [OF assms(2), of b] assms(3) by simp

lemma fill_buckets_ok:
  assumes ok: "history_ok c lo m" and t: "t \<le> lo" and split: "split = split_fill (Some t) folded rows tail"
    and st: "fill_storable c m split" and fill: "fill_buckets c setID split m = Inr m'"
  shows "history_ok c lo m'"
proof -
  let ?stored = "frRowBacked split @ frKept split"
  obtain m1 toFold m2 where
      m1: "(if ?stored = [] then Inr m else UpsertBlocks ?stored m) = Inr m1"
    and m2: "(if frRowBacked split = [] then Inr (FoldBlocks (frAdditive split) setID, m1)
              else rebuild_declined c (frRowBacked split) (FoldBlocks (frFoldable split) setID) ResolutionOrder
                     (FoldBlocks (frAdditive split) setID) m1) = Inr (toFold, m2)"
    and m3: "FoldBuckets toFold m2 = Inr m'"
    using fill unfolding fill_buckets_def by (fastforce elim!: bind_errE)
  have r: "refreshed c (set (windows_of (frRowBacked split))) m1 m2"
    and f: "set toFold \<subseteq> set (FoldBlocks (frAdditive split) setID)
        \<union> {b \<in> set (FoldBlocks (frFoldable split) setID). below_frontier c m1 (kBucketStart b)}"
    using m2 rebuild_declined_refreshed [of c "frRowBacked split" "FoldBlocks (frFoldable split) setID" ResolutionOrder
        "FoldBlocks (frAdditive split) setID" m1 toFold m2]
    by (auto simp: windows_of_set refreshed_refl BucketStarts_def split: if_split_asm)
  have "UpsertBlocks ?stored m = Inr m1 \<or> ?stored = [] \<and> m1 = m" using m1 by (auto split: if_split_asm)
  then have ok2: "history_ok c lo m2"
  proof (elim disjE conjE)
    assume u: "UpsertBlocks ?stored m = Inr m1"
    show ?thesis
    proof (rule UpsertBlocks_refresh [OF ok _ u r])
      show "storable c m ?stored" using st by (simp add: fill_storable_def)
      fix b res assume b: "b \<in> set ?stored" "res \<in> set ResolutionOrder" "lo \<le> snd (window_of res b)"
      then have "b \<in> set (frRowBacked split)" using kept_window_low [of b t folded rows tail res lo] t by (auto simp: split)
      then show "window_of res b \<in> set (windows_of (frRowBacked split))" using b(2) by (rule window_of_in)
    qed
  next
    assume "?stored = []" "m1 = m"
    then show ?thesis using r ok
      by (intro history_ok_refresh [OF ok _ _ _ r]) (simp_all add: history_ok_def)
  qed
  have "\<forall>b\<in>set toFold. dead_bucket c lo m2 b"
  proof
    fix b assume "b \<in> set toFold"
    then consider "b \<in> set (FoldBlocks (frAdditive split) setID)"
      | "b \<in> set (FoldBlocks (frFoldable split) setID)" "below_frontier c m2 (kBucketStart b)"
      using f refreshedD(2) [OF r] by auto
    then show "dead_bucket c lo m2 b"
    proof cases
      case 1
      have "\<forall>b\<in>set (frAdditive split). bChainID b = c \<and> bTS b < lo"
        using st t split_fill_sides(1) [of _ t folded rows tail] by (fastforce simp: fill_storable_def split)
      then show ?thesis using 1 by (rule FoldBlocks_dead)
    next
      case 2
      have "\<forall>b\<in>set (frFoldable split). bChainID b = c" using st by (simp add: fill_storable_def)
      then show ?thesis using 2 by (rule FoldBlocks_below_dead)
    qed
  qed
  then show ?thesis by (rule FoldBuckets_ok [OF ok2 m3])
qed

lemma commitFill_ok:
  assumes "history_ok c lo m" "t \<le> lo" "fill_storable c m (split_fill (Some t) (Folded h) rows tail)"
    and "commitFill c now (Some t) sets gen h rows tail done m = Inr m'"
  shows "history_ok c lo m'"
proof -
  obtain m1 h' where "fill_buckets c (\<lambda>n. map_option csID (setAt sets n)) (split_fill (Some t) (Folded h) rows tail) m = Inr m1"
      and q: "on_ranges c (advanceHole c now h' done) m1 = Inr m'"
    using assms(4) unfolding commitFill_def Let_def withGeneration_Inr by (elim conjE bind_errE) blast
  then have "history_ok c lo m1" by (intro fill_buckets_ok [OF assms(1,2) refl assms(3)])
  then show ?thesis by (rule history_ok_quiet [rotated]) (use q in \<open>auto dest!: history_rules\<close>)
qed

lemma backfill_commit_ok:
  assumes "history_ok c lo m" "t \<le> lo" "storable c m (filter (\<lambda>r. \<not> bTS r < t) rows)" "\<forall>r\<in>set rows. bChainID r = c"
    and "backfill_commit c gen (Some t) setID rows cur m = Inr m'"
  shows "history_ok c lo m'"
proof -
  obtain m1 m2 where m1: "upsert_rebuild c (filter (\<lambda>r. \<not> bTS r < t) rows) m = Inr m1"
    and m2: "FoldBuckets (FoldBlocks (filter (\<lambda>r. bTS r < t) rows) (\<lambda>_. setID)) m1 = Inr m2"
    and m3: "saveCursor c cur m2 = Inr m'"
    using assms(5) unfolding backfill_commit_def Let_def withGeneration_Inr by (auto elim!: bind_errE)
  have ok1: "history_ok c lo m1" by (rule upsert_rebuild_ok [OF assms(1,3) m1])
  have "\<forall>r\<in>set (filter (\<lambda>r. bTS r < t) rows). bChainID r = c \<and> bTS r < lo" using assms(2,4) by auto
  then have "\<forall>k\<in>set (FoldBlocks (filter (\<lambda>r. bTS r < t) rows) (\<lambda>_. setID)). dead_bucket c lo m1 k" by (blast intro: FoldBlocks_dead)
  then have "history_ok c lo m2" by (rule FoldBuckets_ok [OF ok1 m2])
  then show ?thesis by (rule history_ok_quiet [rotated]) (use m3 in \<open>auto dest!: history_rules\<close>)
qed


text \<open>The times that RFC 3339 can write, but for the zero time, which stands for none.\<close>

definition writable_time :: "gotime \<Rightarrow> bool" where
  "writable_time t \<longleftrightarrow> 0 < t \<and> t < 3652059 * 86400 * Second"

lemma recordPruneFrontier_moves:
  assumes "writable_time before" "recordPruneFrontier c before m = Inr m'"
  shows "BlockRows m' = BlockRows m" "BucketRows m' = BucketRows m"
    "below_frontier c m s \<Longrightarrow> below_frontier c m' s" "s < before \<Longrightarrow> below_frontier c m' s"
proof -
  have p: "Parse (RFC3339Nano before) = Some before" "before \<noteq> 0"
    using assms(1) Parse_nano by (auto simp: writable_time_def)
  obtain v where v: "v = map_of (StateRows m) (c, StatePruneFrontier)"
    and cases: "SetState c StatePruneFrontier (StateText (RFC3339Nano before)) m = Inr m' \<and>
         (\<forall>raw prev. v = Some (StateText raw) \<longrightarrow> Parse raw = Some prev \<longrightarrow> prev < before)
       \<or> m' = m \<and> (\<exists>raw prev. v = Some (StateText raw) \<and> Parse raw = Some prev \<and> before \<le> prev)"
    using assms(2) unfolding recordPruneFrontier_def Let_def
    by (auto simp: GetState_def elim!: bind_errE split: option.split_asm state_value.split_asm if_split_asm)
  have new: "pruneFrontierLocked c m' = before" if "SetState c StatePruneFrontier (StateText (RFC3339Nano before)) m = Inr m'"
    using that p by (auto simp: SetState_def pruneFrontierLocked_def AList.update_conv')
  show "BlockRows m' = BlockRows m" "BucketRows m' = BucketRows m" using cases by (auto simp: SetState_def)
  show "below_frontier c m' s" if "below_frontier c m s"
    using that cases new p v
    by (fastforce simp: below_frontier_def pruneFrontierLocked_def split: option.split_asm state_value.split_asm)
  show "below_frontier c m' s" if "s < before"
    using that cases new p v assms(1)
    by (fastforce simp: below_frontier_def pruneFrontierLocked_def writable_time_def split: option.split_asm state_value.split_asm)
qed

lemma prune_rows_ok:
  assumes "history_ok c lo m" "writable_time before" "PruneBlocks c before m = Inr (n, s)" "recordPruneFrontier c before s = Inr m'"
  shows "history_ok c lo m'"
proof (rule history_ok_refresh [OF assms(1)])
  let ?old = "\<lambda>r. fst (fst r) = c \<and> bTS (snd r) < before"
  have k: "keyed block_key (BlockRows m)" using assms(1) by (simp add: history_ok_def)
  have s: "s = m\<lparr>BlockRows := filter (\<lambda>r. \<not> ?old r) (BlockRows m)\<rparr>" using assms(3) by (simp add: PruneBlocks_def)
  note f = recordPruneFrontier_moves [OF assms(2,4)]
  have b: "below_frontier c s = below_frontier c m" by (rule below_frontier_cong) (simp add: s)
  show "keyed block_key (BlockRows m')" by (simp add: f(1) s keyed_filter [OF k])
  show "BucketRows m' = BucketRows m" by (simp add: f(2) s)
  show "below_frontier c m' t" if "below_frontier c m t" for t using that f(3) b by simp
  show "refreshed c {} m' m'" by (rule refreshed_refl)
  fix w assume w: "aligned w" "\<not> below_frontier c m' (snd w)"
  then have "before \<le> snd w" using f(4) by force
  then have "\<forall>r\<in>set (BlockRows m). ?old r \<longrightarrow> fst (fst r) = c \<longrightarrow> w \<noteq> window_of (fst w) (snd r)"
    using window_of_start [of "fst w"] w(1) unfolding aligned_def by (metis not_less order_trans)
  then have "rows_in c w s = rows_in c w m" unfolding s by (intro rows_in_delete w(1) k)
  moreover have "rows_in c w m' = rows_in c w s"
    using f(1) by (simp add: rows_in_def window_rows_def sortedBlocks_def chain_blocks_def)
  ultimately show "rows_in c w m' = rows_in c w m" by simp
qed

text \<open>The cutoff of a prune can be written, unless there is none.\<close>

definition cutoff_writable :: "follower_config \<Rightarrow> MemStore \<Rightarrow> bool" where
  "cutoff_writable cfg m \<longleftrightarrow>
     (\<forall>b t. pruneCutoff cfg b True m = Inr t \<longrightarrow> t \<noteq> 0 \<longrightarrow> writable_time t)"

lemma prune_ok:
  assumes "history_ok c lo m" "cfChainID cfg = c" "cutoff_writable cfg m" "prune cfg now m = Inr m'"
  shows "history_ok c lo m'"
proof -
  obtain m1 n where m1: "prune_blocks cfg m = Inr m1"
      and m2: "PruneStateSamples c (now - cfSampleRetention cfg) m1 = Inr (n, m')"
    using assms(2,4) unfolding prune_def chain_WithChainTx_def by (auto elim!: bind_errE split: if_split_asm)
  have "m1 = m \<or> (\<exists>b before n s. pruneCutoff cfg b True m = Inr before \<and> before \<noteq> 0
      \<and> PruneBlocks c before m = Inr (n, s) \<and> recordPruneFrontier c before s = Inr m1)"
    using m1 assms(2) by (auto simp: prune_blocks_def elim!: bind_errE split: option.split_asm if_split_asm) blast
  then have "history_ok c lo m1"
    using assms(1,3) prune_rows_ok unfolding cutoff_writable_def by blast
  then show ?thesis by (rule history_ok_quiet [rotated]) (use m2 in \<open>auto dest!: history_rules\<close>)
qed


lemma seed_frontier_ok:
  assumes "history_ok c lo m" "cfChainID cfg = c" "seedPruneFrontierLocked cfg now m = Inr m'"
  shows "history_ok c lo m'"
proof -
  have "m' = m \<or> (\<exists>v. (case map_of (StateRows m) (c, StatePruneFrontier) of Some (StateText raw) \<Rightarrow> Parse raw = None | _ \<Rightarrow> True)
      \<and> SetState c StatePruneFrontier v m = Inr m')"
    using assms(2,3) unfolding seedPruneFrontierLocked_def chain_WithChainTx_def recordPruneFrontier_def Let_def
    by (auto simp: GetState_def elim!: bind_errE split: option.split_asm state_value.split_asm if_split_asm) blast+
  then show ?thesis
  proof (elim disjE exE conjE)
    fix v assume n: "case map_of (StateRows m) (c, StatePruneFrontier) of Some (StateText raw) \<Rightarrow> Parse raw = None | _ \<Rightarrow> True"
      and "SetState c StatePruneFrontier v m = Inr m'"
    then have m': "m' = m\<lparr>StateRows := AList.update (c, StatePruneFrontier) v (StateRows m)\<rparr>" by (simp add: SetState_def)
    have "pruneFrontierLocked c m = 0" using n by (simp add: pruneFrontierLocked_def split: option.split_asm state_value.split_asm)
    then show ?thesis
      by (intro history_ok_refresh [OF assms(1) _ _ _ refreshed_refl])
        (use assms(1) in \<open>simp_all add: m' history_ok_def below_frontier_def rows_in_def window_rows_def sortedBlocks_def chain_blocks_def\<close>)
  qed (use assms(1) in simp)
qed

text \<open>Poster gas is set on rows whose windows are rebuilt.\<close>

definition repairs_rows :: "u64 \<Rightarrow> MemStore \<Rightarrow> (u64 \<times> u64) list \<Rightarrow> db_block list \<Rightarrow> bool" where
  "repairs_rows c m gas repaired \<longleftrightarrow>
     (\<forall>(n, g)\<in>set gas. \<forall>b. map_of (BlockRows m) (c, n) = Some b \<longrightarrow> (\<exists>r\<in>set repaired. bTS r = bTS b))"

lemma set_poster_upsert:
  assumes "keyed block_key (BlockRows m)" "map_of (BlockRows m) (c, n) = Some b"
  shows "set_poster c n g m = m \<or> set_poster c n g m
      = m\<lparr>BlockRows := foldl (\<lambda>rows b. AList.update (bChainID b, bNumber b) b rows) (BlockRows m) [b\<lparr>bPosterGas := Some (i64_of_u64 g)\<rparr>]\<rparr>"
proof -
  have "bChainID b = c \<and> bNumber b = n" using keyed_lookup_key [OF assms] by (simp add: block_key_def)
  then show ?thesis using assms(2) by (simp add: set_poster_def)
qed

lemma set_poster_times:
  "map_option bTS (map_of (BlockRows (set_poster c n g m)) k) = map_option bTS (map_of (BlockRows m) k)"
  by (auto simp: set_poster_def AList.update_conv' split: option.split)

lemma set_poster_rows_in:
  assumes k: "keyed block_key (BlockRows m)" and w: "aligned w"
    and out: "\<And>b. map_of (BlockRows m) (c, n) = Some b \<Longrightarrow> w \<noteq> window_of (fst w) b"
  shows "rows_in c w (set_poster c n g m) = rows_in c w m"
proof (cases "map_of (BlockRows m) (c, n)")
  case (Some b)
  have "bChainID b = c \<and> bNumber b = n" using keyed_lookup_key [OF k Some] by (simp add: block_key_def)
  then show ?thesis using set_poster_upsert [OF k Some, of g] out [OF Some] Some
      rows_in_upsert [OF k w, of "[b\<lparr>bPosterGas := Some (i64_of_u64 g)\<rparr>]" c]
    by (auto simp: window_of_def)
qed (simp add: set_poster_def)

lemma set_posters_rows_in:
  "set_posters c gas m = (e, m') \<Longrightarrow> keyed block_key (BlockRows m) \<Longrightarrow> aligned w
     \<Longrightarrow> (\<And>n g b. (n, g) \<in> set gas \<Longrightarrow> map_of (BlockRows m) (c, n) = Some b \<Longrightarrow> w \<noteq> window_of (fst w) b)
     \<Longrightarrow> rows_in c w m' = rows_in c w m"
proof (induction gas arbitrary: m)
  case (Cons x gas)
  obtain n g where x: "x = (n, g)" by fastforce
  have out: "w \<noteq> window_of (fst w) b" if "map_of (BlockRows m) (c, n) = Some b" for b using Cons.prems(4) that x by auto
  have one: "rows_in c w (set_poster c n g m) = rows_in c w m" by (rule set_poster_rows_in [OF Cons.prems(2,3) out])
  show ?case
  proof (cases "set_posters c gas (set_poster c n g m) = (e, m')")
    case True
    have "w \<noteq> window_of (fst w) b"
      if h: "(n', g') \<in> set gas" "map_of (BlockRows (set_poster c n g m)) (c, n') = Some b" for n' g' b
    proof -
      have "map_option bTS (map_of (BlockRows m) (c, n')) = Some (bTS b)" using set_poster_times [of c n g m "(c, n')"] h(2) by simp
      then obtain b' where b': "map_of (BlockRows m) (c, n') = Some b'" "bTS b' = bTS b" by auto
      have "w \<noteq> window_of (fst w) b'" using Cons.prems(4) [of n' g' b'] h(1) b'(1) by simp
      then show ?thesis using b'(2) by (simp add: window_of_def)
    qed
    then show ?thesis
      using Cons.IH [OF True set_poster_keyed [OF Cons.prems(2)] Cons.prems(3)] one by auto
  next
    case False
    then show ?thesis using Cons.prems(1) x by (auto split: if_split_asm)
  qed
qed simp

lemma repair_ok:
  assumes "history_ok c lo m" "repairs_rows c m gas repaired" "repair_commit c gen gas repaired cur m = Inr m'"
  shows "history_ok c lo m'"
proof -
  obtain m1 m2 where m1: "set_poster_gas c gas m = Inr m1" and m2: "rebuild_rows c repaired m1 = Inr m2"
    and m3: "savePosterGasCursor c cur m2 = Inr m'"
    using assms(3) unfolding repair_commit_def withGeneration_Inr by (auto elim!: bind_errE)
  have k: "keyed block_key (BlockRows m)" using assms(1) by (simp add: history_ok_def)
  have p: "set_posters c gas m = (None, m1)"
    using m1 by (auto simp: set_poster_gas_def SetPosterGas_def split: option.split_asm prod.split_asm sum.split_asm)
  obtain rows where r: "m1 = m\<lparr>BlockRows := rows\<rparr>" "keyed block_key rows"
    using set_posters_rows [OF k, of c gas] p by auto
  have "history_ok c lo m2"
  proof (rule history_ok_refresh [OF assms(1) _ _ _ rebuild_rows_refreshed [OF m2]])
    show "keyed block_key (BlockRows m1)" "BucketRows m1 = BucketRows m" using r by simp_all
    show "below_frontier c m1 t" if "below_frontier c m t" for t
      using that below_frontier_cong [of m1 m c] by (simp add: r)
    fix w assume w: "aligned w" "w \<notin> set (windows_of repaired)"
    have "w \<noteq> window_of (fst w) b" if h: "(n, g) \<in> set gas" "map_of (BlockRows m) (c, n) = Some b" for n g b
    proof
      obtain x where "x \<in> set repaired" "bTS x = bTS b" 
        using bspec [OF assms(2) [unfolded repairs_rows_def] h(1)] h(2) by auto
      moreover assume "w = window_of (fst w) b"
      ultimately have "w = window_of (fst w) x" "x \<in> set repaired" by (simp_all add: window_of_def)
      then show False using w by (auto simp: aligned_def set_windows_of)
    qed
    then show "rows_in c w m1 = rows_in c w m" by (rule set_posters_rows_in [OF p k w(1)])
  qed
  then show ?thesis by (rule history_ok_quiet [rotated]) (use m3 in \<open>auto dest!: history_rules\<close>)
qed

lemma history_tx_ok:
  assumes "history_ok c lo m" "cfChainID cfg = c" "bounded_by lo boundary" "history_tx cfg now boundary m = Inr (rebuilt, m')"
  shows "history_ok c lo m'"
proof -
  have "m' = m \<or> (\<exists>m1 n m2. bumpGeneration c m = Inr m1
      \<and> (case boundary of None \<Rightarrow> Inr (0, m1) | Some t \<Rightarrow> DeleteBucketsBefore c t m1) = Inr (n, m2) \<and> history_of m' = history_of m2)"
    using assms(2,4) unfolding history_tx_def Let_def chain_tx_Inr
    by (auto elim!: bind_errE dest!: history_rules split: if_split_asm)
  then show ?thesis
  proof (elim disjE exE conjE)
    fix m1 n m2
    assume m1: "bumpGeneration c m = Inr m1" and q: "history_of m' = history_of m2"
      and d: "(case boundary of None \<Rightarrow> Inr (0, m1) | Some t \<Rightarrow> DeleteBucketsBefore c t m1) = Inr (n, m2)"
    have "history_ok c lo m1" by (rule bumpGeneration_ok [OF assms(1) m1])
    then have "history_ok c lo m2"
      using d assms(3) by (auto simp: bounded_by_def intro: DeleteBucketsBefore_ok split: option.split_asm)
    then show ?thesis by (rule history_ok_quiet [OF q])
  qed (use assms(1) in simp)
qed

lemma map_sum_eq_Inr: "map_sum f g x = Inr y \<longleftrightarrow> (\<exists>v. x = Inr v \<and> y = g v)"
  by (cases x) auto

lemma checkCursor_ok:
  assumes "history_ok c lo m" "cfChainID cfg = c" "bounded_by lo (boundaryLocked f)" "checkCursor cfg gen cur f m = Inr (cur', f', m')"
  shows "history_ok c lo m'"
proof -
  have "m' = m \<or> (\<exists>m1. (case boundaryLocked f of None \<Rightarrow> Inr m | Some t \<Rightarrow> map_sum id snd (DeleteBucketsBefore c t m)) = Inr m1
      \<and> history_of m' = history_of m1)"
    using assms(2,4) unfolding checkCursor_def Let_def
    by (auto simp: withGeneration_Inr elim!: bind_errE dest!: history_rules split: if_split_asm)
  then show ?thesis
  proof (elim disjE exE conjE)
    fix m1
    assume q: "history_of m' = history_of m1"
      and d: "(case boundaryLocked f of None \<Rightarrow> Inr m | Some t \<Rightarrow> map_sum id snd (DeleteBucketsBefore c t m)) = Inr m1"
    have "history_ok c lo m1"
      using d assms(1,3) by (auto simp: bounded_by_def map_sum_eq_Inr intro: DeleteBucketsBefore_ok split: option.split_asm)
    then show ?thesis by (rule history_ok_quiet [OF q])
  qed (use assms(1) in simp)
qed


section \<open>Runs\<close>

text \<open>
  The transactions of one chain, for boundaries of the row-backed history that are not above \<open>lo\<close>. The
  flag says that the transaction moves the generation: a rewind, or a rebuild of the reconstructed
  history. The conditions on the rows are what the replay of one chain writes: rows of the chain, one per
  number, and a number written again at the time it had. \<open>t_checkpoint\<close> stands for every other write of
  a follower: checkpoints, missing ranges, owner actions, constraint sets, samples, reports and errors.
\<close>

inductive chain_tx :: "u64 \<Rightarrow> gotime \<Rightarrow> bool \<Rightarrow> MemStore \<Rightarrow> MemStore \<Rightarrow> bool" for c :: u64 and lo :: gotime where
  t_tick: "chain_tx c lo False m m'"
    if "cfChainID cfg = c" "storable c m rows"
      "chain_WithChainTx c None (\<lambda>_. persist_body cfg now docs sample rows h pending f) m = Inr (reload, m')"
| t_rewind: "chain_tx c lo True m m'"
    if "cfChainID cfg = c" "bounded_by lo (map_option boundaryOf ls)" "rewind_tx cfg now ls ancestor m = Inr (cleared, reset, m')"
| t_fill: "chain_tx c lo False m m'"
    if "t \<le> lo" "fill_storable c m (split_fill (Some t) (Folded h) rows tail)"
      "commitFill c now (Some t) sets gen h rows tail done m = Inr m'"
| t_backfill: "chain_tx c lo False m m'"
    if "t \<le> lo" "storable c m (filter (\<lambda>r. \<not> bTS r < t) rows)" "\<forall>r\<in>set rows. bChainID r = c"
      "backfill_commit c gen (Some t) setID rows cur m = Inr m'"
| t_repair: "chain_tx c lo False m m'"
    if "repairs_rows c m gas repaired" "repair_commit c gen gas repaired pg m = Inr m'"
| t_prune: "chain_tx c lo False m m'"
    if "cfChainID cfg = c" "cutoff_writable cfg m" "prune cfg now m = Inr m'"
| t_seed_frontier: "chain_tx c lo False m m'"
    if "cfChainID cfg = c" "seedPruneFrontierLocked cfg now m = Inr m'"
| t_history: "chain_tx c lo rebuilt m m'"
    if "cfChainID cfg = c" "bounded_by lo boundary" "history_tx cfg now boundary m = Inr (rebuilt, m')"
| t_discard: "chain_tx c lo False m m'"
    if "cfChainID cfg = c" "bounded_by lo (boundaryLocked f)" "checkCursor cfg gen cur f m = Inr (cur', f', m')"
| t_checkpoint: "chain_tx c lo False m m'" if "history_of m' = history_of m"

text \<open>Runs, with the number of times the generation moved.\<close>

inductive chain_run :: "u64 \<Rightarrow> gotime \<Rightarrow> nat \<Rightarrow> MemStore \<Rightarrow> MemStore \<Rightarrow> bool" for c :: u64 and lo :: gotime where
  run_idle: "chain_run c lo 0 m m"
| run_tx: "chain_run c lo n m m' \<Longrightarrow> chain_tx c lo moved m' m'' \<Longrightarrow> chain_run c lo (if moved then Suc n else n) m m''"

lemma chain_tx_ok: "chain_tx c lo moved m m' \<Longrightarrow> history_ok c lo m \<Longrightarrow> history_ok c lo m'"
proof (induction rule: chain_tx.induct)
  case (t_tick cfg m rows now docs sample h pending f reload m')
  then show ?case by (auto simp: chain_tx_Inr intro: persist_ok)
next
  case (t_rewind cfg ls now ancestor m cleared reset m')
  then show ?case by (auto simp: rewind_tx_def chain_tx_Inr intro: rewind_ok)
qed (blast intro: commitFill_ok backfill_commit_ok repair_ok prune_ok seed_frontier_ok history_tx_ok checkCursor_ok history_ok_quiet)+

lemma chain_run_ok: "chain_run c lo n m m' \<Longrightarrow> history_ok c lo m \<Longrightarrow> history_ok c lo m'"
  by (induction rule: chain_run.induct) (auto intro: chain_tx_ok)

lemma mem_New_history: "history_ok c lo mem_New"
proof -
  have "live_source c mem_New w = None" for w
    by (simp add: live_source_def bucket_of_rows_def rows_in_def window_rows_def sortedBlocks_def chain_blocks_def
        mem_New_def NewBucketBuilder_def)
  then show ?thesis
    by (simp add: history_ok_def live_current_def live_view_def) (simp add: mem_New_def keyed_Nil)
qed

text \<open>
  C2. The buckets are a materialized view of the block rows through every run of the collector's
  transactions: whatever order ticks, rewinds, gap and backfill commits, repairs, prunes and history
  rebuilds commit in, starting from the empty store, every window from \<open>lo\<close> on that the prune has not cut
  holds exactly the bucket the builder makes of the rows the store has in it, and no bucket where it has
  no row. \<open>lo\<close> is any time no boundary of the row-backed history is above; which constraint set a bucket
  names is left out.
\<close>

theorem buckets_current:
  assumes "chain_run c lo n mem_New m" "aligned w" "lo \<le> snd w" "\<not> below_frontier c m (snd w)"
  shows "map_option forget_set (map_of (BucketRows m) (bucketKey c (fst w) (snd w))) = bucket_of_rows c w (rows_in c w m)"
proof -
  have "history_ok c lo m" by (rule chain_run_ok [OF assms(1) mem_New_history])
  then have "live_view c m w = live_source c m w"
    using assms(2-4) unfolding history_ok_def live_current_def by blast
  then show ?thesis by (simp add: live_view_def live_source_def)
qed


section \<open>The generation\<close>

lemma gen_of_history: "history_of m' = history_of m \<Longrightarrow> gen_of m' = gen_of m"
  by (simp add: history_of_def)

named_theorems gen_rules "the writes that leave the generation alone"

lemma gen_frame: "StateRows m' = StateRows m \<Longrightarrow> FailOn m' = FailOn m \<Longrightarrow> gen_of m' = gen_of m"
  by (simp add: gen_of_def)

lemma gen_writes [gen_rules]:
  "UpsertBlocks bs m = Inr m' \<Longrightarrow> gen_of m' = gen_of m"
  "DeleteBlocksAfter c' b m = Inr (removed, m') \<Longrightarrow> gen_of m' = gen_of m"
  "PruneBlocks c' t m = Inr (n', m') \<Longrightarrow> gen_of m' = gen_of m"
  "FoldBuckets ks m = Inr m' \<Longrightarrow> gen_of m' = gen_of m"
  "DiscardBucketsBelowFrontier c' res starts m = Inr m' \<Longrightarrow> gen_of m' = gen_of m"
  "DeleteBucketsBefore c' t m = Inr (n', m') \<Longrightarrow> gen_of m' = gen_of m"
  by (auto simp: UpsertBlocks_def DeleteBlocksAfter_def PruneBlocks_def FoldBuckets_def DiscardBucketsBelowFrontier_def
      DeleteBucketsBefore_def Let_def elim!: bind_errE intro!: gen_frame split: if_split_asm)

lemma gen_rebuild [gen_rules]:
  assumes "RebuildBuckets c' res starts m = Inr m'"
  shows "gen_of m' = gen_of m"
proof -
  let ?ws = "filter (\<lambda>w. \<not> below_frontier c' m (snd w)) (map (Pair res) starts)"
  obtain ks where "foldl (\<lambda>m w. rebuild_window c' w m) m ?ws = m\<lparr>BucketRows := ks\<rparr>"
    using rebuild_windows_frame by blast
  then show ?thesis using RebuildBuckets_windows [OF assms] by (intro gen_frame) simp_all
qed

lemma gen_rebuild_each: "rebuild_each c' rows rs m = Inr m' \<Longrightarrow> gen_of m' = gen_of m"
  by (induction rs arbitrary: m) (auto elim!: bind_errE dest!: gen_rules)

lemma gen_rebuild_rows [gen_rules]: "rebuild_rows c' rows m = Inr m' \<Longrightarrow> gen_of m' = gen_of m"
  by (simp add: rebuild_rows_def gen_rebuild_each)

lemma gen_rebuild_discard [gen_rules]: "rebuild_discard c' rows rs m = Inr m' \<Longrightarrow> gen_of m' = gen_of m"
  by (induction rs arbitrary: m) (auto elim!: bind_errE dest!: gen_rules)

lemma gen_rebuild_declined [gen_rules]:
  "rebuild_declined c' rows folds rs toFold m = Inr (out, m') \<Longrightarrow> gen_of m' = gen_of m"
  by (induction rs arbitrary: toFold m) (auto simp: Let_def elim!: bind_errE dest!: gen_rules)

lemma gen_upsert_rebuild [gen_rules]: "upsert_rebuild c' rows m = Inr m' \<Longrightarrow> gen_of m' = gen_of m"
  by (auto simp: upsert_rebuild_def elim!: bind_errE dest!: gen_rules split: if_split_asm)

lemma gen_posters: "set_posters c' gas m = (e, m') \<Longrightarrow> gen_of m' = gen_of m"
proof (induction gas arbitrary: m)
  case (Cons x gas)
  obtain n g where x: "x = (n, g)" by fastforce
  obtain rows where "set_poster c' n g m = m\<lparr>BlockRows := rows\<rparr>" using set_poster_frame by blast
  then have "gen_of (set_poster c' n g m) = gen_of m" by (simp add: gen_of_def)
  then show ?case using Cons x by (auto split: if_split_asm)
qed simp

lemma gen_poster_gas [gen_rules]: "set_poster_gas c' gas m = Inr m' \<Longrightarrow> gen_of m' = gen_of m"
  by (auto simp: set_poster_gas_def SetPosterGas_def dest: gen_posters split: option.split_asm prod.split_asm sum.split_asm)

lemma gen_frontier [gen_rules]: "recordPruneFrontier c' before m = Inr m' \<Longrightarrow> gen_of m' = gen_of m"
  by (auto simp: recordPruneFrontier_def SetState_def gen_of_def state_keys AList.update_conv' Let_def
      elim!: bind_errE split: option.split_asm state_value.split_asm if_split_asm)

lemmas gen_steps = gen_rules history_rules [THEN gen_of_history]

lemma gen_tick: "persist_body cfg now docs sample rows h pending f m = Inr (reload, m') \<Longrightarrow> gen_of m' = gen_of m"
  unfolding persist_body_def Let_def
  by (elim bind_errE) (auto dest!: gen_steps history_record_sets [THEN gen_of_history] history_write_head [THEN gen_of_history]
      elim!: bind_errE split: option.split_asm)

lemma gen_fill: "fill_buckets c' ids split m = Inr m' \<Longrightarrow> gen_of m' = gen_of m"
  unfolding fill_buckets_def by (auto elim!: bind_errE dest!: gen_rules split: if_split_asm)

lemma gen_commitFill: "commitFill c' now t sets gen h rows tail done m = Inr m' \<Longrightarrow> gen_of m' = gen_of m"
  unfolding commitFill_def Let_def withGeneration_Inr by (auto elim!: bind_errE dest!: gen_steps gen_fill)

lemma gen_backfill_commit: "backfill_commit c' gen t ids rows cur m = Inr m' \<Longrightarrow> gen_of m' = gen_of m"
  unfolding backfill_commit_def Let_def withGeneration_Inr by (auto elim!: bind_errE dest!: gen_steps)

lemma gen_repair: "repair_commit c' gen gas rows pg m = Inr m' \<Longrightarrow> gen_of m' = gen_of m"
  unfolding repair_commit_def withGeneration_Inr by (auto elim!: bind_errE dest!: gen_steps)

lemma gen_prune: "prune cfg now m = Inr m' \<Longrightarrow> gen_of m' = gen_of m"
  unfolding prune_def prune_blocks_def chain_WithChainTx_def
  by (auto elim!: bind_errE dest!: gen_steps split: option.split_asm if_split_asm)

lemma gen_seed: "seedPruneFrontierLocked cfg now m = Inr m' \<Longrightarrow> gen_of m' = gen_of m"
  unfolding seedPruneFrontierLocked_def chain_WithChainTx_def Let_def
  by (auto elim!: bind_errE dest!: gen_steps split: option.split_asm if_split_asm)

lemma gen_checkCursor: "checkCursor cfg gen cur f m = Inr (cur', f', m') \<Longrightarrow> gen_of m' = gen_of m"
  unfolding checkCursor_def Let_def
  by (auto simp: withGeneration_Inr map_sum_eq_Inr elim!: bind_errE dest!: gen_steps split: option.split_asm if_split_asm)


lemma gen_rewindBackfill: "rewindBackfill cfg a boundary m = Inr (r, m') \<Longrightarrow> gen_of m' = gen_of m"
  unfolding rewindBackfill_def
  by (auto elim!: bind_errE dest!: gen_steps split: option.split_asm state_value.split_asm if_split_asm)

lemma rewind_bumps:
  assumes "rewind_body cfg now ls ancestor m = Inr (cs, reset, m')"
  shows "\<exists>s. bumpGeneration (cfChainID cfg) m = Inr s \<and> gen_of m' = gen_of s"
  using assms unfolding rewind_body_def Let_def
  by (elim bind_errE) (auto elim!: bind_errE dest!: gen_steps gen_rewindBackfill)

lemma history_bumps:
  assumes "history_tx cfg now boundary m = Inr (rebuilt, m')"
  shows "if rebuilt then \<exists>s. bumpGeneration (cfChainID cfg) m = Inr s \<and> gen_of m' = gen_of s else m' = m"
proof -
  have "\<not> rebuilt \<and> m' = m \<or> rebuilt \<and> (\<exists>s. bumpGeneration (cfChainID cfg) m = Inr s \<and> gen_of m' = gen_of s)"
    using assms unfolding history_tx_def Let_def chain_tx_Inr
    by (auto elim!: bind_errE dest!: gen_steps split: option.split_asm if_split_asm)
  then show ?thesis by auto
qed

lemma ParseUint_FormatUint: "ParseUint (FormatUint n) = Some n"
proof -
  have "FormatUint n \<noteq> []" by (auto simp: FormatUint_def dec_of_nat.simps)
  moreover have "unat n < 18446744073709551616" using u64_bound [of n] by simp
  ultimately show ?thesis by (simp add: ParseUint_def decimal_digits_dec FormatUint_def)
qed

lemma generation_cong: "gen_of m' = gen_of m \<Longrightarrow> generation c m' = generation c m"
  by (simp add: gen_of_def generation_def GetState_def mem_fail_def fun_eq_iff)

lemma FailOn_cong: "gen_of m' = gen_of m \<Longrightarrow> FailOn m' = FailOn m"
  by (simp add: gen_of_def)

lemma bump_generation:
  assumes "bumpGeneration c m = Inr m'" "generation c m = Inr g"
  shows "generation c m' = Inr (g + 1)" "FailOn m' = FailOn m"
proof -
  have m': "m' = m\<lparr>StateRows := AList.update (c, StateGeneration) (StateText (FormatUint (g + 1))) (StateRows m)\<rparr>"
    using assms by (auto elim: bumpGeneration_frame)
  have "''GetState'' \<notin> set (FailOn m)" using assms(2) by (auto simp: generation_def GetState_def elim!: bind_errE)
  then show "generation c m' = Inr (g + 1)" "FailOn m' = FailOn m"
    by (simp_all add: m' generation_def GetState_def mem_fail_def ParseUint_FormatUint AList.update_conv')
qed

lemma chain_tx_generation:
  assumes "chain_tx c lo moved m m'" "generation c m = Inr g"
  shows "generation c m' = Inr (if moved then g + 1 else g) \<and> FailOn m' = FailOn m
    \<and> (moved \<longrightarrow> ''WithChainTx'' \<notin> set (FailOn m))"
proof -
  have keeps: ?thesis if "\<not> moved" "gen_of m' = gen_of m"
    using that assms(2) generation_cong [OF that(2)] FailOn_cong [OF that(2)] by simp
  have moves: ?thesis if "moved" "''WithChainTx'' \<notin> set (FailOn m)" "bumpGeneration c m = Inr s" "gen_of m' = gen_of s" for s
    using that(1,2) bump_generation [OF that(3) assms(2)] generation_cong [OF that(4)] FailOn_cong [OF that(4)] by simp
  show ?thesis using assms(1)
  proof cases
    case (t_tick cfg rows now docs sample h pending f reload)
    then show ?thesis by (intro keeps) (auto simp: chain_tx_Inr dest: gen_tick)
  next
    case (t_rewind cfg ls now ancestor cleared reset)
    then show ?thesis using moves by (auto simp: rewind_tx_def chain_tx_Inr dest!: rewind_bumps)
  next
    case (t_history cfg boundary now)
    show ?thesis
    proof (cases moved)
      case True
      then show ?thesis using t_history moves history_bumps [OF t_history(3)]
        by (auto simp: history_tx_def Let_def chain_WithChainTx_def elim!: bind_errE)
    next
      case False
      then show ?thesis using history_bumps [OF t_history(3)] by (intro keeps) simp_all
    qed
  qed (use keeps in \<open>blast dest: gen_commitFill gen_backfill_commit gen_repair gen_prune gen_seed gen_checkCursor gen_of_history\<close>)+
qed

lemma chain_run_generation:
  "chain_run c lo n m m' \<Longrightarrow> generation c m = Inr g
     \<Longrightarrow> generation c m' = Inr (g + of_nat n) \<and> FailOn m' = FailOn m \<and> (0 < n \<longrightarrow> ''WithChainTx'' \<notin> set (FailOn m))"
proof (induction rule: chain_run.induct)
  case (run_tx n m m' moved m'')
  then show ?case using chain_tx_generation [OF run_tx.hyps(2), of "g + of_nat n"] by (auto simp: algebra_simps)
qed simp

text \<open>
  C4. Work that a rewind has made stale is never committed: when a gap batch, a backfill batch, a repair or
  a mark was prepared at generation \<open>g\<close> and a run with at least one rewind or rebuild of the history has
  committed since, the commit fails with \<open>StaleGeneration\<close> and so writes nothing. The generation counts the
  rewinds, so the guard only fails to tell after \<open>2 ^ 64\<close> of them.
\<close>

theorem stale_work_refused:
  assumes "generation c m = Inr g" "chain_run c lo n m m'" "0 < n" "n < 2 ^ 64"
  shows "commitFill c now boundary sets g h rows tail done m' = Inl (StaleGeneration g (g + of_nat n))
    \<and> backfill_commit c g boundary setID rows cur m' = Inl (StaleGeneration g (g + of_nat n))
    \<and> repair_commit c g gas rows pg m' = Inl (StaleGeneration g (g + of_nat n))
    \<and> mark_holes_tx c now g reasons m' = Inl (StaleGeneration g (g + of_nat n))"
proof -
  have run: "generation c m' = Inr (g + of_nat n)" "''WithChainTx'' \<notin> set (FailOn m')"
    using chain_run_generation [OF assms(2,1)] assms(3) by auto
  have "(of_nat n :: u64) \<noteq> 0"
    using assms(3,4) by (simp add: word_unat_eq_iff unat_of_nat take_bit_eq_mod)
  then have "withGeneration c g fn m' = Inl (StaleGeneration g (g + of_nat n))" for fn :: "MemStore \<Rightarrow> store_error + MemStore"
    using run by (simp add: withGeneration_def chain_WithChainTx_def lock_request_def mem_fail_def)
  then show ?thesis by (simp add: commitFill_def backfill_commit_def repair_commit_def mark_holes_tx_def Let_def)
qed

section \<open>Two runs\<close>

lemma RebuildBuckets_succeeds:
  "FailOn m = [] \<Longrightarrow> res \<in> set ResolutionOrder \<Longrightarrow> \<exists>m'. RebuildBuckets c res starts m = Inr m'"
  by (simp add: RebuildBuckets_def mem_fail_def)

lemma rebuild_each_succeeds:
  "FailOn m = [] \<Longrightarrow> set rs \<subseteq> set ResolutionOrder \<Longrightarrow> \<exists>m'. rebuild_each c rows rs m = Inr m'"
proof (induction rs arbitrary: m)
  case (Cons res rs)
  obtain s where s: "RebuildBuckets c res (BucketStarts rows res) m = Inr s"
    using RebuildBuckets_succeeds [of m res c] Cons.prems by auto
  have "FailOn s = []" using FailOn_cong [OF gen_rebuild [OF s]] Cons.prems(1) by simp
  then show ?case using Cons.IH [of s] Cons.prems(2) s by auto
qed simp

text \<open>A block below the head that a backfill wrote above the boundary at time 0.\<close>

definition backfilled_store :: MemStore where
  "backfilled_store =
     (case backfill_commit 7 0 (Some 0) None [stored_row] no_cursor mem_New of Inl e \<Rightarrow> mem_New | Inr m \<Rightarrow> m)"

lemma backfilled:
  "backfill_commit 7 0 (Some 0) None [stored_row] no_cursor mem_New = Inr backfilled_store
     \<and> BlockRows backfilled_store = [((7, 5), stored_row)]
     \<and> map_of (StateRows backfilled_store) (7, StatePruneFrontier) = None"
proof -
  have row: "\<not> bTS stored_row < 0" "bChainID stored_row = 7" "bNumber stored_row = 5" by (simp_all add: stored_row_def)
  let ?s = "mem_New\<lparr>BlockRows := [((7, 5), stored_row)]\<rparr>"
  obtain m where m: "rebuild_rows 7 [stored_row] ?s = Inr m"
    using rebuild_each_succeeds [of ?s ResolutionOrder] by (auto simp: rebuild_rows_def mem_New_def)
  note frame = rebuild_rows_windows [OF m]
  obtain ks where ks: "m = ?s\<lparr>BucketRows := ks\<rparr>"
    using frame rebuild_windows_frame [of 7 ?s] by metis
  have "backfill_commit 7 0 (Some 0) None [stored_row] no_cursor mem_New
      = Inr (m\<lparr>StateRows := [((7, StateBackfillCursor), StateCursor no_cursor)]\<rparr>)"
    using row m by (simp add: backfill_commit_def withGeneration_def chain_WithChainTx_def lock_request_def mem_fail_def
        generation_def GetState_def upsert_rebuild_def UpsertBlocks_def FoldBlocks_def ResolutionOrder_def FoldBuckets_def
        saveCursor_def SetState_def mem_New_def ks Let_def)
  then show ?thesis by (simp add: backfilled_store_def ks state_keys)
qed


lemma backfilled_run: "chain_run 7 0 0 mem_New backfilled_store"
proof -
  have "storable 7 mem_New (filter (\<lambda>r. \<not> bTS r < 0) [stored_row])" by (simp add: storable_def stored_row_def mem_New_def)
  moreover have "\<forall>r\<in>set [stored_row]. bChainID r = 7" by (simp add: stored_row_def)
  ultimately have "chain_tx 7 0 False mem_New backfilled_store"
    using backfilled by (intro t_backfill [where t = 0 and rows = "[stored_row]"]) auto
  from run_tx [OF run_idle this] show ?thesis by simp
qed

theorem buckets_current_witness:
  "map_option forget_set (map_of (BucketRows backfilled_store) (bucketKey 7 Resolution1m 63900000000000000000))
     = bucket_of_rows 7 (Resolution1m, 63900000000000000000) [stored_row]"
proof -
  let ?w = "(Resolution1m, 63900000000000000000)"
  have w: "aligned ?w" by (simp add: aligned_def ResolutionOrder_def Resolutions_def Resolution1m_def Second_def)
  have "\<not> below_frontier 7 backfilled_store (snd ?w)"
    using backfilled by (simp add: below_frontier_def pruneFrontierLocked_def)
  moreover have "rows_in 7 ?w backfilled_store = [stored_row]"
    using backfilled
    by (simp add: rows_in_def window_rows_def sortedBlocks_def chain_blocks_def stored_row_def Resolutions_def Resolution1m_def Second_def)
  ultimately show ?thesis using buckets_current [OF backfilled_run w] by simp
qed

text \<open>A store whose history was rebuilt at epoch 1.\<close>

definition run_config :: follower_config where
  "run_config = \<lparr>cfChainID = 7, cfHeaderBatchSize = 100, cfMaxCatchUpBatches = 4, cfBlockRetention = 0, cfSampleRetention = 0,
     cfBackfillDepth = 0, cfBackfillWindow = 0, cfBackfillAnchorInterval = 100, cfHistoryEpoch = 1\<rparr>"

definition rebuilt_store :: MemStore where
  "rebuilt_store = (case history_tx run_config 0 None mem_New of Inl e \<Rightarrow> mem_New | Inr r \<Rightarrow> snd r)"

lemma rebuilt: "history_tx run_config 0 None mem_New = Inr (True, rebuilt_store)"
proof -
  have none: "resetHistoryHoles 7 0 False [] = Inr []" by code_simp
  have "\<exists>m. history_tx run_config 0 None mem_New = Inr (True, m)"
    by (simp add: history_tx_def run_config_def chain_WithChainTx_def lock_request_def mem_fail_def historyEpoch_def GetState_def
        bumpGeneration_def generation_def SetState_def saveCursor_def DeleteState_def on_ranges_def MissingRanges_def
        none mem_New_def Let_def)
  then show ?thesis by (auto simp: rebuilt_store_def)
qed


theorem stale_work_refused_witness:
  "commitFill 7 0 None [] 0 (skipped_hole 1 2 rangePending [] [] []) [] None False rebuilt_store = Inl (StaleGeneration 0 1)
    \<and> backfill_commit 7 0 None None [] no_cursor rebuilt_store = Inl (StaleGeneration 0 1)
    \<and> repair_commit 7 0 [] [] no_repair rebuilt_store = Inl (StaleGeneration 0 1)
    \<and> mark_holes_tx 7 0 0 Map.empty rebuilt_store = Inl (StaleGeneration 0 1)"
proof -
  have "generation 7 mem_New = Inr 0" by (simp add: generation_def GetState_def mem_fail_def mem_New_def)
  moreover have "chain_tx 7 0 True mem_New rebuilt_store"
    using rebuilt by (intro t_history [where boundary = None]) (simp_all add: run_config_def bounded_by_def)
  then have "chain_run 7 0 1 mem_New rebuilt_store" using run_tx [OF run_idle] by fastforce
  ultimately show ?thesis using stale_work_refused [of 7 mem_New 0 0 1 rebuilt_store] by simp
qed

end
