(* ===== verification/Rewind_Laws.thy ===== *)
theory Rewind_Laws
  imports Chain_Runs
begin

text \<open>
  What a rewind does to the store and to the head: the ancestor the walk finds, the rows that are deleted
  and the head that is left; and the rollbacks for which the walk looks at too few rows.
\<close>

section \<open>The ancestor of a rewind\<close>

lemma ancestor_walk_sound:
  assumes "ancestor_walk header byNumber k n = Inr a"
  shows "a \<le> n \<and> unat n - unat a < k
    \<and> (a = 0 \<or> byNumber a = None \<or> (\<exists>row h. byNumber a = Some row \<and> header a = Inr h \<and> same_block row h))
    \<and> (\<forall>i. a < i \<longrightarrow> i \<le> n \<longrightarrow> (\<exists>row h. byNumber i = Some row \<and> header i = Inr h \<and> \<not> same_block row h))"
  using assms
proof (induction k arbitrary: n)
  case (Suc k)
  consider "a = n" "n = 0 \<or> byNumber n = None \<or> (\<exists>row h. byNumber n = Some row \<and> header n = Inr h \<and> same_block row h)"
    | row h where "n \<noteq> 0" "byNumber n = Some row" "header n = Inr h" "\<not> same_block row h"
        "ancestor_walk header byNumber k (n - 1) = Inr a"
    using Suc.prems by (auto split: if_split_asm option.split_asm sum.split_asm)
  then show ?case
  proof cases
    case 1
    then show ?thesis by auto
  next
    case 2
    have n: "unat (n - 1) = unat n - 1" using 2(1) by (simp add: unat_minus_one)
    then have le: "i \<le> n - 1 \<longleftrightarrow> i < n" for i
      using unat_gt_0 [of n] 2(1) by (auto simp: word_le_nat_alt word_less_nat_alt)
    note IH = Suc.IH [OF 2(5)]
    have "a < n" using IH le by simp
    moreover have "unat n - unat a < Suc k" using IH n by linarith
    moreover have "\<exists>row h. byNumber i = Some row \<and> header i = Inr h \<and> \<not> same_block row h" if "a < i" "i \<le> n" for i
      using that IH le 2(2-4) by (cases "i = n") auto
    ultimately show ?thesis using IH by auto
  qed
qed simp

lemma rewind_rows:
  assumes "rewind_body cfg now ls ancestor m = Inr (cs, reset, m')"
  shows "BlockRows m' = filter (\<lambda>r. \<not> (fst (fst r) = cfChainID cfg \<and> ancestor < bNumber (snd r))) (BlockRows m)"
proof -
  have cursor: "BlockRows t = BlockRows s" if "rewindBackfill cfg a boundary s = Inr (r, t)" for a boundary s r t
    using that unfolding rewindBackfill_def
    by (auto elim!: bind_errE dest!: history_rules history_of_live(1) simp: DeleteBucketsBefore_def Let_def
        split: option.split_asm state_value.split_asm if_split_asm)
  have bump: "BlockRows s = BlockRows m" if "bumpGeneration (cfChainID cfg) m = Inr s" for s
    using that by (auto elim: bumpGeneration_frame)
  show ?thesis
    using assms unfolding rewind_body_def Let_def
    by (elim bind_errE) (auto elim!: bind_errE dest!: history_rules history_of_live(1) rebuild_discard_refreshed refreshedD(1)
        cursor bump simp: DeleteBlocksAfter_def)
qed


text \<open>The rows the walk compares: the newest ones.\<close>

definition recent_rows :: "u64 \<Rightarrow> MemStore \<Rightarrow> db_block list" where
  "recent_rows c m = take (maxReorgDepth + 1) (rev (sortedBlocks c m))"

lemma recent_row:
  assumes "keyed block_key (BlockRows m)" "row \<in> set (recent_rows c m)"
  shows "map_of (BlockRows m) (c, bNumber row) = Some row"
    "List.find (\<lambda>r. bNumber r = bNumber row) (recent_rows c m) = Some row"
proof -
  have s: "set (recent_rows c m) \<subseteq> set (sortedBlocks c m)"
    unfolding recent_rows_def by (metis set_rev set_take_subset)
  then have "row \<in> set (chain_blocks c m)" using assms(2) by (auto simp: sortedBlocks_def)
  then show "map_of (BlockRows m) (c, bNumber row) = Some row"
    using chain_blocks_keyed(2) [OF assms(1)] keyed_lookup [OF assms(1)] by simp
  have d: "distinct (map bNumber (recent_rows c m))"
    using sortedBlocks_strict [OF assms(1), of c] unfolding recent_rows_def
    by (metis distinct_rev distinct_take rev_map strict_sorted_iff take_map)
  obtain x where x: "List.find (\<lambda>r. bNumber r = bNumber row) (recent_rows c m) = Some x"
    using assms(2) by (metis (mono_tags, lifting) find_None_iff option.exhaust)
  then have "x \<in> set (recent_rows c m)" "bNumber x = bNumber row" by (auto simp: find_Some_iff)
  then have "x = row" using d assms(2) by (metis distinct_map inj_on_eq_iff)
  then show "List.find (\<lambda>r. bNumber r = bNumber row) (recent_rows c m) = Some row" using x by simp
qed

lemma findAncestor_walk:
  "findAncestor c header from m = Inr a \<Longrightarrow>
     ancestor_walk header (\<lambda>n. List.find (\<lambda>r. bNumber r = n) (recent_rows c m)) maxReorgDepth from = Inr a"
  by (auto simp: findAncestor_def RecentBlocks_def recent_rows_def elim!: bind_errE)

lemma reloaded_head:
  assumes "reloadHeadLocked c m f = Inr f1" "reloadSetsLocked c m f1 = Inr f2"
  shows "fHead f2 = (if sortedBlocks c m = [] then 0 else bNumber (last (sortedBlocks c m)))"
  using assms
  by (auto simp: reloadHeadLocked_def reloadSetsLocked_def LatestBlock_def Let_def elim!: bind_errE split: if_split_asm prod.split_asm)

text \<open>
  C6. A rewind that succeeds goes back to an ancestor \<open>a\<close> at most 127 blocks below where it started and
  deletes exactly the rows of the chain above it. Every height it passed had a stored row that the node's
  header contradicts; the row it stopped at, when it is among the newest ones, is the block the node has;
  and the head in memory is the highest row left in the store.
\<close>

theorem rewind_reaches_ancestor:
  assumes "keyed block_key (BlockRows m)" "rewindToAncestor cfg now rpc from f m = (Inr head, f', m')"
  shows "\<exists>a\<le>from. unat from - unat a < maxReorgDepth
    \<and> BlockRows m' = filter (\<lambda>r. \<not> (fst (fst r) = cfChainID cfg \<and> a < bNumber (snd r))) (BlockRows m)
    \<and> (\<forall>n. a < n \<longrightarrow> n \<le> from \<longrightarrow> (\<exists>row h. map_of (BlockRows m) (cfChainID cfg, n) = Some row
          \<and> HeaderByNumber rpc n = Inr h \<and> \<not> same_block row h))
    \<and> (\<forall>row\<in>set (recent_rows (cfChainID cfg) m). bNumber row = a \<longrightarrow> a \<noteq> 0 \<longrightarrow>
          (\<exists>h. HeaderByNumber rpc a = Inr h \<and> same_block row h))
    \<and> head = fHead f'
    \<and> fHead f' = (let rows = sortedBlocks (cfChainID cfg) m' in if rows = [] then 0 else bNumber (last rows))"
proof -
  let ?c = "cfChainID cfg" and ?by = "\<lambda>n. List.find (\<lambda>r. bNumber r = n) (recent_rows (cfChainID cfg) m)"
  obtain a cs reset f1 f2 where a: "findAncestor ?c (HeaderByNumber rpc) from m = Inr a"
    and tx: "rewind_tx cfg now (fLiveStart f) a m = Inr (cs, reset, m')"
    and r1: "reloadHeadLocked ?c m' (rewound_follower a cs reset f) = Inr f1"
    and r2: "reloadSetsLocked ?c m' f1 = Inr f2" and out: "head = fHead f2" "f' = f2"
    using assms(2) by (auto simp: rewindToAncestor_def Let_def split: sum.split_asm prod.split_asm)
  note walk = ancestor_walk_sound [OF findAncestor_walk [OF a]]
  have rows: "BlockRows m' = filter (\<lambda>r. \<not> (fst (fst r) = ?c \<and> a < bNumber (snd r))) (BlockRows m)"
    using tx rewind_rows by (auto simp: rewind_tx_def chain_tx_Inr)
  have "\<exists>row h. map_of (BlockRows m) (?c, n) = Some row \<and> HeaderByNumber rpc n = Inr h \<and> \<not> same_block row h"
    if n: "a < n" "n \<le> from" for n
  proof -
    obtain row h where r: "?by n = Some row" "HeaderByNumber rpc n = Inr h" "\<not> same_block row h" using walk n by blast
    then have "row \<in> set (recent_rows ?c m)" "bNumber row = n" by (auto simp: find_Some_iff)
    then show ?thesis using recent_row(1) [OF assms(1)] r by blast
  qed
  moreover have "\<exists>h. HeaderByNumber rpc a = Inr h \<and> same_block row h"
    if r: "row \<in> set (recent_rows ?c m)" "bNumber row = a" "a \<noteq> 0" for row
    using walk recent_row(2) [OF assms(1) r(1)] r(2,3) by auto
  ultimately show ?thesis
    using walk rows out reloaded_head [OF r1 r2] by (intro exI [of _ a]) (simp add: Let_def)
qed

text \<open>
  C38. A rollback that reaches below the newest 129 rows is not walked at all: \<open>findAncestor\<close> takes the height
  it is asked for as the ancestor without comparing the row stored there, instead of reporting a reorg
  that is too deep. The witness has a stored row at that height which the node's header contradicts.
\<close>

theorem rollback_below_recent_rows:
  assumes "\<forall>row\<in>set (recent_rows c m). bNumber row \<noteq> from" "''RecentBlocks'' \<notin> set (FailOn m)"
  shows "findAncestor c header from m = Inr from"
proof -
  have "List.find (\<lambda>r. bNumber r = from) (recent_rows c m) = None" using assms(1) by (simp add: find_None_iff)
  then have "ancestor_walk header (\<lambda>n. List.find (\<lambda>r. bNumber r = n) (recent_rows c m)) (Suc 127) from = Inr from"
    by (subst ancestor_walk.simps) simp
  then show ?thesis using assms(2) by (simp add: findAncestor_def RecentBlocks_def recent_rows_def maxReorgDepth_def mem_fail_def)
qed

section \<open>A rewind on a small store\<close>

lemma rebuild_discard_succeeds:
  "FailOn m = [] \<Longrightarrow> set rs \<subseteq> set ResolutionOrder \<Longrightarrow> \<exists>ks. rebuild_discard c rows rs m = Inr (m\<lparr>BucketRows := ks\<rparr>)"
proof (induction rs arbitrary: m)
  case Nil
  then show ?case by (auto intro: exI [of _ "BucketRows m"])
next
  case (Cons res rs)
  obtain s where s: "RebuildBuckets c res (BucketStarts rows res) m = Inr s"
    using RebuildBuckets_succeeds [of m res c] Cons.prems by auto
  obtain ks where ks: "s = m\<lparr>BucketRows := ks\<rparr>"
    using RebuildBuckets_windows [OF s] rebuild_windows_frame [of c m] by metis
  obtain ks' where d: "DiscardBucketsBelowFrontier c res (BucketStarts rows res) s = Inr (m\<lparr>BucketRows := ks'\<rparr>)"
    using Cons.prems by (auto simp: DiscardBucketsBelowFrontier_def mem_fail_def ks)
  then show ?case using Cons.IH [of "m\<lparr>BucketRows := ks'\<rparr>"] Cons.prems s by auto
qed

text \<open>A node on another fork at the stored block, and a follower that has just started.\<close>

definition forked_header :: Header where
  "forked_header = plain_header\<lparr>hHash := ''0xf''\<rparr>"

definition forked_node :: RPC where
  "forked_node = \<lparr>HeadersByNumbers = (\<lambda>ns. Inl (Failed ''no answer'')), HeaderByNumber = (\<lambda>n. Inr forked_header),
     PosterGasByNumbers = (\<lambda>ts. Inl (Failed ''no answer'')), TransactionReceipts = (\<lambda>hs. Inr []),
     OwnerActsLogs = (\<lambda>a b. Inr []), BlockNumber = Inr 5, Available_calls = 10, ArchiveSampleAt = None\<rparr>"

definition new_follower :: Follower where
  "new_follower = \<lparr>fHead = 5, fHeadHash = ''0xb'', fPrevTs = 0, fState = None, fLastSample = None, fLastResult = None,
     fLastErrBips = 0, fCaches = applySetsLocked [] [],
     fLiveStart = None, fOwnerScanThrough = 0, fScanOrigin = None, fScanExtended = False, fCursorChecked = False,
     fDepthResolved = False, fRepairNarrow = 0, fRepairBlock = 0, fRepairAttempts = 0, fRewinding = False, fBehind = 0,
     fRecoveryDeferrals = 0, fRepairDeferrals = 0, fBackfillDeferrals = 0, fOwnerScanDeferrals = 0\<rparr>"

lemma forked_ancestor: "findAncestor 7 (HeaderByNumber forked_node) 5 one_row_store = Inr 4"
proof -
  have "ancestor_walk (HeaderByNumber forked_node) (\<lambda>n. List.find (\<lambda>r. bNumber r = n) [stored_row]) (Suc (Suc 126)) 5 = Inr 4"
    by (simp only: ancestor_walk.simps)
      (simp add: forked_node_def forked_header_def plain_header_def stored_row_def same_block_def)
  moreover have "maxReorgDepth = Suc (Suc 126)" by (simp add: maxReorgDepth_def)
  moreover have "RecentBlocks 7 (maxReorgDepth + 1) one_row_store = Inr [stored_row]"
    by (simp add: RecentBlocks_def one_row_store_def mem_New_def sortedBlocks_def chain_blocks_def maxReorgDepth_def mem_fail_def)
  ultimately show ?thesis by (simp only: findAncestor_def bind_err_def sum.case)
qed

lemma forked_rewind:
  "\<exists>m. rewind_tx run_config 0 None 4 one_row_store = Inr (False, False, m)
     \<and> FailOn m = [] \<and> BlockRows m = [] \<and> SetRows m = [] \<and> ActionRows m = []"
proof -
  have none: "rewindHoles 7 0 4 False [] = Inr []" by code_simp
  let ?m = "\<lambda>bs. mem_New\<lparr>BlockRows := bs, StateRows := [((7, StateGeneration), StateText (FormatUint 1))]\<rparr>"
  obtain ks where ks: "rebuild_discard 7 [stored_row] ResolutionOrder (?m []) = Inr (?m []\<lparr>BucketRows := ks\<rparr>)"
    using rebuild_discard_succeeds [of "?m []" ResolutionOrder 7] by (auto simp: mem_New_def)
  have row: "bNumber stored_row = 5" by (simp add: stored_row_def)
  show ?thesis
    using ks row
    by (simp add: rewind_tx_def rewind_body_def run_config_def chain_WithChainTx_def lock_request_def mem_fail_def Let_def
        bumpGeneration_def generation_def GetState_def SetState_def one_row_store_def mem_New_def DeleteBlocksAfter_def
        sortedBlocks_def chain_blocks_def RewindAfter_def DeleteStateSamplesAfter_def drop_samples_def rewindOwnerScan_def
        rewindCursor_def rewindBackfill_def on_ranges_def MissingRanges_def none rewind_live_start_def rewindNetworkHead_def
        BlockByNumber_def LatestStateSample_def SetNetworkHead_def state_keys)
qed


theorem rewind_reaches_ancestor_witness:
  "\<exists>f m. rewindToAncestor run_config 0 forked_node 5 new_follower one_row_store = (Inr 0, f, m) \<and> fHead f = 0
     \<and> BlockRows m = [] \<and> (\<exists>h. HeaderByNumber forked_node 5 = Inr h \<and> \<not> same_block stored_row h)"
proof -
  obtain m where m: "rewind_tx run_config 0 None 4 one_row_store = Inr (False, False, m)"
      "FailOn m = []" "BlockRows m = []" "SetRows m = []" "ActionRows m = []"
    using forked_rewind by blast
  have c: "cfChainID run_config = 7" "fLiveStart new_follower = None" by (simp_all add: run_config_def new_follower_def)
  have "\<exists>f. rewindToAncestor run_config 0 forked_node 5 new_follower one_row_store = (Inr (fHead f), f, m)"
    using m(2-5)
    by (simp add: rewindToAncestor_def c forked_ancestor m(1) reloadHeadLocked_def LatestBlock_def sortedBlocks_def chain_blocks_def
        mem_fail_def reloadSetsLocked_def loadSets_def mem_ConstraintSets_def OwnerActions_def Let_def)
  then obtain f where f: "rewindToAncestor run_config 0 forked_node 5 new_follower one_row_store = (Inr (fHead f), f, m)" by blast
  have "keyed block_key (BlockRows one_row_store)" by (simp add: one_row_store_def keyed_def block_key_def stored_row_def)
  from rewind_reaches_ancestor [OF this f, unfolded c] obtain a where a: "a \<le> 5"
      "BlockRows m = filter (\<lambda>r. \<not> (fst (fst r) = 7 \<and> a < bNumber (snd r))) (BlockRows one_row_store)"
      "\<And>n. a < n \<Longrightarrow> n \<le> 5 \<Longrightarrow> \<exists>row h. map_of (BlockRows one_row_store) (7, n) = Some row
         \<and> HeaderByNumber forked_node n = Inr h \<and> \<not> same_block row h"
      "fHead f = (let rows = sortedBlocks 7 m in if rows = [] then 0 else bNumber (last rows))"
    by blast
  have "bNumber stored_row = 5" by (simp add: stored_row_def)
  then have "a < 5" using a(2) m(3) by (auto simp: one_row_store_def split: if_split_asm)
  then have "\<exists>h. HeaderByNumber forked_node 5 = Inr h \<and> \<not> same_block stored_row h"
    using a(3) [of 5] by (auto simp: one_row_store_def)
  moreover have "fHead f = 0" using a(4) m(3) by (simp add: sortedBlocks_def chain_blocks_def)
  ultimately show ?thesis using f m(3) by auto
qed

text \<open>A store of one block below the hundred and thirty newest ones.\<close>

definition deep_store :: MemStore where
  "deep_store = mem_New\<lparr>BlockRows := map (\<lambda>i. ((7, of_nat i), stored_row\<lparr>bNumber := of_nat i\<rparr>)) [1..<132]\<rparr>"

lemma deep_recent: "\<forall>row\<in>set (recent_rows 7 deep_store). bNumber row \<noteq> 1"
  by code_simp

theorem rollback_below_recent_rows_witness:
  "findAncestor 7 (HeaderByNumber forked_node) 1 deep_store = Inr 1
     \<and> \<not> same_block (stored_row\<lparr>bNumber := 1\<rparr>) forked_header
     \<and> BlockByNumber 7 1 deep_store = Inr (Some (stored_row\<lparr>bNumber := 1\<rparr>))"
proof -
  have "''RecentBlocks'' \<notin> set (FailOn deep_store)" by (simp add: deep_store_def mem_New_def)
  from rollback_below_recent_rows [OF deep_recent this] have "findAncestor 7 (HeaderByNumber forked_node) 1 deep_store = Inr 1" .
  moreover have "[1..<132] = 1 # [2..<132]" by (simp add: upt_conv_Cons)
  then have "BlockByNumber 7 1 deep_store = Inr (Some (stored_row\<lparr>bNumber := 1\<rparr>))"
    by (simp add: BlockByNumber_def deep_store_def mem_New_def mem_fail_def)
  ultimately show ?thesis by (simp add: same_block_def stored_row_def forked_header_def plain_header_def)
qed

end
