(* ===== verification/Scans.thy ===== *)
theory Scans
  imports Rewind_Laws
begin

text \<open>
  The scans of the slow loop (\<open>slow.go\<close>): the scan of the owner actions with the origin it starts from,
  and the scan of the batch posting reports with the parameters a report is priced with. Log
  lines and the progress of a scan are left out, and so is the cancellation of a context.
\<close>

section \<open>Recording owner actions\<close>

definition scanOwnerFloor ::
  "(bytes \<Rightarrow> bytes) \<Rightarrow> u64 \<Rightarrow> RPC \<Rightarrow> u64 \<Rightarrow> u64 \<Rightarrow> u64 \<Rightarrow> MemStore \<Rightarrow> store_error + MemStore" where
  "scanOwnerFloor keccak chainID rpc gen from to m =
     bind_err (map_sum RpcFailed id (fetchOwnerActions keccak rpc from to)) (\<lambda>actions.
       withGeneration chainID gen (\<lambda>m. map_sum id snd (storeOwnerActions chainID actions m)) m)"

definition scanOwnerRange ::
  "(bytes \<Rightarrow> bytes) \<Rightarrow> u64 \<Rightarrow> RPC \<Rightarrow> u64 \<Rightarrow> u64 \<Rightarrow> u64 \<Rightarrow> MemStore \<Rightarrow> store_error + MemStore" where
  "scanOwnerRange keccak chainID rpc gen from to m =
     bind_err (map_sum RpcFailed id (fetchOwnerActions keccak rpc from to)) (\<lambda>actions.
       withGeneration chainID gen (\<lambda>m.
         bind_err (storeOwnerActions chainID actions m) (\<lambda>(recorded, m).
           SetState chainID StateOwnerLogCursor (StateText (FormatUint to)) m)) m)"

section \<open>The origin of a truncated scan\<close>

text \<open>The archive endpoint: the pricing state and the L1 state at the end of a block.\<close>

record Archive =
  PricingSampleAt :: "u64 \<Rightarrow> nitro_error + Sample"
  ArchiveL1At :: "u64 \<Rightarrow> nitro_error + L1Sample"

definition firstOriginBlock :: u64 where
  "firstOriginBlock = 1"

definition batch_cost_of :: "L1Sample \<Rightarrow> BatchPostingCostParams" where
  "batch_cost_of l1 =
     \<lparr>pArbOSVersion = l1ArbOSVersion l1, pPerBatchGasCharge = l1PerBatchGasCharge l1,
      pParentGasFloorPerToken = l1ParentGasFloorPerToken l1\<rparr>"

text \<open>The origin an archive sample gives, with the constraint set it observes.\<close>

definition sampled_origin ::
  "u64 \<Rightarrow> u64 \<Rightarrow> Sample \<Rightarrow> L1Sample \<Rightarrow> store_error + (scanOrigin \<times> ConstraintSet option)" where
  "sampled_origin chainID cutoff sample l1 =
     (let origin = \<lparr>soBlock = cutoff, soMinBaseFee = big_String (smMinBaseFee sample), soArchive = True, soLegacy = None,
                    soBatchCost = Some (batch_cost_of l1)\<rparr>
      in if sample_IsLegacy sample
         then case smLegacy sample of
                None \<Rightarrow> Inl NoReplayState
              | Some lp \<Rightarrow> Inr (origin\<lparr>soLegacy := Some lp\<rparr>, None)
         else Inr (origin, Some
                \<lparr>csID = 0, csChainID = chainID, csEffectiveBlock = replayFrom (Some origin),
                 csEffectiveAt = unix_time (i64_of_u64 (hTimestamp (smHeader sample))),
                 csConstraints = Some (entriesFromSample sample), csSource = SourceObserved\<rparr>))"

definition bare_origin :: "u64 \<Rightarrow> scanOrigin" where
  "bare_origin cutoff = \<lparr>soBlock = cutoff, soMinBaseFee = [], soArchive = False, soLegacy = None, soBatchCost = None\<rparr>"

text \<open>The transaction of \<open>writeOrigin\<close>.\<close>

definition origin_tx ::
  "u64 \<Rightarrow> gotime \<Rightarrow> u64 \<Rightarrow> u64 \<Rightarrow> scanOrigin \<Rightarrow> ConstraintSet option \<Rightarrow> MemStore \<Rightarrow> store_error + MemStore" where
  "origin_tx chainID now gen cutoff origin observed =
     withGeneration chainID gen (\<lambda>m.
       bind_err (case observed of None \<Rightarrow> Inr m | Some cs \<Rightarrow> map_sum id snd (InsertConstraintSet cs m)) (\<lambda>m.
       bind_err (if \<not> soArchive origin \<and> 0 < cutoff
                 then on_ranges chainID (recordHole chainID now (skipped_hole 0 (cutoff - 1) [] reasonNoState [] [])) m
                 else Inr m) (\<lambda>m.
         SetState chainID StateOwnerScanOrigin (StateOrigin origin) m)))"

type_synonym scan_outcome = "store_error option \<times> Follower \<times> MemStore"

definition clearOrigin :: "u64 \<Rightarrow> u64 \<Rightarrow> Follower \<Rightarrow> MemStore \<Rightarrow> scan_outcome" where
  "clearOrigin chainID gen f m =
     (case loadSets chainID m of
        Inl e \<Rightarrow> (Some e, f, m)
      | Inr (sets, actions) \<Rightarrow>
          (case withGeneration chainID gen (DeleteState chainID StateOwnerScanOrigin) m of
             Inl e \<Rightarrow> (Some e, f, m)
           | Inr m \<Rightarrow> (None, f\<lparr>fCaches := applySetsLocked sets actions, fScanOrigin := None\<rparr>, m)))"

definition store_origin ::
  "u64 \<Rightarrow> gotime \<Rightarrow> u64 \<Rightarrow> u64 \<Rightarrow> scanOrigin \<Rightarrow> ConstraintSet option \<Rightarrow> Follower \<Rightarrow> MemStore \<Rightarrow> scan_outcome" where
  "store_origin chainID now gen cutoff origin observed f m =
     (case origin_tx chainID now gen cutoff origin observed m of
        Inl e \<Rightarrow> (Some e, f, m)
      | Inr m \<Rightarrow>
          (case loadSets chainID m of
             Inl e \<Rightarrow> (Some e, f, m)
           | Inr (sets, actions) \<Rightarrow> (None, f\<lparr>fCaches := applySetsLocked sets actions, fScanOrigin := Some origin\<rparr>, m)))"

definition writeOrigin ::
  "u64 \<Rightarrow> gotime \<Rightarrow> Archive option \<Rightarrow> u64 \<Rightarrow> u64 \<Rightarrow> bool \<Rightarrow> Follower \<Rightarrow> MemStore \<Rightarrow> scan_outcome" where
  "writeOrigin chainID now archive cutoff gen onlyLegacy f m =
     (case archive of
        None \<Rightarrow> store_origin chainID now gen cutoff (bare_origin cutoff) None f m
      | Some a \<Rightarrow>
          (case PricingSampleAt a cutoff of
             Inl e \<Rightarrow> (Some (RpcFailed e), f, m)
           | Inr sample \<Rightarrow>
               (case ArchiveL1At a cutoff of
                  Inl e \<Rightarrow> (Some (RpcFailed e), f, m)
                | Inr l1 \<Rightarrow>
                    if onlyLegacy \<and> \<not> sample_IsLegacy sample then clearOrigin chainID gen f m
                    else case sampled_origin chainID cutoff sample l1 of
                           Inl e \<Rightarrow> (Some e, f, m)
                         | Inr (origin, observed) \<Rightarrow> store_origin chainID now gen cutoff origin observed f m)))"

definition establishOrigin ::
  "u64 \<Rightarrow> gotime \<Rightarrow> Archive option \<Rightarrow> u64 \<Rightarrow> u64 \<Rightarrow> bool \<Rightarrow> Follower \<Rightarrow> MemStore \<Rightarrow> scan_outcome" where
  "establishOrigin chainID now archive cutoff gen onlyLegacy f m =
     (if fScanOrigin f \<noteq> None then (None, f, m) else writeOrigin chainID now archive cutoff gen onlyLegacy f m)"

text \<open>Where a fresh scan begins.\<close>

definition scanStart ::
  "follower_config \<Rightarrow> gotime \<Rightarrow> RPC \<Rightarrow> Archive option \<Rightarrow> u64 \<Rightarrow> u64 \<Rightarrow> Follower \<Rightarrow> MemStore
     \<Rightarrow> (store_error + u64) \<times> Follower \<times> MemStore" where
  "scanStart cfg now rpc archive head gen f m =
     (case depthCutoff cfg rpc head originMargin of
        Inl e \<Rightarrow> (Inl e, f, m)
      | Inr cutoff \<Rightarrow>
          let whole = cutoff \<le> 1; start = (if whole then 0 else cutoff) in
          if whole \<and> archive = None then (Inr 0, f, m)
          else case establishOrigin (cfChainID cfg) now archive (if whole then firstOriginBlock else cutoff) gen whole f m of
                 (Some e, f, m) \<Rightarrow> (Inl e, f, m)
               | (None, f, m) \<Rightarrow> (Inr start, f, m))"

fun floor_chunks ::
  "(bytes \<Rightarrow> bytes) \<Rightarrow> u64 \<Rightarrow> RPC \<Rightarrow> u64 \<Rightarrow> (u64 \<times> u64) list \<Rightarrow> MemStore \<Rightarrow> store_error option \<times> MemStore" where
  "floor_chunks keccak chainID rpc gen [] m = (None, m)"
| "floor_chunks keccak chainID rpc gen ((from, to) # rest) m =
     (case scanOwnerFloor keccak chainID rpc gen from to m of
        Inl e \<Rightarrow> (Some e, m)
      | Inr m \<Rightarrow> floor_chunks keccak chainID rpc gen rest m)"

definition markScanExtended :: "Follower \<Rightarrow> Follower" where
  "markScanExtended f = f\<lparr>fScanExtended := True\<rparr>"

definition extended :: "scan_outcome \<Rightarrow> scan_outcome" where
  "extended out = (case out of (Some e, f, m) \<Rightarrow> (Some e, f, m) | (None, f, m) \<Rightarrow> (None, markScanExtended f, m))"

definition originateAtFirstBlock ::
  "u64 \<Rightarrow> gotime \<Rightarrow> Archive option \<Rightarrow> u64 \<Rightarrow> u64 \<Rightarrow> Follower \<Rightarrow> MemStore \<Rightarrow> scan_outcome" where
  "originateAtFirstBlock chainID now archive target gen f m =
     extended (if target = firstOriginBlock \<and> archive \<noteq> None
               then writeOrigin chainID now archive firstOriginBlock gen True f m else (None, f, m))"

definition extendScanOrigin ::
  "(bytes \<Rightarrow> bytes) \<Rightarrow> follower_config \<Rightarrow> gotime \<Rightarrow> RPC \<Rightarrow> Archive option \<Rightarrow> u64 \<Rightarrow> u64 \<Rightarrow> Follower \<Rightarrow> MemStore \<Rightarrow> scan_outcome" where
  "extendScanOrigin keccak cfg now rpc archive head gen f m =
     (let c = cfChainID cfg in
      if fScanExtended f then (None, f, m)
      else if IsHold (cfBackfillDepth cfg) then (None, markScanExtended f, m)
      else case depthCutoff cfg rpc head originMargin of
             Inl e \<Rightarrow> (Some e, f, m)
           | Inr cutoff \<Rightarrow>
               let target = max cutoff firstOriginBlock in
               (case fScanOrigin f of
                  None \<Rightarrow> originateAtFirstBlock c now archive target gen f m
                | Some origin \<Rightarrow>
                    if soBlock origin \<le> target then (None, markScanExtended f, m)
                    else if archive = None then (None, markScanExtended f, m)
                    else case floor_chunks keccak c rpc gen (chunks ownerLogChunk cutoff (soBlock origin)) m of
                           (Some e, m) \<Rightarrow> (Some e, f, m)
                         | (None, m) \<Rightarrow> extended (writeOrigin c now archive target gen (target = firstOriginBlock) f m)))"

section \<open>The scan\<close>

text \<open>
  The chunks of a turn. The flag of the result says that the scan reached its end; every chunk but the
  first yields to a busy live loop.
\<close>

fun owner_chunks ::
  "(bytes \<Rightarrow> bytes) \<Rightarrow> follower_config \<Rightarrow> RPC \<Rightarrow> u64 \<Rightarrow> bool \<Rightarrow> (u64 \<times> u64) list \<Rightarrow> Follower \<Rightarrow> MemStore
     \<Rightarrow> (store_error + bool) \<times> Follower \<times> MemStore" where
  "owner_chunks keccak cfg rpc gen first [] f m = (Inr True, f, m)"
| "owner_chunks keccak cfg rpc gen first ((from, to) # rest) f m =
     (case (if first then (False, f) else ownerScanMustWait cfg f) of
        (True, f) \<Rightarrow> (Inr False, f, m)
      | (False, f) \<Rightarrow>
          (case scanOwnerRange keccak (cfChainID cfg) rpc gen from to m of
             Inl e \<Rightarrow> (Inl e, f, m)
           | Inr m \<Rightarrow> owner_chunks keccak cfg rpc gen False rest f m))"

text \<open>The end of a scan that reached the head it started from.\<close>

definition finish_scan :: "u64 \<Rightarrow> u64 \<Rightarrow> u64 \<Rightarrow> Follower \<Rightarrow> MemStore \<Rightarrow> scan_outcome" where
  "finish_scan chainID gen head f m =
     (case reloadSetsLocked chainID m f of
        Inl e \<Rightarrow> (Some e, f, m)
      | Inr f \<Rightarrow>
          if head \<le> fOwnerScanThrough f then (None, f, m)
          else case withGeneration chainID gen (SetState chainID StateOwnerScanThrough (StateText (FormatUint head))) m of
                 Inl e \<Rightarrow> (Some e, f, m)
               | Inr m \<Rightarrow> (None, f\<lparr>fOwnerScanThrough := head\<rparr>, m))"

text \<open>Where the scan goes on from: after its cursor, or at the start of a fresh scan.\<close>

definition resume_from ::
  "follower_config \<Rightarrow> gotime \<Rightarrow> RPC \<Rightarrow> Archive option \<Rightarrow> u64 \<Rightarrow> u64 \<Rightarrow> state_value option \<Rightarrow> Follower \<Rightarrow> MemStore
     \<Rightarrow> (store_error + u64) \<times> Follower \<times> MemStore" where
  "resume_from cfg now rpc archive head gen cursor f m =
     (case cursor of
        None \<Rightarrow> scanStart cfg now rpc archive head gen f m
      | Some (StateText raw) \<Rightarrow>
          (case ParseUint raw of
             None \<Rightarrow> (Inl (BadState StateOwnerLogCursor), f, m)
           | Some n \<Rightarrow> (Inr (n + 1), f, m))
      | Some _ \<Rightarrow> (Inl (BadState StateOwnerLogCursor), f, m))"

definition scanOwnerActions ::
  "(bytes \<Rightarrow> bytes) \<Rightarrow> follower_config \<Rightarrow> gotime \<Rightarrow> RPC \<Rightarrow> Archive option \<Rightarrow> Follower \<Rightarrow> MemStore \<Rightarrow> scan_outcome" where
  "scanOwnerActions keccak cfg now rpc archive f m =
     (let c = cfChainID cfg in
      case bind_err (generation c m) (\<lambda>gen.
             bind_err (currentHead rpc f) (\<lambda>head.
             bind_err (GetState c StateOwnerLogCursor m) (\<lambda>cursor. Inr (gen, head, cursor)))) of
        Inl e \<Rightarrow> (Some e, f, m)
      | Inr (gen, head, cursor) \<Rightarrow>
          (case extendScanOrigin keccak cfg now rpc archive head gen f m of
             (Some e, f, m) \<Rightarrow> (Some e, f, m)
           | (None, f, m) \<Rightarrow>
               (case resume_from cfg now rpc archive head gen cursor f m of
                  (Inl e, f, m) \<Rightarrow> (Some e, f, m)
                | (Inr from, f, m) \<Rightarrow>
                    (case owner_chunks keccak cfg rpc gen True (chunks ownerLogChunk from head) f m of
                       (Inl e, f, m) \<Rightarrow> (Some e, f, m)
                     | (Inr False, f, m) \<Rightarrow> (None, f, m)
                     | (Inr True, f, m) \<Rightarrow> finish_scan c gen head f m))))"


section \<open>The parameters of a batch report\<close>

record batchCostAnchor =
  baBlock :: u64
  baParams :: BatchPostingCostParams

record batchCostResolver =
  crOrigin :: "scanOrigin option"
  crAnchor :: batchCostAnchor
  crChanges :: "batchCostChange list"

definition new_batchCostResolver :: "batchCostAnchor option \<Rightarrow> Follower \<Rightarrow> store_error + batchCostResolver" where
  "new_batchCostResolver anchor f =
     (case anchor of
        None \<Rightarrow> Inl CostsNotSampled
      | Some a \<Rightarrow> Inr \<lparr>crOrigin = fScanOrigin f, crAnchor = a, crChanges = chBatchCostChanges (fCaches f)\<rparr>)"

definition defaultPerBatchGasCharge :: "u64 \<Rightarrow> i64" where
  "defaultPerBatchGasCharge arbosVersion =
     (if 11 \<le> arbosVersion then 210000 else if 6 \<le> arbosVersion then 100000 else 0)"

text \<open>What is known of the two parameters at a block: \<open>None\<close> when it cannot be told.\<close>

definition base_params :: "scanOrigin option \<Rightarrow> u64 \<Rightarrow> u64 \<Rightarrow> i64 option \<times> u64 option" where
  "base_params origin block arbosVersion =
     (case origin of
        None \<Rightarrow> (Some (defaultPerBatchGasCharge arbosVersion), Some 0)
      | Some o' \<Rightarrow>
          (case soBatchCost o' of
             Some bc \<Rightarrow>
               if soBlock o' < block then (Some (pPerBatchGasCharge bc), Some (pParentGasFloorPerToken bc)) else (None, None)
           | None \<Rightarrow> (None, None)))"

text \<open>The changes that count: those after an origin whose parameters were sampled.\<close>

definition counted_changes :: "scanOrigin option \<Rightarrow> batchCostChange list \<Rightarrow> batchCostChange list" where
  "counted_changes origin changes =
     (case origin of
        None \<Rightarrow> changes
      | Some o' \<Rightarrow> if soBatchCost o' = None then changes else filter (\<lambda>ch. \<not> bcBlock ch \<le> soBlock o') changes)"

definition changed_to :: "('a option) \<Rightarrow> 'a option \<Rightarrow> 'a option" where
  "changed_to known change = (case change of None \<Rightarrow> known | Some v \<Rightarrow> Some v)"

text \<open>
  One parameter at a block: with a change between the block and the anchor the last change up to the block
  decides, otherwise the anchor does.
\<close>

definition param_at ::
  "(batchCostChange \<Rightarrow> 'a option) \<Rightarrow> 'a option \<Rightarrow> batchCostChange list \<Rightarrow> u64 \<Rightarrow> u64 \<Rightarrow> 'a \<Rightarrow> 'a option" where
  "param_at g base changes block anchor current =
     (if \<exists>ch\<in>set (filter (\<lambda>ch. \<not> bcBlock ch \<le> block \<and> bcBlock ch \<le> anchor) changes). g ch \<noteq> None
      then foldl (\<lambda>known ch. changed_to known (g ch)) base (filter (\<lambda>ch. bcBlock ch \<le> block) changes)
      else Some current)"

definition paramsAt :: "batchCostResolver \<Rightarrow> u64 \<Rightarrow> u64 \<Rightarrow> store_error + BatchPostingCostParams" where
  "paramsAt r block arbosVersion =
     (let anchor = crAnchor r; changes = counted_changes (crOrigin r) (crChanges r);
          base = base_params (crOrigin r) block arbosVersion;
          perBatch = param_at bcPerBatchGas (fst base) changes block (baBlock anchor) (pPerBatchGasCharge (baParams anchor));
          floor = param_at bcParentFloor (snd base) changes block (baBlock anchor) (pParentGasFloorPerToken (baParams anchor))
      in if baBlock anchor < block then Inl (AboveAnchor block (baBlock anchor))
         else case perBatch of
                None \<Rightarrow> Inl (CostUnreconstructable block)
              | Some charge \<Rightarrow>
                  if 50 \<le> arbosVersion \<and> floor = None then Inl (CostUnreconstructable block)
                  else Inr \<lparr>pArbOSVersion = arbosVersion, pPerBatchGasCharge = charge,
                            pParentGasFloorPerToken = (case floor of None \<Rightarrow> 0 | Some v \<Rightarrow> v)\<rparr>)"

section \<open>Batch reports\<close>

definition batchScanLimit :: nat where "batchScanLimit = 100"
definition batchFetchChunk :: nat where "batchFetchChunk = 20"

definition BatchPostingCostCalculationVersion :: int where
  "BatchPostingCostCalculationVersion = 1"

text \<open>The first batch posting report of a block; a transaction that does not decode to one is passed over.\<close>

fun first_report :: "(bytes \<Rightarrow> bytes) \<Rightarrow> Tx list \<Rightarrow> BatchPostingReport option" where
  "first_report keccak [] = None"
| "first_report keccak (tx # txs) =
     (if \<not> IsInternalTx tx then first_report keccak txs
      else case DecodeInternalTx keccak (txInput tx) of
             Inr (Report r) \<Rightarrow> Some r
           | _ \<Rightarrow> first_report keccak txs)"

definition report_row :: "u64 \<Rightarrow> u64 \<Rightarrow> BatchPostingReport \<Rightarrow> BatchPostingCostParams \<Rightarrow> BatchPostingCost \<Rightarrow> BatchReport" where
  "report_row chainID block r p cost =
     \<lparr>brChainID = chainID, brBlockNumber = block, brBatchNumber = BatchPostingReport.brBatchNumber r,
      brBatchTS = unix_time (i64_of_u64 (BatchPostingReport.brBatchTimestamp r)), brPoster = BatchPostingReport.brPoster r,
      brCalldataLen = BatchPostingReport.brCalldataLen r, brCalldataNonzero = BatchPostingReport.brCalldataNonZeros r,
      brExtraGas = BatchPostingReport.brExtraGas r, brL1BaseFee = bigOrZero (BatchPostingReport.brL1BaseFee r),
      brGasSpent = GasSpent cost, brWeiSpent = WeiSpent cost, brReportVersion = BatchPostingReport.brVersion r,
      brArbOSVersion = pArbOSVersion p, brPerBatchGasCharge = pPerBatchGasCharge p,
      brParentGasFloorPerToken = pParentGasFloorPerToken p, brCostCalculationVersion = BatchPostingCostCalculationVersion\<rparr>"

definition batchReportOf ::
  "(bytes \<Rightarrow> bytes) \<Rightarrow> u64 \<Rightarrow> nitro_block \<Rightarrow> batchCostResolver \<Rightarrow> store_error + BatchReport option" where
  "batchReportOf keccak chainID b resolver =
     (case first_report keccak (nbTxs b) of
        None \<Rightarrow> Inr None
      | Some r \<Rightarrow>
          bind_err (paramsAt resolver (hNumber (nbHeader b)) (hArbOSVersion (nbHeader b))) (\<lambda>p.
          bind_err (map_sum CostFailed id (Cost r p)) (\<lambda>cost.
            Inr (Some (report_row chainID (hNumber (nbHeader b)) r p cost)))))"

text \<open>A report whose parameters cannot be told is skipped; another error ends the scan.\<close>

fun reports_of ::
  "(bytes \<Rightarrow> bytes) \<Rightarrow> u64 \<Rightarrow> batchCostResolver \<Rightarrow> nitro_block list \<Rightarrow> store_error + BatchReport list" where
  "reports_of keccak chainID resolver [] = Inr []"
| "reports_of keccak chainID resolver (b # bs) =
     (case batchReportOf keccak chainID b resolver of
        Inl (CostUnreconstructable n) \<Rightarrow> reports_of keccak chainID resolver bs
      | Inl e \<Rightarrow> Inl e
      | Inr None \<Rightarrow> reports_of keccak chainID resolver bs
      | Inr (Some r) \<Rightarrow> map_sum id (Cons r) (reports_of keccak chainID resolver bs))"

text \<open>The blocks are fetched in pieces of at most \<open>size\<close>; a piece is decoded before the next is fetched.\<close>

function fetch_reports ::
  "(bytes \<Rightarrow> bytes) \<Rightarrow> u64 \<Rightarrow> (u64 list \<Rightarrow> nitro_error + nitro_block list) \<Rightarrow> batchCostResolver \<Rightarrow> nat \<Rightarrow> u64 list
     \<Rightarrow> store_error + BatchReport list" where
  "fetch_reports keccak chainID blocksAt resolver piece nums =
     (if nums = [] \<or> piece = 0 then Inr []
      else case blocksAt (take piece nums) of
             Inl e \<Rightarrow> Inl (RpcFailed e)
           | Inr blocks \<Rightarrow>
               bind_err (reports_of keccak chainID resolver blocks) (\<lambda>reports.
                 map_sum id ((@) reports) (fetch_reports keccak chainID blocksAt resolver piece (drop piece nums))))"
  by pat_completeness auto
termination
  by (relation "measure (\<lambda>(_, _, _, _, _, nums). length nums)") auto

declare fetch_reports.simps [simp del]

definition capBlocks :: "u64 list \<Rightarrow> u64 \<Rightarrow> u64 list" where
  "capBlocks nums through = takeWhile (\<lambda>n. \<not> through < n) nums"

definition batchCandidates :: "u64 \<Rightarrow> u64 \<Rightarrow> bool \<Rightarrow> MemStore \<Rightarrow> store_error + u64 list" where
  "batchCandidates chainID after unlimited m =
     (if \<not> unlimited then TwoTxBlocks chainID after batchScanLimit m
      else map_sum id (map bNumber) (BlocksAfter chainID after batchScanLimit m))"

definition batch_commit :: "u64 \<Rightarrow> u64 \<Rightarrow> BatchReport list \<Rightarrow> u64 \<Rightarrow> MemStore \<Rightarrow> store_error + MemStore" where
  "batch_commit chainID gen reports after =
     withGeneration chainID gen (\<lambda>m.
       bind_err (if reports = [] then Inr m else UpsertBatchReports reports m)
         (SetState chainID StateBatchScanCursor (StateText (FormatUint after))))"

text \<open>One round: the new cursor, whether another round follows, and the store.\<close>

definition batch_round ::
  "(bytes \<Rightarrow> bytes) \<Rightarrow> u64 \<Rightarrow> (u64 list \<Rightarrow> nitro_error + nitro_block list) \<Rightarrow> batchCostResolver \<Rightarrow> u64 \<Rightarrow> bool \<Rightarrow> u64 \<Rightarrow> MemStore
     \<Rightarrow> store_error + (u64 \<times> bool \<times> MemStore) option" where
  "batch_round keccak chainID blocksAt resolver gen unlimited after m =
     bind_err (batchCandidates chainID after unlimited m) (\<lambda>nums.
       let nums = capBlocks nums (baBlock (crAnchor resolver)) in
       if nums = [] then Inr None
       else bind_err (fetch_reports keccak chainID blocksAt resolver (if unlimited then MaxBatch else batchFetchChunk) nums) (\<lambda>reports.
            bind_err (batch_commit chainID gen reports (last nums) m) (\<lambda>m.
              Inr (Some (last nums, unlimited \<and> \<not> length nums < batchScanLimit, m)))))"

lemma batch_round_advances:
  assumes "batch_round keccak chainID blocksAt resolver gen unlimited after m = Inr (Some (after', more', m'))"
  shows "after < after'" "after' \<le> baBlock (crAnchor resolver)"
proof -
  obtain nums where c: "batchCandidates chainID after unlimited m = Inr nums"
      and n: "capBlocks nums (baBlock (crAnchor resolver)) \<noteq> []" "after' = last (capBlocks nums (baBlock (crAnchor resolver)))"
    using assms by (auto simp: batch_round_def Let_def elim!: bind_errE split: if_split_asm)
  have "\<forall>n\<in>set nums. after < n"
    using c by (auto simp: batchCandidates_def TwoTxBlocks_def BlocksAfter_def map_sum_eq_Inr dest!: in_set_takeD split: if_split_asm)
  moreover have "after' \<in> set (capBlocks nums (baBlock (crAnchor resolver)))" unfolding n(2) by (rule last_in_set [OF n(1)])
  ultimately show "after < after'" "after' \<le> baBlock (crAnchor resolver)"
    by (auto simp: capBlocks_def dest: set_takeWhileD)
qed

lemma batch_round_measure:
  "batch_round keccak chainID blocksAt resolver gen unlimited after m = Inr (Some (after', more', m'))
     \<Longrightarrow> unat (baBlock (crAnchor resolver)) - unat after' < unat (baBlock (crAnchor resolver)) - unat after"
  using batch_round_advances [of keccak chainID blocksAt resolver gen unlimited after m after' more' m']
  by (auto simp: word_less_nat_alt word_le_nat_alt)

text \<open>The rounds of a scan; \<open>unlimited i\<close> is the policy of the endpoint in round \<open>i\<close>.\<close>

function batch_rounds ::
  "(bytes \<Rightarrow> bytes) \<Rightarrow> u64 \<Rightarrow> (u64 list \<Rightarrow> nitro_error + nitro_block list) \<Rightarrow> batchCostResolver \<Rightarrow> u64 \<Rightarrow> (nat \<Rightarrow> bool) \<Rightarrow> nat
     \<Rightarrow> u64 \<Rightarrow> MemStore \<Rightarrow> store_error option \<times> MemStore" where
  "batch_rounds keccak chainID blocksAt resolver gen unlimited i after m =
     (case batch_round keccak chainID blocksAt resolver gen (unlimited i) after m of
        Inl e \<Rightarrow> (Some e, m)
      | Inr None \<Rightarrow> (None, m)
      | Inr (Some (after', more', m')) \<Rightarrow>
          if more' then batch_rounds keccak chainID blocksAt resolver gen unlimited (Suc i) after' m' else (None, m'))"
  by pat_completeness auto
termination
  by (relation "measure (\<lambda>(_, _, _, r, _, _, _, after, _). unat (baBlock (crAnchor r)) - unat after)")
    (auto dest: batch_round_measure)

declare batch_rounds.simps [simp del]

definition scanBatchReports ::
  "(bytes \<Rightarrow> bytes) \<Rightarrow> u64 \<Rightarrow> (u64 list \<Rightarrow> nitro_error + nitro_block list) \<Rightarrow> (nat \<Rightarrow> bool) \<Rightarrow> batchCostAnchor option \<Rightarrow> Follower
     \<Rightarrow> MemStore \<Rightarrow> store_error option \<times> MemStore" where
  "scanBatchReports keccak chainID blocksAt unlimited anchor f m =
     (case bind_err (new_batchCostResolver anchor f) (\<lambda>resolver.
             bind_err (generation chainID m) (\<lambda>gen.
             bind_err (GetState chainID StateBatchScanCursor m) (\<lambda>cursor.
               case cursor of
                 None \<Rightarrow> map_sum id (map_option (\<lambda>b. (resolver, gen, bNumber b - 1))) (OldestBlock chainID m)
               | Some (StateText raw) \<Rightarrow>
                   (case ParseUint raw of
                      None \<Rightarrow> Inl (BadState StateBatchScanCursor)
                    | Some after \<Rightarrow> Inr (Some (resolver, gen, after)))
               | Some _ \<Rightarrow> Inl (BadState StateBatchScanCursor)))) of
        Inl e \<Rightarrow> (Some e, m)
      | Inr None \<Rightarrow> (None, m)
      | Inr (Some (resolver, gen, after)) \<Rightarrow> batch_rounds keccak chainID blocksAt resolver gen unlimited 0 after m)"


section \<open>The parameters are those in force\<close>

text \<open>
  The value of a parameter at the end of a block: the last change up to it, or the value before all
  changes.
\<close>

definition in_force :: "(batchCostChange \<Rightarrow> 'a option) \<Rightarrow> 'a \<Rightarrow> batchCostChange list \<Rightarrow> u64 \<Rightarrow> 'a" where
  "in_force g v changes block =
     foldl (\<lambda>v ch. case g ch of None \<Rightarrow> v | Some x \<Rightarrow> x) v (filter (\<lambda>ch. bcBlock ch \<le> block) changes)"

lemma changed_known:
  "foldl (\<lambda>known ch. changed_to known (g ch)) (Some v) xs = Some (foldl (\<lambda>v ch. case g ch of None \<Rightarrow> v | Some x \<Rightarrow> x) v xs)"
  by (induction xs arbitrary: v) (auto simp: changed_to_def split: option.split)

lemma changed_unknown:
  "foldl (\<lambda>known ch. changed_to known (g ch)) None xs = Some y
     \<Longrightarrow> foldl (\<lambda>v ch. case g ch of None \<Rightarrow> v | Some x \<Rightarrow> x) v xs = y"
proof (induction xs arbitrary: v)
  case (Cons ch xs)
  show ?case
  proof (cases "g ch")
    case (Some x)
    then show ?thesis using Cons.prems changed_known [of g x xs] by (simp add: changed_to_def)
  qed (use Cons in \<open>simp add: changed_to_def\<close>)
qed simp

lemma in_force_same:
  assumes "block \<le> anchor" "\<forall>ch\<in>set changes. \<not> bcBlock ch \<le> block \<longrightarrow> bcBlock ch \<le> anchor \<longrightarrow> g ch = None"
  shows "in_force g v changes anchor = in_force g v changes block"
  using assms(2)
proof (induction changes arbitrary: v)
  case (Cons ch changes)
  have "bcBlock ch \<le> block \<Longrightarrow> bcBlock ch \<le> anchor" using assms(1) by (rule order_trans [rotated])
  then show ?case using Cons by (auto simp: in_force_def)
qed (simp add: in_force_def)

lemma filter_upto_split:
  assumes "sorted (map bcBlock changes)" "o' \<le> block"
  shows "filter (\<lambda>ch. bcBlock ch \<le> block) changes
    = filter (\<lambda>ch. bcBlock ch \<le> o') changes @ filter (\<lambda>ch. bcBlock ch \<le> block \<and> \<not> bcBlock ch \<le> o') changes"
  using assms(1)
proof (induction changes)
  case (Cons ch changes)
  have "bcBlock ch \<le> o' \<Longrightarrow> bcBlock ch \<le> block" using assms(2) by (rule order_trans [rotated])
  moreover have "filter (\<lambda>ch. bcBlock ch \<le> o') changes = []" if "\<not> bcBlock ch \<le> o'"
    using Cons.prems that by (auto simp: filter_empty_conv)
  ultimately show ?case using Cons by auto
qed simp

lemma in_force_from:
  assumes "sorted (map bcBlock changes)" "o' \<le> block"
  shows "in_force g v changes block
    = foldl (\<lambda>v ch. case g ch of None \<Rightarrow> v | Some x \<Rightarrow> x) (in_force g v changes o')
        (filter (\<lambda>ch. bcBlock ch \<le> block \<and> \<not> bcBlock ch \<le> o') changes)"
  by (simp add: in_force_def filter_upto_split [OF assms])

text \<open>One parameter: what is known before the changes, the changes that count and the anchor agree with a history.\<close>

definition param_known ::
  "(batchCostChange \<Rightarrow> 'a option) \<Rightarrow> 'a \<Rightarrow> batchCostChange list \<Rightarrow> u64 \<Rightarrow> u64 \<Rightarrow> 'a option \<Rightarrow> batchCostChange list \<Rightarrow> 'a \<Rightarrow> bool" where
  "param_known g v changes block anchor base counted at_anchor \<longleftrightarrow>
     block \<le> anchor \<and> at_anchor = in_force g v changes anchor
     \<and> (case base of
          None \<Rightarrow> counted = changes
        | Some b \<Rightarrow> foldl (\<lambda>v ch. case g ch of None \<Rightarrow> v | Some x \<Rightarrow> x) b (filter (\<lambda>ch. bcBlock ch \<le> block) counted)
                     = in_force g v changes block)
     \<and> (\<forall>ch\<in>set changes. \<not> bcBlock ch \<le> block \<longrightarrow> ch \<in> set counted)"

lemma param_known_sound:
  assumes "param_known g v changes block anchor base counted current" "param_at g base counted block anchor current = Some x"
  shows "x = in_force g v changes block"
proof (cases "\<exists>ch\<in>set (filter (\<lambda>ch. \<not> bcBlock ch \<le> block \<and> bcBlock ch \<le> anchor) counted). g ch \<noteq> None")
  case False
  have x: "x = current" using assms(2) unfolding param_at_def if_not_P [OF False] by simp
  have "in_force g v changes anchor = in_force g v changes block"
    using assms(1) False by (intro in_force_same) (auto simp: param_known_def)
  then show ?thesis using assms(1) x by (simp add: param_known_def)
next
  case True
  have x: "foldl (\<lambda>known ch. changed_to known (g ch)) base (filter (\<lambda>ch. bcBlock ch \<le> block) counted) = Some x"
    using assms(2) unfolding param_at_def if_P [OF True] .
  show ?thesis
  proof (cases base)
    case None
    then show ?thesis using x assms(1) changed_unknown [of g _ x v] by (simp add: param_known_def in_force_def)
  next
    case (Some b)
    then show ?thesis using x assms(1) by (simp add: param_known_def changed_known)
  qed
qed

text \<open>
  A history of the two parameters that the origin and the anchor were sampled from: their values before
  all changes, and the block in question above an origin whose parameters were sampled.
\<close>

definition cost_history :: "batchCostResolver \<Rightarrow> u64 \<Rightarrow> u64 \<Rightarrow> i64 \<Rightarrow> u64 \<Rightarrow> bool" where
  "cost_history r block arbosVersion charge minimum \<longleftrightarrow>
     sorted (map bcBlock (crChanges r))
     \<and> pPerBatchGasCharge (baParams (crAnchor r)) = in_force bcPerBatchGas charge (crChanges r) (baBlock (crAnchor r))
     \<and> pParentGasFloorPerToken (baParams (crAnchor r)) = in_force bcParentFloor minimum (crChanges r) (baBlock (crAnchor r))
     \<and> (case crOrigin r of
          None \<Rightarrow> charge = defaultPerBatchGasCharge arbosVersion \<and> minimum = 0
        | Some o' \<Rightarrow>
            (case soBatchCost o' of
               None \<Rightarrow> True
             | Some bc \<Rightarrow> soBlock o' < block
                 \<and> pPerBatchGasCharge bc = in_force bcPerBatchGas charge (crChanges r) (soBlock o')
                 \<and> pParentGasFloorPerToken bc = in_force bcParentFloor minimum (crChanges r) (soBlock o')))"

lemma param_known_whole:
  "block \<le> anchor \<Longrightarrow> base = None \<or> base = Some v \<Longrightarrow> param_known g v changes block anchor base changes (in_force g v changes anchor)"
  by (auto simp: param_known_def in_force_def)

lemma param_known_above:
  assumes "sorted (map bcBlock changes)" "block \<le> anchor" "o' < block"
  shows "param_known g v changes block anchor (Some (in_force g v changes o')) (filter (\<lambda>ch. \<not> bcBlock ch \<le> o') changes)
    (in_force g v changes anchor)"
proof -
  have "o' \<le> block" using assms(3) by simp
  then show ?thesis using assms(2) in_force_from [OF assms(1), of o' block g v]
    by (auto simp: param_known_def conj_commute)
qed

lemma base_of_history:
  assumes "cost_history r block arbosVersion charge minimum" "block \<le> baBlock (crAnchor r)"
  shows "param_known bcPerBatchGas charge (crChanges r) block (baBlock (crAnchor r))
      (fst (base_params (crOrigin r) block arbosVersion)) (counted_changes (crOrigin r) (crChanges r))
      (pPerBatchGasCharge (baParams (crAnchor r)))"
    "param_known bcParentFloor minimum (crChanges r) block (baBlock (crAnchor r))
      (snd (base_params (crOrigin r) block arbosVersion)) (counted_changes (crOrigin r) (crChanges r))
      (pParentGasFloorPerToken (baParams (crAnchor r)))"
  using assms param_known_above [of "crChanges r" block "baBlock (crAnchor r)"]
  by (auto simp: cost_history_def base_params_def counted_changes_def param_known_whole split: option.split)


definition sample_resolver :: batchCostResolver where
  "sample_resolver = \<lparr>crOrigin = None, crAnchor = \<lparr>baBlock = 100, baParams = \<lparr>pArbOSVersion = 51, pPerBatchGasCharge = 7000, pParentGasFloorPerToken = 3\<rparr>\<rparr>,
     crChanges = [\<lparr>bcBlock = 40, bcPerBatchGas = Some 5000, bcParentFloor = None\<rparr>, \<lparr>bcBlock = 60, bcPerBatchGas = Some 7000, bcParentFloor = None\<rparr>,
                  \<lparr>bcBlock = 60, bcPerBatchGas = None, bcParentFloor = Some 3\<rparr>]\<rparr>"


section \<open>No owner action is lost\<close>

definition action_keys :: "MemStore \<Rightarrow> (u64 \<times> string \<times> i64) set" where
  "action_keys m = dom (map_of (ActionRows m))"

lemma keys_cong: "ActionRows m' = ActionRows m \<Longrightarrow> action_keys m' = action_keys m"
  by (simp add: action_keys_def)

lemma insert_action_keys: "dom (map_of (snd (insert_action acc a))) = insert (action_key a) (dom (map_of (snd acc)))"
  by (auto simp: insert_action_def AList.update_conv' split: option.split)

lemma InsertOwnerActions_keys: "InsertOwnerActions [a] m = Inr (n, m') \<Longrightarrow> action_keys m' = insert (action_key a) (action_keys m)"
proof -
  assume "InsertOwnerActions [a] m = Inr (n, m')"
  then have "ActionRows m' = snd (insert_action (0, ActionRows m) a)"
    by (simp add: InsertOwnerActions_def split: prod.split_asm) auto
  then show ?thesis using insert_action_keys [of "(0, ActionRows m)" a] by (simp add: action_keys_def)
qed

lemma record_set_actions: "record_set c a m = Inr m' \<Longrightarrow> ActionRows m' = ActionRows m"
  by (auto simp: record_set_def Let_def InsertConstraintSet_def UpdateConstraintSet_def elim!: bind_errE
      split: option.split_asm prod.split_asm if_split_asm)

lemma recordAction_keys:
  assumes "recordAction c a m = Inr (b, m')"
  shows "action_keys m' = insert (action_key (action_row c a)) (action_keys m)"
proof -
  obtain n m1 where m1: "InsertOwnerActions [action_row c a] m = Inr (n, m1)" and r: "ActionRows m' = ActionRows m1"
    using assms by (auto simp: recordAction_def Notify_def dest!: record_set_actions elim!: bind_errE split: if_split_asm)
  show ?thesis using InsertOwnerActions_keys [OF m1] keys_cong [OF r] by simp
qed

lemma storeOwnerActions_keys:
  "storeOwnerActions c as m = Inr (b, m') \<Longrightarrow> action_keys m' = (\<lambda>a. action_key (action_row c a)) ` set as \<union> action_keys m"
proof (induction as arbitrary: m b)
  case (Cons a as)
  then obtain c1 m1 c2 where "recordAction c a m = Inr (c1, m1)" "storeOwnerActions c as m1 = Inr (c2, m')"
    by (auto elim!: bind_errE)
  then show ?case using Cons.IH recordAction_keys by auto
qed simp

text \<open>The actions of a range are decoded and stored.\<close>

definition range_stored :: "(bytes \<Rightarrow> bytes) \<Rightarrow> u64 \<Rightarrow> RPC \<Rightarrow> u64 \<times> u64 \<Rightarrow> MemStore \<Rightarrow> bool" where
  "range_stored keccak c rpc r m \<longleftrightarrow>
     (case fetchOwnerActions keccak rpc (fst r) (snd r) of
        Inl e \<Rightarrow> False
      | Inr actions \<Rightarrow> (\<forall>a\<in>set actions. action_key (action_row c a) \<in> action_keys m))"

lemma range_stored_mono: "action_keys m \<subseteq> action_keys m' \<Longrightarrow> range_stored keccak c rpc r m \<Longrightarrow> range_stored keccak c rpc r m'"
  by (auto simp: range_stored_def split: sum.split)

lemma scanOwnerRange_keys:
  assumes "scanOwnerRange keccak c rpc gen from to m = Inr m'"
  shows "action_keys m \<subseteq> action_keys m'" "range_stored keccak c rpc (from, to) m'"
proof -
  obtain as b m1 where a: "fetchOwnerActions keccak rpc from to = Inr as" and s: "storeOwnerActions c as m = Inr (b, m1)"
      and m': "ActionRows m' = ActionRows m1"
    using assms by (auto simp: scanOwnerRange_def withGeneration_Inr map_sum_eq_Inr SetState_def elim!: bind_errE)
  show "action_keys m \<subseteq> action_keys m'" "range_stored keccak c rpc (from, to) m'"
    using storeOwnerActions_keys [OF s] keys_cong [OF m'] a by (auto simp: range_stored_def)
qed

lemma owner_chunks_stored:
  "owner_chunks keccak cfg rpc gen first rs f m = (Inr True, f', m')
     \<Longrightarrow> action_keys m \<subseteq> action_keys m' \<and> (\<forall>r\<in>set rs. range_stored keccak (cfChainID cfg) rpc r m')
        \<and> fOwnerScanThrough f' = fOwnerScanThrough f"
proof (induction rs arbitrary: first f m)
  case (Cons r rs)
  obtain lo hi where r: "r = (lo, hi)" by fastforce
  obtain f1 where w: "(if first then (False, f) else ownerScanMustWait cfg f) = (False, f1)"
    using Cons.prems r by (auto split: prod.split_asm bool.split_asm if_split_asm)
  then have through: "fOwnerScanThrough f1 = fOwnerScanThrough f"
    by (auto simp: ownerScanMustWait_def map_prod_def split: if_split_asm prod.split_asm)
  obtain m1 where m1: "scanOwnerRange keccak (cfChainID cfg) rpc gen lo hi m = Inr m1"
      and rest: "owner_chunks keccak cfg rpc gen False rs f1 m1 = (Inr True, f', m')"
    using Cons.prems r w by (auto split: sum.split_asm)
  show ?case using Cons.IH [OF rest] scanOwnerRange_keys [OF m1] range_stored_mono r through by auto
qed simp

text \<open>The chunks cover their range.\<close>

lemma chunks_cover:
  assumes "0 < width" "from \<le> k" "k \<le> to"
  obtains a b where "(a, b) \<in> set (chunks width from to)" "a \<le> k" "k \<le> b"
proof -
  define i where "i = (unat k - unat from) div width"
  have le: "unat from \<le> unat k" "unat k \<le> unat to" using assms(2,3) by (simp_all add: word_le_nat_alt)
  have i: "i \<le> (unat to - unat from) div width" unfolding i_def using le by (intro div_le_mono) simp
  let ?start = "unat from + width * i"
  have s: "?start \<le> unat k" "unat k < ?start + width"
  proof -
    define d where "d = unat k - unat from"
    have "width * (d div width) + d mod width = d" "d mod width < width" "unat k = unat from + d"
      using assms(1) le by (simp_all add: d_def)
    then show "?start \<le> unat k" "unat k < ?start + width"
      unfolding i_def d_def [symmetric] by linarith+
  qed
  have bound: "unat to < 2 ^ 64" using u64_bound [of to] by simp
  have small: "unat (of_nat x :: u64) = x" if "x < 2 ^ 64" for x using that by (simp add: unat_of_nat take_bit_eq_mod)
  have a: "unat (of_nat ?start :: u64) = ?start" using s le bound by (intro small) linarith
  have b: "unat (of_nat (min (?start + width - 1) (unat to)) :: u64) = min (?start + width - 1) (unat to)"
    using bound by (intro small) linarith
  have ord: "\<not> to < from" using assms(2,3) by simp
  have "(of_nat ?start, of_nat (min (?start + width - 1) (unat to))) \<in> set (chunks width from to)"
    unfolding chunks_def if_not_P [OF ord] Let_def set_map using i by (intro image_eqI [of _ _ i] refl) (auto simp del: upt_Suc simp: less_Suc_eq_le)
  moreover have "(of_nat ?start :: u64) \<le> k" using s(1) by (subst word_le_nat_alt) (subst a)
  moreover have "k \<le> of_nat (min (?start + width - 1) (unat to))" using s le by (subst word_le_nat_alt) (subst b, simp)
  ultimately show ?thesis by (rule that)
qed


lemma withGeneration_state_through:
  "fOwnerScanThrough (markScanExtended f) = fOwnerScanThrough f"
  by (simp add: markScanExtended_def)

lemma reloadSets_through: "reloadSetsLocked c m f = Inr f' \<Longrightarrow> fOwnerScanThrough f' = fOwnerScanThrough f"
  by (auto simp: reloadSetsLocked_def elim!: bind_errE)

lemma clearOrigin_through: "clearOrigin c gen f m = (e, f', m') \<Longrightarrow> fOwnerScanThrough f' = fOwnerScanThrough f"
  by (auto simp: clearOrigin_def split: sum.split_asm prod.split_asm)

lemma store_origin_through: "store_origin c now gen cutoff origin observed f m = (e, f', m') \<Longrightarrow> fOwnerScanThrough f' = fOwnerScanThrough f"
  by (auto simp: store_origin_def split: sum.split_asm prod.split_asm)

lemma writeOrigin_through: "writeOrigin c now archive cutoff gen only f m = (e, f', m') \<Longrightarrow> fOwnerScanThrough f' = fOwnerScanThrough f"
  by (auto simp: writeOrigin_def dest: clearOrigin_through store_origin_through
      split: option.split_asm sum.split_asm prod.split_asm if_split_asm)

lemma extended_through:
  "extended out = (e, f', m') \<Longrightarrow> fOwnerScanThrough f' = fOwnerScanThrough (fst (snd out))"
  by (auto simp: extended_def markScanExtended_def split: prod.split_asm option.split_asm)

lemma writeOrigin_keeps_through:
  "fOwnerScanThrough (fst (snd (writeOrigin c now archive cutoff gen only f m))) = fOwnerScanThrough f"
  using writeOrigin_through [of c now archive cutoff gen only f m] by (metis prod.collapse)

lemma extendScanOrigin_through:
  "extendScanOrigin keccak cfg now rpc archive head gen f m = (e, f', m') \<Longrightarrow> fOwnerScanThrough f' = fOwnerScanThrough f"
  by (auto simp: extendScanOrigin_def originateAtFirstBlock_def Let_def markScanExtended_def writeOrigin_keeps_through
      dest!: extended_through split: if_split_asm sum.split_asm option.split_asm prod.split_asm)


text \<open>A follower whose cursor is at block 3 and whose timeline is known through block 3, with the head at block 5.\<close>

definition cursor_store :: MemStore where
  "cursor_store = mem_New\<lparr>StateRows := [((7, StateOwnerLogCursor), StateText (FormatUint 3))]\<rparr>"

definition extended_follower :: Follower where
  "extended_follower = new_follower\<lparr>fScanExtended := True, fOwnerScanThrough := 3\<rparr>"

definition scanned :: scan_outcome where
  "scanned = scanOwnerActions (\<lambda>_. []) run_config 0 forked_node None extended_follower cursor_store"

lemma one_chunk: "chunks ownerLogChunk 4 5 = [(4, 5)]"
  by (simp add: chunks_def ownerLogChunk_def)

lemma scan_reaches_head: "fst scanned = None \<and> fOwnerScanThrough (fst (snd scanned)) = 5"
  by (simp add: scanned_def scanOwnerActions_def run_config_def generation_def GetState_def cursor_store_def mem_New_def
      mem_fail_def currentHead_def extended_follower_def new_follower_def extendScanOrigin_def resume_from_def
      ParseUint_FormatUint one_chunk scanOwnerRange_def fetchOwnerActions_def forked_node_def withGeneration_def
      chain_WithChainTx_def lock_request_def SetState_def finish_scan_def reloadSetsLocked_def loadSets_def
      mem_ConstraintSets_def OwnerActions_def StateGeneration_def StateOwnerLogCursor_def StateOwnerScanThrough_def)


end
