(* ===== verification/Slow.thy ===== *)
theory Slow
  imports Scans
begin

text \<open>
  The rest of the slow loop (\<open>slow.go\<close>), the ETH/USD cache (\<open>ethusd.go\<close>) and the start of a follower
  (\<open>ensureInit\<close> of \<open>collector.go\<close>). The JSON text of a document is an argument where it is written, and
  so is the reading of it.
\<close>

section \<open>The ETH/USD spot\<close>

record Price =
  prPrice :: string
  prAt :: gotime
  prSource :: string

record ethUsdCache =
  ecInterval :: duration
  ecLast :: "Price option"
  ecFetchedAt :: gotime

definition newEthUsdCache :: "duration \<Rightarrow> ethUsdCache" where
  "newEthUsdCache interval = \<lparr>ecInterval = interval, ecLast = None, ecFetchedAt = 0\<rparr>"

text \<open>
  \<open>value\<close>: the quote and the cache; \<open>fetched\<close> is what the provider answers when it is asked. The time of
  the last logged failure is left out.
\<close>

definition ethUsd_value :: "Price option \<Rightarrow> gotime \<Rightarrow> ethUsdCache \<Rightarrow> Price option \<times> ethUsdCache" where
  "ethUsd_value fetched now c =
     (if ecFetchedAt c \<noteq> 0 \<and> now - ecFetchedAt c < ecInterval c then (ecLast c, c)
      else let c = c\<lparr>ecFetchedAt := now\<rparr>
           in case fetched of None \<Rightarrow> (ecLast c, c) | Some p \<Rightarrow> (Some p, c\<lparr>ecLast := Some p\<rparr>))"

record EthUsd =
  euPrice :: string
  euAt :: string
  euSource :: string

definition rendered_price :: "Price \<Rightarrow> EthUsd" where
  "rendered_price p = \<lparr>euPrice = prPrice p, euAt = RFC3339 (prAt p), euSource = prSource p\<rparr>"

definition ethUsdModel :: "Price option \<Rightarrow> gotime \<Rightarrow> duration \<Rightarrow> EthUsd option" where
  "ethUsdModel p now maxAge =
     (case p of None \<Rightarrow> None | Some q \<Rightarrow> if maxAge < now - prAt q then None else Some (rendered_price q))"

section \<open>What the slow loop keeps for the tick\<close>

record model_L1 =
  mlBaseFeeEstimate :: string
  mlSurplus :: string
  mlFeesAvailable :: string
  mlUnitsSinceUpdate :: u64
  mlLastUpdateAt :: string
  mlEquilibrationUnits :: u64
  mlPerBatchGasCharge :: i64
  mlRewardRate :: u64

record model_Accounts =
  maInfra :: "string \<times> string"
  maNetwork :: "string \<times> string"
  maL1Reward :: "string \<times> string"

record SlowState =
  slL1 :: "model_L1 option"
  slAccounts :: "model_Accounts option"
  slAnchor :: "batchCostAnchor option"
  slGen :: u64
  slPrice :: "Price option"
  slInitialized :: bool

definition StateArbOSVersion :: string where "StateArbOSVersion = ''arbos_version''"
definition StateEthUsd :: string where "StateEthUsd = ''eth_usd''"
definition StateRateLimitEvents :: string where "StateRateLimitEvents = ''rate_limit_events''"
definition StateLast429At :: string where "StateLast429At = ''last_429_at''"
definition StateEndpoints :: string where "StateEndpoints = ''endpoints''"

text \<open>The calls of the slow loop: the L1 state, the fee accounts, the version and full blocks.\<close>

record SlowRPC =
  L1SampleAt :: "u64 \<Rightarrow> nitro_error + L1Sample"
  FeeAccounts_call :: "nitro_error + FeeAccounts"
  ArbOSVersion_call :: "nitro_error + u64"
  BlocksWithTxs :: "u64 list \<Rightarrow> nitro_error + nitro_block list"
  Unlimited_at :: "nat \<Rightarrow> bool"

definition l1_doc :: "L1Sample \<Rightarrow> model_L1" where
  "l1_doc l1 =
     \<lparr>mlBaseFeeEstimate = big_String (l1BaseFeeEstimate l1), mlSurplus = big_String (l1Surplus l1),
      mlFeesAvailable = big_String (l1FeesAvailable l1), mlUnitsSinceUpdate = l1UnitsSinceUpdate l1,
      mlLastUpdateAt = RFC3339 (unix_time (i64_of_u64 (l1LastUpdateTime l1))),
      mlEquilibrationUnits = l1EquilibrationUnits l1, mlPerBatchGasCharge = l1PerBatchGasCharge l1,
      mlRewardRate = l1RewardRate l1\<rparr>"

definition account_doc :: "Account \<Rightarrow> string \<times> string" where
  "account_doc a = (acAddress a, big_String (acBalance a))"

definition accounts_doc :: "FeeAccounts \<Rightarrow> model_Accounts" where
  "accounts_doc a = \<lparr>maInfra = account_doc (faInfra a), maNetwork = account_doc (faNetwork a), maL1Reward = account_doc (faL1Reward a)\<rparr>"

type_synonym slow_state = "Follower \<times> SlowState \<times> MemStore"

type_synonym slow_step = "slow_state \<Rightarrow> store_error option \<times> slow_state"

definition sampleSlow :: "RPC \<Rightarrow> SlowRPC \<Rightarrow> slow_step" where
  "sampleSlow rpc srpc = (\<lambda>(f, s, m).
     case bind_err (currentHead rpc f) (\<lambda>head.
            bind_err (map_sum RpcFailed id (L1SampleAt srpc head)) (\<lambda>l1.
            bind_err (map_sum RpcFailed id (FeeAccounts_call srpc)) (\<lambda>accounts. Inr (head, l1, accounts)))) of
       Inl e \<Rightarrow> (Some e, f, s, m)
     | Inr (head, l1, accounts) \<Rightarrow>
         (None, f, s\<lparr>slL1 := Some (l1_doc l1), slAnchor := Some \<lparr>baBlock = head, baParams = batch_cost_of l1\<rparr>,
                     slAccounts := Some (accounts_doc accounts), slGen := slGen s + 1\<rparr>, m))"

definition checkArbOSVersion :: "u64 \<Rightarrow> SlowRPC \<Rightarrow> slow_step" where
  "checkArbOSVersion chainID srpc = (\<lambda>(f, s, m).
     case bind_err (map_sum RpcFailed id (ArbOSVersion_call srpc)) (\<lambda>v.
            bind_err (GetState chainID StateArbOSVersion m) (\<lambda>previous.
              SetState chainID StateArbOSVersion (StateText (FormatUint v)) m)) of
       Inl e \<Rightarrow> (Some e, f, s, m)
     | Inr m \<Rightarrow> (None, f, s, m))"

text \<open>\<open>quote\<close> is the answer of the shared cache, absent when the spot is disabled or was never fetched.\<close>

definition sampleEthUsd :: "u64 \<Rightarrow> (EthUsd \<Rightarrow> string) \<Rightarrow> Price option \<Rightarrow> slow_step" where
  "sampleEthUsd chainID json quote = (\<lambda>(f, s, m).
     case quote of
       None \<Rightarrow> (None, f, s, m)
     | Some p \<Rightarrow>
         (case SetState chainID StateEthUsd (StateText (json (rendered_price p))) m of
            Inl e \<Rightarrow> (Some e, f, s, m)
          | Inr m \<Rightarrow> (None, f, s\<lparr>slPrice := Some p\<rparr>, m)))"

text \<open>
  The statistics of the RPC: the rate limit events, the time of the last one, and with a pool the
  document of the endpoints and the error of the disabled ones.
\<close>

record rpc_stats =
  rsEvents :: u64
  rsLast429 :: gotime
  rsPool :: "(string \<times> string) option"

definition pool_stats :: "u64 \<Rightarrow> (string \<times> string) option \<Rightarrow> MemStore \<Rightarrow> store_error + MemStore" where
  "pool_stats chainID pool m =
     (case pool of
        None \<Rightarrow> Inr m
      | Some (doc, msg) \<Rightarrow>
          bind_err (SetState chainID StateEndpoints (StateText doc) m) (\<lambda>m.
            if msg = [] then Inr m else SetNetworkError chainID msg m))"

text \<open>A write before the one that fails stands.\<close>

definition persistStats :: "u64 \<Rightarrow> rpc_stats \<Rightarrow> MemStore \<Rightarrow> store_error option \<times> MemStore" where
  "persistStats chainID st m =
     (case SetState chainID StateRateLimitEvents (StateText (FormatUint (rsEvents st))) m of
        Inl e \<Rightarrow> (Some e, m)
      | Inr m \<Rightarrow>
          (case pool_stats chainID (rsPool st) m of
             Inl e \<Rightarrow>
               (Some e, case rsPool st of
                          None \<Rightarrow> m
                        | Some (doc, msg) \<Rightarrow>
                            (case SetState chainID StateEndpoints (StateText doc) m of Inl e \<Rightarrow> m | Inr m \<Rightarrow> m))
           | Inr m \<Rightarrow>
               if rsLast429 st = 0 then (None, m)
               else case SetState chainID StateLast429At (StateText (RFC3339 (rsLast429 st))) m of
                      Inl e \<Rightarrow> (Some e, m)
                    | Inr m \<Rightarrow> (None, m)))"

section \<open>The start of a follower\<close>

definition loadEthUsdLocked ::
  "u64 \<Rightarrow> bool \<Rightarrow> (string \<Rightarrow> EthUsd option) \<Rightarrow> SlowState \<Rightarrow> MemStore \<Rightarrow> store_error + SlowState" where
  "loadEthUsdLocked chainID enabled decode s m =
     (if \<not> enabled then Inr s
      else bind_err (GetState chainID StateEthUsd m) (\<lambda>v.
             Inr (case v of
                    Some (StateText raw) \<Rightarrow>
                      (case decode raw of
                         None \<Rightarrow> s
                       | Some doc \<Rightarrow>
                           (case Parse (euAt doc) of
                              None \<Rightarrow> s
                            | Some t \<Rightarrow> s\<lparr>slPrice := Some \<lparr>prPrice = euPrice doc, prAt = t, prSource = euSource doc\<rparr>\<rparr>))
                  | _ \<Rightarrow> s)))"

text \<open>
  A failure leaves what was loaded and written before it; the next call starts over.
\<close>

type_synonym init_outcome = "store_error option \<times> Follower \<times> SlowState \<times> MemStore"

definition init_loads ::
  "follower_config \<Rightarrow> bool \<Rightarrow> (string \<Rightarrow> EthUsd option) \<Rightarrow> Follower \<Rightarrow> SlowState \<Rightarrow> MemStore \<Rightarrow> init_outcome" where
  "init_loads cfg ethUsd decode f s m =
     (case loadScanStateLocked (cfChainID cfg) m f of
        Inl e \<Rightarrow> (Some e, f, s, m)
      | Inr f \<Rightarrow>
          (case reloadSetsLocked (cfChainID cfg) m f of
             Inl e \<Rightarrow> (Some e, f, s, m)
           | Inr f \<Rightarrow>
               (case loadEthUsdLocked (cfChainID cfg) ethUsd decode s m of
                  Inl e \<Rightarrow> (Some e, f, s, m)
                | Inr s \<Rightarrow> (None, f, s\<lparr>slInitialized := True\<rparr>, m))))"

definition init_history ::
  "follower_config \<Rightarrow> gotime \<Rightarrow> bool \<Rightarrow> (string \<Rightarrow> EthUsd option) \<Rightarrow> Follower \<Rightarrow> SlowState \<Rightarrow> MemStore \<Rightarrow> init_outcome" where
  "init_history cfg now ethUsd decode f s m =
     (case loadLiveStartLocked (cfChainID cfg) f m of
        Inl e \<Rightarrow> (Some e, f, s, m)
      | Inr (f, m) \<Rightarrow>
          (case seedPruneFrontierLocked cfg now m of
             Inl e \<Rightarrow> (Some e, f, s, m)
           | Inr m \<Rightarrow>
               (case applyHistoryEpochLocked cfg now f m of
                  Inl e \<Rightarrow> (Some e, f, s, m)
                | Inr (f, m) \<Rightarrow> init_loads cfg ethUsd decode f s m)))"

definition ensureInit ::
  "follower_config \<Rightarrow> Network \<Rightarrow> gotime \<Rightarrow> bool \<Rightarrow> (string \<Rightarrow> EthUsd option) \<Rightarrow> Follower \<Rightarrow> SlowState \<Rightarrow> MemStore \<Rightarrow> init_outcome" where
  "ensureInit cfg net now ethUsd decode f s m =
     (if slInitialized s then (None, f, s, m)
      else case UpsertNetwork net m of
        Inl e \<Rightarrow> (Some e, f, s, m)
      | Inr m \<Rightarrow>
          (case import_holes_tx (cfChainID cfg) now m of
             Inl e \<Rightarrow> (Some e, f, s, m)
           | Inr m \<Rightarrow>
               (case reloadHeadLocked (cfChainID cfg) m f of
                  Inl e \<Rightarrow> (Some e, f, s, m)
                | Inr f \<Rightarrow> init_history cfg now ethUsd decode f s m)))"

section \<open>The slow tick\<close>

text \<open>Every step runs even when an earlier one failed; the errors are joined.\<close>

fun run_steps :: "slow_step list \<Rightarrow> slow_state \<Rightarrow> store_error list \<times> slow_state" where
  "run_steps [] x = ([], x)"
| "run_steps (step # steps) x =
     (case step x of
        (e, x) \<Rightarrow> (case run_steps steps x of (errs, x) \<Rightarrow> ((case e of None \<Rightarrow> errs | Some e \<Rightarrow> e # errs), x)))"

definition scan_step :: "(Follower \<Rightarrow> MemStore \<Rightarrow> scan_outcome) \<Rightarrow> slow_step" where
  "scan_step fn = (\<lambda>(f, s, m). case fn f m of (e, f, m) \<Rightarrow> (e, f, s, m))"

definition store_step :: "(Follower \<Rightarrow> SlowState \<Rightarrow> MemStore \<Rightarrow> store_error option \<times> MemStore) \<Rightarrow> slow_step" where
  "store_step fn = (\<lambda>(f, s, m). case fn f s m of (e, m) \<Rightarrow> (e, f, s, m))"

definition prune_step :: "follower_config \<Rightarrow> gotime \<Rightarrow> MemStore \<Rightarrow> store_error option \<times> MemStore" where
  "prune_step cfg now m = (case prune cfg now m of Inl e \<Rightarrow> (Some e, m) | Inr m \<Rightarrow> (None, m))"

definition slow_steps ::
  "(bytes \<Rightarrow> bytes) \<Rightarrow> (EthUsd \<Rightarrow> string) \<Rightarrow> follower_config \<Rightarrow> gotime \<Rightarrow> RPC \<Rightarrow> SlowRPC \<Rightarrow> Archive option \<Rightarrow> Price option \<Rightarrow> rpc_stats
     \<Rightarrow> slow_step list" where
  "slow_steps keccak json cfg now rpc srpc archive quote stats =
     (let c = cfChainID cfg in
      [sampleEthUsd c json quote,
       sampleSlow rpc srpc,
       checkArbOSVersion c srpc,
       scan_step (scanOwnerActions keccak cfg now rpc archive),
       store_step (\<lambda>f s. scanBatchReports keccak c (BlocksWithTxs srpc) (Unlimited_at srpc) (slAnchor s) f),
       store_step (\<lambda>f s. prune_step cfg now),
       store_step (\<lambda>f s. persistStats c stats)])"

definition SlowTick ::
  "(bytes \<Rightarrow> bytes) \<Rightarrow> (EthUsd \<Rightarrow> string) \<Rightarrow> (string \<Rightarrow> EthUsd option) \<Rightarrow> bool \<Rightarrow> Network \<Rightarrow> follower_config \<Rightarrow> gotime \<Rightarrow> RPC \<Rightarrow> SlowRPC
     \<Rightarrow> Archive option \<Rightarrow> Price option \<Rightarrow> rpc_stats \<Rightarrow> slow_state \<Rightarrow> store_error list \<times> slow_state" where
  "SlowTick keccak json decode ethUsd net cfg now rpc srpc archive quote stats = (\<lambda>(f, s, m).
     case ensureInit cfg net now ethUsd decode f s m of
       (Some e, f, s, m) \<Rightarrow> ([e], f, s, m)
     | (None, f, s, m) \<Rightarrow> run_steps (slow_steps keccak json cfg now rpc srpc archive quote stats) (f, s, m))"

text \<open>A step that fails does not keep the ones after it from running.\<close>

lemma run_steps_append:
  "run_steps (xs @ ys) x = (case run_steps xs x of (errs, x) \<Rightarrow> (case run_steps ys x of (errs', x) \<Rightarrow> (errs @ errs', x)))"
  by (induction xs arbitrary: x) (auto split: prod.split option.split)

end
