(* ===== verification/Pool.thy ===== *)
theory Pool
  imports Pacer
begin

text \<open>
  The endpoint pool of a network (\<open>internal/nitro/pool.go\<close>): the routing of ordinary calls with its
  failover, the verification of endpoints, the endpoints chosen for a capability, and what the collector
  renders of it (\<open>collector.go\<close>).

  The network, the clock and the other callers are a world that is passed along: a call of
  \<open>eth_chainId\<close>, the reading of the clock, and what other callers do to the pool, which may happen
  whenever the lock is free, around every call that goes to the network and before an endpoint is picked.
  Log lines and the redaction of an error are left out.
\<close>

section \<open>State\<close>

record pool_member =
  pmState :: endpoint_state
  pmClient :: client_state
  pmPacer :: Pacer
  pmWSURL :: string
  pmArchive :: bool

record Pool =
  plChainID :: u64
  plMembers :: "pool_member list"
  plCooldown :: duration
  plActive :: nat
  plFailoverUntil :: gotime
  plProbing :: bool
  plFailovers :: u64
  plArchiveAt :: nat

record EndpointConfig =
  ecWSURL :: string
  ecArchive :: bool
  ecCallsPerSecond :: rat

record PoolConfig =
  pcChainID :: u64
  pcEndpoints :: "EndpointConfig list"
  pcBatchSize :: int
  pcCooldown :: duration

definition defaultFailoverCooldown :: duration where
  "defaultFailoverCooldown = 60 * Second"

definition new_client :: client_state where
  "new_client = \<lparr>cNextID = 0, cCallTimes = [], cFastCalls = 0, cBulkCalls = 0, cCalls = 0, cRequests = 0, cErrors = 0,
     cTotalLatency = 0, cRateLimitEvents = 0, cLast429 = 0, cBackoff = minBackoff, cBlockedUntil = 0\<rparr>"

definition pool_newEndpoint :: "gotime \<Rightarrow> int \<Rightarrow> EndpointConfig \<Rightarrow> pool_member" where
  "pool_newEndpoint now batchSize ec =
     \<lparr>pmState = newEndpoint batchSize, pmClient = new_client, pmPacer = NewPacer now (ecCallsPerSecond ec),
      pmWSURL = ecWSURL ec, pmArchive = ecArchive ec\<rparr>"

definition NewPool :: "gotime \<Rightarrow> PoolConfig \<Rightarrow> Pool" where
  "NewPool now cfg =
     \<lparr>plChainID = pcChainID cfg, plMembers = map (pool_newEndpoint now (pcBatchSize cfg)) (pcEndpoints cfg),
      plCooldown = (if pcCooldown cfg \<le> 0 then defaultFailoverCooldown else pcCooldown cfg),
      plActive = 0, plFailoverUntil = 0, plProbing = False, plFailovers = 0, plArchiveAt = 0\<rparr>"

abbreviation member_of :: "Pool \<Rightarrow> nat \<Rightarrow> pool_member" where
  "member_of p i \<equiv> plMembers p ! i"

definition Disabled :: "Pool \<Rightarrow> nat \<Rightarrow> bool" where
  "Disabled p i \<longleftrightarrow> eDisabled (pmState (member_of p i))"

definition EndpointVerified :: "Pool \<Rightarrow> nat \<Rightarrow> bool" where
  "EndpointVerified p i \<longleftrightarrow> eVerified (pmState (member_of p i))"

definition upd_endpoint :: "nat \<Rightarrow> (endpoint_state \<Rightarrow> endpoint_state) \<Rightarrow> Pool \<Rightarrow> Pool" where
  "upd_endpoint i fn p = p\<lparr>plMembers := (plMembers p)[i := (member_of p i)\<lparr>pmState := fn (pmState (member_of p i))\<rparr>]\<rparr>"

section \<open>The routing\<close>

text \<open>The check under the send gate: an ordinary call goes to the active endpoint only.\<close>

definition stillActive :: "bool \<Rightarrow> nat \<Rightarrow> Pool \<Rightarrow> nitro_error option" where
  "stillActive capability i p = (if capability \<or> plActive p = i then None else Some (EndpointError ErrStaleEndpoint))"

definition advanceLocked :: "Pool \<Rightarrow> bool \<times> Pool" where
  "advanceLocked p =
     (let n = length (plMembers p) in
      case List.find (\<lambda>i. \<not> Disabled p i) (map (\<lambda>s. (plActive p + s) mod n) [1..<n]) of
        None \<Rightarrow> (False, p)
      | Some i \<Rightarrow> (True, p\<lparr>plActive := i\<rparr>))"

definition currentLocked :: "Pool \<Rightarrow> nat option \<times> Pool" where
  "currentLocked p =
     (if plMembers p = [] then (None, p)
      else if \<not> Disabled p (plActive p) then (Some (plActive p), p)
      else case advanceLocked p of
             (False, p) \<Rightarrow> (None, p)
           | (True, p) \<Rightarrow> (Some (plActive p), p))"

definition failOverLocked :: "gotime \<Rightarrow> Pool \<Rightarrow> bool \<times> Pool" where
  "failOverLocked now p =
     (case advanceLocked p of
        (False, p) \<Rightarrow> (False, p)
      | (True, p) \<Rightarrow> (True, p\<lparr>plFailoverUntil := now + plCooldown p, plFailovers := plFailovers p + 1\<rparr>))"

definition failOver :: "gotime \<Rightarrow> nat \<Rightarrow> Pool \<Rightarrow> bool \<times> Pool" where
  "failOver now i p = (if plActive p \<noteq> i then (True, p) else failOverLocked now p)"

section \<open>The world\<close>

record 'w world =
  wdChain :: "nat \<Rightarrow> 'w \<Rightarrow> (nitro_error + u64) \<times> 'w"
  wdNow :: "'w \<Rightarrow> gotime"
  wdOthers :: "Pool \<Rightarrow> 'w \<Rightarrow> Pool \<times> 'w"
  wdCancelled :: "'w \<Rightarrow> bool"

definition mismatch :: "u64 \<Rightarrow> u64 \<Rightarrow> string" where
  "mismatch reported configured =
     ''reports chain id '' @ dec_of_nat (unat reported) @ '', configured '' @ dec_of_nat (unat configured)"

text \<open>\<open>check\<close>: what the endpoint answered is written into whatever the pool is by then.\<close>

definition check_answer :: "nat \<Rightarrow> nitro_error + u64 \<Rightarrow> Pool \<Rightarrow> nitro_error option \<times> Pool" where
  "check_answer i answer p =
     (case answer of
        Inl err \<Rightarrow> (Some (EndpointError err), p)
      | Inr reported \<Rightarrow>
          if reported \<noteq> plChainID p
          then (Some (EndpointError (Failed (mismatch reported (plChainID p)))), upd_endpoint i (disable (mismatch reported (plChainID p))) p)
          else (None, if EndpointVerified p i then p else upd_endpoint i setVerified p))"

definition check_endpoint :: "'w world \<Rightarrow> nat \<Rightarrow> Pool \<Rightarrow> 'w \<Rightarrow> nitro_error option \<times> Pool \<times> 'w" where
  "check_endpoint net i p w =
     (case wdChain net i w of (answer, w) \<Rightarrow>
        (case wdOthers net p w of (p, w) \<Rightarrow>
           (case check_answer i answer p of (err, p) \<Rightarrow> (err, p, w))))"

definition verify_endpoint :: "'w world \<Rightarrow> nat \<Rightarrow> Pool \<Rightarrow> 'w \<Rightarrow> nitro_error option \<times> Pool \<times> 'w" where
  "verify_endpoint net i p w = (if EndpointVerified p i then (None, p, w) else check_endpoint net i p w)"

section \<open>An ordinary call\<close>

text \<open>\<open>pick\<close> up to the probe of the primary, and from its answer on.\<close>

definition pick_begin :: "gotime \<Rightarrow> Pool \<Rightarrow> (nat \<times> bool) option \<times> Pool" where
  "pick_begin now p =
     (case currentLocked p of
        (None, p) \<Rightarrow> (None, p)
      | (Some e, p) \<Rightarrow>
          let probe = (e \<noteq> 0 \<and> \<not> plProbing p \<and> \<not> Disabled p 0 \<and> \<not> now < plFailoverUntil p)
          in (Some (e, probe), if probe then p\<lparr>plProbing := True\<rparr> else p))"

definition pick_end :: "gotime \<Rightarrow> nitro_error option \<Rightarrow> Pool \<Rightarrow> nat option \<times> Pool" where
  "pick_end now err p =
     (let p = p\<lparr>plProbing := False\<rparr>
      in currentLocked (if err \<noteq> None then p\<lparr>plFailoverUntil := now + plCooldown p\<rparr> else p\<lparr>plActive := 0\<rparr>))"

definition pick :: "'w world \<Rightarrow> Pool \<Rightarrow> 'w \<Rightarrow> nat option \<times> Pool \<times> 'w" where
  "pick net p w =
     (case wdOthers net p w of (p, w) \<Rightarrow>
        (case pick_begin (wdNow net w) p of
           (None, p) \<Rightarrow> (None, p, w)
         | (Some (e, False), p) \<Rightarrow> (Some e, p, w)
         | (Some (e, True), p) \<Rightarrow>
             (case check_endpoint net 0 p w of (err, p, w) \<Rightarrow>
                (case pick_end (wdNow net w) err p of (e, p) \<Rightarrow> (e, p, w)))))"

datatype pool_error = NoEndpoint "nitro_error list" | PoolFailed nitro_error

text \<open>\<open>errors.Is(err, ErrStaleEndpoint)\<close>.\<close>

fun is_stale :: "nitro_error \<Rightarrow> bool" where
  "is_stale ErrStaleEndpoint = True"
| "is_stale (EndpointError e) = is_stale e"
| "is_stale e = False"

text \<open>
  One attempt on the picked endpoint: it is verified when it was not, then called. The list holds the
  endpoint when the call was made.
\<close>

definition attempt_call ::
  "'w world \<Rightarrow> (nat \<Rightarrow> 'w \<Rightarrow> (nitro_error + 'a) \<times> 'w) \<Rightarrow> nat \<Rightarrow> Pool \<Rightarrow> 'w \<Rightarrow> (nitro_error + 'a) \<times> nat list \<times> Pool \<times> 'w" where
  "attempt_call net fn e p w =
     (case verify_endpoint net e p w of
        (Some err, p, w) \<Rightarrow> (Inl err, [], p, w)
      | (None, p, w) \<Rightarrow>
          (case fn e w of (r, w) \<Rightarrow> (case wdOthers net p w of (p, w) \<Rightarrow> (r, [e], p, w))))"

text \<open>
  \<open>do\<close>: the answer, the endpoints that were called, and the pool and world afterwards. \<open>n\<close> is the number
  of endpoints, which never changes.
\<close>

function pool_do ::
  "nat \<Rightarrow> 'w world \<Rightarrow> (nat \<Rightarrow> 'w \<Rightarrow> (nitro_error + 'a) \<times> 'w) \<Rightarrow> nat \<Rightarrow> nat \<Rightarrow> Pool \<Rightarrow> 'w
     \<Rightarrow> (pool_error + 'a) \<times> nat list \<times> Pool \<times> 'w" where
  "pool_do n net fn tried stale p w =
     (case pick net p w of
        (None, p, w) \<Rightarrow> (Inl (NoEndpoint []), [], p, w)
      | (Some e, p, w) \<Rightarrow>
          (case attempt_call net fn e p w of
             (Inr v, calls, p, w) \<Rightarrow> (Inr v, calls, p, w)
           | (Inl err, calls, p, w) \<Rightarrow>
               if wdCancelled net w \<or> \<not> IsEndpointError err then (Inl (PoolFailed err), calls, p, w)
               else if is_stale err then
                 if n < Suc stale then (Inl (PoolFailed err), calls, p, w)
                 else (case pool_do n net fn tried (Suc stale) p w of (r, rest, p, w) \<Rightarrow> (r, calls @ rest, p, w))
               else if n \<le> Suc tried then (Inl (PoolFailed err), calls, p, w)
               else (case failOver (wdNow net w) e p of
                       (False, p) \<Rightarrow> (Inl (PoolFailed err), calls, p, w)
                     | (True, p) \<Rightarrow>
                         (case pool_do n net fn (Suc tried) stale p w of (r, rest, p, w) \<Rightarrow> (r, calls @ rest, p, w)))))"
  by pat_completeness auto
termination
  by (relation "measure (\<lambda>(n, _, _, tried, stale, _). (n - tried) + (Suc n - stale))") auto

declare pool_do.simps [simp del]

definition pool_call ::
  "'w world \<Rightarrow> (nat \<Rightarrow> 'w \<Rightarrow> (nitro_error + 'a) \<times> 'w) \<Rightarrow> Pool \<Rightarrow> 'w \<Rightarrow> (pool_error + 'a) \<times> nat list \<times> Pool \<times> 'w" where
  "pool_call net fn p w = pool_do (length (plMembers p)) net fn 0 0 p w"

section \<open>Verification\<close>

text \<open>The endpoints that are not disabled are checked in order: the errors and how many are usable.\<close>

fun verify_each :: "'w world \<Rightarrow> nat list \<Rightarrow> Pool \<Rightarrow> 'w \<Rightarrow> nitro_error list \<times> nat \<times> Pool \<times> 'w" where
  "verify_each net [] p w = ([], 0, p, w)"
| "verify_each net (i # is) p w =
     (if Disabled p i then verify_each net is p w
      else case check_endpoint net i p w of
             (err, p, w) \<Rightarrow>
               (case verify_each net is p w of
                  (errs, usable, p, w) \<Rightarrow>
                    (case err of None \<Rightarrow> (errs, Suc usable, p, w) | Some e \<Rightarrow> (e # errs, usable, p, w))))"

definition pool_Verify :: "'w world \<Rightarrow> Pool \<Rightarrow> 'w \<Rightarrow> pool_error option \<times> Pool \<times> 'w" where
  "pool_Verify net p w =
     (case verify_each net [0..<length (plMembers p)] p w of
        (errs, usable, p, w) \<Rightarrow>
          if usable = 0 then (Some (NoEndpoint errs), p, w)
          else (None, if Disabled p (plActive p) then snd (failOverLocked (wdNow net w) p) else p, w))"

section \<open>Capabilities\<close>

definition capable :: "(pool_member \<Rightarrow> bool) \<Rightarrow> Pool \<Rightarrow> nat option" where
  "capable want p =
     List.find (\<lambda>i. want (member_of p i) \<and> \<not> Disabled p i \<and> EndpointVerified p i) [0..<length (plMembers p)]"

definition pool_WS :: "Pool \<Rightarrow> nat option" where
  "pool_WS = capable (\<lambda>e. pmWSURL e \<noteq> [])"

definition HasWS :: "Pool \<Rightarrow> bool" where
  "HasWS p = list_ex (\<lambda>e. pmWSURL e \<noteq> []) (plMembers p)"

text \<open>
  \<open>WSEndpoint\<close>: the index that is leased. \<open>cooling\<close> is the first to recover among the sockets passed over.
\<close>

definition sooner :: "nat \<Rightarrow> gotime \<Rightarrow> (nat \<times> gotime) option \<Rightarrow> (nat \<times> gotime) option" where
  "sooner i t cooling =
     (case cooling of None \<Rightarrow> Some (i, t) | Some (j, u) \<Rightarrow> if t < u then Some (i, t) else Some (j, u))"

fun ws_walk ::
  "'w world \<Rightarrow> nat list \<Rightarrow> (nat \<times> gotime) option \<Rightarrow> nitro_error list \<Rightarrow> Pool \<Rightarrow> 'w
     \<Rightarrow> (nat + (nat \<times> gotime) option \<times> nitro_error list) \<times> Pool \<times> 'w" where
  "ws_walk net [] cooling errs p w = (Inr (cooling, errs), p, w)"
| "ws_walk net (i # is) cooling errs p w =
     (if pmWSURL (member_of p i) = [] \<or> Disabled p i then ws_walk net is cooling errs p w
      else case wsCooling (wdNow net w) (pmState (member_of p i)) of
             Some (until, reason) \<Rightarrow> ws_walk net is (sooner i until cooling) errs p w
           | None \<Rightarrow>
               (case verify_endpoint net i p w of
                  (Some e, p, w) \<Rightarrow> ws_walk net is cooling (errs @ [e]) p w
                | (None, p, w) \<Rightarrow> (Inl i, p, w)))"

definition WSEndpoint :: "'w world \<Rightarrow> Pool \<Rightarrow> 'w \<Rightarrow> (pool_error + nat) \<times> Pool \<times> 'w" where
  "WSEndpoint net p w =
     (case ws_walk net [0..<length (plMembers p)] None [] p w of
        (Inl i, p, w) \<Rightarrow> (Inr i, p, w)
      | (Inr (None, errs), p, w) \<Rightarrow> (Inl (NoEndpoint errs), p, w)
      | (Inr (Some (i, t), errs), p, w) \<Rightarrow>
          (case verify_endpoint net i p w of
             (None, p, w) \<Rightarrow> (Inr i, p, w)
           | (Some e, p, w) \<Rightarrow> (Inl (NoEndpoint (errs @ [e])), p, w)))"

text \<open>What a lease reports back.\<close>

definition lease_Connected :: "gotime \<Rightarrow> nat \<Rightarrow> Pool \<Rightarrow> Pool" where
  "lease_Connected now i = upd_endpoint i (noteWSConnected now)"

definition lease_Failed :: "gotime \<Rightarrow> nat \<Rightarrow> bool \<Rightarrow> string \<Rightarrow> Pool \<Rightarrow> Pool" where
  "lease_Failed now i subscribed reason p = upd_endpoint i (\<lambda>e. fst (noteWSFailure now subscribed (plCooldown p) reason e)) p"

definition archive_nextLocked :: "Pool \<Rightarrow> nat option \<times> Pool" where
  "archive_nextLocked p =
     (case List.find (\<lambda>i. pmArchive (member_of p i) \<and> \<not> Disabled p i) [plArchiveAt p..<length (plMembers p)] of
        None \<Rightarrow> (None, p)
      | Some i \<Rightarrow> (Some i, p\<lparr>plArchiveAt := i\<rparr>))"

definition archive_failed :: "nat \<Rightarrow> Pool \<Rightarrow> Pool" where
  "archive_failed i p = (if plArchiveAt p = i then p\<lparr>plArchiveAt := i + 1\<rparr> else p)"

text \<open>
  A historical read (\<open>FastSampleAt\<close>, \<open>L1SampleAt\<close> and \<open>PricingSampleAt\<close> of the archive path), at most once
  per endpoint.
\<close>

fun archive_call ::
  "nat \<Rightarrow> 'w world \<Rightarrow> (nat \<Rightarrow> 'w \<Rightarrow> (nitro_error + 'a) \<times> 'w) \<Rightarrow> nitro_error list \<Rightarrow> Pool \<Rightarrow> 'w
     \<Rightarrow> (pool_error + 'a) \<times> nat list \<times> Pool \<times> 'w" where
  "archive_call 0 net fn errs p w = (Inl (NoEndpoint errs), [], p, w)"
| "archive_call (Suc rounds) net fn errs p w =
     (case wdOthers net p w of (p, w) \<Rightarrow>
        (case archive_nextLocked p of
           (None, p) \<Rightarrow> (Inl (NoEndpoint errs), [], p, w)
         | (Some e, p) \<Rightarrow>
             (case attempt_call net fn e p w of
                (Inr v, calls, p, w) \<Rightarrow> (Inr v, calls, p, w)
              | (Inl err, calls, p, w) \<Rightarrow>
                  if wdCancelled net w \<or> \<not> IsEndpointError err then (Inl (PoolFailed err), calls, p, w)
                  else (case archive_call rounds net fn (errs @ [err]) (archive_failed e p) w of
                          (r, rest, p, w) \<Rightarrow> (r, calls @ rest, p, w)))))"

definition Archive_read ::
  "'w world \<Rightarrow> (nat \<Rightarrow> 'w \<Rightarrow> (nitro_error + 'a) \<times> 'w) \<Rightarrow> Pool \<Rightarrow> 'w \<Rightarrow> (pool_error + 'a) \<times> nat list \<times> Pool \<times> 'w" where
  "Archive_read net fn p w = archive_call (length (plMembers p)) net fn [] p w"

section \<open>Statistics and policy\<close>

record Stats =
  stCallsLast10s :: nat
  stCalls :: u64
  stRequests :: u64
  stErrors :: u64
  stTotalLatency :: duration
  stRateLimitEvents :: u64
  stLast429At :: gotime
  stBackoff :: duration
  stFastCalls :: u64
  stBulkCalls :: u64

definition client_Stats :: "gotime \<Rightarrow> client_state \<Rightarrow> Stats" where
  "client_Stats now c =
     \<lparr>stCallsLast10s = CallsLast10s now c, stCalls = cCalls c, stRequests = cRequests c, stErrors = cErrors c,
      stTotalLatency = cTotalLatency c, stRateLimitEvents = cRateLimitEvents c, stLast429At = cLast429 c,
      stBackoff = cBackoff c, stFastCalls = cFastCalls c, stBulkCalls = cBulkCalls c\<rparr>"

definition no_stats :: Stats where
  "no_stats = \<lparr>stCallsLast10s = 0, stCalls = 0, stRequests = 0, stErrors = 0, stTotalLatency = 0, stRateLimitEvents = 0,
     stLast429At = 0, stBackoff = 0, stFastCalls = 0, stBulkCalls = 0\<rparr>"

definition add_stats :: "bool \<Rightarrow> Stats \<Rightarrow> Stats \<Rightarrow> Stats" where
  "add_stats active s out =
     \<lparr>stCallsLast10s = stCallsLast10s out + stCallsLast10s s, stCalls = stCalls out + stCalls s,
      stRequests = stRequests out + stRequests s, stErrors = stErrors out + stErrors s,
      stTotalLatency = stTotalLatency out + stTotalLatency s,
      stRateLimitEvents = stRateLimitEvents out + stRateLimitEvents s,
      stLast429At = (if stLast429At out < stLast429At s then stLast429At s else stLast429At out),
      stBackoff = (if active then stBackoff s else stBackoff out),
      stFastCalls = stFastCalls out + stFastCalls s, stBulkCalls = stBulkCalls out + stBulkCalls s\<rparr>"

definition pool_Stats :: "gotime \<Rightarrow> Pool \<Rightarrow> Stats" where
  "pool_Stats now p =
     foldl (\<lambda>out i. add_stats (i = plActive p) (client_Stats now (pmClient (member_of p i))) out) no_stats [0..<length (plMembers p)]"

record Policy =
  poUnlimited :: bool
  poRate :: rat

definition pool_Policy :: "Pool \<Rightarrow> Policy \<times> Pool" where
  "pool_Policy p =
     (case currentLocked p of
        (None, p) \<Rightarrow> (\<lparr>poUnlimited = False, poRate = 0\<rparr>, p)
      | (Some e, p) \<Rightarrow> (\<lparr>poUnlimited = pUnlimited (pmPacer (member_of p e)), poRate = pRate (pmPacer (member_of p e))\<rparr>, p))"

record EndpointStatus =
  esIndex :: nat
  esWS :: bool
  esArchive :: bool
  esDisabled :: bool
  esError :: string
  esWSCooling :: bool
  esWSError :: string
  esRateLimitEvents :: u64

record PoolStatus =
  psActive :: nat
  psFailovers :: u64
  psEndpoints :: "EndpointStatus list"

definition endpoint_status :: "gotime \<Rightarrow> Pool \<Rightarrow> nat \<Rightarrow> EndpointStatus" where
  "endpoint_status now p i =
     (let e = member_of p i; cooling = wsCooling now (pmState e) in
      \<lparr>esIndex = i, esWS = (pmWSURL e \<noteq> []), esArchive = pmArchive e, esDisabled = eDisabled (pmState e),
       esError = eReason (pmState e), esWSCooling = (cooling \<noteq> None),
       esWSError = (case cooling of None \<Rightarrow> [] | Some (until, reason) \<Rightarrow> reason),
       esRateLimitEvents = stRateLimitEvents (client_Stats now (pmClient e))\<rparr>)"

definition pool_Status :: "gotime \<Rightarrow> Pool \<Rightarrow> PoolStatus" where
  "pool_Status now p =
     \<lparr>psActive = plActive p, psFailovers = plFailovers p,
      psEndpoints = map (endpoint_status now p) [0..<length (plMembers p)]\<rparr>"

text \<open>\<open>endpointError\<close> of the collector.\<close>

definition disabled_part :: "EndpointStatus \<Rightarrow> string" where
  "disabled_part e = ''endpoint '' @ dec_of_nat (esIndex e) @ '' disabled: '' @ esError e"

fun join_parts :: "string list \<Rightarrow> string" where
  "join_parts [] = []"
| "join_parts [s] = s"
| "join_parts (s # ss) = s @ ''; '' @ join_parts ss"

definition endpointError_text :: "PoolStatus \<Rightarrow> string" where
  "endpointError_text st = join_parts (map disabled_part (filter esDisabled (psEndpoints st)))"

text \<open>The policy of an operation with the generation of the endpoint it is bound to.\<close>

record endpointGen =
  egActive :: nat
  egFailovers :: u64

record policy =
  cpUnlimited :: bool
  cpRate :: rat
  cpGen :: endpointGen

definition take_policy :: "gotime \<Rightarrow> 'w world \<Rightarrow> Pool \<Rightarrow> 'w \<Rightarrow> policy \<times> Pool \<times> 'w" where
  "take_policy now net p w =
     (case pool_Policy p of (q, p) \<Rightarrow>
        (case wdOthers net p w of (p, w) \<Rightarrow>
           let st = pool_Status now p in
           (\<lparr>cpUnlimited = poUnlimited q, cpRate = poRate q, cpGen = \<lparr>egActive = psActive st, egFailovers = psFailovers st\<rparr>\<rparr>, p, w)))"

definition repolicy :: "gotime \<Rightarrow> 'w world \<Rightarrow> policy \<Rightarrow> Pool \<Rightarrow> 'w \<Rightarrow> (policy \<times> bool) \<times> Pool \<times> 'w" where
  "repolicy now net pol p w =
     (case take_policy now net p w of
        (cur, p, w) \<Rightarrow> (if cpGen cur = cpGen pol then (pol, False) else (cur, True), p, w))"


section \<open>What every section keeps\<close>

text \<open>
  An endpoint is verified only if it is on the configured chain, where \<open>chain_of i\<close> is the chain endpoint
  \<open>i\<close> answers for, and the active endpoint is one of the pool.
\<close>

definition pool_ok :: "(nat \<Rightarrow> u64) \<Rightarrow> Pool \<Rightarrow> bool" where
  "pool_ok chain_of p \<longleftrightarrow>
     (plMembers p \<noteq> [] \<longrightarrow> plActive p < length (plMembers p))
     \<and> (\<forall>i<length (plMembers p). EndpointVerified p i \<longrightarrow> chain_of i = plChainID p)"

definition same_pool :: "Pool \<Rightarrow> Pool \<Rightarrow> bool" where
  "same_pool p p' \<longleftrightarrow>
     length (plMembers p') = length (plMembers p) \<and> plChainID p' = plChainID p \<and> plCooldown p' = plCooldown p"

lemma same_pool_refl [simp]: "same_pool p p"
  by (simp add: same_pool_def)

lemma same_pool_trans: "same_pool p q \<Longrightarrow> same_pool q r \<Longrightarrow> same_pool p r"
  by (simp add: same_pool_def)

definition honest_answer :: "(nat \<Rightarrow> u64) \<Rightarrow> nat \<Rightarrow> nitro_error + u64 \<Rightarrow> bool" where
  "honest_answer chain_of i answer = (case answer of Inl e \<Rightarrow> True | Inr r \<Rightarrow> r = chain_of i)"

text \<open>The sections that are run under the lock of the pool or of an endpoint.\<close>

inductive pool_section :: "(nat \<Rightarrow> u64) \<Rightarrow> Pool \<Rightarrow> Pool \<Rightarrow> bool" for chain_of where
  s_current: "pool_section chain_of p (snd (currentLocked p))"
| s_pick_begin: "pool_section chain_of p (snd (pick_begin now p))"
| s_pick_end: "pool_section chain_of p (snd (pick_end now err p))"
| s_failOver: "pool_section chain_of p (snd (failOver now i p))"
| s_failOverLocked: "pool_section chain_of p (snd (failOverLocked now p))"
| s_check: "i < length (plMembers p) \<Longrightarrow> honest_answer chain_of i answer \<Longrightarrow> pool_section chain_of p (snd (check_answer i answer p))"
| s_endpoint: "eVerified (fn (pmState (member_of p i))) = eVerified (pmState (member_of p i)) \<Longrightarrow> pool_section chain_of p (upd_endpoint i fn p)"
| s_archive_next: "pool_section chain_of p (snd (archive_nextLocked p))"
| s_archive_failed: "pool_section chain_of p (archive_failed i p)"

lemma Disabled_update [simp]:
  "Disabled (p\<lparr>plActive := a\<rparr>) i = Disabled p i" "Disabled (p\<lparr>plProbing := b\<rparr>) i = Disabled p i"
  "Disabled (p\<lparr>plFailoverUntil := t\<rparr>) i = Disabled p i" "Disabled (p\<lparr>plFailovers := k\<rparr>) i = Disabled p i"
  "Disabled (p\<lparr>plArchiveAt := j\<rparr>) i = Disabled p i"
  by (simp_all add: Disabled_def)

lemma EndpointVerified_update [simp]:
  "EndpointVerified (p\<lparr>plActive := a\<rparr>) i = EndpointVerified p i" "EndpointVerified (p\<lparr>plProbing := b\<rparr>) i = EndpointVerified p i"
  "EndpointVerified (p\<lparr>plFailoverUntil := t\<rparr>) i = EndpointVerified p i"
  "EndpointVerified (p\<lparr>plFailovers := k\<rparr>) i = EndpointVerified p i"
  "EndpointVerified (p\<lparr>plArchiveAt := j\<rparr>) i = EndpointVerified p i"
  by (simp_all add: EndpointVerified_def)

lemma upd_endpoint_frame [simp]:
  "length (plMembers (upd_endpoint i fn p)) = length (plMembers p)" "plChainID (upd_endpoint i fn p) = plChainID p"
  "plCooldown (upd_endpoint i fn p) = plCooldown p" "plActive (upd_endpoint i fn p) = plActive p"
  "plMembers (upd_endpoint i fn p) = [] \<longleftrightarrow> plMembers p = []"
  "plFailoverUntil (upd_endpoint i fn p) = plFailoverUntil p" "plProbing (upd_endpoint i fn p) = plProbing p"
  by (simp_all add: upd_endpoint_def)

lemma EndpointVerified_upd:
  "k < length (plMembers p) \<Longrightarrow>
     EndpointVerified (upd_endpoint i fn p) k = (if k = i then eVerified (fn (pmState (member_of p i))) else EndpointVerified p k)"
  by (simp add: upd_endpoint_def EndpointVerified_def nth_list_update)

lemma Disabled_upd:
  "k < length (plMembers p) \<Longrightarrow>
     Disabled (upd_endpoint i fn p) k = (if k = i then eDisabled (fn (pmState (member_of p i))) else Disabled p k)"
  by (simp add: upd_endpoint_def Disabled_def nth_list_update)

text \<open>The advance only moves to an endpoint of the pool that is not disabled.\<close>

lemma advance_moves:
  assumes "advanceLocked p = (b, p')"
  shows "p' = p\<lparr>plActive := plActive p'\<rparr>" "b \<Longrightarrow> plActive p' < length (plMembers p) \<and> \<not> Disabled p (plActive p')"
    "\<not> b \<Longrightarrow> p' = p"
proof -
  have "p' = p\<lparr>plActive := plActive p'\<rparr> \<and> (b \<longrightarrow> plActive p' < length (plMembers p) \<and> \<not> Disabled p (plActive p')) \<and> (\<not> b \<longrightarrow> p' = p)"
    using assms
    by (auto simp: advanceLocked_def Let_def find_Some_iff intro!: mod_less_divisor split: option.split_asm)
  then show "p' = p\<lparr>plActive := plActive p'\<rparr>" "b \<Longrightarrow> plActive p' < length (plMembers p) \<and> \<not> Disabled p (plActive p')"
    "\<not> b \<Longrightarrow> p' = p" by blast+
qed

definition kept :: "(nat \<Rightarrow> u64) \<Rightarrow> Pool \<Rightarrow> Pool \<Rightarrow> bool" where
  "kept chain_of p p' \<longleftrightarrow> same_pool p p' \<and> (pool_ok chain_of p \<longrightarrow> pool_ok chain_of p')"

lemma kept_refl: "kept chain_of p p"
  by (simp add: kept_def)

lemma kept_trans: "kept chain_of p q \<Longrightarrow> kept chain_of q r \<Longrightarrow> kept chain_of p r"
  using same_pool_trans by (auto simp: kept_def)

text \<open>A section that leaves the endpoints alone and the active one in range.\<close>

lemma kept_routing:
  "plMembers p' = plMembers p \<Longrightarrow> plChainID p' = plChainID p \<Longrightarrow> plCooldown p' = plCooldown p
     \<Longrightarrow> (plActive p < length (plMembers p) \<Longrightarrow> plActive p' < length (plMembers p)) \<Longrightarrow> kept chain_of p p'"
  by (auto simp: kept_def same_pool_def pool_ok_def EndpointVerified_def)

lemma kept_advance: "advanceLocked p = (b, p') \<Longrightarrow> kept chain_of p p'"
  using advance_moves [of p b p']
  by (cases b) (auto intro!: kept_routing simp: kept_refl dest: arg_cong [of p' _ plMembers] arg_cong [of p' _ plChainID]
      arg_cong [of p' _ plCooldown])

lemma kept_current: "kept chain_of p (snd (currentLocked p))"
  by (auto simp: currentLocked_def kept_refl dest: kept_advance split: prod.split bool.split)

lemma kept_failOverLocked: "kept chain_of p (snd (failOverLocked now p))"
proof (cases "advanceLocked p")
  case (Pair b p')
  have "kept chain_of p' (p'\<lparr>plFailoverUntil := t, plFailovers := k\<rparr>)" for t k by (rule kept_routing) auto
  then show ?thesis using Pair kept_trans [OF kept_advance [OF Pair]] kept_advance [OF Pair]
    by (auto simp: failOverLocked_def split: bool.split)
qed

lemma kept_failOver: "kept chain_of p (snd (failOver now i p))"
  by (simp add: failOver_def kept_refl kept_failOverLocked)

lemma kept_pick_begin: "kept chain_of p (snd (pick_begin now p))"
proof -
  have "kept chain_of q (q\<lparr>plProbing := True\<rparr>)" for q by (rule kept_routing) auto
  then show ?thesis using kept_current [of chain_of p] kept_trans
    by (auto simp: pick_begin_def Let_def split: prod.split option.split)
qed

lemma kept_pick_end: "kept chain_of p (snd (pick_end now err p))"
proof -
  define q where "q = (if err \<noteq> None then p\<lparr>plProbing := False, plFailoverUntil := now + plCooldown p\<rparr>
      else p\<lparr>plProbing := False, plActive := 0\<rparr>)"
  have "kept chain_of p q" unfolding q_def by (rule kept_routing) (auto split: if_split)
  moreover have "pick_end now err p = currentLocked q" by (auto simp: pick_end_def q_def Let_def)
  ultimately show ?thesis using kept_current [of chain_of q] kept_trans by metis
qed

lemma kept_endpoint:
  assumes "eVerified (fn (pmState (member_of p i))) = eVerified (pmState (member_of p i))"
  shows "kept chain_of p (upd_endpoint i fn p)"
  using assms by (auto simp: kept_def same_pool_def pool_ok_def EndpointVerified_upd) (auto simp: EndpointVerified_def)

lemma kept_check:
  assumes "i < length (plMembers p)" "honest_answer chain_of i answer"
  shows "kept chain_of p (snd (check_answer i answer p))"
  using assms kept_endpoint [of "disable reason" p i chain_of for reason]
  by (auto simp: check_answer_def kept_def same_pool_def honest_answer_def disable_def pool_ok_def EndpointVerified_upd
      split: sum.split if_splits)

lemma kept_archive: "kept chain_of p (snd (archive_nextLocked p))" "kept chain_of p (archive_failed i p)"
  by (auto simp: archive_nextLocked_def archive_failed_def kept_refl intro!: kept_routing split: option.split)

lemma section_kept: "pool_section chain_of p p' \<Longrightarrow> kept chain_of p p'"
  by (induction rule: pool_section.induct)
    (simp_all add: kept_current kept_pick_begin kept_pick_end kept_failOver kept_failOverLocked kept_check kept_endpoint kept_archive)

lemma sections_kept: "(pool_section chain_of)\<^sup>*\<^sup>* p p' \<Longrightarrow> kept chain_of p p'"
  by (induction rule: rtranclp_induct) (auto simp: kept_refl dest: section_kept intro: kept_trans)


section \<open>Ordinary calls stay on the configured chain\<close>

text \<open>
  What is assumed of the world: an endpoint that answers \<open>eth_chainId\<close> answers its own chain, and the
  other callers only run sections of the pool.
\<close>

definition pool_world :: "(nat \<Rightarrow> u64) \<Rightarrow> 'w world \<Rightarrow> bool" where
  "pool_world chain_of net \<longleftrightarrow>
     (\<forall>i w. honest_answer chain_of i (fst (wdChain net i w)))
     \<and> (\<forall>p w. (pool_section chain_of)\<^sup>*\<^sup>* p (fst (wdOthers net p w)))"

lemma kept_others: "pool_world chain_of net \<Longrightarrow> wdOthers net p w = (p', w') \<Longrightarrow> kept chain_of p p'"
  using sections_kept by (metis fst_conv pool_world_def)

lemma kept_length: "kept chain_of p p' \<Longrightarrow> length (plMembers p') = length (plMembers p)"
  by (simp add: kept_def same_pool_def)

lemma kept_check_endpoint:
  assumes "pool_world chain_of net" "i < length (plMembers p)" "check_endpoint net i p w = (err, p', w')"
  shows "kept chain_of p p'" "err = None \<Longrightarrow> EndpointVerified p' i"
proof -
  obtain answer w1 p2 w2 where a: "wdChain net i w = (answer, w1)" and o': "wdOthers net p w1 = (p2, w2)"
    and c: "check_answer i answer p2 = (err, p')"
    using assms(3) by (auto simp: check_endpoint_def split: prod.split_asm)
  have k: "kept chain_of p p2" by (rule kept_others [OF assms(1) o'])
  have i: "i < length (plMembers p2)" using kept_length [OF k] assms(2) by simp
  have h: "honest_answer chain_of i answer" using assms(1) a by (metis fst_conv pool_world_def)
  show "kept chain_of p p'" using kept_trans [OF k kept_check [OF i h]] c by simp
  show "EndpointVerified p' i" if "err = None"
    using c that i by (auto simp: check_answer_def setVerified_def EndpointVerified_upd split: sum.split_asm if_split_asm)
qed

lemma kept_verify:
  assumes "pool_world chain_of net" "i < length (plMembers p)" "verify_endpoint net i p w = (err, p', w')"
  shows "kept chain_of p p'" "err = None \<Longrightarrow> EndpointVerified p' i"
  using assms kept_check_endpoint [OF assms(1,2)] by (auto simp: verify_endpoint_def kept_refl split: if_split_asm)

lemma current_in_range: "currentLocked p = (Some e, p') \<Longrightarrow> plActive p < length (plMembers p) \<Longrightarrow> e < length (plMembers p)"
  using advance_moves [of p True] by (auto simp: currentLocked_def split: if_split_asm prod.split_asm bool.split_asm)

lemma pick_begin_in_range:
  "pick_begin now p = (Some (e, probe), p') \<Longrightarrow> plActive p < length (plMembers p) \<Longrightarrow> e < length (plMembers p)"
  using current_in_range [of p e] by (auto simp: pick_begin_def Let_def split: prod.split_asm option.split_asm)

lemma pick_end_in_range:
  assumes "pick_end now err p = (Some e, p')" "plActive p < length (plMembers p)"
  shows "e < length (plMembers p)"
proof -
  have "plMembers p \<noteq> []" using assms(2) by auto
  then show ?thesis using assms current_in_range [of _ e p'] by (fastforce simp: pick_end_def Let_def split: if_split_asm)
qed

lemma kept_pick:
  assumes world: "pool_world chain_of net" and ok: "pool_ok chain_of p" and run: "pick net p w = (e, p', w')"
  shows "kept chain_of p p'" "e = Some i \<Longrightarrow> i < length (plMembers p)"
proof -
  obtain p1 w1 where o': "wdOthers net p w = (p1, w1)" by fastforce
  have k1: "kept chain_of p p1" by (rule kept_others [OF world o'])
  obtain begin1 p2 where b: "pick_begin (wdNow net w1) p1 = (begin1, p2)" by fastforce
  have k2: "kept chain_of p p2" using kept_trans [OF k1 kept_pick_begin] b by (metis snd_conv)
  have act: "plMembers p1 \<noteq> [] \<Longrightarrow> plActive p1 < length (plMembers p1)" using k1 ok by (auto simp: kept_def pool_ok_def)
  have none: "begin1 = None" if "plMembers p1 = []"
    using b that by (auto simp: pick_begin_def currentLocked_def)
  show "kept chain_of p p'"
  proof (cases begin1)
    case None then show ?thesis using run o' b k2 by (auto simp: pick_def)
  next
    case (Some ep)
    show ?thesis
    proof (cases "snd ep")
      case False then show ?thesis using run o' b k2 Some by (cases ep) (auto simp: pick_def split: bool.split_asm)
    next
      case True
      obtain err p3 w3 where c: "check_endpoint net 0 p2 w1 = (err, p3, w3)" by (metis prod_cases3)
      have "0 < length (plMembers p2)" using none Some kept_length [OF k1] kept_length [OF k2] by auto
      then have k3: "kept chain_of p p3" using kept_trans [OF k2 kept_check_endpoint(1) [OF world _ c]] by simp
      show ?thesis using run o' b Some True c kept_trans [OF k3 kept_pick_end, of "wdNow net w3" err]
        by (cases ep) (auto simp: pick_def split: bool.split_asm prod.split_asm)
    qed
  qed
  show "i < length (plMembers p)" if e: "e = Some i"
  proof (cases begin1)
    case None then show ?thesis using run o' b e by (auto simp: pick_def)
  next
    case (Some ep)
    have act1: "plActive p1 < length (plMembers p1)" using act none Some by auto
    show ?thesis
    proof (cases "snd ep")
      case False
      then have "pick_begin (wdNow net w1) p1 = (Some (i, False), p2)"
        using run o' b Some e by (cases ep) (auto simp: pick_def split: bool.split_asm)
      then show ?thesis using pick_begin_in_range act1 kept_length [OF k1] by metis
    next
      case True
      obtain err p3 w3 where c: "check_endpoint net 0 p2 w1 = (err, p3, w3)" by (metis prod_cases3)
      have "0 < length (plMembers p2)" using none Some kept_length [OF k1] kept_length [OF k2] by auto
      then have k3: "kept chain_of p p3" using kept_trans [OF k2 kept_check_endpoint(1) [OF world _ c]] by simp
      have "plActive p3 < length (plMembers p3)" using k3 ok act1 kept_length [OF k1] kept_length [OF k3]
        by (auto simp: kept_def pool_ok_def)
      moreover have "pick_end (wdNow net w3) err p3 = (Some i, p')"
        using run o' b Some True c e by (cases ep) (auto simp: pick_def split: bool.split_asm prod.split_asm)
      ultimately show ?thesis using pick_end_in_range kept_length [OF k3] by metis
    qed
  qed
qed

lemma kept_attempt:
  assumes world: "pool_world chain_of net" and ok: "pool_ok chain_of p" and e: "e < length (plMembers p)"
    and run: "attempt_call net fn e p w = (r, calls, p', w')"
  shows "kept chain_of p p'" "length calls \<le> 1" "\<forall>i\<in>set calls. i = e \<and> chain_of i = plChainID p"
proof -
  obtain err p1 w1 where v: "verify_endpoint net e p w = (err, p1, w1)" by (metis prod_cases3)
  have k: "kept chain_of p p1" using kept_verify(1) [OF world e v] .
  have ver: "err = None \<Longrightarrow> chain_of e = plChainID p"
    using kept_verify(2) [OF world e v] k ok e by (auto simp: kept_def same_pool_def pool_ok_def)
  show "kept chain_of p p'"
    using run v k kept_trans [OF k kept_others [OF world]] by (auto simp: attempt_call_def split: option.split_asm prod.split_asm)
  show "length calls \<le> 1" "\<forall>i\<in>set calls. i = e \<and> chain_of i = plChainID p"
    using run v ver by (auto simp: attempt_call_def split: option.split_asm prod.split_asm)
qed


text \<open>
  One call of \<open>do\<close> in terms of its first attempt: it stopped there, or it went on with one more attempt
  or stale answer counted.
\<close>

lemma pool_do_cases:
  assumes "pool_do n net fn tried stale p w = (r, calls, p', w')"
  obtains (nothing) "pick net p w = (None, p', w')" "calls = []"
  | (stopped) e p1 w1 res where "pick net p w = (Some e, p1, w1)" "attempt_call net fn e p1 w1 = (res, calls, p', w')"
  | (stuck) e p1 w1 err p2 where "pick net p w = (Some e, p1, w1)" "attempt_call net fn e p1 w1 = (Inl err, calls, p2, w')"
      "failOver (wdNow net w') e p2 = (False, p')"
  | (stale_again) e p1 w1 err first_calls p2 w2 rest where "pick net p w = (Some e, p1, w1)"
      "attempt_call net fn e p1 w1 = (Inl err, first_calls, p2, w2)" "stale < n"
      "pool_do n net fn tried (Suc stale) p2 w2 = (r, rest, p', w')" "calls = first_calls @ rest"
  | (failed_over) e p1 w1 err first_calls p2 w2 p3 rest where "pick net p w = (Some e, p1, w1)"
      "attempt_call net fn e p1 w1 = (Inl err, first_calls, p2, w2)" "Suc tried < n"
      "failOver (wdNow net w2) e p2 = (True, p3)"
      "pool_do n net fn (Suc tried) stale p3 w2 = (r, rest, p', w')" "calls = first_calls @ rest"
proof -
  note run = assms [unfolded pool_do.simps [of n net fn tried stale p w]]
  obtain e0 p1 w1 where pk: "pick net p w = (e0, p1, w1)" by (metis prod_cases3)
  show thesis
  proof (cases e0)
    case None
    show thesis by (rule nothing) (use run pk None in auto)
  next
    case (Some e)
    obtain res c1 p2 w2 where at1: "attempt_call net fn e p1 w1 = (res, c1, p2, w2)" by (metis prod_cases4)
    show thesis
    proof (cases res)
      case (Inr v)
      then show thesis using run pk at1 Some stopped by simp
    next
      case (Inl err)
      note r = run [unfolded pk prod.case Some option.case at1 Inl sum.case]
      consider (final) "wdCancelled net w2 \<or> \<not> IsEndpointError err \<or> (is_stale err \<and> n < Suc stale) \<or> (\<not> is_stale err \<and> n \<le> Suc tried)"
        | (again) "\<not> (wdCancelled net w2 \<or> \<not> IsEndpointError err)" "is_stale err" "stale < n"
        | (over) "\<not> (wdCancelled net w2 \<or> \<not> IsEndpointError err)" "\<not> is_stale err" "Suc tried < n" by linarith
      then show thesis
      proof cases
        case final
        then have "calls = c1" "p' = p2" "w' = w2" using r by (auto split: if_split_asm)
        then show thesis using stopped pk Some at1 by metis
      next
        case again
        obtain r2 rest p3 w3 where d: "pool_do n net fn tried (Suc stale) p2 w2 = (r2, rest, p3, w3)" by (metis prod_cases4)
        then have "r = r2" "calls = c1 @ rest" "p' = p3" "w' = w3" using r again by simp_all
        then show thesis using stale_again pk Some at1 Inl again(3) d by metis
      next
        case over
        obtain b p3 where f: "failOver (wdNow net w2) e p2 = (b, p3)" by fastforce
        show thesis
        proof (cases b)
          case False
          then have "calls = c1" "p' = p3" "w' = w2" using r over f by simp_all
          then show thesis using stuck pk Some at1 Inl f False by metis
        next
          case True
          obtain r2 rest p4 w4 where d: "pool_do n net fn (Suc tried) stale p3 w2 = (r2, rest, p4, w4)" by (metis prod_cases4)
          then have "r = r2" "calls = c1 @ rest" "p' = p4" "w' = w4" using r over f True by simp_all
          then show thesis using failed_over pk Some at1 Inl over(3) f True d by metis
        qed
      qed
    qed
  qed
qed

lemma pool_do_right_chain:
  assumes world: "pool_world chain_of net"
  shows "pool_do n net fn tried stale p w = (r, calls, p', w') \<Longrightarrow> pool_ok chain_of p \<Longrightarrow> n = length (plMembers p)
    \<Longrightarrow> tried < n \<or> n = 0 \<Longrightarrow> stale \<le> n
    \<Longrightarrow> kept chain_of p p' \<and> length calls \<le> (n - tried) + (n - stale)
       \<and> (\<forall>i\<in>set calls. i < n \<and> chain_of i = plChainID p)"
proof (induction "(n - tried) + (Suc n - stale)" arbitrary: tried stale p w r calls p' w' rule: less_induct)
  case less
  note ok = less.prems(2) and n = less.prems(3)
  from less.prems(1) show ?case
  proof (cases rule: pool_do_cases)
    case nothing
    then show ?thesis using kept_pick(1) [OF world ok] by auto
  next
    case (stopped e p1 w1 res)
    have k: "kept chain_of p p1" and e: "e < n" using kept_pick [OF world ok stopped(1)] n by auto
    have ok1: "pool_ok chain_of p1" and len: "length (plMembers p1) = n" and c: "plChainID p1 = plChainID p"
      using k ok n by (auto simp: kept_def same_pool_def)
    note a = kept_attempt [OF world ok1 _ stopped(2)]
    have "length calls \<le> (n - tried) + (n - stale)" using a(2) e len less.prems(4) by auto
    then show ?thesis using kept_trans [OF k] a e len c by auto
  next
    case (stuck e p1 w1 err p2)
    have k: "kept chain_of p p1" and e: "e < n" using kept_pick [OF world ok stuck(1)] n by auto
    have ok1: "pool_ok chain_of p1" and len: "length (plMembers p1) = n" and c: "plChainID p1 = plChainID p"
      using k ok n by (auto simp: kept_def same_pool_def)
    note a = kept_attempt [OF world ok1 _ stuck(2)]
    have "length calls \<le> (n - tried) + (n - stale)" using a(2) e len less.prems(4) by auto
    moreover have "kept chain_of p2 p'" using kept_failOver [of chain_of p2 "wdNow net w'" e] stuck(3) by simp
    ultimately show ?thesis using kept_trans [OF kept_trans [OF k]] a e len c by auto
  next
    case (stale_again e p1 w1 err first_calls p2 w2 rest)
    have k: "kept chain_of p p1" and e: "e < n" using kept_pick [OF world ok stale_again(1)] n by auto
    have ok1: "pool_ok chain_of p1" and len: "length (plMembers p1) = n" and c: "plChainID p1 = plChainID p"
      using k ok n by (auto simp: kept_def same_pool_def)
    note a = kept_attempt [OF world ok1 _ stale_again(2)]
    have k2: "kept chain_of p p2" using kept_trans [OF k] a(1) e len by auto
    then have "pool_ok chain_of p2" "n = length (plMembers p2)" "plChainID p2 = plChainID p"
      using ok n by (auto simp: kept_def same_pool_def)
    then have "kept chain_of p2 p' \<and> length rest \<le> (n - tried) + (n - Suc stale) \<and> (\<forall>i\<in>set rest. i < n \<and> chain_of i = plChainID p)"
      using less.hyps [OF _ stale_again(4)] stale_again(3) less.prems(4) by simp
    then show ?thesis using kept_trans [OF k2] a e len c stale_again(3,5) by auto
  next
    case (failed_over e p1 w1 err first_calls p2 w2 p3 rest)
    have k: "kept chain_of p p1" and e: "e < n" using kept_pick [OF world ok failed_over(1)] n by auto
    have ok1: "pool_ok chain_of p1" and len: "length (plMembers p1) = n" and c: "plChainID p1 = plChainID p"
      using k ok n by (auto simp: kept_def same_pool_def)
    note a = kept_attempt [OF world ok1 _ failed_over(2)]
    have "kept chain_of p2 p3" using kept_failOver [of chain_of p2 "wdNow net w2" e] failed_over(4) by simp
    then have k3: "kept chain_of p p3" using kept_trans [OF kept_trans [OF k]] a(1) e len by auto
    then have "pool_ok chain_of p3" "n = length (plMembers p3)" "plChainID p3 = plChainID p"
      using ok n by (auto simp: kept_def same_pool_def)
    then have "kept chain_of p3 p' \<and> length rest \<le> (n - Suc tried) + (n - stale) \<and> (\<forall>i\<in>set rest. i < n \<and> chain_of i = plChainID p)"
      using less.hyps [OF _ failed_over(5)] failed_over(3) less.prems(5) by simp
    then show ?thesis using kept_trans [OF k3] a e len c failed_over(3,6) by auto
  qed
qed


text \<open>
  C5. An ordinary call never reaches an endpoint of another chain: whatever the other callers of the pool do
  in between, every endpoint a call was sent to is one of the pool that is on the configured chain, and no
  more than twice as many attempts as there are endpoints are made.
\<close>

theorem pool_call_right_chain:
  assumes world: "pool_world chain_of net" and ok: "pool_ok chain_of p"
    and run: "pool_call net fn p w = (r, calls, p', w')"
  shows "length calls \<le> 2 * length (plMembers p)
    \<and> (\<forall>i\<in>set calls. i < length (plMembers p) \<and> chain_of i = plChainID p) \<and> pool_ok chain_of p'"
proof -
  have "kept chain_of p p' \<and> length calls \<le> (length (plMembers p) - 0) + (length (plMembers p) - 0)
       \<and> (\<forall>i\<in>set calls. i < length (plMembers p) \<and> chain_of i = plChainID p)"
    by (rule pool_do_right_chain [OF world run [unfolded pool_call_def] ok]) auto
  then show ?thesis using ok by (auto simp: kept_def)
qed

text \<open>A pool of three: the primary is on another chain and the second endpoint does not answer calls.\<close>

definition three_endpoints :: Pool where
  "three_endpoints = NewPool 0
     \<lparr>pcChainID = 42161,
      pcEndpoints = replicate 3 \<lparr>ecWSURL = [], ecArchive = False, ecCallsPerSecond = 0\<rparr>, pcBatchSize = 100, pcCooldown = 60\<rparr>"

definition chain_of_three :: "nat \<Rightarrow> u64" where
  "chain_of_three i = (if i = 0 then 1 else 42161)"

definition quiet_world :: "(nat \<Rightarrow> u64) \<Rightarrow> unit world" where
  "quiet_world chain_of = \<lparr>wdChain = (\<lambda>i w. (Inr (chain_of i), w)), wdNow = (\<lambda>w. 1000), wdOthers = (\<lambda>p w. (p, w)), wdCancelled = (\<lambda>w. False)\<rparr>"

definition third_answers :: "nat \<Rightarrow> unit \<Rightarrow> (nitro_error + u64) \<times> unit" where
  "third_answers i w = ((if i = 2 then Inr 7 else Inl (EndpointError (Failed ''no answer''))), w)"

lemma quiet_pool_world: "pool_world chain_of (quiet_world chain_of)"
  by (simp add: pool_world_def quiet_world_def honest_answer_def)

lemma NewPool_ok: "pool_ok chain_of (NewPool now cfg)"
  by (auto simp: pool_ok_def NewPool_def EndpointVerified_def pool_newEndpoint_def newEndpoint_def Let_def)

lemma three_ok: "pool_ok chain_of_three three_endpoints"
  unfolding three_endpoints_def by (rule NewPool_ok)

lemma three_fields: "plMembers three_endpoints = replicate 3 (pool_newEndpoint 0 100 \<lparr>ecWSURL = [], ecArchive = False, ecCallsPerSecond = 0\<rparr>)"
  "plActive three_endpoints = 0" "plChainID three_endpoints = 42161" "plCooldown three_endpoints = 60" "plProbing three_endpoints = False"
  "plFailoverUntil three_endpoints = 0" "plFailovers three_endpoints = 0"
  by (simp_all add: three_endpoints_def NewPool_def)

lemma third_called: "fst (pool_call (quiet_world chain_of_three) third_answers three_endpoints ()) = Inr 7"
  "fst (snd (pool_call (quiet_world chain_of_three) third_answers three_endpoints ())) = [1, 2]"
  by (simp_all add: pool_call_def pool_do.simps pick_def quiet_world_def pick_begin_def currentLocked_def three_fields Disabled_def
      pool_newEndpoint_def newEndpoint_def Let_def attempt_call_def verify_endpoint_def EndpointVerified_def check_endpoint_def check_answer_def
      chain_of_three_def upd_endpoint_def disable_def failOver_def failOverLocked_def advanceLocked_def upt_rec third_answers_def setVerified_def)

theorem pool_call_right_chain_witness:
  "fst (snd (pool_call (quiet_world chain_of_three) third_answers three_endpoints ())) = [1, 2]
    \<and> length [1, 2 :: nat] \<le> 2 * length (plMembers three_endpoints)
    \<and> chain_of_three 1 = plChainID three_endpoints \<and> chain_of_three 2 = plChainID three_endpoints"
proof -
  obtain r calls p' w' where run: "pool_call (quiet_world chain_of_three) third_answers three_endpoints () = (r, calls, p', w')"
    by (metis prod_cases4)
  have calls: "calls = [1, 2]" using third_called(2) run by simp
  show ?thesis
    using pool_call_right_chain [OF quiet_pool_world three_ok run] third_called(2) unfolding calls by simp
qed


section \<open>A call finds the endpoint that answers\<close>

text \<open>How far the rotation is from an endpoint.\<close>

definition turns_to :: "nat \<Rightarrow> nat \<Rightarrow> nat \<Rightarrow> nat" where
  "turns_to n a g = (g + n - a) mod n"

lemma turns_to_bounds: "a < n \<Longrightarrow> turns_to n a g < n" "a < n \<Longrightarrow> g < n \<Longrightarrow> (a + turns_to n a g) mod n = g"
proof -
  show "a < n \<Longrightarrow> turns_to n a g < n" unfolding turns_to_def by (rule mod_less_divisor) auto
  assume "a < n" "g < n"
  have "(a + turns_to n a g) mod n = (a + (g + n - a)) mod n" unfolding turns_to_def by (rule mod_add_right_eq)
  moreover have "a + (g + n - a) = g + n" using \<open>a < n\<close> by simp
  ultimately show "(a + turns_to n a g) mod n = g" using \<open>g < n\<close> by simp
qed

lemma turns_to_if:
  assumes "a < n" "g < n"
  shows "turns_to n a g = (if a \<le> g then g - a else g + n - a)"
proof (cases "a \<le> g")
  case True
  then have "g + n - a = (g - a) + n" by simp
  then have "turns_to n a g = (g - a) mod n" unfolding turns_to_def by (simp only: mod_add_self2)
  moreover have "g - a < n" using assms(2) by simp
  ultimately show ?thesis using True by (simp only: mod_less if_True)
next
  case False
  then have "g + n - a < n" using assms by linarith
  then show ?thesis using False unfolding turns_to_def by (simp only: mod_less if_False)
qed

lemma mod_wrap: "a < n \<Longrightarrow> s < n \<Longrightarrow> (a + s) mod n = (if a + s < n then a + s else a + s - (n :: nat))"
  by (cases "a + s < n") (simp_all only: mod_less if_True if_False, simp add: le_mod_geq)

lemma turns_to_after:
  assumes "a < n" "g < n" "s \<le> turns_to n a g"
  shows "turns_to n ((a + s) mod n) g = turns_to n a g - s"
proof -
  have t: "turns_to n a g = (if a \<le> g then g - a else g + n - a)" by (rule turns_to_if [OF assms(1,2)])
  have s: "s < n" using turns_to_bounds(1) [OF assms(1)] assms(3) by (rule order.strict_trans1 [rotated])
  have b: "(a + s) mod n < n" using assms(1) by (intro mod_less_divisor) auto
  have "turns_to n ((a + s) mod n) g
      = (if (a + s) mod n \<le> g then g - (a + s) mod n else g + n - (a + s) mod n)" by (rule turns_to_if [OF b assms(2)])
  then show ?thesis unfolding t mod_wrap [OF assms(1) s]
    using assms s unfolding t by (cases "a \<le> g"; cases "a + s < n") auto
qed

lemma advance_closer:
  assumes a: "plActive p < n" and n: "n = length (plMembers p)" and g: "g < n" "\<not> Disabled p g" "plActive p \<noteq> g"
  shows "\<exists>p'. advanceLocked p = (True, p') \<and> turns_to n (plActive p') g < turns_to n (plActive p) g"
proof -
  define t where "t = turns_to n (plActive p) g"
  have t: "t < n" "(plActive p + t) mod n = g" using turns_to_bounds [OF a, of g] g(1) by (simp_all add: t_def)
  have t0: "0 < t" using t g(3) a by (cases t) auto
  let ?xs = "map (\<lambda>s. (plActive p + s) mod n) [1..<n]"
  have "List.find (\<lambda>i. \<not> Disabled p i) ?xs \<noteq> None"
    using t t0 g(2) by (auto simp: find_None_iff intro!: bexI [of _ t])
  then obtain i where i: "List.find (\<lambda>i. \<not> Disabled p i) ?xs = Some i" by auto
  then obtain k where k: "k < n - 1" "i = (plActive p + Suc k) mod n" "\<forall>j<k. Disabled p ((plActive p + Suc j) mod n)"
    by (auto simp: find_Some_iff)
  have "Suc k \<le> t"
  proof (rule ccontr)
    assume "\<not> Suc k \<le> t"
    then have "t - 1 < k" using t0 by simp
    then have "Disabled p ((plActive p + Suc (t - 1)) mod n)" using k(3) by blast
    then show False using t t0 g(2) by simp
  qed
  then have "turns_to n i g < t" using turns_to_after [OF a g(1), of "Suc k"] k(2) t0 by (simp add: t_def)
  then show ?thesis using i n by (simp add: advanceLocked_def Let_def t_def)
qed


text \<open>
  One endpoint is on the configured chain and answers, no other caller interferes, and whatever else fails
  is the failure of an endpoint.
\<close>

definition serving :: "u64 \<Rightarrow> nat \<Rightarrow> 'w world \<Rightarrow> (nat \<Rightarrow> 'w \<Rightarrow> (nitro_error + 'a) \<times> 'w) \<Rightarrow> bool" where
  "serving c g net fn \<longleftrightarrow>
     (\<forall>p w. wdOthers net p w = (p, w)) \<and> (\<forall>w. \<not> wdCancelled net w)
     \<and> (\<forall>w. fst (wdChain net g w) = Inr c) \<and> (\<forall>i w e. fst (wdChain net i w) = Inl e \<longrightarrow> \<not> is_stale e)
     \<and> (\<forall>w. \<not> isl (fst (fn g w))) \<and> (\<forall>i w e. fst (fn i w) = Inl e \<longrightarrow> IsEndpointError e \<and> \<not> is_stale e)"

definition serving_pool :: "u64 \<Rightarrow> nat \<Rightarrow> nat \<Rightarrow> Pool \<Rightarrow> bool" where
  "serving_pool c g n p \<longleftrightarrow>
     length (plMembers p) = n \<and> g < n \<and> plActive p < n \<and> \<not> Disabled p g \<and> plChainID p = c \<and> 0 < plCooldown p"

lemma serving_check:
  assumes "serving c g net fn" "serving_pool c g n p" "check_endpoint net i p w = (err, p', w')"
  shows "serving_pool c g n p' \<and> plActive p' = plActive p \<and> (i = g \<longrightarrow> err = None)
    \<and> (\<forall>e. err = Some e \<longrightarrow> IsEndpointError e \<and> \<not> is_stale e)"
proof -
  obtain answer where a: "wdChain net i w = (answer, w')" and c: "check_answer i answer p = (err, p')"
    using assms(1,3) by (auto simp: serving_def check_endpoint_def split: prod.split_asm)
  have g: "i = g \<Longrightarrow> answer = Inr c" using assms(1) a by (metis fst_conv serving_def)
  have stale: "answer = Inl e \<Longrightarrow> \<not> is_stale e" for e using assms(1) a by (metis fst_conv serving_def)
  show ?thesis using c g stale assms(2)
    by (auto simp: check_answer_def serving_pool_def Disabled_upd setVerified_def disable_def split: sum.split_asm if_split_asm)
      (auto simp: Disabled_def)
qed

lemma serving_attempt:
  assumes s: "serving c g net fn" and p: "serving_pool c g n p" and run: "attempt_call net fn e p w = (res, calls, p', w')"
  shows "serving_pool c g n p' \<and> plActive p' = plActive p \<and> (e = g \<longrightarrow> \<not> isl res)
    \<and> (\<forall>err. res = Inl err \<longrightarrow> IsEndpointError err \<and> \<not> is_stale err)"
proof -
  obtain err p1 w1 where v: "verify_endpoint net e p w = (err, p1, w1)" by (metis prod_cases3)
  have k: "serving_pool c g n p1 \<and> plActive p1 = plActive p \<and> (e = g \<longrightarrow> err = None)
    \<and> (\<forall>x. err = Some x \<longrightarrow> IsEndpointError x \<and> \<not> is_stale x)"
    using v p serving_check [OF s p] by (auto simp: verify_endpoint_def split: if_split_asm)
  show ?thesis
  proof (cases err)
    case (Some x) then show ?thesis using run v k by (auto simp: attempt_call_def)
  next
    case None
    then have "fst (fn e w1) = res" "p' = p1" using run v s by (auto simp: attempt_call_def serving_def split: prod.split_asm)
    then show ?thesis using k s None unfolding serving_def by metis
  qed
qed

lemma serving_advance:
  assumes "serving_pool c g n p" "plActive p \<noteq> g"
  obtains i where "advanceLocked p = (True, p\<lparr>plActive := i\<rparr>)" "turns_to n i g < turns_to n (plActive p) g" "i < n" "\<not> Disabled p i"
proof -
  have h: "plActive p < n" "n = length (plMembers p)" "g < n" "\<not> Disabled p g" using assms(1) by (simp_all add: serving_pool_def)
  obtain p2 where a: "advanceLocked p = (True, p2)" and t: "turns_to n (plActive p2) g < turns_to n (plActive p) g"
    using advance_closer [OF h assms(2)] by blast
  note m = advance_moves [OF a]
  have "plActive p2 < n" "\<not> Disabled p (plActive p2)" using m(2) h(2) by simp_all
  then show thesis using that [of "plActive p2"] a t m(1) by simp
qed

lemma serving_current:
  assumes "serving_pool c g n p" "currentLocked p = (e, p')"
  shows "serving_pool c g n p' \<and> e = Some (plActive p') \<and> \<not> Disabled p' (plActive p')
    \<and> p' = p\<lparr>plActive := plActive p'\<rparr> \<and> (\<not> Disabled p (plActive p) \<longrightarrow> p' = p)"
proof (cases "Disabled p (plActive p)")
  case False
  then have "currentLocked p = (Some (plActive p), p)" using assms(1) by (auto simp: currentLocked_def serving_pool_def)
  then show ?thesis using assms False by simp
next
  case True
  then have g: "plActive p \<noteq> g" using assms(1) by (auto simp: serving_pool_def)
  obtain i where a: "advanceLocked p = (True, p\<lparr>plActive := i\<rparr>)" and i: "i < n" "\<not> Disabled p i"
    using serving_advance [OF assms(1) g] by metis
  have "plMembers p \<noteq> []" using assms(1) by (auto simp: serving_pool_def)
  then have "currentLocked p = (Some i, p\<lparr>plActive := i\<rparr>)" using True a by (simp add: currentLocked_def)
  then have "e = Some i" "p' = p\<lparr>plActive := i\<rparr>" using assms(2) by simp_all
  then show ?thesis using assms(1) True i by (simp add: serving_pool_def)
qed

lemma serving_pick:
  assumes s: "serving c g net fn" and p: "serving_pool c g n p"
  obtains p' w' where "pick net p w = (Some (plActive p'), p', w')" "serving_pool c g n p'"
    "\<not> Disabled p (plActive p) \<and> wdNow net w < plFailoverUntil p \<Longrightarrow> plActive p' = plActive p"
proof -
  have o': "wdOthers net q x = (q, x)" for q x using s by (simp add: serving_def)
  obtain e1 p1 where c: "currentLocked p = (e1, p1)" by fastforce
  note c1 = serving_current [OF p c]
  define probe where "probe = (plActive p1 \<noteq> 0 \<and> \<not> plProbing p1 \<and> \<not> Disabled p1 0 \<and> \<not> wdNow net w < plFailoverUntil p1)"
  have b: "pick_begin (wdNow net w) p = (Some (plActive p1, probe), if probe then p1\<lparr>plProbing := True\<rparr> else p1)"
    using c c1 by (simp add: pick_begin_def probe_def Let_def)
  show thesis
  proof (cases probe)
    case False
    then have "pick net p w = (Some (plActive p1), p1, w)" by (simp add: pick_def o' b)
    then show thesis using that c1 by metis
  next
    case True
    obtain err p2 w2 where k: "check_endpoint net 0 (p1\<lparr>plProbing := True\<rparr>) w = (err, p2, w2)" by (metis prod_cases3)
    have "serving_pool c g n (p1\<lparr>plProbing := True\<rparr>)" using c1 by (simp add: serving_pool_def)
    then have p2: "serving_pool c g n p2" using serving_check [OF s _ k] by blast
    define q where "q = (if err \<noteq> None then p2\<lparr>plProbing := False, plFailoverUntil := wdNow net w2 + plCooldown p2\<rparr>
        else p2\<lparr>plProbing := False, plActive := 0\<rparr>)"
    have q: "serving_pool c g n q" using p2 by (auto simp: q_def serving_pool_def)
    obtain e3 p3 where c3: "currentLocked q = (e3, p3)" by fastforce
    have "pick_end (wdNow net w2) err p2 = currentLocked q" by (auto simp: pick_end_def q_def Let_def)
    then have "pick net p w = (Some (plActive p3), p3, w2)"
      using True serving_current [OF q c3] c3 by (simp add: pick_def o' b k)
    moreover have "plFailoverUntil p1 = plFailoverUntil p" using c1 by (auto dest: arg_cong [of p1 _ plFailoverUntil])
    ultimately show thesis using that serving_current [OF q c3] True probe_def by metis
  qed
qed

lemma serving_failOver:
  assumes p: "serving_pool c g n p" and g: "plActive p \<noteq> g"
  obtains p' where "failOver now (plActive p) p = (True, p')" "serving_pool c g n p'" "\<not> Disabled p' (plActive p')"
    "now < plFailoverUntil p'" "turns_to n (plActive p') g < turns_to n (plActive p) g"
proof -
  obtain i where a: "advanceLocked p = (True, p\<lparr>plActive := i\<rparr>)" "turns_to n i g < turns_to n (plActive p) g" "i < n" "\<not> Disabled p i"
    using serving_advance [OF p g] by metis
  have "failOver now (plActive p) p
      = (True, p\<lparr>plActive := i, plFailoverUntil := now + plCooldown p, plFailovers := plFailovers p + 1\<rparr>)"
    by (simp add: failOver_def failOverLocked_def a(1))
  then show thesis by (rule that) (use a p in \<open>simp_all add: serving_pool_def\<close>)
qed

lemma pool_do_finds:
  assumes s: "serving c g net fn"
  shows "serving_pool c g n p \<Longrightarrow>
    tried = 0 \<or> (\<not> Disabled p (plActive p) \<and> wdNow net w < plFailoverUntil p \<and> tried + turns_to n (plActive p) g < n)
    \<Longrightarrow> \<not> isl (fst (pool_do n net fn tried stale p w))"
proof (induction "n - tried" arbitrary: tried p w rule: less_induct)
  case less
  obtain p1 w1 where k: "pick net p w = (Some (plActive p1), p1, w1)" and p1: "serving_pool c g n p1"
    and same: "\<not> Disabled p (plActive p) \<and> wdNow net w < plFailoverUntil p \<Longrightarrow> plActive p1 = plActive p"
    using serving_pick [OF s less.prems(1), of w] by blast
  have near: "tried + turns_to n (plActive p1) g < n"
    using less.prems(2) same turns_to_bounds(1) [of "plActive p1" n g] p1 by (auto simp: serving_pool_def)
  obtain res calls p2 w2 where a: "attempt_call net fn (plActive p1) p1 w1 = (res, calls, p2, w2)" by (metis prod_cases4)
  note at1 = serving_attempt [OF s p1 a]
  show ?case
  proof (cases res)
    case (Inr v) then show ?thesis by (subst pool_do.simps) (simp add: k a)
  next
    case (Inl err)
    then have "plActive p2 \<noteq> g" using at1 by auto
    then obtain p3 where f: "failOver (wdNow net w2) (plActive p2) p2 = (True, p3)" and p3: "serving_pool c g n p3"
        "\<not> Disabled p3 (plActive p3)" "wdNow net w2 < plFailoverUntil p3"
        "turns_to n (plActive p3) g < turns_to n (plActive p2) g"
      using serving_failOver [of c g n p2 "wdNow net w2"] at1 by blast
    have same_active: "plActive p2 = plActive p1" using at1 by blast
    have more2: "Suc tried + turns_to n (plActive p3) g < n" using near p3(4) unfolding same_active by linarith
    have more1: "Suc tried < n" using more2 by linarith
    have "\<not> isl (fst (pool_do n net fn (Suc tried) stale p3 w2))" using less.hyps p3 more1 more2 by simp
    moreover have "\<not> wdCancelled net w2" using s by (simp add: serving_def)
    ultimately show ?thesis
      using Inl at1 f more1
      by (cases "pool_do n net fn (Suc tried) stale p3 w2") (subst pool_do.simps, simp add: k a)
  qed
qed

text \<open>
  C35. A call finds the endpoint that answers: in a pool where one endpoint is on the configured chain, not
  disabled, and answers, an ordinary call returns an answer, whichever endpoint is active, however the
  others fail, and whether or not the primary is probed on the way.
\<close>

theorem pool_call_finds_endpoint:
  assumes "serving (plChainID p) g net fn" "g < length (plMembers p)" "\<not> Disabled p g"
    "plActive p < length (plMembers p)" "0 < plCooldown p"
  shows "\<exists>v calls p' w'. pool_call net fn p w = (Inr v, calls, p', w')"
proof -
  have "\<not> isl (fst (pool_call net fn p w))"
    unfolding pool_call_def by (rule pool_do_finds [OF assms(1)]) (use assms in \<open>auto simp: serving_pool_def\<close>)
  then show ?thesis by (metis isl_def prod_cases4 fst_conv sum.exhaust)
qed


lemma three_serving: "serving 42161 2 (quiet_world chain_of_three) third_answers"
  by (simp add: serving_def quiet_world_def chain_of_three_def third_answers_def)

theorem pool_call_finds_endpoint_witness:
  "\<exists>v calls p' w'. pool_call (quiet_world chain_of_three) third_answers three_endpoints () = (Inr v, calls, p', w')"
  by (rule pool_call_finds_endpoint [where g = 2])
    (simp_all add: three_fields three_serving Disabled_def pool_newEndpoint_def newEndpoint_def Let_def)

section \<open>The policy of an operation\<close>

text \<open>An unlimited primary with a paced fallback, and a world in which another caller fails over in between.\<close>

definition mixed_pool :: Pool where
  "mixed_pool = NewPool 0
     \<lparr>pcChainID = 42161,
      pcEndpoints = [\<lparr>ecWSURL = [], ecArchive = False, ecCallsPerSecond = 0\<rparr>, \<lparr>ecWSURL = [], ecArchive = False, ecCallsPerSecond = 5\<rparr>],
      pcBatchSize = 100, pcCooldown = 60\<rparr>"

definition failing_over :: "unit world" where
  "failing_over = (quiet_world (\<lambda>i. 42161))\<lparr>wdOthers := (\<lambda>p w. (snd (failOver 1000 0 p), w))\<rparr>"


end
