(* ===== verification/History_Series.thy ===== *)
theory History_Series
  imports Rewind_Laws
begin

text \<open>
  The history the API serves (\<open>internal/api/series.go\<close>): the points of a range, the missing ranges that
  qualify them, and the band of the compute rate inside a point.

  A share of a point, a \<open>float64\<close> in the code, is a rational number. A row's NULL list and its empty one
  are the same list, as in the rows themselves. The cache headers of a range are left out.
\<close>

section \<open>Ranges\<close>

definition maxBlockPoints :: nat where "maxBlockPoints = 2000"
definition stepDownWidth :: duration where "stepDownWidth = 5 * Second"
definition resolutionBlock :: string where "resolutionBlock = ''block''"
definition resolutionStepped :: string where "resolutionStepped = ''5s''"
definition SeriesComplete :: string where "SeriesComplete = ''complete''"
definition SeriesPartial :: string where "SeriesPartial = ''partial''"
definition SeriesUnknown :: string where "SeriesUnknown = ''unknown''"

record seriesRange =
  srName :: string
  srDuration :: duration
  srResolution :: string
  srBatchStep :: duration
  srBatchResolution :: string
  srL1Step :: duration
  srSpreadUnit :: duration

definition series_ranges :: "(string \<times> seriesRange) list" where
  "series_ranges =
     [(''1h'', \<lparr>srName = ''1h'', srDuration = 3600 * Second, srResolution = [], srBatchStep = 0,
        srBatchResolution = ''batch'', srL1Step = Second, srSpreadUnit = Second\<rparr>),
      (''24h'', \<lparr>srName = ''24h'', srDuration = 24 * 3600 * Second, srResolution = Resolution1m, srBatchStep = 60 * Second,
        srBatchResolution = Resolution1m, srL1Step = 60 * Second, srSpreadUnit = Second\<rparr>),
      (''30d'', \<lparr>srName = ''30d'', srDuration = 30 * 24 * 3600 * Second, srResolution = Resolution15m,
        srBatchStep = 15 * 60 * Second, srBatchResolution = Resolution15m, srL1Step = 15 * 60 * Second, srSpreadUnit = 60 * Second\<rparr>),
      (''all'', \<lparr>srName = ''all'', srDuration = 0, srResolution = Resolution1h, srBatchStep = 3600 * Second,
        srBatchResolution = Resolution1h, srL1Step = 3600 * Second, srSpreadUnit = 15 * 60 * Second\<rparr>)]"

definition parseRange :: "string \<Rightarrow> seriesRange option" where
  "parseRange raw = map_of series_ranges (if raw = [] then ''1h'' else raw)"

definition series_window :: "seriesRange \<Rightarrow> gotime \<Rightarrow> gotime \<times> gotime" where
  "series_window r now = (if srDuration r = 0 then (unix_time 0, now + Second) else (now - srDuration r, now + Second))"

definition series_bounds :: "seriesRange \<Rightarrow> gotime \<Rightarrow> gotime \<Rightarrow> i64 \<Rightarrow> bool \<Rightarrow> i64 \<times> i64" where
  "series_bounds r from to first indexed =
     (if srDuration r = 0 then (if indexed then first else Unix to, Unix to) else (Unix from, Unix to))"

section \<open>Points\<close>

record SeriesPoint =
  spT :: i64
  spBlocks :: i64
  spGasUsed :: u64
  spPosterGas :: "u64 option"
  spGasPerSecond :: u64
  spComputeGasPerSecond :: "u64 option"
  spComputeMin :: "u64 option"
  spComputeMax :: "u64 option"
  spCoverage :: "rat option"
  spCompleteness :: string
  spFeesWei :: string
  spPosterFeesWei :: "string option"
  spBaseFeeMin :: string
  spBaseFeeAvg :: string
  spBaseFeeMax :: string
  spExponentBips :: i64
  spConstraintBips :: "i64 list option"
  spBacklogs :: "u64 list"
  spBacklogsMax :: "u64 list"
  spMinBaseFee :: "string option"
  spFloorFeesWei :: "string option"
  spSurplusFeesWei :: "string option"
  spConstraintSetID :: i64
  spReplayErrorBips :: i64
  spArbOSVersionMin :: "u64 option"
  spArbOSVersionMax :: "u64 option"
  spReplayFidelity :: string

definition wei_text :: "bigint option \<Rightarrow> string option" where
  "wei_text v = map_option big_String v"

definition uint64Ptr :: "i64 option \<Rightarrow> u64 option" where
  "uint64Ptr v = (case v of None \<Rightarrow> None | Some x \<Rightarrow> if x < 0 then None else Some (u64_of_i64 x))"

definition api_setSize :: "ConstraintSet \<Rightarrow> int" where
  "api_setSize cs = (case csConstraints cs of None \<Rightarrow> - 1 | Some entries \<Rightarrow> int (length entries))"

definition setIDAt :: "ConstraintSet list \<Rightarrow> u64 \<Rightarrow> nat \<Rightarrow> i64" where
  "setIDAt sets number backlogs =
     foldl (\<lambda>found cs. if csEffectiveBlock cs \<le> number \<and> api_setSize cs = int backlogs then csID cs else found) 0 sets"

definition replayModel :: "i64 \<Rightarrow> Model" where
  "replayModel setID = (if 0 < setID then ModelConstraints else ModelUnknown)"

definition replayFidelityForModel :: "Model \<Rightarrow> u64 option \<Rightarrow> u64 option \<Rightarrow> string" where
  "replayFidelityForModel mdl low high = ReplayFidelity low high (VerifiedRange mdl)"

definition replayFidelity :: "i64 \<Rightarrow> u64 option \<Rightarrow> u64 option \<Rightarrow> string" where
  "replayFidelity setID low high = replayFidelityForModel (replayModel setID) low high"

text \<open>The sets in force in a window: the latest one before it and every later one.\<close>

definition setsInForce :: "ConstraintSet list \<Rightarrow> gotime \<Rightarrow> ConstraintSet list" where
  "setsInForce sets from =
     (let step = (\<lambda>(out, before) cs.
            if csEffectiveAt cs < from then (out, Some cs)
            else ((case before of Some b \<Rightarrow> if out = [] then [b] else out | None \<Rightarrow> out) @ [cs], before));
          result = foldl step ([], None) sets
      in (case snd result of Some b \<Rightarrow> if fst result = [] then [b] else fst result | None \<Rightarrow> fst result))"

section \<open>The part of a point that is covered\<close>

text \<open>The zero time stands for no live start.\<close>

definition coveredSpan :: "gotime \<Rightarrow> duration \<Rightarrow> gotime \<Rightarrow> gotime \<Rightarrow> duration" where
  "coveredSpan start width now liveStart =
     (let finish = start + width;
          covStart = (if start < liveStart \<and> liveStart < finish then liveStart else start);
          covEnd = (if now < finish then now else finish)
      in min (covEnd - covStart) width)"

definition coverage_of :: "duration \<Rightarrow> duration \<Rightarrow> u64 \<times> rat" where
  "coverage_of cspan width = (max (word_of_int (cspan div Second)) 1, of_int cspan / of_int width)"

definition measuredCoverage :: "rat \<Rightarrow> rat option \<times> string" where
  "measuredCoverage share = (Some share, if share < 1 then SeriesPartial else SeriesComplete)"

definition computeRate :: "u64 \<Rightarrow> i64 option \<Rightarrow> u64 \<Rightarrow> u64 option" where
  "computeRate gas poster secs =
     (case poster of
        None \<Rightarrow> None
      | Some g \<Rightarrow> if g < 0 \<or> gas < u64_of_i64 g \<or> secs = 0 then None else Some ((gas - u64_of_i64 g) div secs))"

definition bucket_average :: "Bucket \<Rightarrow> string" where
  "bucket_average b =
     (case kBaseFeeSum b of
        Some whole_sum \<Rightarrow> if 0 < kBlocks b then big_String (whole_sum div kBlocks b) else big_String (kBaseFeeAvg b)
      | None \<Rightarrow> big_String (kBaseFeeAvg b))"

definition bucketPoint :: "Bucket \<Rightarrow> duration \<Rightarrow> gotime \<Rightarrow> gotime \<Rightarrow> SeriesPoint option" where
  "bucketPoint b width now liveStart =
     (let cspan = coveredSpan (kBucketStart b) width now liveStart;
          secs = fst (coverage_of cspan width);
          setID = (case kConstraintSetID b of None \<Rightarrow> 0 | Some x \<Rightarrow> x);
          measured = measuredCoverage (snd (coverage_of cspan width));
          split = (\<lambda>v. if kPosterGas b = None then None else wei_text v);
          low = uint64Ptr (kArbOSVersionMin b); high = uint64Ptr (kArbOSVersionMax b)
      in if cspan \<le> 0 then None
         else Some
           \<lparr>spT = Unix (kBucketStart b), spBlocks = kBlocks b, spGasUsed = kGasUsed b, spPosterGas = uint64Ptr (kPosterGas b),
            spGasPerSecond = kGasUsed b div secs, spComputeGasPerSecond = computeRate (kGasUsed b) (kPosterGas b) secs,
            spComputeMin = None, spComputeMax = None, spCoverage = fst measured, spCompleteness = snd measured,
            spFeesWei = big_String (kFeesWei b), spPosterFeesWei = split (kPosterFeesWei b),
            spBaseFeeMin = big_String (kBaseFeeMin b), spBaseFeeAvg = bucket_average b, spBaseFeeMax = big_String (kBaseFeeMax b),
            spExponentBips = kExponentEndBips b, spConstraintBips = kConstraintBipsEnd b, spBacklogs = kBacklogsEnd b,
            spBacklogsMax = kBacklogsMax b, spMinBaseFee = wei_text (kMinBaseFee b),
            spFloorFeesWei = split (kFloorFeesWei b), spSurplusFeesWei = split (kSurplusFeesWei b),
            spConstraintSetID = setID, spReplayErrorBips = kReplayErrorBips b,
            spArbOSVersionMin = low, spArbOSVersionMax = high, spReplayFidelity = replayFidelity setID low high\<rparr>)"

section \<open>Points per block\<close>

text \<open>The gas of the second of a block, over all the blocks of it.\<close>

definition second_gas :: "(db_block \<Rightarrow> u64) \<Rightarrow> db_block list \<Rightarrow> i64 \<Rightarrow> u64" where
  "second_gas g blocks second = sum_list (map g (filter (\<lambda>b. Unix (bTS b) = second) blocks))"

definition compute_gas :: "db_block \<Rightarrow> u64" where
  "compute_gas b = bGasUsed b - posterGasOf b"

definition second_compute :: "db_block list \<Rightarrow> i64 \<Rightarrow> u64 option" where
  "second_compute blocks second =
     (if \<exists>b\<in>set blocks. Unix (bTS b) = second \<and> \<not> posterKnown b then None
      else Some (second_gas (\<lambda>b. if posterKnown b then compute_gas b else 0) blocks second))"

definition posterFees :: "db_block \<Rightarrow> bigint" where
  "posterFees b = bBaseFee b * uint (posterGasOf b)"

definition blockPoint :: "db_block list \<Rightarrow> ConstraintSet list \<Rightarrow> db_block \<Rightarrow> SeriesPoint" where
  "blockPoint blocks sets b =
     (let second = Unix (bTS b); arbos = uint64Ptr (bArbOSVersion b); setID = setIDAt sets (bNumber b) (length (bBacklogs b));
          fee = big_String (bBaseFee b)
      in \<lparr>spT = second, spBlocks = 1, spGasUsed = bGasUsed b, spPosterGas = uint64Ptr (bPosterGas b),
          spGasPerSecond = second_gas bGasUsed blocks second, spComputeGasPerSecond = second_compute blocks second,
          spComputeMin = None, spComputeMax = None,
          spCoverage = fst (measuredCoverage 1), spCompleteness = snd (measuredCoverage 1),
          spFeesWei = big_String (bBaseFee b * uint (bGasUsed b)),
          spPosterFeesWei = (if posterKnown b then Some (big_String (posterFees b)) else None),
          spBaseFeeMin = fee, spBaseFeeAvg = fee, spBaseFeeMax = fee,
          spExponentBips = bExponentBips b, spConstraintBips = Some (bConstraintBips b), spBacklogs = bBacklogs b,
          spBacklogsMax = bBacklogs b, spMinBaseFee = wei_text (bMinBaseFee b),
          spFloorFeesWei = (if DestinationsKnown b then Some (big_String (floorFees b)) else None),
          spSurplusFeesWei = (if DestinationsKnown b then Some (big_String (computeFees b - floorFees b)) else None),
          spConstraintSetID = setID, spReplayErrorBips = ReplayErrorBips b,
          spArbOSVersionMin = arbos, spArbOSVersionMax = arbos, spReplayFidelity = replayFidelity setID arbos arbos\<rparr>)"

definition blockPoints :: "db_block list \<Rightarrow> ConstraintSet list \<Rightarrow> SeriesPoint list" where
  "blockPoints blocks sets = map (blockPoint blocks sets) blocks"

definition blockNumbers :: "db_block list \<Rightarrow> u64 list" where
  "blockNumbers blocks = map bNumber blocks"


section \<open>Stepping down\<close>

record acc =
  aStart :: i64
  aLast :: i64
  aLastBlock :: u64
  aBlocks :: i64
  aGas :: u64
  aPosterGas :: u64
  aUnknownPoster :: bool
  aSum :: bigint
  aFees :: bigint
  aFloor :: bigint
  aPosterFees :: bigint
  aUnknownDestinations :: bool
  aUnknownPricing :: bool
  aMinFee :: "bigint option"
  aMaxFee :: "bigint option"
  aExponent :: i64
  aConstraintBips :: "i64 list option"
  aBacklogs :: "u64 list"
  aMaxBacklog :: "u64 list"
  aMinBaseFee :: "string option"
  aSetID :: i64
  aReplayModel :: Model
  aErrBips :: i64
  aArbosMin :: u64
  aArbosMax :: u64
  aHaveArbOS :: bool
  aUnknownArbOS :: bool
  aCutoff :: i64
  aSecond :: i64
  aSecondGas :: u64
  aSecondUnknown :: bool
  aSeconds :: int
  aVoided :: bool
  aMinRate :: u64
  aMaxRate :: u64

definition new_acc :: "i64 \<Rightarrow> gotime \<Rightarrow> acc" where
  "new_acc start now =
     \<lparr>aStart = start, aLast = 0, aLastBlock = 0, aBlocks = 0, aGas = 0, aPosterGas = 0, aUnknownPoster = False, aSum = 0, aFees = 0,
      aFloor = 0, aPosterFees = 0, aUnknownDestinations = False, aUnknownPricing = False, aMinFee = None, aMaxFee = None,
      aExponent = 0, aConstraintBips = None, aBacklogs = [], aMaxBacklog = [], aMinBaseFee = None, aSetID = 0,
      aReplayModel = ModelUnknown, aErrBips = 0, aArbosMin = 0, aArbosMax = 0, aHaveArbOS = False, aUnknownArbOS = False,
      aCutoff = Unix (Truncate now Second), aSecond = 0, aSecondGas = 0, aSecondUnknown = False, aSeconds = 0, aVoided = False,
      aMinRate = 0, aMaxRate = 0\<rparr>"

definition closeSecond :: "acc \<Rightarrow> acc" where
  "closeSecond a =
     (if aSecond a = 0 then a
      else
        let a = (if aSecondUnknown a then a\<lparr>aVoided := True\<rparr>
                 else if aSeconds a = 0 then a\<lparr>aMinRate := aSecondGas a, aMaxRate := aSecondGas a, aSeconds := aSeconds a + 1\<rparr>
                 else a\<lparr>aMinRate := min (aMinRate a) (aSecondGas a), aMaxRate := max (aMaxRate a) (aSecondGas a),
                        aSeconds := aSeconds a + 1\<rparr>)
        in a\<lparr>aSecond := 0, aSecondGas := 0, aSecondUnknown := False\<rparr>)"

definition acc_rate :: "db_block \<Rightarrow> acc \<Rightarrow> acc" where
  "acc_rate b a =
     (let second = Unix (bTS b) in
      if aCutoff a \<le> second then a
      else let a = (if second \<noteq> aSecond a then (closeSecond a)\<lparr>aSecond := second\<rparr> else a)
           in if posterKnown b then a\<lparr>aSecondGas := aSecondGas a + compute_gas b\<rparr> else a\<lparr>aSecondUnknown := True\<rparr>)"

definition acc_addArbOS :: "i64 option \<Rightarrow> acc \<Rightarrow> acc" where
  "acc_addArbOS v a =
     (if aUnknownArbOS a then a
      else case uint64Ptr v of
             None \<Rightarrow> a\<lparr>aArbosMin := 0, aArbosMax := 0, aUnknownArbOS := True\<rparr>
           | Some version \<Rightarrow>
               if \<not> aHaveArbOS a then a\<lparr>aArbosMin := version, aArbosMax := version, aHaveArbOS := True\<rparr>
               else a\<lparr>aArbosMin := min (aArbosMin a) version, aArbosMax := max (aArbosMax a) version\<rparr>)"

definition acc_arbosRange :: "acc \<Rightarrow> u64 option \<times> u64 option" where
  "acc_arbosRange a = (if aUnknownArbOS a \<or> \<not> aHaveArbOS a then (None, None) else (Some (aArbosMin a), Some (aArbosMax a)))"

text \<open>The statements of \<open>add\<close>, in their order.\<close>

definition acc_model :: "i64 \<Rightarrow> acc \<Rightarrow> acc" where
  "acc_model setID a =
     (if aBlocks a = 0 then a\<lparr>aReplayModel := replayModel setID\<rparr>
      else if aReplayModel a \<noteq> replayModel setID then a\<lparr>aReplayModel := ModelUnknown\<rparr> else a)"

definition acc_fees :: "db_block \<Rightarrow> acc \<Rightarrow> acc" where
  "acc_fees b a =
     a\<lparr>aMinFee := (if aBlocks a = 0 \<or> (case aMinFee a of None \<Rightarrow> True | Some v \<Rightarrow> bBaseFee b < v) then Some (bBaseFee b) else aMinFee a),
       aMaxFee := (case aMaxFee a of None \<Rightarrow> Some (bBaseFee b) | Some v \<Rightarrow> if v < bBaseFee b then Some (bBaseFee b) else Some v)\<rparr>"

definition acc_totals :: "db_block \<Rightarrow> acc \<Rightarrow> acc" where
  "acc_totals b a =
     a\<lparr>aBlocks := i64_wrap (aBlocks a + 1), aLast := max (aLast a) (Unix (bTS b)), aLastBlock := max (aLastBlock a) (bNumber b),
       aGas := aGas a + bGasUsed b, aSum := aSum a + bBaseFee b, aFees := aFees a + bBaseFee b * uint (bGasUsed b)\<rparr>"

definition acc_poster :: "db_block \<Rightarrow> acc \<Rightarrow> acc" where
  "acc_poster b a =
     (if posterKnown b then a\<lparr>aPosterGas := aPosterGas a + posterGasOf b, aPosterFees := aPosterFees a + posterFees b\<rparr>
      else a\<lparr>aUnknownPoster := True\<rparr>)"

definition acc_destinations :: "db_block \<Rightarrow> acc \<Rightarrow> acc" where
  "acc_destinations b a =
     (if DestinationsKnown b then a\<lparr>aFloor := aFloor a + floorFees b\<rparr> else a\<lparr>aUnknownDestinations := True\<rparr>)"

definition acc_ends :: "db_block \<Rightarrow> i64 \<Rightarrow> acc \<Rightarrow> acc" where
  "acc_ends b setID a =
     a\<lparr>aUnknownPricing := aUnknownPricing a \<or> \<not> Known b, aExponent := bExponentBips b, aConstraintBips := Some (bConstraintBips b),
       aMinBaseFee := wei_text (bMinBaseFee b), aBacklogs := bBacklogs b, aMaxBacklog := max_backlogs (aMaxBacklog a) (bBacklogs b),
       aSetID := setID, aErrBips := max (aErrBips a) (ReplayErrorBips b)\<rparr>"

definition acc_add :: "db_block \<Rightarrow> i64 \<Rightarrow> acc \<Rightarrow> acc" where
  "acc_add b setID a =
     acc_addArbOS (bArbOSVersion b) (acc_ends b setID (acc_destinations b (acc_poster b (acc_totals b (acc_fees b
       (acc_rate b (acc_model setID a)))))))"

definition acc_point :: "duration \<Rightarrow> gotime \<Rightarrow> acc \<Rightarrow> SeriesPoint" where
  "acc_point width now a0 =
     (let finish = unix_time (aLast a0 + 1);
          finish = (if finish < now then now else finish);
          cov = coverage_of (coveredSpan (unix_time (aStart a0)) width finish 0) width;
          measured = measuredCoverage (snd cov);
          a = closeSecond a0;
          versions = acc_arbosRange a
      in \<lparr>spT = aStart a, spBlocks = aBlocks a, spGasUsed = aGas a,
          spPosterGas = (if aUnknownPoster a then None else Some (aPosterGas a)),
          spGasPerSecond = aGas a div fst cov,
          spComputeGasPerSecond = (if aUnknownPoster a then None else Some ((aGas a - aPosterGas a) div fst cov)),
          spComputeMin = (if 0 < aSeconds a \<and> \<not> aVoided a then Some (aMinRate a) else None),
          spComputeMax = (if 0 < aSeconds a \<and> \<not> aVoided a then Some (aMaxRate a) else None),
          spCoverage = fst measured, spCompleteness = snd measured,
          spFeesWei = big_String (aFees a), spPosterFeesWei = (if aUnknownPoster a then None else Some (big_String (aPosterFees a))),
          spBaseFeeMin = big_String (wei_of (aMinFee a)), spBaseFeeAvg = big_String (aSum a div aBlocks a),
          spBaseFeeMax = big_String (wei_of (aMaxFee a)), spExponentBips = aExponent a,
          spConstraintBips = (if aUnknownPricing a then None else aConstraintBips a), spBacklogs = aBacklogs a,
          spBacklogsMax = aMaxBacklog a, spMinBaseFee = (if aUnknownPricing a then None else aMinBaseFee a),
          spFloorFeesWei = (if aUnknownDestinations a then None else Some (big_String (aFloor a))),
          spSurplusFeesWei = (if aUnknownDestinations a then None else Some (big_String (aFees a - aFloor a - aPosterFees a))),
          spConstraintSetID = aSetID a, spReplayErrorBips = aErrBips a,
          spArbOSVersionMin = fst versions, spArbOSVersionMax = snd versions,
          spReplayFidelity = replayFidelityForModel (aReplayModel a) (fst versions) (snd versions)\<rparr>)"

text \<open>
  A step that is closed: its point, its highest block and how many of its seconds were rated. The seconds
  are read after \<open>point\<close> has closed the last one.
\<close>

definition close_step :: "gotime \<Rightarrow> acc \<Rightarrow> SeriesPoint \<times> u64 \<times> i64" where
  "close_step now a = (acc_point stepDownWidth now a, aLastBlock a, aSeconds (closeSecond a))"

definition step_start :: "db_block \<Rightarrow> i64" where
  "step_start b = Unix (bTS b) sdiv (stepDownWidth div Second) * (stepDownWidth div Second)"

fun step_down :: "ConstraintSet list \<Rightarrow> gotime \<Rightarrow> acc option \<Rightarrow> db_block list \<Rightarrow> (SeriesPoint \<times> u64 \<times> i64) list" where
  "step_down sets now cur [] = (case cur of None \<Rightarrow> [] | Some a \<Rightarrow> [close_step now a])"
| "step_down sets now cur (b # bs) =
     (let set_id = setIDAt sets (bNumber b) (length (bBacklogs b)) in
      case cur of
        Some a \<Rightarrow>
          if aStart a = step_start b then step_down sets now (Some (acc_add b set_id a)) bs
          else close_step now a # step_down sets now (Some (acc_add b set_id (new_acc (step_start b) now))) bs
      | None \<Rightarrow> step_down sets now (Some (acc_add b set_id (new_acc (step_start b) now))) bs)"

definition stepDown :: "db_block list \<Rightarrow> ConstraintSet list \<Rightarrow> gotime \<Rightarrow> (SeriesPoint \<times> u64 \<times> i64) list" where
  "stepDown blocks sets now = step_down sets now None blocks"

section \<open>The band of a point\<close>

definition settleBand :: "i64 \<Rightarrow> i64 \<Rightarrow> i64 \<Rightarrow> SeriesPoint \<Rightarrow> SeriesPoint" where
  "settleBand measured units oldest p =
     (if spComputeMin p = None then p
      else if spCompleteness p \<noteq> SeriesComplete \<or> spT p < oldest then p\<lparr>spComputeMin := None, spComputeMax := None\<rparr>
      else if measured < units then p\<lparr>spComputeMin := Some 0\<rparr> else p)"

definition spreadSeconds :: "duration \<Rightarrow> SeriesPoint list \<Rightarrow> i64 option" where
  "spreadSeconds unit points =
     (if unit \<le> 0 \<or> \<not> list_ex (\<lambda>p. spComputeMin p \<noteq> None) points then None else Some (unit div Second))"

definition blockRowFloor :: "u64 \<Rightarrow> duration \<Rightarrow> MemStore \<Rightarrow> store_error + i64" where
  "blockRowFloor chainID unit m =
     (if unit \<noteq> Second then Inr 0
      else map_sum id (\<lambda>row. case row of None \<Rightarrow> MaxInt64 | Some b \<Rightarrow> Unix (bTS b)) (OldestBlock chainID m))"

definition banded :: "RateSpread list \<Rightarrow> i64 \<Rightarrow> i64 \<Rightarrow> SeriesPoint \<Rightarrow> SeriesPoint" where
  "banded spreads units oldest p =
     (case List.find (\<lambda>s. Unix (rsStart s) = spT p) (rev spreads) of
        None \<Rightarrow> p
      | Some s \<Rightarrow> settleBand (rsUnits s) units oldest
          (p\<lparr>spComputeMin := Some (u64_of_i64 (max (rsMinRate s) 0)), spComputeMax := Some (u64_of_i64 (max (rsMaxRate s) 0))\<rparr>))"

text \<open>The points with their band and the unit it is measured over.\<close>

definition addRateSpread ::
  "u64 \<Rightarrow> gotime \<Rightarrow> gotime \<Rightarrow> duration \<Rightarrow> duration \<Rightarrow> gotime \<Rightarrow> SeriesPoint list \<Rightarrow> MemStore \<Rightarrow> store_error + (SeriesPoint list \<times> i64 option)" where
  "addRateSpread chainID from to width unit now points m =
     (if unit \<le> 0 \<or> width \<le> unit then Inr (points, None)
      else
        let whole = Truncate now unit; to = (if whole < to then whole else to) in
        bind_err (ComputeRateSpread chainID from to width unit m) (\<lambda>spreads.
        bind_err (blockRowFloor chainID unit m) (\<lambda>oldest.
          let points = map (banded spreads (width div unit) oldest) points in Inr (points, spreadSeconds unit points))))"


section \<open>Missing ranges on the clock\<close>

type_synonym missingInterval = "gotime \<times> gotime"
type_synonym blockSpan = "u64 \<times> u64"

record missingTimeline =
  mtBounded :: "missingInterval list"
  mtUnlocated :: "blockSpan list"

text \<open>The still-missing suffix of a range with what is known about the time on either side.\<close>

definition remainingMissingBounds :: "MissingRange \<Rightarrow> (u64 \<times> gotime option \<times> gotime option) option" where
  "remainingMissingBounds r =
     (let advanced = rFrom r < rCursor r; start = (if advanced then rCursor r else rFrom r) in
      if rTo r < start then None
      else Some (start, if advanced then rCursorAt r else rPredecessorAt r, rSuccessorAt r))"

text \<open>Sorted by start, then by end; an interval joins the one before it unless it starts after that one's end.\<close>

fun merge_sorted :: "missingInterval list \<Rightarrow> missingInterval list" where
  "merge_sorted [] = []"
| "merge_sorted [x] = [x]"
| "merge_sorted ((a, b) # (c, d) # rest) =
     (if b < c then (a, b) # merge_sorted ((c, d) # rest) else merge_sorted ((a, if b < d then d else b) # rest))"

definition mergeMissingIntervals :: "missingInterval list \<Rightarrow> missingInterval list" where
  "mergeMissingIntervals intervals = merge_sorted (sort_key fst (sort_key snd intervals))"

fun split_missing :: "(u64 \<times> gotime option \<times> gotime option) list \<Rightarrow> u64 list \<Rightarrow> missingInterval list \<times> blockSpan list" where
  "split_missing ((start, lower, upper) # bs) (to # tos) =
     (let rest = split_missing bs tos in
      case (lower, upper) of
        (Some l, Some u) \<Rightarrow> if \<not> u < l then ((l, u) # fst rest, snd rest) else (fst rest, (start, to) # snd rest)
      | _ \<Rightarrow> (fst rest, (start, to) # snd rest))"
| "split_missing _ _ = ([], [])"

definition newMissingTimeline :: "MissingRange list \<Rightarrow> missingTimeline" where
  "newMissingTimeline ranges =
     (let active = filter (\<lambda>r. remainingMissingBounds r \<noteq> None) ranges;
          parts = split_missing (map (\<lambda>r. the (remainingMissingBounds r)) active) (map rTo active)
      in \<lparr>mtBounded = mergeMissingIntervals (fst parts), mtUnlocated = snd parts\<rparr>)"

text \<open>The run of points of one second around an index.\<close>

fun widen_down :: "i64 list \<Rightarrow> nat \<Rightarrow> nat" where
  "widen_down ts 0 = 0"
| "widen_down ts (Suc i) = (if ts ! i = ts ! Suc i then widen_down ts i else Suc i)"

fun widen_up :: "i64 list \<Rightarrow> nat \<Rightarrow> nat \<Rightarrow> nat" where
  "widen_up ts 0 i = i"
| "widen_up ts (Suc left) i = (if ts ! Suc i = ts ! i then widen_up ts left (Suc i) else i)"

text \<open>The points one range without times can overlap; \<open>sort.Search\<close> is the first index on an ascending list.\<close>

definition span_points :: "i64 list \<Rightarrow> u64 list \<Rightarrow> blockSpan \<Rightarrow> nat \<times> nat" where
  "span_points ts numbers s =
     (let final = length ts - 1;
          hi = min (length (takeWhile (\<lambda>n. n < snd s) numbers)) final;
          lo = min (length (takeWhile (\<lambda>n. \<not> fst s < n) numbers) - 1) hi
      in (widen_down ts lo, widen_up ts (final - hi) hi))"

definition unlocatedPoints :: "blockSpan list \<Rightarrow> i64 list \<Rightarrow> u64 list \<Rightarrow> bool list" where
  "unlocatedPoints spans ts numbers =
     (if spans = [] \<or> ts = [] then replicate (length ts) False
      else if length numbers \<noteq> length ts \<or> \<not> sorted numbers then replicate (length ts) True
      else map (\<lambda>i. list_ex (\<lambda>s. case span_points ts numbers s of (lo, hi) \<Rightarrow> lo \<le> i \<and> i \<le> hi) spans) [0..<length ts])"

text \<open>The merged intervals a window meets, and how much of the window they take.\<close>

definition meeting :: "missingInterval list \<Rightarrow> gotime \<Rightarrow> gotime \<Rightarrow> missingInterval list" where
  "meeting bounded start finish = takeWhile (\<lambda>x. fst x < finish) (dropWhile (\<lambda>x. snd x < start) bounded)"

definition missing_time :: "missingInterval list \<Rightarrow> gotime \<Rightarrow> gotime \<Rightarrow> duration" where
  "missing_time met start finish = sum_list (map (\<lambda>x. max (min finish (snd x) - max start (fst x)) 0) met)"

text \<open>The rates of a point over what is covered of it.\<close>

definition rate_over :: "duration \<Rightarrow> SeriesPoint \<Rightarrow> SeriesPoint" where
  "rate_over cspan p =
     (if cspan \<le> 0
      then p\<lparr>spGasPerSecond := 0, spComputeGasPerSecond := map_option (\<lambda>_. 0) (spComputeGasPerSecond p)\<rparr>
      else
        let seconds = max (word_of_int (cspan div Second)) 1
        in p\<lparr>spGasPerSecond := spGasUsed p div seconds,
             spComputeGasPerSecond :=
               (case (spComputeGasPerSecond p, spPosterGas p) of
                  (Some _, Some g) \<Rightarrow> if g \<le> spGasUsed p then Some ((spGasUsed p - g) div seconds) else spComputeGasPerSecond p
                | _ \<Rightarrow> spComputeGasPerSecond p)\<rparr>)"

definition qualify_point :: "missingInterval list \<Rightarrow> duration \<Rightarrow> bool \<Rightarrow> bool \<Rightarrow> SeriesPoint \<Rightarrow> SeriesPoint" where
  "qualify_point bounded width adjust uncertain p =
     (let start = unix_time (spT p); finish = start + width;
          met = meeting bounded start finish; known = met \<noteq> []; missing = missing_time met start finish;
          q = p\<lparr>spCompleteness := (if known then SeriesPartial
                                  else if spCompleteness p = SeriesComplete then SeriesUnknown else spCompleteness p)\<rparr>
      in if \<not> known \<and> \<not> uncertain then p
         else if \<not> adjust then q
         else if uncertain \<or> (case spCoverage p of None \<Rightarrow> True | Some c \<Rightarrow> c < 1) then q\<lparr>spCoverage := None\<rparr>
         else
           let cspan = max (width - missing) 0
           in rate_over cspan (q\<lparr>spCoverage := Some (of_int cspan / of_int width)\<rparr>))"

definition qualify :: "missingTimeline \<Rightarrow> u64 list \<Rightarrow> duration \<Rightarrow> bool \<Rightarrow> SeriesPoint list \<Rightarrow> SeriesPoint list" where
  "qualify gaps numbers width adjust points =
     map (\<lambda>(uncertain, p). qualify_point (mtBounded gaps) width adjust uncertain p)
       (zip (unlocatedPoints (mtUnlocated gaps) (map spT points) numbers) points)"

definition apply_missing :: "missingTimeline \<Rightarrow> u64 list \<Rightarrow> duration \<Rightarrow> SeriesPoint list \<Rightarrow> SeriesPoint list" where
  "apply_missing gaps numbers width points = qualify gaps numbers width True points"

definition mark_missing :: "missingTimeline \<Rightarrow> u64 list \<Rightarrow> SeriesPoint list \<Rightarrow> SeriesPoint list" where
  "mark_missing gaps numbers points = qualify gaps numbers Second False points"

definition bucketWatermarks :: "u64 list \<Rightarrow> u64 list" where
  "bucketWatermarks numbers = (if 0 \<in> set numbers then [] else numbers)"

section \<open>The series\<close>

record model_ConstraintSet =
  mcsID :: i64
  mcsEffectiveBlock :: u64
  mcsEffectiveAt :: string
  mcsSource :: string
  mcsConstraints :: "ConstraintSetEntry list"

record Series =
  seRange :: string
  seResolution :: string
  seFrom :: i64
  seTo :: i64
  seSpreadSeconds :: "i64 option"
  seConstraintSets :: "model_ConstraintSet list"
  seOwnerActions :: "db_OwnerAction list"
  sePoints :: "SeriesPoint list"

definition constraintSetModel :: "ConstraintSet \<Rightarrow> store_error + model_ConstraintSet" where
  "constraintSetModel cs =
     (case csConstraints cs of
        None \<Rightarrow> Inl (BadState ''constraints'')
      | Some entries \<Rightarrow> Inr \<lparr>mcsID = csID cs, mcsEffectiveBlock = csEffectiveBlock cs, mcsEffectiveAt = RFC3339 (csEffectiveAt cs),
                           mcsSource = csSource cs, mcsConstraints = entries\<rparr>)"

definition series_liveStart :: "u64 \<Rightarrow> MemStore \<Rightarrow> store_error + gotime" where
  "series_liveStart chainID m =
     map_sum id (\<lambda>v. case v of
         Some (StateLive ls) \<Rightarrow> if lsTS ls \<le> 0 then 0 else unix_time (lsTS ls)
       | _ \<Rightarrow> 0) (GetState chainID StateLiveStart m)"

definition firstPoint :: "SeriesPoint list \<Rightarrow> i64" where
  "firstPoint points = (case points of [] \<Rightarrow> 0 | p # _ \<Rightarrow> spT p)"

text \<open>The steps of the last hour, when it has too many blocks for a point each.\<close>

definition stepped_points ::
  "missingTimeline \<Rightarrow> ConstraintSet list \<Rightarrow> gotime \<Rightarrow> duration \<Rightarrow> gotime \<Rightarrow> i64 \<Rightarrow> db_block list \<Rightarrow> SeriesPoint list" where
  "stepped_points gaps sets now unit from row_floor blocks =
     (let steps = stepDown blocks sets now;
          points = apply_missing gaps (map (\<lambda>x. fst (snd x)) steps) stepDownWidth (map fst steps);
          oldest = max row_floor (Unix (Truncate (from + (Second - 1)) Second))
      in map (\<lambda>(p, seconds). settleBand seconds (stepDownWidth div unit) oldest p) (zip points (map (\<lambda>x. snd (snd x)) steps)))"

definition block_series ::
  "u64 \<Rightarrow> seriesRange \<Rightarrow> gotime \<Rightarrow> gotime \<Rightarrow> missingTimeline \<Rightarrow> ConstraintSet list \<Rightarrow> gotime \<Rightarrow> MemStore
     \<Rightarrow> store_error + (string \<times> SeriesPoint list \<times> i64 option)" where
  "block_series chainID r from to gaps sets now m =
     bind_err (BlocksBetween chainID from to m) (\<lambda>blocks.
       if maxBlockPoints < length blocks
       then bind_err (blockRowFloor chainID (srSpreadUnit r) m) (\<lambda>oldest.
              let points = stepped_points gaps sets now (srSpreadUnit r) from oldest blocks
              in Inr (resolutionStepped, points, spreadSeconds (srSpreadUnit r) points))
       else Inr (resolutionBlock, mark_missing gaps (blockNumbers blocks) (blockPoints blocks sets), None))"

definition rendered_buckets :: "Bucket list \<Rightarrow> duration \<Rightarrow> gotime \<Rightarrow> gotime \<Rightarrow> (SeriesPoint \<times> u64) list" where
  "rendered_buckets buckets width now liveStart =
     List.map_filter (\<lambda>b. map_option (\<lambda>p. (p, kLastBlock b)) (bucketPoint b width now liveStart)) buckets"

definition bucket_series ::
  "u64 \<Rightarrow> seriesRange \<Rightarrow> gotime \<Rightarrow> gotime \<Rightarrow> missingTimeline \<Rightarrow> gotime \<Rightarrow> MemStore
     \<Rightarrow> store_error + (string \<times> SeriesPoint list \<times> i64 option)" where
  "bucket_series chainID r from to gaps now m =
     bind_err (mem_Buckets chainID (srResolution r) from to m) (\<lambda>buckets.
     bind_err (series_liveStart chainID m) (\<lambda>live.
       let width = Resolutions (srResolution r);
           rendered = rendered_buckets buckets width now live;
           points = apply_missing gaps (bucketWatermarks (map snd rendered)) width (map fst rendered)
       in map_sum id (Pair (srResolution r)) (addRateSpread chainID from to width (srSpreadUnit r) now points m)))"

definition buildSeriesIn :: "u64 \<Rightarrow> seriesRange \<Rightarrow> gotime \<Rightarrow> MemStore \<Rightarrow> store_error + Series" where
  "buildSeriesIn chainID r now m =
     (case series_window r now of (from, to) \<Rightarrow>
        bind_err (mem_ConstraintSets chainID m) (\<lambda>sets.
        bind_err (OwnerActions chainID from to 0 m) (\<lambda>actions.
        bind_err (MissingRanges chainID m) (\<lambda>missing.
        bind_err (each_err constraintSetModel (setsInForce sets from)) (\<lambda>in_force.
        let gaps = newMissingTimeline missing in
        bind_err (if srResolution r = [] then block_series chainID r from to gaps sets now m
                  else bucket_series chainID r from to gaps now m) (\<lambda>(resolution, points, spread).
          let bounds = series_bounds r from to (firstPoint points) (points \<noteq> [])
          in Inr \<lparr>seRange = srName r, seResolution = resolution, seFrom = fst bounds, seTo = snd bounds,
                  seSpreadSeconds = spread, seConstraintSets = in_force, seOwnerActions = actions, sePoints = points\<rparr>))))))"

definition buildSeries :: "u64 \<Rightarrow> seriesRange \<Rightarrow> gotime \<Rightarrow> MemStore \<Rightarrow> store_error + Series" where
  "buildSeries chainID r now = chain_WithSnapshotTx None (\<lambda>_. buildSeriesIn chainID r now)"


section \<open>Missing time is counted once\<close>

definition in_interval :: "gotime \<Rightarrow> missingInterval \<Rightarrow> bool" where
  "in_interval t x \<longleftrightarrow> fst x \<le> t \<and> t \<le> snd x"

definition proper :: "missingInterval list \<Rightarrow> bool" where
  "proper xs \<longleftrightarrow> (\<forall>x\<in>set xs. fst x \<le> snd x)"

definition separated :: "missingInterval list \<Rightarrow> bool" where
  "separated xs \<longleftrightarrow> sorted_wrt (\<lambda>x y. snd x < fst y) xs"

lemma merge_sorted_starts:
  "sorted (map fst xs) \<Longrightarrow> x \<in> set (merge_sorted xs) \<Longrightarrow> fst (hd xs) \<le> fst x"
proof (induction xs rule: merge_sorted.induct)
  case (3 a b c d rest)
  show ?case
  proof (cases "b < c")
    case True
    then show ?thesis using 3 by auto
  next
    case False
    have "sorted (map fst ((a, if b < d then d else b) # rest))" using 3(3) by auto
    then show ?thesis using 3(2) [OF False] 3(4) False by simp
  qed
qed auto

lemma merge_sorted_separated:
  "sorted (map fst xs) \<Longrightarrow> proper xs \<Longrightarrow> separated (merge_sorted xs) \<and> proper (merge_sorted xs)"
proof (induction xs rule: merge_sorted.induct)
  case (3 a b c d rest)
  show ?case
  proof (cases "b < c")
    case True
    have s: "sorted (map fst ((c, d) # rest))" using 3(3) by simp
    then have "\<forall>x\<in>set (merge_sorted ((c, d) # rest)). b < fst x" using True merge_sorted_starts [OF s] by fastforce
    then show ?thesis using 3(1) [OF True s] 3(4) True by (auto simp: separated_def proper_def)
  next
    case False
    have "sorted (map fst ((a, if b < d then d else b) # rest))" "proper ((a, if b < d then d else b) # rest)"
      using 3(3,4) by (auto simp: proper_def)
    then show ?thesis using 3(2) [OF False] False by simp
  qed
qed (auto simp: separated_def proper_def)

lemma merge_sorted_covers:
  "sorted (map fst xs) \<Longrightarrow> proper xs \<Longrightarrow> list_ex (in_interval t) (merge_sorted xs) = list_ex (in_interval t) xs"
proof (induction xs rule: merge_sorted.induct)
  case (3 a b c d rest)
  show ?case
  proof (cases "b < c")
    case True
    then show ?thesis using 3(1) [OF True] 3(3,4) by (auto simp: proper_def)
  next
    case False
    have "sorted (map fst ((a, if b < d then d else b) # rest))" "proper ((a, if b < d then d else b) # rest)"
      using 3(3,4) by (auto simp: proper_def)
    then have "list_ex (in_interval t) (merge_sorted ((a, b) # (c, d) # rest))
        = list_ex (in_interval t) ((a, if b < d then d else b) # rest)" using 3(2) [OF False] False by simp
    moreover have "in_interval t (a, if b < d then d else b) = (in_interval t (a, b) \<or> in_interval t (c, d))"
      using 3(3,4) False by (auto simp: in_interval_def proper_def)
    ultimately show ?thesis by simp
  qed
qed auto

text \<open>The parts of a window that separated intervals take do not overlap.\<close>

lemma missing_time_from:
  assumes "separated xs" "proper xs" "\<forall>x\<in>set xs. start \<le> fst x" "start \<le> finish"
  shows "missing_time xs start finish \<le> finish - start"
  using assms
proof (induction xs arbitrary: start)
  case (Cons x xs)
  show ?case
  proof (cases "finish \<le> snd x")
    case True
    have "max (min finish (snd y) - max start (fst y)) 0 = 0" if "y \<in> set xs" for y
      using Cons.prems that True by (auto simp: separated_def)
    then have "sum_list (map (\<lambda>y. max (min finish (snd y) - max start (fst y)) 0) xs) = 0"
      by (simp add: sum_list_0 cong: map_cong)
    then show ?thesis using Cons.prems True by (simp add: missing_time_def)
  next
    case False
    have later: "\<forall>y\<in>set xs. snd x \<le> fst y" using Cons.prems(1) by (auto simp: separated_def)
    have s: "start \<le> snd x" using Cons.prems(2,3) by (auto simp: proper_def)
    have eq: "missing_time xs start finish = missing_time xs (snd x) finish"
      unfolding missing_time_def using later s by (intro arg_cong [where f = sum_list] map_cong refl) auto
    have "missing_time xs (snd x) finish \<le> finish - snd x"
      using Cons.IH [of "snd x"] Cons.prems later False by (auto simp: separated_def proper_def)
    then have "missing_time xs start finish \<le> finish - snd x" using eq by simp
    moreover have "missing_time (x # xs) start finish = (snd x - fst x) + missing_time xs start finish"
      using False Cons.prems(2,3) by (auto simp: missing_time_def proper_def)
    ultimately show ?thesis using Cons.prems(3) by simp
  qed
qed (simp add: missing_time_def)

lemma missing_time_window:
  "separated xs \<Longrightarrow> proper xs \<Longrightarrow> start \<le> finish \<Longrightarrow> missing_time xs start finish \<le> finish - start"
proof (induction xs)
  case (Cons x rest)
  show ?case
  proof (cases "snd x \<le> start")
    case True
    then have "missing_time (x # rest) start finish = missing_time rest start finish" by (simp add: missing_time_def)
    then show ?thesis using Cons by (auto simp: separated_def proper_def)
  next
    case False
    have "separated ((max start (fst x), snd x) # rest)" "proper ((max start (fst x), snd x) # rest)"
      using Cons.prems False by (auto simp: separated_def proper_def)
    moreover have "\<forall>y\<in>set ((max start (fst x), snd x) # rest). start \<le> fst y" using Cons.prems(1) False by (auto simp: separated_def)
    ultimately have "missing_time ((max start (fst x), snd x) # rest) start finish \<le> finish - start"
      using missing_time_from Cons.prems(3) by blast
    then show ?thesis by (simp add: missing_time_def)
  qed
qed (simp add: missing_time_def)

lemma separated_meeting: "separated xs \<Longrightarrow> separated (meeting xs start finish)"
  unfolding separated_def meeting_def by (simp add: sorted_wrt_dropWhile sorted_wrt_takeWhile)

lemma proper_meeting: "proper xs \<Longrightarrow> proper (meeting xs start finish)"
  by (auto simp: proper_def meeting_def dest: set_takeWhileD set_dropWhileD)

lemma merged:
  assumes "proper xs"
  shows "separated (mergeMissingIntervals xs)" "proper (mergeMissingIntervals xs)"
    "list_ex (in_interval t) (mergeMissingIntervals xs) = list_ex (in_interval t) xs"
proof -
  let ?ys = "sort_key fst (sort_key snd xs)"
  have y: "sorted (map fst ?ys)" "proper ?ys" using assms by (auto simp: proper_def)
  show "separated (mergeMissingIntervals xs)" "proper (mergeMissingIntervals xs)"
    using merge_sorted_separated [OF y] by (auto simp: mergeMissingIntervals_def)
  have "list_ex (in_interval t) ?ys = list_ex (in_interval t) xs" by (simp add: list_ex_iff)
  then show "list_ex (in_interval t) (mergeMissingIntervals xs) = list_ex (in_interval t) xs"
    using merge_sorted_covers [OF y] by (simp add: mergeMissingIntervals_def)
qed

definition located_at :: "gotime \<Rightarrow> MissingRange \<Rightarrow> bool" where
  "located_at t r \<longleftrightarrow>
     (case remainingMissingBounds r of Some (from, Some l, Some u) \<Rightarrow> l \<le> t \<and> t \<le> u | _ \<Rightarrow> False)"

lemma located_bounds: "located_at t r \<Longrightarrow> remainingMissingBounds r \<noteq> None"
  by (cases "remainingMissingBounds r") (simp_all add: located_at_def)

lemma split_missing_proper: "proper (fst (split_missing bs tos))"
  by (induction bs tos rule: split_missing.induct) (auto simp: proper_def Let_def split: option.split)

text \<open>
  C37. Missing time is counted once: the timeline of a network's missing ranges has disjoint intervals that
  cover exactly the times some located range covers, and in every window of a point the time they take
  together is at most the window, so the coverage of a point that is adjusted is a share between zero and
  one of it.
\<close>

theorem missing_counted_once:
  assumes "start \<le> finish"
  shows "separated (mtBounded (newMissingTimeline ranges))
    \<and> list_ex (in_interval t) (mtBounded (newMissingTimeline ranges))
      = list_ex (located_at t) ranges
    \<and> 0 \<le> missing_time (meeting (mtBounded (newMissingTimeline ranges)) start finish) start finish
    \<and> missing_time (meeting (mtBounded (newMissingTimeline ranges)) start finish) start finish \<le> finish - start"
proof -
  define active where "active = filter (\<lambda>r. remainingMissingBounds r \<noteq> None) ranges"
  define xs where "xs = fst (split_missing (map (\<lambda>r. the (remainingMissingBounds r)) active) (map rTo active))"
  have b: "mtBounded (newMissingTimeline ranges) = mergeMissingIntervals xs"
    by (simp add: newMissingTimeline_def Let_def xs_def active_def)
  have p: "proper xs" unfolding xs_def by (rule split_missing_proper)
  have "list_ex (in_interval t) (fst (split_missing (map (\<lambda>r. the (remainingMissingBounds r)) rs) (map rTo rs)))
      = list_ex (located_at t) rs"
    if "\<forall>r\<in>set rs. remainingMissingBounds r \<noteq> None" for rs
    using that by (induction rs) (auto simp: Let_def in_interval_def located_at_def split: option.split)
  then have "list_ex (in_interval t) xs
      = list_ex (located_at t) active"
    by (simp add: xs_def active_def)
  also have "\<dots> = list_ex (located_at t) ranges"
    unfolding active_def list_ex_iff set_filter using located_bounds [of t] by blast
  finally have cover: "list_ex (in_interval t) (mergeMissingIntervals xs)
      = list_ex (located_at t) ranges"
    using merged(3) [OF p] by simp
  have "0 \<le> missing_time (meeting (mergeMissingIntervals xs) start finish) start finish"
    unfolding missing_time_def by (intro sum_list_nonneg) auto
  moreover have "missing_time (meeting (mergeMissingIntervals xs) start finish) start finish \<le> finish - start"
    using missing_time_window [OF separated_meeting proper_meeting assms] merged(1,2) [OF p] by blast
  ultimately show ?thesis using merged(1) [OF p] cover unfolding b by blast
qed


definition gap_row :: "u64 \<Rightarrow> u64 \<Rightarrow> gotime \<Rightarrow> gotime \<Rightarrow> MissingRange" where
  "gap_row from to l u =
     \<lparr>rChainID = 7, rFrom = from, rTo = to, rDetectedAt = 0, rLifecycle = [], rReason = [], rCursor = 0, rReplayState = None,
      rFolded = 0, rRetryCount = 0, rLastAttemptAt = None, rNextRetryAt = None, rLastError = None,
      rPredecessorAt = Some l, rSuccessorAt = Some u, rCursorAt = None, rCreatedAt = 0\<rparr>"

definition two_gaps :: "MissingRange list" where
  "two_gaps = [gap_row 15 30 50 200, gap_row 10 19 10 100]"

lemma merged_gaps: "mtBounded (newMissingTimeline two_gaps) = [(10, 200)]"
  by (simp add: newMissingTimeline_def two_gaps_def gap_row_def remainingMissingBounds_def mergeMissingIntervals_def Let_def)

theorem missing_counted_once_witness:
  "missing_time (meeting (mtBounded (newMissingTimeline two_gaps)) 20 120) 20 120 = 100
    \<and> missing_time (meeting (mtBounded (newMissingTimeline two_gaps)) 20 120) 20 120 \<le> 120 - 20"
  using missing_counted_once [of 20 120 two_gaps 0] by (simp add: merged_gaps meeting_def missing_time_def)

section \<open>The band of a step\<close>

lemma addArbOS_frame:
  "aStart (acc_addArbOS v a) = aStart a"
  "aCutoff (acc_addArbOS v a) = aCutoff a"
  "aGas (acc_addArbOS v a) = aGas a"
  "aPosterGas (acc_addArbOS v a) = aPosterGas a"
  "aUnknownPoster (acc_addArbOS v a) = aUnknownPoster a"
  "aSecond (acc_addArbOS v a) = aSecond a"
  "aSecondGas (acc_addArbOS v a) = aSecondGas a"
  "aSecondUnknown (acc_addArbOS v a) = aSecondUnknown a"
  "aSeconds (acc_addArbOS v a) = aSeconds a"
  "aVoided (acc_addArbOS v a) = aVoided a"
  "aMinRate (acc_addArbOS v a) = aMinRate a"
  "aMaxRate (acc_addArbOS v a) = aMaxRate a"
  by (simp_all add: acc_addArbOS_def split: option.split)

lemma ends_frame:
  "aStart (acc_ends b k a) = aStart a"
  "aCutoff (acc_ends b k a) = aCutoff a"
  "aGas (acc_ends b k a) = aGas a"
  "aPosterGas (acc_ends b k a) = aPosterGas a"
  "aUnknownPoster (acc_ends b k a) = aUnknownPoster a"
  "aSecond (acc_ends b k a) = aSecond a"
  "aSecondGas (acc_ends b k a) = aSecondGas a"
  "aSecondUnknown (acc_ends b k a) = aSecondUnknown a"
  "aSeconds (acc_ends b k a) = aSeconds a"
  "aVoided (acc_ends b k a) = aVoided a"
  "aMinRate (acc_ends b k a) = aMinRate a"
  "aMaxRate (acc_ends b k a) = aMaxRate a"
  by (simp_all add: acc_ends_def)

lemma destinations_frame:
  "aStart (acc_destinations b a) = aStart a"
  "aCutoff (acc_destinations b a) = aCutoff a"
  "aGas (acc_destinations b a) = aGas a"
  "aPosterGas (acc_destinations b a) = aPosterGas a"
  "aUnknownPoster (acc_destinations b a) = aUnknownPoster a"
  "aSecond (acc_destinations b a) = aSecond a"
  "aSecondGas (acc_destinations b a) = aSecondGas a"
  "aSecondUnknown (acc_destinations b a) = aSecondUnknown a"
  "aSeconds (acc_destinations b a) = aSeconds a"
  "aVoided (acc_destinations b a) = aVoided a"
  "aMinRate (acc_destinations b a) = aMinRate a"
  "aMaxRate (acc_destinations b a) = aMaxRate a"
  by (simp_all add: acc_destinations_def)

lemma poster_frame:
  "aStart (acc_poster b a) = aStart a"
  "aCutoff (acc_poster b a) = aCutoff a"
  "aGas (acc_poster b a) = aGas a"
  "aSecond (acc_poster b a) = aSecond a"
  "aSecondGas (acc_poster b a) = aSecondGas a"
  "aSecondUnknown (acc_poster b a) = aSecondUnknown a"
  "aSeconds (acc_poster b a) = aSeconds a"
  "aVoided (acc_poster b a) = aVoided a"
  "aMinRate (acc_poster b a) = aMinRate a"
  "aMaxRate (acc_poster b a) = aMaxRate a"
  by (simp_all add: acc_poster_def)

lemma totals_frame:
  "aStart (acc_totals b a) = aStart a"
  "aCutoff (acc_totals b a) = aCutoff a"
  "aPosterGas (acc_totals b a) = aPosterGas a"
  "aUnknownPoster (acc_totals b a) = aUnknownPoster a"
  "aSecond (acc_totals b a) = aSecond a"
  "aSecondGas (acc_totals b a) = aSecondGas a"
  "aSecondUnknown (acc_totals b a) = aSecondUnknown a"
  "aSeconds (acc_totals b a) = aSeconds a"
  "aVoided (acc_totals b a) = aVoided a"
  "aMinRate (acc_totals b a) = aMinRate a"
  "aMaxRate (acc_totals b a) = aMaxRate a"
  by (simp_all add: acc_totals_def)

lemma fees_frame:
  "aStart (acc_fees b a) = aStart a"
  "aCutoff (acc_fees b a) = aCutoff a"
  "aGas (acc_fees b a) = aGas a"
  "aPosterGas (acc_fees b a) = aPosterGas a"
  "aUnknownPoster (acc_fees b a) = aUnknownPoster a"
  "aSecond (acc_fees b a) = aSecond a"
  "aSecondGas (acc_fees b a) = aSecondGas a"
  "aSecondUnknown (acc_fees b a) = aSecondUnknown a"
  "aSeconds (acc_fees b a) = aSeconds a"
  "aVoided (acc_fees b a) = aVoided a"
  "aMinRate (acc_fees b a) = aMinRate a"
  "aMaxRate (acc_fees b a) = aMaxRate a"
  by (simp_all add: acc_fees_def)

lemma closeSecond_model: "closeSecond (a\<lparr>aReplayModel := x\<rparr>) = (closeSecond a)\<lparr>aReplayModel := x\<rparr>"
  by (simp add: closeSecond_def Let_def)

lemma rate_model: "acc_rate b (a\<lparr>aReplayModel := x\<rparr>) = (acc_rate b a)\<lparr>aReplayModel := x\<rparr>"
  by (simp add: acc_rate_def Let_def closeSecond_model)

lemma acc_model_update: "\<exists>x. acc_model k a = a\<lparr>aReplayModel := x\<rparr>"
proof -
  have "a = a\<lparr>aReplayModel := aReplayModel a\<rparr>" by simp
  then show ?thesis unfolding acc_model_def by metis
qed

lemma closeSecond_frame:
  "aStart (closeSecond a) = aStart a" "aCutoff (closeSecond a) = aCutoff a" "aGas (closeSecond a) = aGas a"
  "aPosterGas (closeSecond a) = aPosterGas a" "aUnknownPoster (closeSecond a) = aUnknownPoster a"
  by (simp_all add: closeSecond_def Let_def)

lemma rate_frame:
  "aStart (acc_rate b a) = aStart a"
  "aCutoff (acc_rate b a) = aCutoff a"
  "aGas (acc_rate b a) = aGas a"
  "aPosterGas (acc_rate b a) = aPosterGas a"
  "aUnknownPoster (acc_rate b a) = aUnknownPoster a"
  by (simp_all add: acc_rate_def Let_def closeSecond_frame)

lemmas acc_frames = addArbOS_frame ends_frame destinations_frame poster_frame totals_frame fees_frame rate_frame

lemma acc_add_fields:
  "aStart (acc_add b k a) = aStart a" "aCutoff (acc_add b k a) = aCutoff a"
  "aGas (acc_add b k a) = aGas a + bGasUsed b"
  "aPosterGas (acc_add b k a) = (if posterKnown b then aPosterGas a + posterGasOf b else aPosterGas a)"
  "aUnknownPoster (acc_add b k a) = (aUnknownPoster a \<or> \<not> posterKnown b)"
  "aSecond (acc_add b k a) = aSecond (acc_rate b a)" "aSecondGas (acc_add b k a) = aSecondGas (acc_rate b a)"
  "aSecondUnknown (acc_add b k a) = aSecondUnknown (acc_rate b a)" "aSeconds (acc_add b k a) = aSeconds (acc_rate b a)"
  "aVoided (acc_add b k a) = aVoided (acc_rate b a)" "aMinRate (acc_add b k a) = aMinRate (acc_rate b a)"
  "aMaxRate (acc_add b k a) = aMaxRate (acc_rate b a)"
proof -
  obtain x where m: "acc_model k a = a\<lparr>aReplayModel := x\<rparr>" using acc_model_update by blast
  have gas: "aGas (acc_totals b c) = aGas c + bGasUsed b" for c by (simp add: acc_totals_def)
  have poster: "aPosterGas (acc_poster b c) = (if posterKnown b then aPosterGas c + posterGasOf b else aPosterGas c)"
    "aUnknownPoster (acc_poster b c) = (aUnknownPoster c \<or> \<not> posterKnown b)" for c by (simp_all add: acc_poster_def)
  show "aStart (acc_add b k a) = aStart a" "aCutoff (acc_add b k a) = aCutoff a"
    "aGas (acc_add b k a) = aGas a + bGasUsed b"
    "aPosterGas (acc_add b k a) = (if posterKnown b then aPosterGas a + posterGasOf b else aPosterGas a)"
    "aUnknownPoster (acc_add b k a) = (aUnknownPoster a \<or> \<not> posterKnown b)"
    "aSecond (acc_add b k a) = aSecond (acc_rate b a)" "aSecondGas (acc_add b k a) = aSecondGas (acc_rate b a)"
    "aSecondUnknown (acc_add b k a) = aSecondUnknown (acc_rate b a)" "aSeconds (acc_add b k a) = aSeconds (acc_rate b a)"
    "aVoided (acc_add b k a) = aVoided (acc_rate b a)" "aMinRate (acc_add b k a) = aMinRate (acc_rate b a)"
    "aMaxRate (acc_add b k a) = aMaxRate (acc_rate b a)"
    unfolding acc_add_def m by (simp_all add: acc_frames gas poster rate_model)
qed

text \<open>What the folded seconds say of the compute gas \<open>T\<close> of a step in which every block has its poster gas.\<close>

definition rated :: "acc \<Rightarrow> int \<Rightarrow> bool" where
  "rated a T \<longleftrightarrow>
     \<not> aVoided a \<and> \<not> aSecondUnknown a \<and> 0 \<le> aSeconds a \<and> uint (aSecondGas a) \<le> T
     \<and> (if aSeconds a = 0 then T = uint (aSecondGas a)
        else aSeconds a * uint (aMinRate a) \<le> T - uint (aSecondGas a) \<and> T - uint (aSecondGas a) \<le> aSeconds a * uint (aMaxRate a))
     \<and> (if aSecond a = 0 then aSeconds a = 0 \<and> aSecondGas a = 0 else aStart a \<le> aSecond a \<and> aSeconds a \<le> aSecond a - aStart a)"

lemma uint_add_small: "uint (x :: u64) + uint y < 2 ^ 64 \<Longrightarrow> uint (x + y) = uint x + uint y"
  by (simp add: uint_word_ariths)

lemma closed_bounds:
  assumes "rated a T" "aSecond a \<noteq> 0"
  shows "\<not> aVoided (closeSecond a) \<and> \<not> aSecondUnknown (closeSecond a) \<and> aSecondGas (closeSecond a) = 0
    \<and> aSecond (closeSecond a) = 0 \<and> aSeconds (closeSecond a) = aSeconds a + 1
    \<and> aSeconds (closeSecond a) * uint (aMinRate (closeSecond a)) \<le> T \<and> T \<le> aSeconds (closeSecond a) * uint (aMaxRate (closeSecond a))"
proof (cases "aSeconds a = 0")
  case True
  then show ?thesis using assms by (simp add: closeSecond_def rated_def Let_def)
next
  case False
  define k where "k = aSeconds a"
  have k: "0 < k" using assms(1) False by (simp add: rated_def k_def)
  have r: "k * uint (aMinRate a) \<le> T - uint (aSecondGas a)" "T - uint (aSecondGas a) \<le> k * uint (aMaxRate a)"
    using assms(1) False by (simp_all add: rated_def k_def)
  have "k * uint (min (aMinRate a) (aSecondGas a)) \<le> k * uint (aMinRate a)"
    using k by (intro mult_left_mono) (auto simp: min_def word_le_def)
  moreover have "uint (min (aMinRate a) (aSecondGas a)) \<le> uint (aSecondGas a)" by (auto simp: min_def word_le_def)
  moreover have "k * uint (aMaxRate a) \<le> k * uint (max (aMaxRate a) (aSecondGas a))"
    using k by (intro mult_left_mono) (auto simp: max_def word_le_def)
  moreover have "uint (aSecondGas a) \<le> uint (max (aMaxRate a) (aSecondGas a))" by (auto simp: max_def word_le_def)
  ultimately have "(k + 1) * uint (min (aMinRate a) (aSecondGas a)) \<le> T" "T \<le> (k + 1) * uint (max (aMaxRate a) (aSecondGas a))"
    using r by (simp_all add: distrib_right)
  then show ?thesis using assms False by (simp add: closeSecond_def rated_def Let_def k_def)
qed

lemma rated_step:
  assumes r: "rated a T" and b: "posterKnown b" "Unix (bTS b) < aCutoff a" "aSecond a \<le> Unix (bTS b)" "aStart a \<le> Unix (bTS b)"
    "0 < aStart a" and small: "T + uint (compute_gas b) < 2 ^ 64"
  shows "rated (acc_rate b a) (T + uint (compute_gas b)) \<and> aSecond (acc_rate b a) = Unix (bTS b) \<and> aStart (acc_rate b a) = aStart a"
proof -
  define s where "s = Unix (bTS b)"
  have s: "0 < s" "s < aCutoff a" "aSecond a \<le> s" "aStart a \<le> s" using b by (simp_all add: s_def)
  have g: "uint (aSecondGas a) \<le> T" using r by (simp add: rated_def)
  show ?thesis
  proof (cases "s = aSecond a")
    case True
    have "uint (aSecondGas a + compute_gas b) = uint (aSecondGas a) + uint (compute_gas b)"
      using small g by (intro uint_add_small) linarith
    then show ?thesis using r s True b(1) by (auto simp: acc_rate_def Let_def rated_def s_def [symmetric])
  next
    case False
    show ?thesis
    proof (cases "aSecond a = 0")
      case True
      then have "closeSecond a = a" "T = 0" "aSeconds a = 0" "aSecondGas a = 0" using r by (auto simp: closeSecond_def rated_def)
      then show ?thesis using r s False True b(1) by (auto simp: acc_rate_def Let_def rated_def s_def [symmetric])
    next
      case open_second: False
      note c = closed_bounds [OF r open_second]
      have "aSeconds a \<le> aSecond a - aStart a" "0 \<le> aSeconds a" "0 \<le> T"
        using r open_second order_trans [OF uint_ge_0 g] by (auto simp: rated_def)
      then have "aSeconds (closeSecond a) \<le> s - aStart a" "0 < aSeconds (closeSecond a)" using c s False by linarith+
      then show ?thesis using c s False b(1) \<open>0 \<le> T\<close>
        by (auto simp: acc_rate_def Let_def rated_def s_def [symmetric] closeSecond_frame)
    qed
  qed
qed

text \<open>A second without authoritative poster gas stays noted until it voids the band.\<close>

lemma void_step:
  assumes "aVoided a \<or> (aSecondUnknown a \<and> aSecond a \<noteq> 0)"
  shows "aVoided (acc_rate b a) \<or> (aSecondUnknown (acc_rate b a) \<and> aSecond (acc_rate b a) \<noteq> 0)" "aVoided (closeSecond a)"
  using assms by (auto simp: acc_rate_def closeSecond_def Let_def)

lemma void_now:
  "\<not> posterKnown b \<Longrightarrow> Unix (bTS b) < aCutoff a \<Longrightarrow> 0 < Unix (bTS b)
     \<Longrightarrow> aSecondUnknown (acc_rate b a) \<and> aSecond (acc_rate b a) \<noteq> 0"
  by (auto simp: acc_rate_def Let_def)


definition good_acc :: "acc \<Rightarrow> int \<Rightarrow> bool" where
  "good_acc a T \<longleftrightarrow>
     0 < aStart a \<and> aSecond a < aStart a + 5
     \<and> (if aUnknownPoster a then aVoided a \<or> (aSecondUnknown a \<and> aSecond a \<noteq> 0)
        else rated a T \<and> T = uint (aGas a) - uint (aPosterGas a) \<and> aPosterGas a \<le> aGas a)"

lemma rated_add: "rated (acc_add b k a) T = rated (acc_rate b a) T"
  by (simp add: rated_def acc_add_fields rate_frame)

lemma rate_second: "Unix (bTS b) < aCutoff a \<Longrightarrow> aSecond (acc_rate b a) = Unix (bTS b)"
  by (auto simp: acc_rate_def Let_def)

lemma good_add:
  assumes good: "good_acc a T" and b: "Unix (bTS b) < aCutoff a" "aSecond a \<le> Unix (bTS b)" "aStart a \<le> Unix (bTS b)"
    "Unix (bTS b) < aStart a + 5" and small: "uint (aGas a) + uint (bGasUsed b) < 2 ^ 64"
  shows "\<exists>T'. good_acc (acc_add b k a) T'"
proof (cases "aUnknownPoster a \<or> \<not> posterKnown b")
  case True
  have "aVoided (acc_rate b a) \<or> (aSecondUnknown (acc_rate b a) \<and> aSecond (acc_rate b a) \<noteq> 0)"
  proof (cases "aUnknownPoster a")
    case True then show ?thesis using good void_step(1) by (auto simp: good_acc_def)
  next
    case False then show ?thesis using True void_now [of b a] b good by (auto simp: good_acc_def)
  qed
  then have "good_acc (acc_add b k a) 0" using True good b rate_second [OF b(1)]
    by (auto simp: good_acc_def acc_add_fields)
  then show ?thesis ..
next
  case False
  then have r: "rated a T" "T = uint (aGas a) - uint (aPosterGas a)" "aPosterGas a \<le> aGas a" using good by (auto simp: good_acc_def)
  have p: "posterGasOf b \<le> bGasUsed b" using False by (auto simp: posterKnown_def posterGasOf_def split: option.split_asm)
  have c: "uint (compute_gas b) = uint (bGasUsed b) - uint (posterGasOf b)"
    using p by (simp add: compute_gas_def uint_minus_simple_alt)
  have order: "uint (aPosterGas a) \<le> uint (aGas a)" "uint (posterGasOf b) \<le> uint (bGasUsed b)"
    using r(3) p by (simp_all add: word_le_def)
  have gas: "uint (aGas a + bGasUsed b) = uint (aGas a) + uint (bGasUsed b)" using small by (rule uint_add_small)
  have poster: "uint (aPosterGas a + posterGasOf b) = uint (aPosterGas a) + uint (posterGasOf b)"
    using small order by (intro uint_add_small) linarith
  have "T + uint (compute_gas b) < 2 ^ 64" using small r(2) c uint_ge_0 [of "aPosterGas a"] uint_ge_0 [of "posterGasOf b"] by linarith
  then have "rated (acc_rate b a) (T + uint (compute_gas b))"
    using rated_step [OF r(1) _ b(1,2,3)] False good by (auto simp: good_acc_def)
  moreover have "T + uint (compute_gas b) = uint (aGas a + bGasUsed b) - uint (aPosterGas a + posterGasOf b)"
    using gas poster r(2) c by linarith
  moreover have "aPosterGas a + posterGasOf b \<le> aGas a + bGasUsed b" using gas poster order by (simp add: word_le_def)
  ultimately have "good_acc (acc_add b k a) (T + uint (compute_gas b))"
    using False good b rate_second [OF b(1)] by (simp add: good_acc_def acc_add_fields rated_add)
  then show ?thesis ..
qed

definition band_holds :: "SeriesPoint \<Rightarrow> bool" where
  "band_holds p \<longleftrightarrow>
     (case (spComputeMin p, spComputeMax p, spComputeGasPerSecond p) of
        (None, None, _) \<Rightarrow> True
      | (Some lo, Some hi, Some avg) \<Rightarrow> lo \<le> avg \<and> avg \<le> hi
      | _ \<Rightarrow> False)"

lemma coveredSpan_le: "coveredSpan start width now liveStart \<le> width"
  by (simp add: coveredSpan_def Let_def)

lemma complete_seconds:
  assumes "snd (measuredCoverage (snd (coverage_of cspan stepDownWidth))) = SeriesComplete" "cspan \<le> stepDownWidth"
  shows "fst (coverage_of cspan stepDownWidth) = 5"
proof -
  have "\<not> of_int cspan / of_int stepDownWidth < (1 :: rat)"
    using assms(1) by (auto simp: measuredCoverage_def coverage_of_def SeriesComplete_def SeriesPartial_def split: if_split_asm)
  then have "cspan = stepDownWidth" using assms(2) by (simp add: stepDownWidth_def Second_def field_simps)
  then show ?thesis by (simp add: coverage_of_def stepDownWidth_def Second_def)
qed

lemma step_band:
  assumes good: "good_acc a T" and s: "aSecond a \<noteq> 0"
  shows "band_holds (settleBand (aSeconds (closeSecond a)) 5 oldest (acc_point stepDownWidth now a))"
proof (cases "aUnknownPoster a")
  case True
  then have "aVoided (closeSecond a)" using good void_step(2) by (auto simp: good_acc_def)
  then show ?thesis by (simp add: band_holds_def settleBand_def acc_point_def Let_def)
next
  case False
  then have r: "rated a T" "T = uint (aGas a) - uint (aPosterGas a)" "aPosterGas a \<le> aGas a" using good by (auto simp: good_acc_def)
  note c = closed_bounds [OF r(1) s]
  define k where "k = aSeconds (closeSecond a)"
  have k: "0 < k" "k \<le> 5" using r(1) s good c by (auto simp: rated_def good_acc_def k_def)
  define p where "p = acc_point stepDownWidth now a"
  define secs where "secs = fst (coverage_of (coveredSpan (unix_time (aStart a)) stepDownWidth
      (if unix_time (aLast a + 1) < now then now else unix_time (aLast a + 1)) 0) stepDownWidth)"
  have band: "spComputeMin p = Some (aMinRate (closeSecond a))" "spComputeMax p = Some (aMaxRate (closeSecond a))"
    using c k by (simp_all add: p_def acc_point_def Let_def k_def)
  have avg: "spComputeGasPerSecond p = Some ((aGas a - aPosterGas a) div secs)"
    using False by (simp add: p_def acc_point_def Let_def closeSecond_frame secs_def)
  show ?thesis
  proof (cases "spCompleteness p = SeriesComplete")
    case incomplete: False
    then show ?thesis using band by (simp add: settleBand_def band_holds_def p_def [symmetric])
  next
    case True
    then have "secs = 5" unfolding secs_def
      by (intro complete_seconds coveredSpan_le) (simp add: p_def acc_point_def Let_def)
    moreover have "uint (aGas a - aPosterGas a) = T" using r(2,3) by (simp add: uint_minus_simple_alt)
    ultimately have v: "uint ((aGas a - aPosterGas a) div secs) = T div 5" by (simp add: uint_div_distrib)
    have sums: "k * uint (aMinRate (closeSecond a)) \<le> T" "T \<le> k * uint (aMaxRate (closeSecond a))" unfolding k_def using c by blast+
    note sums(2)
    also have "\<dots> \<le> 5 * uint (aMaxRate (closeSecond a))" using k by (intro mult_right_mono) auto
    finally have hi: "(aGas a - aPosterGas a) div secs \<le> aMaxRate (closeSecond a)" using v by (simp add: word_le_def)
    have lo: "aMinRate (closeSecond a) \<le> (aGas a - aPosterGas a) div secs" if "\<not> k < 5"
    proof -
      have "k = 5" using k that by simp
      then have "5 * uint (aMinRate (closeSecond a)) \<le> T" using sums(1) by simp
      then show ?thesis using v by (simp add: word_le_def)
    qed
    show ?thesis using band avg hi lo True
      by (auto simp: settleBand_def band_holds_def p_def [symmetric] k_def [symmetric])
  qed
qed


text \<open>The steps of the rows of a window in which the clock has passed every second.\<close>

definition past_rows :: "gotime \<Rightarrow> db_block list \<Rightarrow> bool" where
  "past_rows now blocks \<longleftrightarrow>
     sorted (map (\<lambda>b. Unix (bTS b)) blocks) \<and> sum_list (map (\<lambda>b. uint (bGasUsed b)) blocks) < 2 ^ 64
     \<and> list_all (\<lambda>b. 5 \<le> Unix (bTS b) \<and> Unix (bTS b) < Unix (Truncate now Second)) blocks"

definition step_made :: "gotime \<Rightarrow> SeriesPoint \<times> u64 \<times> i64 \<Rightarrow> bool" where
  "step_made now x \<longleftrightarrow> (\<exists>a T. x = close_step now a \<and> good_acc a T \<and> aSecond a \<noteq> 0)"

lemma step_start_bounds: "5 \<le> Unix (bTS b) \<Longrightarrow> 0 < step_start b \<and> step_start b \<le> Unix (bTS b) \<and> Unix (bTS b) < step_start b + 5"
  by (simp add: step_start_def stepDownWidth_def Second_def signed_divide_int_def) presburger

lemma gas_nonneg: "0 \<le> sum_list (map (\<lambda>b. uint (bGasUsed b)) blocks)"
  by (rule sum_list_nonneg) auto

text \<open>A step that is being folded, with the rows still to come.\<close>

definition folding :: "gotime \<Rightarrow> acc \<Rightarrow> db_block list \<Rightarrow> bool" where
  "folding now a rest \<longleftrightarrow>
     (\<exists>T. good_acc a T) \<and> aSecond a \<noteq> 0 \<and> aCutoff a = Unix (Truncate now Second)
     \<and> uint (aGas a) + sum_list (map (\<lambda>b. uint (bGasUsed b)) rest) < 2 ^ 64 \<and> (\<forall>b\<in>set rest. aSecond a \<le> Unix (bTS b))"

lemma good_new: "0 < start \<Longrightarrow> good_acc (new_acc start now) 0"
  by (simp add: good_acc_def new_acc_def rated_def)

lemma folding_add:
  assumes rows: "past_rows now (b # rest)" and start: "aStart a = step_start b" and good: "good_acc a T"
    and cutoff: "aCutoff a = Unix (Truncate now Second)" and order: "aSecond a \<le> Unix (bTS b)"
    and small: "uint (aGas a) + sum_list (map (\<lambda>b. uint (bGasUsed b)) (b # rest)) < 2 ^ 64"
  shows "folding now (acc_add b k a) rest"
proof -
  have b: "5 \<le> Unix (bTS b)" "Unix (bTS b) < aCutoff a" using rows cutoff by (simp_all add: past_rows_def)
  have gas: "uint (aGas a) + uint (bGasUsed b) < 2 ^ 64" using small gas_nonneg [of rest] by simp
  have "\<exists>T'. good_acc (acc_add b k a) T'"
    using good_add [OF good b(2) order _ _ gas] step_start_bounds [OF b(1)] start by simp
  moreover have "uint (aGas a + bGasUsed b) = uint (aGas a) + uint (bGasUsed b)" using gas by (rule uint_add_small)
  ultimately show ?thesis
    using small rows b cutoff rate_second [OF b(2)] by (auto simp: folding_def acc_add_fields past_rows_def)
qed

lemma steps_made:
  "past_rows now blocks \<Longrightarrow> (case cur of None \<Rightarrow> True | Some a \<Rightarrow> folding now a blocks)
     \<Longrightarrow> list_all (step_made now) (step_down sets now cur blocks)"
proof (induction sets now cur blocks rule: step_down.induct)
  case (1 sets now cur)
  then show ?case by (auto simp: step_made_def folding_def split: option.split)
next
  case (2 sets now cur b bs)
  let ?k = "setIDAt sets (bNumber b) (length (bBacklogs b))"
  have "sum_list (map (\<lambda>b. uint (bGasUsed b)) bs) \<le> sum_list (map (\<lambda>b. uint (bGasUsed b)) (b # bs))" by simp
  moreover have "sum_list (map (\<lambda>b. uint (bGasUsed b)) (b # bs)) < 2 ^ 64" using 2(4) unfolding past_rows_def by blast
  ultimately have "sum_list (map (\<lambda>b. uint (bGasUsed b)) bs) < 2 ^ 64" by (rule le_less_trans)
  then have rest: "past_rows now bs" using 2(4) by (simp add: past_rows_def)
  have b: "5 \<le> Unix (bTS b)" using 2(4) by (simp add: past_rows_def)
  have fresh: "folding now (acc_add b ?k (new_acc (step_start b) now)) bs"
    using 2(4) step_start_bounds [OF b] by (intro folding_add [OF 2(4) _ good_new]) (auto simp: new_acc_def past_rows_def)
  show ?case
  proof (cases cur)
    case None
    then show ?thesis using 2(1) [OF refl None rest] fresh by simp
  next
    case (Some a)
    then have f: "folding now a (b # bs)" using 2(5) by simp
    show ?thesis
    proof (cases "aStart a = step_start b")
      case True
      obtain T where "good_acc a T" using f by (auto simp: folding_def)
      then have "folding now (acc_add b ?k a) bs" using f True by (intro folding_add [OF 2(4)]) (auto simp: folding_def)
      then show ?thesis using 2(2) [OF refl Some True rest] Some True by simp
    next
      case False
      have "step_made now (close_step now a)" using f by (auto simp: step_made_def folding_def)
      then show ?thesis using 2(3) [OF refl Some False rest] fresh Some False by simp
    qed
  qed
qed

lemma status_distinct:
  "SeriesPartial \<noteq> SeriesComplete" "SeriesUnknown \<noteq> SeriesComplete"
  by (simp_all add: SeriesComplete_def SeriesPartial_def SeriesUnknown_def)

lemma rate_over_completeness: "spCompleteness (rate_over cspan p) = spCompleteness p"
  by (simp add: rate_over_def Let_def)

lemma qualify_complete:
  assumes "spCompleteness (qualify_point bounded width adjust uncertain p) = SeriesComplete"
  shows "qualify_point bounded width adjust uncertain p = p"
proof (rule ccontr)
  assume changed: "qualify_point bounded width adjust uncertain p \<noteq> p"
  let ?known = "meeting bounded (unix_time (spT p)) (unix_time (spT p) + width) \<noteq> []"
  have met: "\<not> (\<not> ?known \<and> \<not> uncertain)"
  proof
    assume "\<not> ?known \<and> \<not> uncertain"
    then show False using changed by (simp add: qualify_point_def Let_def)
  qed
  have "spCompleteness (qualify_point bounded width adjust uncertain p)
      = (if ?known then SeriesPartial else if spCompleteness p = SeriesComplete then SeriesUnknown else spCompleteness p)"
    unfolding qualify_point_def Let_def if_not_P [OF met] by (simp add: rate_over_completeness)
  then show False using assms status_distinct by (auto split: if_split_asm)
qed

lemma incomplete_band: "spCompleteness p \<noteq> SeriesComplete \<Longrightarrow> (spComputeMin p = None \<Longrightarrow> spComputeMax p = None)
    \<Longrightarrow> band_holds (settleBand n units oldest p)"
  by (auto simp: settleBand_def band_holds_def)

lemma qualify_band:
  "spComputeMin (qualify_point bounded width adjust uncertain p) = spComputeMin p"
  "spComputeMax (qualify_point bounded width adjust uncertain p) = spComputeMax p"
  by (simp_all add: qualify_point_def rate_over_def Let_def)

text \<open>
  C36. The average of a step lies in its own band: when the clock has passed the second of every row, each
  point that the last hour is stepped down to, after the missing ranges have qualified it, either has no
  band or has an average compute rate between the lowest and the highest rate of the band.
\<close>

theorem band_contains_average:
  assumes "past_rows now blocks"
  shows "list_all band_holds (stepped_points gaps sets now Second from oldest blocks)"
proof -
  have made: "list_all (step_made now) (stepDown blocks sets now)"
    unfolding stepDown_def by (rule steps_made [OF assms]) simp
  have one: "band_holds (settleBand (snd (snd x)) 5 lowest (qualify_point bounded width True u (fst x)))"
    if x: "step_made now x" for x bounded width u lowest
  proof (cases "spCompleteness (qualify_point bounded width True u (fst x)) = SeriesComplete")
    case True
    obtain a T where "x = close_step now a" "good_acc a T" "aSecond a \<noteq> 0" using x by (auto simp: step_made_def)
    then show ?thesis using step_band qualify_complete [OF True] by (simp add: close_step_def)
  next
    case False
    then show ?thesis
      using x by (intro incomplete_band) (auto simp: qualify_band step_made_def close_step_def acc_point_def Let_def split: if_split_asm)
  qed
  have five: "stepDownWidth div Second = 5" by (simp add: stepDownWidth_def Second_def)
  show ?thesis
    using made by (auto simp: list_all_length stepped_points_def apply_missing_def qualify_def Let_def five intro!: one)
qed


text \<open>Two blocks of one step with 100 and 1000 gas, one in its first second and one in its last.\<close>

definition second_row :: "u64 \<Rightarrow> i64 \<Rightarrow> u64 \<Rightarrow> db_block" where
  "second_row n second gas = stored_row\<lparr>bNumber := n, bTS := unix_time second, bGasUsed := gas, bPosterGas := Some 0\<rparr>"

definition two_seconds :: "db_block list" where
  "two_seconds = [second_row 1 1000 100, second_row 2 1004 1000]"

definition no_gaps :: missingTimeline where
  "no_gaps = \<lparr>mtBounded = [], mtUnlocated = []\<rparr>"

definition shown_band :: "gotime \<Rightarrow> (string \<times> u64 option \<times> u64 option \<times> u64 option) list" where
  "shown_band now = map (\<lambda>p. (spCompleteness p, spComputeMin p, spComputeGasPerSecond p, spComputeMax p))
     (stepped_points no_gaps [] now Second 0 0 two_seconds)"

theorem band_contains_average_witness:
  "list_all band_holds (stepped_points no_gaps [] (unix_time 1005) Second 0 0 two_seconds)"
proof (rule band_contains_average)
  show "past_rows (unix_time 1005) two_seconds"
    by (simp add: past_rows_def two_seconds_def second_row_def Unix_def unix_time_def Truncate_def Second_def)
qed

definition half_past :: gotime where
  "half_past = unix_time 1004 + 500000000"

lemma half_past_second: "Unix (Truncate half_past Second) = 1004" "unix_time 1005 - half_past = 500000000"
  by (simp_all add: half_past_def Unix_def unix_time_def Truncate_def Second_def)

lemma rows_of_two:
  "Unix (bTS (second_row n t g)) = t" "bGasUsed (second_row n t g) = g" "posterKnown (second_row n t g)"
  "posterGasOf (second_row n t g) = 0" "compute_gas (second_row n t g) = g"
  by (simp_all add: second_row_def Unix_def unix_time_def Second_def posterKnown_def posterGasOf_def compute_gas_def u64_of_i64_def)

definition step_of_two :: acc where
  "step_of_two = acc_add (second_row 2 1004 1000) 0 (acc_add (second_row 1 1000 100) 0 (new_acc 1000 half_past))"

lemma last_frames:
  "aLast (acc_addArbOS v a) = aLast a" "aLast (acc_ends b k a) = aLast a" "aLast (acc_destinations b a) = aLast a"
  "aLast (acc_poster b a) = aLast a" "aLast (acc_fees b a) = aLast a" "aLast (acc_rate b a) = aLast a" "aLast (acc_model k a) = aLast a"
  "aLast (acc_totals b a) = max (aLast a) (Unix (bTS b))"
  by (simp_all add: acc_addArbOS_def acc_ends_def acc_destinations_def acc_poster_def acc_fees_def acc_rate_def acc_model_def
      acc_totals_def closeSecond_def Let_def split: option.split)

lemma last_add: "aLast (acc_add b k a) = max (aLast a) (Unix (bTS b))"
  by (simp add: acc_add_def last_frames)

lemma step_of_two_fields:
  "aStart step_of_two = 1000" "aGas step_of_two = 1100" "aPosterGas step_of_two = 0" "aUnknownPoster step_of_two = False"
  "aSeconds (closeSecond step_of_two) = 1" "aVoided (closeSecond step_of_two) = False"
  "aMinRate (closeSecond step_of_two) = 100" "aMaxRate (closeSecond step_of_two) = 100" "aLast step_of_two = 1004"
  by (simp_all add: step_of_two_def acc_add_fields rows_of_two closeSecond_def acc_rate_def new_acc_def half_past_second Let_def last_add)

lemma stepDown_two: "stepDown two_seconds [] half_past = [close_step half_past step_of_two]"
  by (simp add: stepDown_def two_seconds_def setIDAt_def step_start_def rows_of_two stepDownWidth_def Second_def Let_def
      acc_add_fields step_of_two_def) (simp add: new_acc_def)

text \<open>
  C40. The clock inside the last second of a step leaves the step its band without that second: half a
  second before the step ends its span is taken as whole, because a block carries its last second, while
  the band leaves the second out that the clock is still inside, so the point is shown as complete with an
  average of 220 that lies outside its own band from 0 to 100.
\<close>

theorem band_misses_average:
  "shown_band half_past = [(SeriesComplete, Some 0, Some 220, Some 100)]"
proof -
  have five: "stepDownWidth div Second = 5" by (simp add: stepDownWidth_def Second_def)
  have "\<not> unix_time 1005 < half_past" using half_past_second(2) by simp
  then have whole: "coverage_of (coveredSpan (unix_time 1000) stepDownWidth (if unix_time 1005 < half_past then half_past else unix_time 1005) 0)
      stepDownWidth = (5, 1)"
    by (simp add: coverage_of_def coveredSpan_def unix_time_def stepDownWidth_def Second_def)
  have oldest: "max 0 (Unix (Truncate (Second - 1) Second)) = 0" by (simp add: Unix_def Truncate_def Second_def)
  show ?thesis
    by (simp add: shown_band_def stepped_points_def stepDown_two close_step_def apply_missing_def qualify_def no_gaps_def
        unlocatedPoints_def qualify_point_def meeting_def settleBand_def acc_point_def Let_def step_of_two_fields whole five
        oldest closeSecond_frame measuredCoverage_def)
qed

end
