(* ===== verification/Spec2Isabelle.thy ===== *)
theory Spec2Isabelle
  imports Pricer Bucket Endpoint Holes Pacer Fill Chain_Locks Live_Buckets Backfill Store_Laws Rewind_Laws Slow Pool History_Series
begin

text \<open>
  Gascurve shows how an Arbitrum Nitro chain prices gas. A \<^emph>\<open>collector\<close> follows the chain over JSON-RPC,
  replays ArbOS's pricer over every block and keeps what comes out in a store; an \<^emph>\<open>API\<close> serves the
  store. This development models the Go code under \<open>src/internal\<close> that computes, decides or writes,
  and proves what makes it correct. Every definition follows the function whose name it carries;
  \<open>PROJECT.json\<close> gives the file and lines of each.

  \<^bold>\<open>The parts and how they interact.\<close> Headers, receipts and logs come from the node through an endpoint
  (\<open>nitro\<close>), chosen by the pool of its network. The follower (\<open>collector\<close>) has one live loop and one
  history loop. A tick fetches the headers after the stored head, goes back to a common ancestor when
  the chain was reorganized, replays the pricer over them and writes rows, buckets and checkpoints in
  one transaction. What a tick cannot replay becomes a missing range, which the gap filler replays
  later, in batches; the backfill walks from the first stored block down to the configured floor. The
  slow loop scans the owner's actions, from which the pricing timeline is built that every replay reads,
  and the batch posting reports. Transactions of the loops of one chain are serialized by its chain lock
  and are tied to a generation, which a rewind raises. The API reads rows, buckets and missing ranges
  in one snapshot and makes a history series of them.

  \<^bold>\<open>The theories, in the order of the code.\<close>

  \<^item> \<open>Gas_Prelude\<close>: Go's integer types, the contract of saturating arithmetic (locale
    \<open>saturating_u64\<close>, interpreted on both implementations of the program) and of merged folds (locale
    \<open>mergeable_fold\<close>, interpreted on the buckets' backlogs), and shared lemmas.
  \<^item> \<open>Pricer\<close>: \<open>internal/pricer\<close>. The replay refines a pricer on unbounded naturals; the fixed-point
    exponential is its Taylor polynomial, bounded and monotone.
  \<^item> \<open>Bucket\<close>: \<open>internal/db/bucket.go\<close> and the row types of \<open>store.go\<close>. Merging the buckets of two
    batches equals building one; the fee shares add up.
  \<^item> \<open>Abi\<close>, \<open>Internal_Tx\<close>, \<open>Owner_Acts\<close>: the codecs of \<open>internal/nitro\<close> (\<open>abi.go\<close>, \<open>precompiles.go\<close>,
    \<open>internaltx.go\<close>, \<open>owneracts.go\<close>). Round trips (locale \<open>codec\<close>, interpreted on the hex strings,
    the quantities and the block tags), exact costs, and the input that makes a decoder panic.
  \<^item> \<open>Rpc_Types\<close>, \<open>Rpc_Calls\<close>: \<open>types.go\<close> and \<open>calls.go\<close>. Receipts that pass the validation account for
    their block; a read returns the blocks that were asked for (locale \<open>batcher\<close>, interpreted on the
    client's batch and on its capped form).
  \<^item> \<open>Endpoint\<close>, \<open>Pacer\<close>, \<open>Pool\<close>: \<open>endpoint.go\<close> with the back-off of \<open>client.go\<close>, \<open>pacer.go\<close> and
    \<open>pool.go\<close>. The adaptive limits stay in their bounds (locale \<open>adaptive_limit\<close>, interpreted on the
    width of a log query and on the batch cap), the loops over them return with every answer, no more
    calls are granted than the rate allows, and an ordinary call stays on its chain and finds an
    endpoint that answers.
  \<^item> \<open>Holes\<close>: the queue of missing ranges (\<open>fill.go\<close>, \<open>collector.go\<close>, \<open>history.go\<close>, \<open>model.go\<close>).
    Normalization keeps what is covered, and no transaction loses a missing block (locale
    \<open>queue_update\<close>, interpreted on the four operations that rewrite entries in place).
  \<^item> \<open>Timeline\<close>, \<open>Replay_Rows\<close>: the pricing history of the owner, and the replay of headers into rows
    (\<open>collector.go\<close>, \<open>actions.go\<close>, \<open>arbos.go\<close>, \<open>tick.go\<close>). The replay without actions is the pricer's;
    with them, the gas of a block is charged once and the floor is the one in force.
  \<^item> \<open>Calendar\<close>: \<open>Format\<close> and \<open>Parse\<close> of the times the checkpoints hold, and their round trip.
  \<^item> \<open>Store\<close>, \<open>Store_Laws\<close>, \<open>Chain_Locks\<close>, \<open>Live_Buckets\<close>: the store, as the in-memory
    \<open>db/dbtest/memstore.go\<close> defines it; that rows stay filed under their keys; that the chain locks
    exclude and do not deadlock; and the buckets as a materialized view of the rows (locale
    \<open>materialized\<close>, interpreted on the store).
  \<^item> \<open>Fill\<close>, \<open>Chain_State\<close>, \<open>Chain_Tx\<close>, \<open>Upkeep\<close>, \<open>Tick\<close>, \<open>Backfill\<close>: the loops of \<open>internal/collector\<close>
    (\<open>fill.go\<close>; the checkpoints, generation and turns of \<open>collector.go\<close>; the rewind of \<open>tick.go\<close> and the
    commit of a gap batch; prune, poster-gas repair and rebuild of \<open>slow.go\<close>, \<open>postergas.go\<close> and
    \<open>history.go\<close>; the tick; \<open>backfill.go\<close>). A range filled in batches is one replay, history work gets
    its turns, and the search by time finds the first block.
  \<^item> \<open>Chain_Runs\<close>, \<open>Rewind_Laws\<close>: every order in which the transactions of a chain commit. Stored
    buckets stay what the rows give, work begun before a rewind is refused, and a rewind reaches a
    common ancestor; the last theorem shows a rollback it takes for one it is not.
  \<^item> \<open>Scans\<close>, \<open>Slow\<close>: \<open>slow.go\<close>, \<open>ethusd.go\<close> and the start of a follower. The owner scan loses no action,
    and a report is priced with the parameters in force.
  \<^item> \<open>History_Series\<close>: \<open>internal/api/series.go\<close>. Missing time is counted once, and a step's average lies
    in its band unless the clock is inside the step's last second.

  \<^bold>\<open>How the state corresponds.\<close> A Go struct is a record of the same fields (prefixed, since Isabelle's
  selectors share one name space), a \<open>uint64\<close> a \<open>64 word\<close>, an \<open>int64\<close> an \<open>int\<close> with its wrap written out,
  an error or a panic the left of a sum. \<open>Follower\<close> is the follower in memory, \<open>MemStore\<close> the tables.
  A method that changes either takes it and returns it; a transaction that fails returns no store.
  Code that runs under a mutex is one function; where callers interleave, a step relation orders
  these functions: \<open>queue_step\<close>, \<open>pacer_section\<close>, \<open>turnstile_step\<close>, \<open>pool_section\<close>, \<open>lock_step\<close>,
  \<open>store_write\<close>, \<open>chain_tx\<close>.

  \<^bold>\<open>Bounds.\<close> Loops are structural or have a measure. The loops of an endpoint over its network
  (\<open>sendRange\<close>, \<open>OwnerActsLogs\<close>) read the list of what the successive attempts came back with and are
  \<open>None\<close> when it is too short; their theorems give the length that is enough, for requests the retries
  times their number, for logs 18 calls a block, since a refused range halves at most 17 times. A call
  of the pool makes at most twice as many attempts as there are endpoints. \<open>batch_rounds\<close> is measured by
  the way its cursor has left to the anchor. The loops of the tick over block numbers are written for
  numbers below \<open>2 ^ 64 - 100000\<close>, where their counters do not wrap. Levels and rates that are \<open>float64\<close>
  in the pacer and in the shares of a series are rationals, so their rounding is not part of the
  results. SQL's NULL list and the empty list are the same list.

  \<^bold>\<open>Assumptions.\<close> What the node answers, the clock, the text of a JSON document and the Keccak hash are
  arguments. The runs of \<open>Chain_Runs\<close> assume that the rows a transaction writes are those one chain has
  (one row per number, a number rewritten at the time it had) and that no boundary of the row-backed
  history is above \<open>lo\<close>. The theorems on the pool assume that an endpoint that answers \<open>eth_chainId\<close>
  names its own chain and that other callers only run sections of the pool; the theorem that a call is
  answered assumes that no other caller interferes and that what fails elsewhere is the failure of an
  endpoint. Witnesses meet each hypothesis on concrete data.

  \<^bold>\<open>Not modelled.\<close> The WebSocket loops (\<open>nitro/heads.go\<close>, \<open>api/ws.go\<close>), HTTP transport and the redaction
  of errors, the HTTP handlers of the API, configuration, the loops of timers and goroutines around the
  steps (\<open>run.go\<close>, \<open>monitor.go\<close>, \<open>prices.go\<close>), SQL text and its driver, metrics, logs and the commands:
  they move data or only report. \<open>fanOut\<close>, which sends disjoint ranges in parallel, is left out, and so
  is the floating-point estimate of the rate a tick publishes, an argument of the tick.
\<close>

end
